(* ===== verification/Edge_Prelude.thy ===== *)
theory Edge_Prelude
  imports Main "HOL-Library.Word" "HOL-Library.Sublist" "HOL-Library.List_Lexorder"
    "HOL-Library.Char_ord"
begin

text \<open>
  Shared vocabulary of the development: the machine types of the C++ sources, the part of
  \<open>std::string\<close> the sources use (\<open>find\<close>, \<open>substr\<close>, ASCII classification) on HOL strings (lists
  of 8-bit characters), \<open>std::map<std::string, V>\<close> as an association list kept sorted by key, and
  decimal formatting.  The collections \<open>str_simps\<close> and \<open>map_simps\<close> gather the facts the component
  theories rewrite with.
\<close>

unbundle bit_operations_syntax

named_theorems str_simps \<open>rewriting of std::string operations\<close>
named_theorems map_simps \<open>rewriting of ordered-map operations\<close>

section \<open>Machine types\<close>

text \<open>
  The library targets 32-bit cores (README, \<open>Supported boards\<close>), so \<open>size_t\<close> and
  \<open>unsigned long\<close> are 32 bits wide, as on every supported board.
\<close>

type_synonym u8 = "8 word"
type_synonym u16 = "16 word"
type_synonym u32 = "32 word"
type_synonym size_t = "32 word"

section \<open>Characters\<close>

abbreviation CR :: char where "CR \<equiv> CHR 0x0D"
abbreviation LF :: char where "LF \<equiv> CHR 0x0A"
abbreviation TAB :: char where "TAB \<equiv> CHR 0x09"

definition crlf :: string where
  "crlf = [CR, LF]"

definition char_code :: "char \<Rightarrow> nat" where
  "char_code c = of_char c"

text \<open>The tests \<open>c >= '0' && c <= '9'\<close> and \<open>c >= 'A' && c <= 'Z'\<close> of the sources.\<close>

definition is_digit :: "char \<Rightarrow> bool" where
  "is_digit c \<longleftrightarrow> 48 \<le> char_code c \<and> char_code c \<le> 57"

definition digit_val :: "char \<Rightarrow> nat" where
  "digit_val c = char_code c - 48"

definition is_upper :: "char \<Rightarrow> bool" where
  "is_upper c \<longleftrightarrow> 65 \<le> char_code c \<and> char_code c \<le> 90"

text \<open>\<open>asciiLower\<close> of HttpTypes.cpp and McpHttpServer.cpp, and the loop body of \<open>toLower\<close>.\<close>

definition asciiLower :: "char \<Rightarrow> char" where
  "asciiLower c = (if is_upper c then char_of (char_code c + 32) else c)"

lemma char_code_less [simp]: "char_code c < 256"
  by (simp add: char_code_def)

lemma char_of_code [simp]: "char_of (char_code c) = c"
  by (simp add: char_code_def)

lemma char_code_char_of: "n < 256 \<Longrightarrow> char_code (char_of n) = n"
  by (simp add: char_code_def)

lemma char_code_inject: "char_code a = char_code b \<longleftrightarrow> a = b"
  by (metis char_of_code)

lemma asciiLower_idem [simp]: "asciiLower (asciiLower c) = asciiLower c"
proof (cases "is_upper c")
  case True
  then have "\<not> is_upper (char_of (char_code c + 32))"
    by (simp add: is_upper_def char_code_char_of)
  with True show ?thesis by (simp add: asciiLower_def)
next
  case False
  then show ?thesis by (simp add: asciiLower_def)
qed

section \<open>std::string\<close>

text \<open>
  \<open>find_idx pat s\<close> is the least position of \<open>pat\<close> in \<open>s\<close>; \<open>str_find s pat pos\<close> is
  \<open>s.find(pat, pos)\<close>, with \<open>None\<close> for \<open>npos\<close>; \<open>substr s pos n\<close> is \<open>s.substr(pos, n)\<close>.
\<close>

fun find_idx :: "string \<Rightarrow> string \<Rightarrow> nat option" where
  "find_idx pat [] = (if pat = [] then Some 0 else None)"
| "find_idx pat (c # cs) =
     (if prefix pat (c # cs) then Some 0 else map_option Suc (find_idx pat cs))"

definition str_find :: "string \<Rightarrow> string \<Rightarrow> nat \<Rightarrow> nat option" where
  "str_find s pat pos =
     (if length s < pos then None else map_option (\<lambda>k. pos + k) (find_idx pat (drop pos s)))"

definition substr :: "string \<Rightarrow> nat \<Rightarrow> nat \<Rightarrow> string" where
  "substr s pos n = take n (drop pos s)"

definition substr_from :: "string \<Rightarrow> nat \<Rightarrow> string" where
  "substr_from s pos = drop pos s"

text \<open>\<open>s.find(c, pos)\<close> for a single character.\<close>

fun find_char_idx :: "char \<Rightarrow> string \<Rightarrow> nat option" where
  "find_char_idx x [] = None"
| "find_char_idx x (c # cs) = (if c = x then Some 0 else map_option Suc (find_char_idx x cs))"

definition str_find_char :: "string \<Rightarrow> char \<Rightarrow> nat \<Rightarrow> nat option" where
  "str_find_char s c pos = map_option (\<lambda>k. pos + k) (find_char_idx c (drop pos s))"

lemma find_idx_Some:
  "find_idx pat s = Some k \<Longrightarrow>
     k + length pat \<le> length s \<and> s = take k s @ pat @ drop (k + length pat) s"
proof (induction pat s arbitrary: k rule: find_idx.induct)
  case (1 pat)
  then show ?case by (auto split: if_splits)
next
  case (2 pat c cs)
  show ?case
  proof (cases "prefix pat (c # cs)")
    case True
    with "2.prems" have "k = 0" by simp
    moreover from True obtain zs where "c # cs = pat @ zs" by (auto simp: prefix_def)
    ultimately show ?thesis by simp
  next
    case False
    with "2.prems" obtain j where j: "find_idx pat cs = Some j" and k: "k = Suc j" by auto
    from "2.IH" [OF False j] show ?thesis by (simp add: k)
  qed
qed

lemma find_idx_length: "find_idx pat s = Some k \<Longrightarrow> k + length pat \<le> length s"
  by (simp add: find_idx_Some)

lemma find_idx_least:
  "find_idx pat s = Some k \<Longrightarrow> i < k \<Longrightarrow> \<not> prefix pat (drop i s)"
proof (induction pat s arbitrary: k i rule: find_idx.induct)
  case (1 pat)
  then show ?case by (auto split: if_splits)
next
  case (2 pat c cs)
  from "2.prems" have np: "\<not> prefix pat (c # cs)" by (auto split: if_splits)
  with "2.prems" obtain j where j: "find_idx pat cs = Some j" and k: "k = Suc j" by auto
  show ?case
  proof (cases i)
    case 0
    with np show ?thesis by simp
  next
    case (Suc i')
    with "2.IH" [OF np j] "2.prems"(2) k show ?thesis by simp
  qed
qed

lemma find_idx_None_iff: "find_idx pat s = None \<longleftrightarrow> \<not> sublist pat s"
proof (induction pat s rule: find_idx.induct)
  case (1 pat)
  then show ?case by simp
next
  case (2 pat c cs)
  then show ?case by (auto simp: sublist_Cons_right)
qed

lemma find_idx_prefix: "find_idx pat s = Some k \<Longrightarrow> find_idx pat (s @ t) = Some k"
proof (induction pat s arbitrary: k rule: find_idx.induct)
  case (1 pat)
  then show ?case by (cases t) (auto split: if_splits)
next
  case (2 pat c cs)
  show ?case
  proof (cases "prefix pat (c # cs)")
    case True
    then have "prefix pat ((c # cs) @ t)" by (rule prefix_prefix)
    then have "prefix pat (c # cs @ t)" by simp
    with "2.prems" True show ?thesis by simp
  next
    case False
    with "2.prems" obtain j where j: "find_idx pat cs = Some j" "k = Suc j" by auto
    have "\<not> prefix pat (c # cs @ t)"
    proof
      assume "prefix pat (c # cs @ t)"
      moreover have "prefix (c # cs) (c # cs @ t)" by simp
      moreover have "length pat \<le> length (c # cs)" using find_idx_length [OF j(1)] by simp
      ultimately have "prefix pat (c # cs)" by (rule prefix_length_prefix)
      with False show False by simp
    qed
    with "2.IH" [OF False j(1)] j(2) show ?thesis by simp
  qed
qed

lemma find_char_idx_None [str_simps]: "find_char_idx x s = None \<longleftrightarrow> x \<notin> set s"
  by (induction s) auto

lemma find_char_idx_Some:
  "find_char_idx x s = Some k \<longleftrightarrow> k < length s \<and> s ! k = x \<and> x \<notin> set (take k s)"
proof (induction s arbitrary: k)
  case Nil
  then show ?case by simp
next
  case (Cons c cs)
  then show ?case by (cases k) auto
qed

lemma find_char_idx_append [str_simps]:
  "x \<notin> set s \<Longrightarrow> find_char_idx x (s @ x # t) = Some (length s)"
  by (induction s) auto

lemma find_char_idx_split:
  "find_char_idx x s = Some k \<Longrightarrow> s = take k s @ x # drop (Suc k) s \<and> x \<notin> set (take k s)"
  by (auto simp: find_char_idx_Some id_take_nth_drop)

lemma find_char_idx_takeWhile:
  "find_char_idx x s = Some k \<Longrightarrow> take k s = takeWhile (\<lambda>c. c \<noteq> x) s"
  by (induction s arbitrary: k) (auto split: if_splits)

text \<open>What a callee sees of \<open>s.c_str()\<close>: the characters before the first NUL.\<close>

definition c_str :: "string \<Rightarrow> string" where
  "c_str s = takeWhile (\<lambda>c. char_code c \<noteq> 0) s"

lemma c_str_idem [simp]: "c_str (c_str s) = c_str s"
  by (simp add: c_str_def)

text \<open>Trimming: drop characters satisfying \<open>p\<close> at the front, then those satisfying \<open>q\<close> at the back.\<close>

definition trim_by :: "(char \<Rightarrow> bool) \<Rightarrow> (char \<Rightarrow> bool) \<Rightarrow> string \<Rightarrow> string" where
  "trim_by p q s = rev (dropWhile q (rev (dropWhile p s)))"

lemma trim_by_sublist: "sublist (trim_by p q s) s"
proof -
  have "prefix (trim_by p q s) (dropWhile p s)"
    unfolding trim_by_def
    by (metis rev_rev_ident suffix_dropWhile suffix_to_prefix)
  then show ?thesis
    by (meson prefix_imp_sublist sublist_order.order_trans suffix_dropWhile suffix_imp_sublist)
qed

lemma set_trim_by: "set (trim_by p q s) \<subseteq> set s"
  using trim_by_sublist set_mono_sublist by blast

lemma trim_by_id [str_simps]:
  "s \<noteq> [] \<Longrightarrow> \<not> p (hd s) \<Longrightarrow> \<not> q (last s) \<Longrightarrow> trim_by p q s = s"
proof -
  assume s: "s \<noteq> []" and p: "\<not> p (hd s)" and q: "\<not> q (last s)"
  from s p have "dropWhile p s = s" by (simp add: dropWhile_eq_self_iff)
  moreover from s q have "dropWhile q (rev s) = rev s"
    by (simp add: dropWhile_eq_self_iff hd_rev)
  ultimately show "trim_by p q s = s" by (simp add: trim_by_def)
qed

lemma trim_by_Nil [simp]: "trim_by p q [] = []"
  by (simp add: trim_by_def)

section \<open>Decimal formatting\<close>

text \<open>
  \<open>toDecimal\<close> of HttpRequestBuilder.cpp and both \<open>itos\<close> helpers fill a buffer from the right,
  one remainder at a time; the buffer (20 or 24 bytes) is longer than any 64-bit value.
\<close>

definition digit_char :: "nat \<Rightarrow> char" where
  "digit_char d = char_of (48 + d)"

fun decimal_digits :: "nat \<Rightarrow> string \<Rightarrow> string" where
  "decimal_digits v acc =
     (if v = 0 then acc else decimal_digits (v div 10) (digit_char (v mod 10) # acc))"

declare decimal_digits.simps [simp del]

definition toDecimal :: "nat \<Rightarrow> string" where
  "toDecimal v = (if v = 0 then ''0'' else decimal_digits v [])"

text \<open>The reading loop \<open>acc = acc * 10 + digit\<close> used by every numeric parser of the sources.\<close>

fun parse_digits :: "nat \<Rightarrow> string \<Rightarrow> nat" where
  "parse_digits acc [] = acc"
| "parse_digits acc (c # cs) = parse_digits (acc * 10 + digit_val c) cs"

lemma char_code_digit_char [simp]: "d < 10 \<Longrightarrow> char_code (digit_char d) = 48 + d"
  by (simp add: digit_char_def char_code_char_of)

lemma digit_val_digit_char [simp]: "d < 10 \<Longrightarrow> digit_val (digit_char d) = d"
  by (simp add: digit_val_def)

lemma is_digit_digit_char [simp]: "d < 10 \<Longrightarrow> is_digit (digit_char d)"
  by (simp add: is_digit_def)

lemma decimal_digits_append: "decimal_digits v (a @ b) = decimal_digits v a @ b"
proof (induction v a rule: decimal_digits.induct)
  case (1 v a)
  show ?case
  proof (cases "v = 0")
    case True
    then show ?thesis by (simp add: decimal_digits.simps [of 0])
  next
    case False
    with "1.IH" show ?thesis
      by (simp add: decimal_digits.simps [of v "a @ b"] decimal_digits.simps [of v a])
  qed
qed

lemma parse_digits_append [str_simps]:
  "parse_digits a (s @ t) = parse_digits (parse_digits a s) t"
  by (induction a s rule: parse_digits.induct) simp_all

lemma parse_decimal_digits: "parse_digits 0 (decimal_digits v []) = v"
proof (induction v rule: less_induct)
  case (less v)
  show ?case
  proof (cases "v = 0")
    case True
    then show ?thesis by (simp add: decimal_digits.simps)
  next
    case False
    then have "decimal_digits v [] = decimal_digits (v div 10) [] @ [digit_char (v mod 10)]"
      using decimal_digits_append [of "v div 10" "[]" "[digit_char (v mod 10)]"]
      by (simp add: decimal_digits.simps [of v])
    moreover have "parse_digits 0 (decimal_digits (v div 10) []) = v div 10"
      using False by (intro less.IH) simp
    ultimately show ?thesis by (simp add: parse_digits_append)
  qed
qed

lemma decimal_digits_digits:
  "\<forall>c\<in>set acc. is_digit c \<Longrightarrow> \<forall>c\<in>set (decimal_digits v acc). is_digit c"
proof (induction v acc rule: decimal_digits.induct)
  case (1 v acc)
  show ?case
  proof (cases "v = 0")
    case True
    with "1.prems" show ?thesis by (simp add: decimal_digits.simps [of 0])
  next
    case False
    with "1.IH" "1.prems" show ?thesis by (simp add: decimal_digits.simps [of v])
  qed
qed

lemma decimal_digits_not_Nil: "v \<noteq> 0 \<Longrightarrow> decimal_digits v acc \<noteq> []"
proof (induction v acc rule: decimal_digits.induct)
  case (1 v acc)
  show ?case
  proof (cases "v div 10 = 0")
    case True
    with "1.prems" show ?thesis
      by (simp add: decimal_digits.simps [of v] decimal_digits.simps [of 0])
  next
    case False
    with "1.prems" "1.IH" show ?thesis by (simp add: decimal_digits.simps [of v])
  qed
qed

lemma toDecimal_digits: "\<forall>c\<in>set (toDecimal v). is_digit c"
proof (cases "v = 0")
  case True
  then show ?thesis by (simp add: toDecimal_def is_digit_def char_code_def)
next
  case False
  then show ?thesis using decimal_digits_digits [of "[]" v] by (simp add: toDecimal_def)
qed

lemma toDecimal_not_Nil [simp]: "toDecimal v \<noteq> []"
  by (simp add: toDecimal_def decimal_digits_not_Nil)

lemma parse_toDecimal [str_simps]: "parse_digits 0 (toDecimal v) = v"
proof (cases "v = 0")
  case True
  then show ?thesis by (simp add: toDecimal_def digit_val_def char_code_def)
next
  case False
  then show ?thesis by (simp add: toDecimal_def parse_decimal_digits)
qed

lemma parse_digits_less: "\<forall>c\<in>set s. is_digit c \<Longrightarrow> parse_digits a s < (a + 1) * 10 ^ length s"
proof (induction s arbitrary: a)
  case Nil
  then show ?case by simp
next
  case (Cons c s)
  from Cons.prems have "digit_val c < 10"
    by (auto simp: is_digit_def digit_val_def)
  then have "(a * 10 + digit_val c + 1) * 10 ^ length s \<le> (a * 10 + 10) * 10 ^ length s"
    by (intro mult_right_mono) simp_all
  moreover have "(a * 10 + 10) * 10 ^ length s = (a + 1) * 10 ^ length (c # s)"
    by (simp add: algebra_simps)
  ultimately show ?case
    using Cons.IH [of "a * 10 + digit_val c"] Cons.prems by simp
qed

lemma less_power_length_toDecimal: "n < 10 ^ length (toDecimal n)"
  using parse_digits_less [OF toDecimal_digits, of 0 n] by (simp add: parse_toDecimal)

end
