(* ===== verification/Core_Errors.thy ===== *)
theory Core_Errors
  imports Edge_Prelude
begin

text \<open>
  The error taxonomy of \<open>core/Errors.h\<close> and the value-based results of \<open>core/Result.h\<close>.
  A \<open>Status\<close> is an \<open>error\<close> (with \<open>Ok\<close> for success); a \<open>Result<T>\<close> is \<open>Inl e\<close> for
  \<open>Result::fail(e)\<close> and \<open>Inr v\<close> for \<open>Result::ok(v)\<close>.
\<close>

datatype error =
    Ok
  | InvalidArgument | InvalidState | NotImplemented | OutOfMemory | Timeout
  | NotFound | AlreadyExists | Capacity
  | NotConnected | ConnectFailed | DnsFailed | TlsHandshakeFailed | CertVerifyFailed
  | WriteFailed | ReadFailed | ConnectionClosed
  | HttpMalformed | HttpStatusError | HttpBodyTooLarge | HttpUnsupportedTransfer
  | JsonParseError | SseMalformed | SchemaValidationFailed
  | Unauthorized | Forbidden | SecretNotFound | SecretStoreError
  | ProviderError | RateLimited | ContextOverflow | ToolIterationLimit | BudgetExceeded
  | McpProtocolError | McpMethodNotFound | McpToolNotFound | McpWriteNotAllowed

type_synonym status = error
type_synonym 'a result = "error + 'a"

primrec error_code :: "error \<Rightarrow> nat" where
  "error_code Ok = 0"
| "error_code InvalidArgument = 1"
| "error_code InvalidState = 2"
| "error_code NotImplemented = 3"
| "error_code OutOfMemory = 4"
| "error_code Timeout = 5"
| "error_code NotFound = 6"
| "error_code AlreadyExists = 7"
| "error_code Capacity = 8"
| "error_code NotConnected = 10"
| "error_code ConnectFailed = 11"
| "error_code DnsFailed = 12"
| "error_code TlsHandshakeFailed = 13"
| "error_code CertVerifyFailed = 14"
| "error_code WriteFailed = 15"
| "error_code ReadFailed = 16"
| "error_code ConnectionClosed = 17"
| "error_code HttpMalformed = 30"
| "error_code HttpStatusError = 31"
| "error_code HttpBodyTooLarge = 32"
| "error_code HttpUnsupportedTransfer = 33"
| "error_code JsonParseError = 50"
| "error_code SseMalformed = 51"
| "error_code SchemaValidationFailed = 52"
| "error_code Unauthorized = 70"
| "error_code Forbidden = 71"
| "error_code SecretNotFound = 72"
| "error_code SecretStoreError = 73"
| "error_code ProviderError = 90"
| "error_code RateLimited = 91"
| "error_code ContextOverflow = 92"
| "error_code ToolIterationLimit = 93"
| "error_code BudgetExceeded = 94"
| "error_code McpProtocolError = 110"
| "error_code McpMethodNotFound = 111"
| "error_code McpToolNotFound = 112"
| "error_code McpWriteNotAllowed = 113"

primrec errorString :: "error \<Rightarrow> string" where
  "errorString Ok = ''ok''"
| "errorString InvalidArgument = ''invalid argument''"
| "errorString InvalidState = ''invalid state''"
| "errorString NotImplemented = ''not implemented''"
| "errorString OutOfMemory = ''out of memory''"
| "errorString Timeout = ''timeout''"
| "errorString NotFound = ''not found''"
| "errorString AlreadyExists = ''already exists''"
| "errorString Capacity = ''capacity exceeded''"
| "errorString NotConnected = ''not connected''"
| "errorString ConnectFailed = ''connect failed''"
| "errorString DnsFailed = ''dns resolution failed''"
| "errorString TlsHandshakeFailed = ''tls handshake failed''"
| "errorString CertVerifyFailed = ''certificate verification failed''"
| "errorString WriteFailed = ''socket write failed''"
| "errorString ReadFailed = ''socket read failed''"
| "errorString ConnectionClosed = ''connection closed''"
| "errorString HttpMalformed = ''malformed http response''"
| "errorString HttpStatusError = ''http status error''"
| "errorString HttpBodyTooLarge = ''http body too large''"
| "errorString HttpUnsupportedTransfer = ''unsupported transfer encoding''"
| "errorString JsonParseError = ''json parse error''"
| "errorString SseMalformed = ''malformed sse stream''"
| "errorString SchemaValidationFailed = ''schema validation failed''"
| "errorString Unauthorized = ''unauthorized''"
| "errorString Forbidden = ''forbidden''"
| "errorString SecretNotFound = ''secret not found''"
| "errorString SecretStoreError = ''secret store error''"
| "errorString ProviderError = ''provider error''"
| "errorString RateLimited = ''rate limited''"
| "errorString ContextOverflow = ''context window overflow''"
| "errorString ToolIterationLimit = ''tool iteration limit reached''"
| "errorString BudgetExceeded = ''usage budget exceeded''"
| "errorString McpProtocolError = ''mcp protocol error''"
| "errorString McpMethodNotFound = ''mcp method not found''"
| "errorString McpToolNotFound = ''mcp tool not found''"
| "errorString McpWriteNotAllowed = ''mcp write not allowed''"

definition status_isOk :: "status \<Rightarrow> bool" where
  "status_isOk s \<longleftrightarrow> s = Ok"

fun result_isOk :: "'a result \<Rightarrow> bool" where
  "result_isOk (Inl e) = (e = Ok)"
| "result_isOk (Inr v) = True"

fun result_error :: "'a result \<Rightarrow> error" where
  "result_error (Inl e) = e"
| "result_error (Inr v) = Ok"

fun valueOr :: "'a result \<Rightarrow> 'a \<Rightarrow> 'a" where
  "valueOr (Inl e) fallback = fallback"
| "valueOr (Inr v) fallback = v"

lemma status_isOk_iff [simp]: "status_isOk s = (s = Ok)"
  by (simp add: status_isOk_def)

text \<open>The numeric codes are stable identifiers: no two errors share one, and all fit \<open>uint8_t\<close>.\<close>

definition all_errors :: "error list" where
  "all_errors =
    [Ok, InvalidArgument, InvalidState, NotImplemented, OutOfMemory, Timeout,
      NotFound, AlreadyExists, Capacity, NotConnected, ConnectFailed, DnsFailed,
      TlsHandshakeFailed, CertVerifyFailed, WriteFailed, ReadFailed,
      ConnectionClosed, HttpMalformed, HttpStatusError, HttpBodyTooLarge,
      HttpUnsupportedTransfer, JsonParseError, SseMalformed,
      SchemaValidationFailed, Unauthorized, Forbidden, SecretNotFound,
      SecretStoreError, ProviderError, RateLimited, ContextOverflow,
      ToolIterationLimit, BudgetExceeded, McpProtocolError, McpMethodNotFound,
      McpToolNotFound, McpWriteNotAllowed]"

lemma all_errors_UNIV: "set all_errors = UNIV"
proof -
  have "e \<in> set all_errors" for e
    by (cases e) (simp_all add: all_errors_def)
  then show ?thesis by auto
qed

lemma inj_error_code: "inj error_code"
proof -
  have "distinct (map error_code all_errors)"
    by (simp add: all_errors_def)
  then show ?thesis by (simp add: distinct_map all_errors_UNIV)
qed

lemma error_code_uint8: "error_code e < 256"
  by (cases e) simp_all

end
