(* ===== verification/Logger.thy ===== *)
theory Logger
  imports Core_Errors
begin

text \<open>
  The redacting logger, \<open>core/Logger.{h,cpp}\<close>.  A sink is modelled by the lines it has received;
  \<open>redact\<close> scans like the code and is \<open>None\<close> where its loop would not end (an empty secret).
  Proved: registration keeps every secret long enough for the scan to end, so redaction always
  returns, and no star-free registered secret survives it in any line that reaches the sink.
\<close>

section \<open>State and operations\<close>

datatype log_level = LvDebug | LvInfo | LvWarn | LvError | LvNone

primrec level_code :: "log_level \<Rightarrow> nat" where
  "level_code LvDebug = 0"
| "level_code LvInfo = 1"
| "level_code LvWarn = 2"
| "level_code LvError = 3"
| "level_code LvNone = 4"

text \<open>The comparison of levels is the order of their \<open>uint8_t\<close> codes.\<close>

instantiation log_level :: linorder
begin

definition less_eq_log_level :: "log_level \<Rightarrow> log_level \<Rightarrow> bool" where
  "less_eq_log_level a b \<longleftrightarrow> level_code a \<le> level_code b"

definition less_log_level :: "log_level \<Rightarrow> log_level \<Rightarrow> bool" where
  "less_log_level a b \<longleftrightarrow> level_code a < level_code b"

instance
proof
  fix a b c :: log_level
  show "a < b \<longleftrightarrow> a \<le> b \<and> \<not> b \<le> a"
    by (auto simp: less_eq_log_level_def less_log_level_def)
  show "a \<le> a" by (simp add: less_eq_log_level_def)
  show "a \<le> b \<Longrightarrow> b \<le> c \<Longrightarrow> a \<le> c" by (simp add: less_eq_log_level_def)
  show "a \<le> b \<Longrightarrow> b \<le> a \<Longrightarrow> a = b"
    by (cases a; cases b) (simp_all add: less_eq_log_level_def)
  show "a \<le> b \<or> b \<le> a" by (auto simp: less_eq_log_level_def)
qed

end

primrec logLevelName :: "log_level \<Rightarrow> string" where
  "logLevelName LvDebug = ''DEBUG''"
| "logLevelName LvInfo = ''INFO''"
| "logLevelName LvWarn = ''WARN''"
| "logLevelName LvError = ''ERROR''"
| "logLevelName LvNone = ''NONE''"

record logger =
  level :: log_level
  sink :: "(log_level \<times> string) list option"
  secrets :: "string list"

definition init_logger :: logger where
  "init_logger = \<lparr>level = LvInfo, sink = None, secrets = []\<rparr>"

definition kMask :: string where
  "kMask = ''***''"

definition kMinSecretLen :: nat where
  "kMinSecretLen = 4"

definition registerSecret :: "logger \<Rightarrow> string \<Rightarrow> logger" where
  "registerSecret l secret =
     (if length secret < kMinSecretLen then l
      else if secret \<in> set (secrets l) then l
      else l\<lparr>secrets := secrets l @ [secret]\<rparr>)"

definition clearSecrets :: "logger \<Rightarrow> logger" where
  "clearSecrets l = l\<lparr>secrets := []\<rparr>"

text \<open>One secret: the \<open>while\<close> loop of \<open>redact\<close>, with \<open>out\<close> and \<open>pos\<close> as the code has them.\<close>

partial_function (option) redact_pass :: "string \<Rightarrow> string \<Rightarrow> nat \<Rightarrow> string option" where
  "redact_pass secret out pos =
     (case str_find out secret pos of
        None \<Rightarrow> Some out
      | Some p \<Rightarrow>
          redact_pass secret (take p out @ kMask @ drop (p + length secret) out)
            (p + length kMask))"

fun redact_all :: "string list \<Rightarrow> string \<Rightarrow> string option" where
  "redact_all [] out = Some out"
| "redact_all (s # ss) out =
     (case redact_pass s out 0 of None \<Rightarrow> None | Some out' \<Rightarrow> redact_all ss out')"

definition redact :: "logger \<Rightarrow> string \<Rightarrow> string option" where
  "redact l text = (if secrets l = [] then Some text else redact_all (secrets l) text)"

definition maskToken :: "string \<Rightarrow> nat \<Rightarrow> string" where
  "maskToken token keep =
     (if token = [] then kMask
      else if length token \<le> keep then kMask
      else kMask @ substr_from token (length token - keep))"

text \<open>\<open>log_msg l lv message\<close> is \<open>l.log(lv, message)\<close>: the logger with the line in its sink.\<close>

definition log_msg :: "logger \<Rightarrow> log_level \<Rightarrow> string \<Rightarrow> logger option" where
  "log_msg l lv message =
     (if lv < level l \<or> level l = LvNone then Some l
      else
        (case sink l of
           None \<Rightarrow> Some l
         | Some out \<Rightarrow>
             (case redact l message of
                None \<Rightarrow> None
              | Some r \<Rightarrow>
                  Some (l\<lparr>sink := Some (out @ [(lv, ''['' @ logLevelName lv @ ''] '' @ r)])\<rparr>))))"

section \<open>The scan as a recursion on the text\<close>

function mask_secret :: "string \<Rightarrow> string \<Rightarrow> string" where
  "mask_secret s t =
     (case find_idx s t of
        None \<Rightarrow> t
      | Some k \<Rightarrow> if s = [] then t else take k t @ kMask @ mask_secret s (drop (k + length s) t))"
  by pat_completeness auto
termination
  by (relation "measure (\<lambda>(s, t). length t)") (auto dest!: find_idx_length simp flip: length_greater_0_conv)

declare mask_secret.simps [simp del]

declare redact_pass.simps [code]

lemma redact_pass_mask:
  assumes "s \<noteq> []"
  shows "pos \<le> length out \<Longrightarrow>
    redact_pass s out pos = Some (take pos out @ mask_secret s (drop pos out))"
proof (induction "length (drop pos out)" arbitrary: out pos rule: less_induct)
  case less
  show ?case
  proof (cases "find_idx s (drop pos out)")
    case None
    with less.prems show ?thesis
      by (simp add: redact_pass.simps [of s out] str_find_def mask_secret.simps [of s "drop pos out"])
  next
    case (Some k)
    let ?p = "pos + k"
    let ?out = "take ?p out @ kMask @ drop (?p + length s) out"
    from find_idx_Some [OF Some] less.prems assms
    have k: "?p + length s \<le> length out" "0 < length s" by auto
    then have drop': "drop (?p + length kMask) ?out = drop (k + length s) (drop pos out)"
      by (simp add: ac_simps)
    from k have take': "take (?p + length kMask) ?out = take pos out @ take k (drop pos out) @ kMask"
      by (simp add: take_add)
    from k have shorter: "length (drop (?p + length kMask) ?out) < length (drop pos out)"
      unfolding drop' length_drop by linarith
    from k have "?p + length kMask \<le> length ?out" by simp
    with shorter have rec: "redact_pass s ?out (?p + length kMask) =
        Some (take (?p + length kMask) ?out @ mask_secret s (drop (?p + length kMask) ?out))"
      by (rule less.hyps)
    from Some less.prems have "redact_pass s out pos = redact_pass s ?out (?p + length kMask)"
      by (simp add: redact_pass.simps [of s out] str_find_def)
    also have "\<dots> = Some (take pos out @ mask_secret s (drop pos out))"
      unfolding rec drop' take' using Some assms by (simp add: mask_secret.simps [of s "drop pos out"])
    finally show ?thesis .
  qed
qed

lemma redact_pass_0: "s \<noteq> [] \<Longrightarrow> redact_pass s out 0 = Some (mask_secret s out)"
  by (simp add: redact_pass_mask)

lemma redact_all_mask: "[] \<notin> set ss \<Longrightarrow> redact_all ss out = Some (fold mask_secret ss out)"
  by (induction ss arbitrary: out) (auto simp: redact_pass_0)

section \<open>What the mask removes\<close>

lemma sublist_sep:
  assumes "x \<notin> set s"
  shows "sublist s (a @ x # b) \<longleftrightarrow> sublist s a \<or> sublist s b"
proof
  assume "sublist s (a @ x # b)"
  then obtain ps ss where eq: "a @ x # b = ps @ s @ ss" by (auto simp: sublist_def)
  from eq show "sublist s a \<or> sublist s b"
    using assms by (auto simp: append_eq_append_conv2 append_eq_Cons_conv Cons_eq_append_conv)
next
  assume "sublist s a \<or> sublist s b"
  then show "sublist s (a @ x # b)"
    by (metis append_Cons sublist_append_leftI sublist_append_rightI sublist_order.order_trans
        self_append_conv2)
qed

lemma sublist_kMask:
  "CHR ''*'' \<notin> set s \<Longrightarrow> s \<noteq> [] \<Longrightarrow>
     sublist s (a @ kMask @ b) \<longleftrightarrow> sublist s a \<or> sublist s b"
  using sublist_sep [of "CHR ''*''" s a "''**'' @ b"] sublist_sep [of "CHR ''*''" s "[]" "''*'' @ b"]
    sublist_sep [of "CHR ''*''" s "[]" b]
  by (simp add: kMask_def)

lemma find_idx_take:
  assumes "find_idx s t = Some k" "s \<noteq> []"
  shows "\<not> sublist s (take k t)"
proof
  assume "sublist s (take k t)"
  then obtain ps ss where eq: "take k t = ps @ s @ ss" by (auto simp: sublist_def)
  then have "length ps + length s \<le> k" by (metis add_leD1 le_add1 length_append length_take
        min.bounded_iff add.assoc)
  with assms(2) have "length ps < k" by (cases s) auto
  moreover have "t = ps @ s @ ss @ drop k t"
    using append_take_drop_id [of k t] eq by simp
  then have "prefix s (drop (length ps) t)" by (metis append_eq_conv_conj prefixI)
  ultimately show False using find_idx_least [OF assms(1)] by blast
qed

lemma mask_removes:
  "CHR ''*'' \<notin> set s \<Longrightarrow> s \<noteq> [] \<Longrightarrow> \<not> sublist s (mask_secret s t)"
proof (induction s t rule: mask_secret.induct)
  case (1 s t)
  show ?case
  proof (cases "find_idx s t")
    case None
    then have "\<not> sublist s t" by (simp add: find_idx_None_iff)
    with None show ?thesis by (simp add: mask_secret.simps [of s t])
  next
    case (Some k)
    with "1.IH" [OF Some "1.prems"(2)] "1.prems" find_idx_take [OF Some "1.prems"(2)]
    show ?thesis by (simp add: mask_secret.simps [of s t] sublist_kMask)
  qed
qed

lemma mask_keeps_absent:
  "CHR ''*'' \<notin> set u \<Longrightarrow> u \<noteq> [] \<Longrightarrow> \<not> sublist u t \<Longrightarrow> \<not> sublist u (mask_secret s t)"
proof (induction s t rule: mask_secret.induct)
  case (1 s t)
  show ?case
  proof (cases "find_idx s t = None \<or> s = []")
    case True
    with "1.prems" show ?thesis by (auto simp: mask_secret.simps [of s t] split: option.splits)
  next
    case False
    then obtain k where k: "find_idx s t = Some k" "s \<noteq> []" by auto
    have "sublist (take k t) t" "sublist (drop (k + length s) t) t"
      by (simp_all add: sublist_take sublist_drop)
    with "1.prems"(3) have "\<not> sublist u (take k t)" "\<not> sublist u (drop (k + length s) t)"
      using sublist_order.order_trans by blast+
    with "1.IH" [OF k] "1.prems" k show ?thesis
      by (simp add: mask_secret.simps [of s t] sublist_kMask)
  qed
qed

lemma fold_mask_keeps_absent:
  "CHR ''*'' \<notin> set u \<Longrightarrow> u \<noteq> [] \<Longrightarrow> \<not> sublist u t \<Longrightarrow> \<not> sublist u (fold mask_secret ss t)"
  by (induction ss arbitrary: t) (auto simp: mask_keeps_absent)

lemma fold_mask_removes:
  "u \<in> set ss \<Longrightarrow> CHR ''*'' \<notin> set u \<Longrightarrow> u \<noteq> [] \<Longrightarrow> \<not> sublist u (fold mask_secret ss t)"
proof (induction ss arbitrary: t)
  case Nil
  then show ?case by simp
next
  case (Cons s ss)
  then show ?case
    by (cases "u = s") (auto simp: fold_mask_keeps_absent mask_removes)
qed

section \<open>The invariant of registration\<close>

definition logger_inv :: "logger \<Rightarrow> bool" where
  "logger_inv l \<longleftrightarrow> distinct (secrets l) \<and> (\<forall>s\<in>set (secrets l). kMinSecretLen \<le> length s)"

lemma logger_inv_init [simp]: "logger_inv init_logger"
  by (simp add: logger_inv_def init_logger_def)

lemma logger_inv_register [simp]: "logger_inv l \<Longrightarrow> logger_inv (registerSecret l s)"
  by (auto simp: logger_inv_def registerSecret_def)

lemma logger_inv_nonempty: "logger_inv l \<Longrightarrow> [] \<notin> set (secrets l)"
  by (auto simp: logger_inv_def kMinSecretLen_def)

lemma redact_mask: "logger_inv l \<Longrightarrow> redact l text = Some (fold mask_secret (secrets l) text)"
  by (simp add: redact_def redact_all_mask logger_inv_nonempty)

lemma registered_secret:
  "kMinSecretLen \<le> length s \<Longrightarrow> s \<in> set (secrets (registerSecret l s))"
  by (simp add: registerSecret_def)

lemma log_msg_line:
  assumes "logger_inv l" "level l \<noteq> LvNone" "level l \<le> lv" "sink l = Some out"
  shows "log_msg l lv message =
    Some (l\<lparr>sink := Some (out @ [(lv, ''['' @ logLevelName lv @ ''] '' @
                                      fold mask_secret (secrets l) message)])\<rparr>)"
  using assms by (simp add: log_msg_def redact_mask not_less)

section \<open>Properties\<close>

text \<open>The loggers a program can reach.\<close>

definition setLevel :: "log_level \<Rightarrow> logger \<Rightarrow> logger" where [simp]:
  "setLevel lv l = l\<lparr>level := lv\<rparr>"

definition setSink :: "(log_level \<times> string) list option \<Rightarrow> logger \<Rightarrow> logger" where [simp]:
  "setSink out l = l\<lparr>sink := out\<rparr>"

datatype logger_op = RegisterSecret string | ClearSecrets | SetLevel log_level | Log log_level string

fun logger_step :: "logger_op \<Rightarrow> logger \<Rightarrow> logger option" where
  "logger_step (RegisterSecret s) l = Some (registerSecret l s)"
| "logger_step ClearSecrets l = Some (clearSecrets l)"
| "logger_step (SetLevel lv) l = Some (setLevel lv l)"
| "logger_step (Log lv m) l = log_msg l lv m"

fun logger_run :: "logger_op list \<Rightarrow> logger \<Rightarrow> logger option" where
  "logger_run [] l = Some l"
| "logger_run (x # xs) l = (case logger_step x l of None \<Rightarrow> None | Some l' \<Rightarrow> logger_run xs l')"

lemma logger_step_total: "logger_inv l \<Longrightarrow> \<exists>l'. logger_step x l = Some l' \<and> logger_inv l'"
proof (cases x)
  case (Log lv m)
  assume "logger_inv l"
  with Log show ?thesis
    by (auto simp: log_msg_def redact_mask split: option.split) (simp_all add: logger_inv_def)
qed (auto simp: logger_inv_def registerSecret_def clearSecrets_def)

lemma logger_run_total: "logger_inv l \<Longrightarrow> \<exists>l'. logger_run xs l = Some l' \<and> logger_inv l'"
proof (induction xs arbitrary: l)
  case Nil
  then show ?case by simp
next
  case (Cons x xs)
  then show ?case using logger_step_total [OF Cons.prems, of x] by auto
qed

definition star_free :: "string \<Rightarrow> bool" where
  "star_free s \<longleftrightarrow> CHR ''*'' \<notin> set s"

text \<open>C34: no sequence of logger calls makes the redaction loop run forever, and in the state it
  reaches every registered secret without an asterisk is absent from the redacted text, whatever
  the text and the other secrets.\<close>

theorem redaction_removes_secrets:
  "\<exists>l. logger_run xs (init_logger\<lparr>sink := out\<rparr>) = Some l \<and>
    (\<forall>text. \<exists>r. redact l text = Some r \<and>
      list_all (\<lambda>s. \<not> sublist s r) (filter star_free (secrets l)))"
proof -
  have "logger_inv (init_logger\<lparr>sink := out\<rparr>)" by (simp add: logger_inv_def init_logger_def)
  from logger_run_total [OF this, of xs] obtain l where
    l: "logger_run xs (init_logger\<lparr>sink := out\<rparr>) = Some l" "logger_inv l" by blast
  have "\<not> sublist s (fold mask_secret (secrets l) t)"
    if "s \<in> set (secrets l)" "star_free s" for s t
    using that fold_mask_removes [of s "secrets l" t] logger_inv_nonempty [OF l(2)]
    by (auto simp: star_free_def)
  with l show ?thesis by (auto simp: redact_mask list_all_iff)
qed

end
