(* ===== verification/Chunked_Decoder.thy ===== *)
theory Chunked_Decoder
  imports Core_Errors
begin

text \<open>
  The incremental HTTP chunked transfer decoder, \<open>transport/ChunkedDecoder.{h,cpp}\<close>: its state
  record, \<open>feed\<close> with the block copy of the \<open>Data\<close> state, and a one-byte transition function as
  its reference.  Proved: \<open>feed\<close> runs the reference machine, feeding a stream in pieces equals
  feeding it whole, a chunked encoding decodes to its payload, and what a size line of more than
  32 bits decodes to.
\<close>

section \<open>State and operations\<close>

datatype cd_state = StSize | StSizeExt | StData | StDataCr | StDataLf | StTrailer | StDone

record chunked_decoder =
  dstate :: cd_state
  remaining :: size_t
  chunkSize :: size_t
  sawSizeDigit :: bool
  trailerLineLen :: size_t

definition cd_reset :: chunked_decoder where
  "cd_reset = \<lparr>dstate = StSize, remaining = 0, chunkSize = 0, sawSizeDigit = False,
               trailerLineLen = 0\<rparr>"

definition cd_done :: "chunked_decoder \<Rightarrow> bool" where
  "cd_done d \<longleftrightarrow> dstate d = StDone"

definition hexValue :: "char \<Rightarrow> int" where
  "hexValue c =
     (if is_digit c then int (char_code c) - 48
      else if 97 \<le> char_code c \<and> char_code c \<le> 102 then int (char_code c) - 97 + 10
      else if 65 \<le> char_code c \<and> char_code c \<le> 70 then int (char_code c) - 65 + 10
      else -1)"

text \<open>The end of a size line, shared by the \<open>Size\<close> and \<open>SizeExt\<close> states.\<close>

definition size_line_end :: "chunked_decoder \<Rightarrow> chunked_decoder" where
  "size_line_end d =
     (if chunkSize d = 0
      then d\<lparr>dstate := StTrailer, trailerLineLen := 0, chunkSize := 0, sawSizeDigit := False\<rparr>
      else d\<lparr>remaining := chunkSize d, dstate := StData, chunkSize := 0, sawSizeDigit := False\<rparr>)"

text \<open>
  \<open>cd_feed d data out dn\<close> returns the status, the decoder, \<open>out\<close> with the decoded bytes appended,
  and the \<open>done\<close> flag, which an error return leaves as it was.
\<close>

function cd_feed ::
  "chunked_decoder \<Rightarrow> string \<Rightarrow> string \<Rightarrow> bool \<Rightarrow> status \<times> chunked_decoder \<times> string \<times> bool"
where
  "cd_feed d [] out dn = (Ok, d, out, dstate d = StDone)"
| "cd_feed d (c # rest) out dn =
     (case dstate d of
        StSize \<Rightarrow>
          (let hv = hexValue c in
           if 0 \<le> hv then
             cd_feed (d\<lparr>chunkSize := push_bit 4 (chunkSize d) OR word_of_int hv,
                        sawSizeDigit := True\<rparr>) rest out dn
           else if c = CHR '';'' then cd_feed (d\<lparr>dstate := StSizeExt\<rparr>) rest out dn
           else if c = CR then cd_feed d rest out dn
           else if c = LF then
             (if \<not> sawSizeDigit d then (HttpMalformed, d, out, dn)
              else cd_feed (size_line_end d) rest out dn)
           else (HttpMalformed, d, out, dn))
      | StSizeExt \<Rightarrow>
          (if c = LF then
             (if chunkSize d = 0 \<and> \<not> sawSizeDigit d then (HttpMalformed, d, out, dn)
              else cd_feed (size_line_end d) rest out dn)
           else cd_feed d rest out dn)
      | StData \<Rightarrow>
          (let avail = length (c # rest);
               tk = (if avail < unat (remaining d) then avail else unat (remaining d));
               rem' = remaining d - word_of_nat tk
           in cd_feed (d\<lparr>remaining := rem', dstate := (if rem' = 0 then StDataCr else StData)\<rparr>)
                (drop tk (c # rest)) (out @ take tk (c # rest)) dn)
      | StDataCr \<Rightarrow>
          (if c = LF then cd_feed (d\<lparr>dstate := StSize\<rparr>) rest out dn
           else if c = CR then cd_feed (d\<lparr>dstate := StDataLf\<rparr>) rest out dn
           else (HttpMalformed, d, out, dn))
      | StDataLf \<Rightarrow>
          (if c \<noteq> LF then (HttpMalformed, d, out, dn)
           else cd_feed (d\<lparr>dstate := StSize\<rparr>) rest out dn)
      | StTrailer \<Rightarrow>
          (if c = LF then
             (if trailerLineLen d = 0 then (Ok, d\<lparr>dstate := StDone\<rparr>, out, True)
              else cd_feed (d\<lparr>trailerLineLen := 0\<rparr>) rest out dn)
           else if c \<noteq> CR then
             cd_feed (d\<lparr>trailerLineLen := trailerLineLen d + 1\<rparr>) rest out dn
           else cd_feed d rest out dn)
      | StDone \<Rightarrow> (Ok, d, out, True))"
  by pat_completeness auto
termination
  by (relation "measures [\<lambda>(d, data, out, dn). length data,
                          \<lambda>(d, data, out, dn). if dstate d = StData then 1 else 0]")
     (auto simp: Let_def unat_eq_zero split: if_splits)

declare cd_feed.simps [simp del]

section \<open>The reference machine: one byte at a time\<close>

text \<open>
  \<open>cd_step d c\<close> consumes one byte: an error, or the next state with the payload byte it emits.
\<close>

fun cd_step :: "chunked_decoder \<Rightarrow> char \<Rightarrow> error + chunked_decoder \<times> string" where
  "cd_step d c =
     (case dstate d of
        StSize \<Rightarrow>
          (if 0 \<le> hexValue c then
             Inr (d\<lparr>chunkSize := chunkSize d * 16 + word_of_int (hexValue c),
                    sawSizeDigit := True\<rparr>, [])
           else if c = CHR '';'' then Inr (d\<lparr>dstate := StSizeExt\<rparr>, [])
           else if c = CR then Inr (d, [])
           else if c = LF \<and> sawSizeDigit d then Inr (size_line_end d, [])
           else Inl HttpMalformed)
      | StSizeExt \<Rightarrow>
          (if c \<noteq> LF then Inr (d, [])
           else if chunkSize d = 0 \<and> \<not> sawSizeDigit d then Inl HttpMalformed
           else Inr (size_line_end d, []))
      | StData \<Rightarrow>
          Inr (d\<lparr>remaining := remaining d - 1,
                 dstate := (if remaining d = 1 then StDataCr else StData)\<rparr>, [c])
      | StDataCr \<Rightarrow>
          (if c = LF then Inr (d\<lparr>dstate := StSize\<rparr>, [])
           else if c = CR then Inr (d\<lparr>dstate := StDataLf\<rparr>, [])
           else Inl HttpMalformed)
      | StDataLf \<Rightarrow>
          (if c = LF then Inr (d\<lparr>dstate := StSize\<rparr>, []) else Inl HttpMalformed)
      | StTrailer \<Rightarrow>
          (if c = LF then
             (if trailerLineLen d = 0 then Inr (d\<lparr>dstate := StDone\<rparr>, [])
              else Inr (d\<lparr>trailerLineLen := 0\<rparr>, []))
           else if c = CR then Inr (d, [])
           else Inr (d\<lparr>trailerLineLen := trailerLineLen d + 1\<rparr>, []))
      | StDone \<Rightarrow> Inr (d, []))"

fun cd_run :: "chunked_decoder \<Rightarrow> string \<Rightarrow> string \<Rightarrow> status \<times> chunked_decoder \<times> string" where
  "cd_run d [] out = (Ok, d, out)"
| "cd_run d (c # cs) out =
     (case cd_step d c of
        Inl e \<Rightarrow> (e, d, out)
      | Inr (d', bs) \<Rightarrow> cd_run d' cs (out @ bs))"

declare cd_step.simps [simp del]

text \<open>The invariant of \<open>feed\<close>: the \<open>Data\<close> state is only entered with bytes left to copy.\<close>

definition cd_inv :: "chunked_decoder \<Rightarrow> bool" where
  "cd_inv d \<longleftrightarrow> (dstate d = StData \<longrightarrow> remaining d \<noteq> 0)"

lemma cd_inv_reset [simp]: "cd_inv cd_reset"
  by (simp add: cd_inv_def cd_reset_def)

lemma cd_inv_size_line_end [simp]: "cd_inv (size_line_end d)"
  by (simp add: cd_inv_def size_line_end_def)

lemma hexValue_bounds: "-1 \<le> hexValue c \<and> hexValue c \<le> 15"
  by (auto simp: hexValue_def is_digit_def)

text \<open>The shift-and-or of the header digit is multiplication by 16 and addition.\<close>

lemma push_or_hex:
  fixes w :: size_t
  assumes "0 \<le> hv" "hv \<le> 15"
  shows "push_bit 4 w OR word_of_int hv = w * 16 + word_of_int hv"
proof -
  have "word_of_int hv AND push_bit 4 w = 0"
  proof (rule bit_word_eqI)
    fix n
    assume "n < LENGTH(32)"
    have "\<not> bit hv n" if "4 \<le> n"
    proof -
      from that have "(2::int) ^ 4 \<le> 2 ^ n" by (rule power_increasing) simp
      with assms have "hv < 2 ^ n" by simp
      with assms(1) show ?thesis by (simp add: bit_iff_odd div_pos_pos_trivial)
    qed
    then show "bit (word_of_int hv AND push_bit 4 w) n = bit (0 :: size_t) n"
      by (auto simp: bit_and_iff bit_push_bit_iff bit_word_of_int_iff)
  qed
  then have "push_bit 4 w OR word_of_int hv = push_bit 4 w + word_of_int hv"
    by (simp add: disjunctive_add_eq_or and.commute)
  then show ?thesis by (simp add: push_bit_eq_mult)
qed

lemma cd_inv_step: "cd_inv d \<Longrightarrow> cd_step d c = Inr (d', bs) \<Longrightarrow> cd_inv d'"
  by (auto simp: cd_step.simps cd_inv_def size_line_end_def split: cd_state.splits if_splits)

section \<open>The block copy of the Data state\<close>

lemma cd_run_append:
  "cd_run d (a @ b) out =
     (case cd_run d a out of (s, d', out') \<Rightarrow> if s = Ok then cd_run d' b out' else (s, d', out'))"
proof (induction a arbitrary: d out)
  case Nil
  then show ?case by simp
next
  case (Cons c a)
  have "cd_step d c = Inl e \<Longrightarrow> e = HttpMalformed" for e
    by (auto simp: cd_step.simps split: cd_state.splits if_splits)
  with Cons.IH show ?case by (auto split: sum.splits)
qed

lemma cd_run_Done: "dstate d = StDone \<Longrightarrow> cd_run d cs out = (Ok, d, out)"
  by (induction cs) (simp_all add: cd_step.simps)

text \<open>Copying \<open>n\<close> bytes one at a time in the \<open>Data\<close> state is the block copy.\<close>

lemma cd_run_block:
  "dstate d = StData \<Longrightarrow> length bs \<le> unat (remaining d) \<Longrightarrow> bs \<noteq> [] \<Longrightarrow>
     cd_run d bs out =
       (Ok, d\<lparr>remaining := remaining d - word_of_nat (length bs),
              dstate := (if remaining d = word_of_nat (length bs) then StDataCr else StData)\<rparr>,
        out @ bs)"
proof (induction bs arbitrary: d out)
  case Nil
  then show ?case by simp
next
  case (Cons c cs)
  show ?case
  proof (cases "cs = []")
    case True
    with Cons.prems(1) show ?thesis by (simp add: cd_step.simps)
  next
    case False
    let ?d = "d\<lparr>remaining := remaining d - 1, dstate := StData\<rparr>"
    from Cons.prems(2) False have len: "2 \<le> unat (remaining d)"
      by (cases cs) auto
    then have "remaining d \<noteq> 1" by auto
    then have step: "cd_step d c = Inr (?d, [c])"
      using Cons.prems(1) by (simp add: cd_step.simps)
    from len have "unat (remaining d - 1) = unat (remaining d) - 1"
      by (metis One_nat_def Suc_1 Suc_le_lessD less_imp_le_nat not_le unat_0 unat_1 unat_sub
          word_le_nat_alt)
    with Cons.prems(2) have "length cs \<le> unat (remaining ?d)" by simp
    from Cons.IH [OF _ this False] have "cd_run ?d cs (out @ [c]) =
        (Ok, ?d\<lparr>remaining := remaining d - 1 - word_of_nat (length cs),
              dstate := (if remaining d - 1 = word_of_nat (length cs) then StDataCr else StData)\<rparr>,
         out @ c # cs)" by simp
    then show ?thesis by (simp add: step algebra_simps)
  qed
qed

lemma cd_feed_run_aux:
  "cd_inv d \<Longrightarrow> \<not> dn \<Longrightarrow>
     cd_feed d data out dn =
       (case cd_run d data out of (s, d', out') \<Rightarrow> (s, d', out', s = Ok \<and> dstate d' = StDone))"
proof (induction d data out dn rule: cd_feed.induct)
  case (1 d out dn)
  then show ?case by (simp add: cd_feed.simps)
next
  case (2 d c rest out dn)
  show ?case
  proof (cases "dstate d")
    case StSize
    have "word_of_int (hexValue c) = word_of_int (hexValue c)" ..
    with StSize "2.prems" "2.IH"(1-4) hexValue_bounds [of c] show ?thesis
      by (auto simp: cd_feed.simps(2) [of d] cd_step.simps Let_def push_or_hex cd_inv_def
            size_line_end_def)
  next
    case StSizeExt
    with "2.prems" "2.IH"(5,6) show ?thesis
      by (auto simp: cd_feed.simps(2) [of d] cd_step.simps cd_inv_def size_line_end_def)
  next
    case StData
    let ?data = "c # rest"
    let ?tk = "if length ?data < unat (remaining d) then length ?data else unat (remaining d)"
    let ?rem = "remaining d - word_of_nat ?tk"
    let ?d = "d\<lparr>remaining := ?rem, dstate := (if ?rem = 0 then StDataCr else StData)\<rparr>"
    from "2.prems"(1) StData have "0 < unat (remaining d)"
      by (simp add: cd_inv_def unat_gt_0)
    then have ne: "take ?tk ?data \<noteq> []" by simp
    have len: "length (take ?tk ?data) = ?tk" and le: "?tk \<le> unat (remaining d)" by auto
    have "cd_run d (take ?tk ?data) out = (Ok, ?d, out @ take ?tk ?data)"
      using cd_run_block [OF StData _ ne, of out] le unfolding len by simp
    then have run: "cd_run d ?data out = cd_run ?d (drop ?tk ?data) (out @ take ?tk ?data)"
      using cd_run_append [of d "take ?tk ?data" "drop ?tk ?data" out] by simp
    have feed: "cd_feed d ?data out dn = cd_feed ?d (drop ?tk ?data) (out @ take ?tk ?data) dn"
      by (simp only: cd_feed.simps(2) [of d] StData cd_state.case Let_def)
    have inv: "cd_inv ?d" by (simp add: cd_inv_def)
    show ?thesis
      unfolding run feed by (rule "2.IH"(7) [OF StData refl refl refl inv "2.prems"(2)])
  next
    case StDataCr
    with "2.prems" "2.IH"(8,9) show ?thesis
      by (auto simp: cd_feed.simps(2) [of d] cd_step.simps cd_inv_def)
  next
    case StDataLf
    with "2.prems" "2.IH"(10) show ?thesis
      by (auto simp: cd_feed.simps(2) [of d] cd_step.simps cd_inv_def)
  next
    case StTrailer
    with "2.prems" "2.IH"(11-13) show ?thesis
      by (auto simp: cd_feed.simps(2) [of d] cd_step.simps cd_inv_def cd_run_Done)
  next
    case StDone
    then show ?thesis
      by (simp add: cd_feed.simps(2) [of d] cd_step.simps cd_run_Done)
  qed
qed

lemma cd_feed_run:
  "cd_inv d \<Longrightarrow>
     cd_feed d data out False =
       (case cd_run d data out of (s, d', out') \<Rightarrow> (s, d', out', s = Ok \<and> dstate d' = StDone))"
  by (simp add: cd_feed_run_aux)

lemma cd_run_inv: "cd_inv d \<Longrightarrow> cd_run d cs out = (s, d', out') \<Longrightarrow> cd_inv d'"
  by (induction cs arbitrary: d out) (auto split: sum.splits prod.splits dest: cd_inv_step)

lemma cd_feed_inv: "cd_inv d \<Longrightarrow> cd_feed d data out False = (s, d', out', dn) \<Longrightarrow> cd_inv d'"
  by (auto simp: cd_feed_run dest: cd_run_inv split: prod.splits)

lemma cd_feed_Done: "dstate d = StDone \<Longrightarrow> cd_feed d data out dn = (Ok, d, out, True)"
  by (cases data) (simp_all add: cd_feed.simps)

section \<open>The chunked encoding\<close>

text \<open>
  A reference encoder of RFC 7230: chunks with an optional extension, then the zero chunk, then
  trailer lines.
\<close>

definition hex_char :: "nat \<Rightarrow> char" where
  "hex_char d = (if d < 10 then char_of (48 + d) else char_of (87 + d))"

fun hex_digits :: "nat \<Rightarrow> string \<Rightarrow> string" where
  "hex_digits v acc = (if v = 0 then acc else hex_digits (v div 16) (hex_char (v mod 16) # acc))"

declare hex_digits.simps [simp del]

definition to_hex :: "nat \<Rightarrow> string" where
  "to_hex v = (if v = 0 then ''0'' else hex_digits v [])"

definition encode_chunk :: "string \<times> string \<Rightarrow> string" where
  "encode_chunk ep = to_hex (length (snd ep)) @ fst ep @ crlf @ snd ep @ crlf"

definition chunk_encode :: "(string \<times> string) list \<Rightarrow> string list \<Rightarrow> string" where
  "chunk_encode cs ts =
     concat (map encode_chunk cs) @ ''0'' @ crlf @ concat (map (\<lambda>t. t @ crlf) ts) @ crlf"

definition valid_ext :: "string \<Rightarrow> bool" where
  "valid_ext e \<longleftrightarrow> LF \<notin> set e \<and> (e = [] \<or> hd e = CHR '';'')"

definition valid_chunk :: "string \<times> string \<Rightarrow> bool" where
  "valid_chunk ep \<longleftrightarrow> snd ep \<noteq> [] \<and> length (snd ep) < 2 ^ 32 \<and> valid_ext (fst ep)"

definition valid_trailer :: "string \<Rightarrow> bool" where
  "valid_trailer t \<longleftrightarrow> t \<noteq> [] \<and> length t < 2 ^ 32 \<and> CR \<notin> set t \<and> LF \<notin> set t"

definition add_hex :: "size_t \<Rightarrow> string \<Rightarrow> size_t" where
  "add_hex w hs = fold (\<lambda>c w. w * 16 + word_of_int (hexValue c)) hs w"

lemma hexValue_hex_char: "d < 16 \<Longrightarrow> hexValue (hex_char d) = int d"
  by (auto simp: hexValue_def hex_char_def is_digit_def char_code_char_of)

lemma hex_digits_append: "hex_digits v (a @ b) = hex_digits v a @ b"
proof (induction v a rule: hex_digits.induct)
  case (1 v a)
  then show ?case
    by (cases "v = 0")
       (simp_all add: hex_digits.simps [of 0] hex_digits.simps [of v "a @ b"]
          hex_digits.simps [of v a])
qed

lemma hex_digits_snoc:
  "v \<noteq> 0 \<Longrightarrow> hex_digits v [] = hex_digits (v div 16) [] @ [hex_char (v mod 16)]"
  using hex_digits_append [of "v div 16" "[]" "[hex_char (v mod 16)]"]
  by (simp add: hex_digits.simps [of v])

lemma add_hex_hex_digits: "add_hex 0 (hex_digits v []) = word_of_nat v"
proof (induction v rule: less_induct)
  case (less v)
  show ?case
  proof (cases "v = 0")
    case True
    then show ?thesis by (simp add: hex_digits.simps add_hex_def)
  next
    case False
    then have "add_hex 0 (hex_digits (v div 16) []) = word_of_nat (v div 16)"
      by (intro less.IH) simp
    with False have "add_hex 0 (hex_digits v []) = word_of_nat (v div 16) * 16 + word_of_nat (v mod 16)"
      by (simp add: hex_digits_snoc add_hex_def hexValue_hex_char)
    also have "\<dots> = word_of_nat (v div 16 * 16 + v mod 16)"
      by (simp only: of_nat_add of_nat_mult of_nat_numeral)
    also have "v div 16 * 16 + v mod 16 = v" by simp
    finally show ?thesis .
  qed
qed

lemma hex_digits_hex: "\<forall>c\<in>set (hex_digits v []). 0 \<le> hexValue c"
proof (induction v rule: less_induct)
  case (less v)
  show ?case
  proof (cases "v = 0")
    case True
    then show ?thesis by (simp add: hex_digits.simps)
  next
    case False
    with less.IH [of "v div 16"] show ?thesis
      by (simp add: hex_digits_snoc hexValue_hex_char)
  qed
qed

lemma to_hex_facts:
  shows to_hex_hex: "\<forall>c\<in>set (to_hex v). 0 \<le> hexValue c"
    and to_hex_not_Nil: "to_hex v \<noteq> []"
    and add_hex_to_hex: "add_hex 0 (to_hex v) = word_of_nat v"
proof -
  have zero: "hexValue (CHR ''0'') = 0"
    by (simp add: hexValue_def is_digit_def char_code_def)
  then show "\<forall>c\<in>set (to_hex v). 0 \<le> hexValue c"
    using hex_digits_hex [of v] by (simp add: to_hex_def)
  show "to_hex v \<noteq> []"
    by (cases "v = 0") (simp_all add: to_hex_def hex_digits_snoc)
  show "add_hex 0 (to_hex v) = word_of_nat v"
  proof (cases "v = 0")
    case True
    with zero show ?thesis by (simp add: to_hex_def add_hex_def)
  next
    case False
    then show ?thesis by (simp add: to_hex_def add_hex_hex_digits)
  qed
qed

section \<open>Decoding an encoding\<close>

lemma cd_run_hex:
  "dstate d = StSize \<Longrightarrow> \<forall>c\<in>set hs. 0 \<le> hexValue c \<Longrightarrow> hs \<noteq> [] \<Longrightarrow>
     cd_run d hs out = (Ok, d\<lparr>chunkSize := add_hex (chunkSize d) hs, sawSizeDigit := True\<rparr>, out)"
proof (induction hs arbitrary: d)
  case Nil
  then show ?case by simp
next
  case (Cons h hs)
  let ?d = "d\<lparr>chunkSize := chunkSize d * 16 + word_of_int (hexValue h), sawSizeDigit := True\<rparr>"
  from Cons.prems have "cd_step d h = Inr (?d, [])" by (simp add: cd_step.simps)
  with Cons show ?case by (cases "hs = []") (simp_all add: add_hex_def)
qed

lemma hexValue_delims [simp]:
  "hexValue CR = -1" "hexValue LF = -1" "hexValue (CHR '';'') = -1"
  by (simp_all add: hexValue_def is_digit_def char_code_def)

lemma cd_run_ext:
  "dstate d = StSizeExt \<Longrightarrow> LF \<notin> set e \<Longrightarrow> cd_run d e out = (Ok, d, out)"
  by (induction e) (auto simp: cd_step.simps)

text \<open>The rest of a size line: extension, CR and LF.\<close>

lemma cd_run_size_rest:
  assumes "dstate d = StSize" "sawSizeDigit d" "valid_ext e"
  shows "cd_run d (e @ crlf) out = (Ok, size_line_end d, out)"
proof (cases e)
  case Nil
  with assms show ?thesis by (simp add: crlf_def cd_step.simps)
next
  case (Cons c e')
  let ?d = "d\<lparr>dstate := StSizeExt\<rparr>"
  from assms Cons have e': "LF \<notin> set e'" and "cd_step d c = Inr (?d, [])"
    by (simp_all add: valid_ext_def cd_step.simps)
  with Cons have "cd_run d (e @ crlf) out = cd_run ?d (e' @ crlf) out" by simp
  also have "\<dots> = cd_run ?d crlf out"
    using e' by (simp add: cd_run_append cd_run_ext)
  also have "\<dots> = (Ok, size_line_end ?d, out)"
    using assms(2) by (simp add: crlf_def cd_step.simps)
  also have "size_line_end ?d = size_line_end d"
    by (simp add: size_line_end_def)
  finally show ?thesis .
qed

lemma cd_run_size_line:
  assumes "valid_ext e"
  shows "cd_run cd_reset (to_hex v @ e @ crlf) out =
           (Ok, size_line_end (cd_reset\<lparr>chunkSize := word_of_nat v, sawSizeDigit := True\<rparr>), out)"
  using cd_run_hex [of cd_reset "to_hex v" out] to_hex_hex [of v] assms
  by (simp add: cd_run_append [of _ "to_hex v"] cd_reset_def to_hex_not_Nil add_hex_to_hex
        cd_run_size_rest)

lemma cd_run_chunk:
  assumes "valid_chunk ep"
  shows "cd_run cd_reset (encode_chunk ep) out = (Ok, cd_reset, out @ snd ep)"
proof -
  obtain e p where ep: "ep = (e, p)" by fastforce
  let ?n = "word_of_nat (length p) :: size_t"
  let ?d = "size_line_end (cd_reset\<lparr>chunkSize := ?n, sawSizeDigit := True\<rparr>)"
  from assms ep have p: "p \<noteq> []" "length p < 2 ^ 32" and e: "valid_ext e"
    by (simp_all add: valid_chunk_def)
  then have n: "unat ?n = length p" by (simp add: unat_of_nat take_bit_nat_eq_self)
  with p have "?n \<noteq> 0" by (metis length_0_conv unat_0)
  then have d: "dstate ?d = StData" "remaining ?d = ?n"
    "?d\<lparr>remaining := 0, dstate := StDataCr\<rparr> = cd_reset\<lparr>dstate := StDataCr\<rparr>"
    by (simp_all add: size_line_end_def cd_reset_def)
  have "cd_run ?d p out = (Ok, cd_reset\<lparr>dstate := StDataCr\<rparr>, out @ p)"
    using cd_run_block [of ?d p out] d p n by simp
  moreover have "cd_run (cd_reset\<lparr>dstate := StDataCr\<rparr>) crlf out' = (Ok, cd_reset, out')" for out'
    by (simp add: crlf_def cd_step.simps cd_reset_def)
  ultimately show ?thesis
    using cd_run_size_line [OF e, of "length p" out]
      cd_run_append [of cd_reset "to_hex (length p) @ e @ crlf" "p @ crlf" out]
      cd_run_append [of ?d p crlf out]
    by (simp add: encode_chunk_def ep)
qed

lemma cd_run_chunks:
  "\<forall>ep\<in>set cs. valid_chunk ep \<Longrightarrow>
     cd_run cd_reset (concat (map encode_chunk cs)) out = (Ok, cd_reset, out @ concat (map snd cs))"
  by (induction cs arbitrary: out) (simp_all add: cd_run_append cd_run_chunk)

lemma cd_run_trailer_text:
  "dstate d = StTrailer \<Longrightarrow> CR \<notin> set t \<Longrightarrow> LF \<notin> set t \<Longrightarrow>
     cd_run d t out =
       (Ok, d\<lparr>trailerLineLen := trailerLineLen d + word_of_nat (length t)\<rparr>, out)"
  by (induction t arbitrary: d) (auto simp: cd_step.simps algebra_simps)

abbreviation in_trailer :: chunked_decoder where
  "in_trailer \<equiv> cd_reset\<lparr>dstate := StTrailer\<rparr>"

lemma cd_run_trailer:
  assumes "valid_trailer t"
  shows "cd_run in_trailer (t @ crlf) out = (Ok, in_trailer, out)"
proof -
  have "unat (word_of_nat (length t) :: size_t) = length t"
    using assms by (simp add: valid_trailer_def unat_of_nat take_bit_nat_eq_self)
  then have "(word_of_nat (length t) :: size_t) \<noteq> 0"
    using assms by (metis valid_trailer_def length_0_conv unat_0)
  with assms show ?thesis
    by (simp add: cd_run_append [of _ t] cd_run_trailer_text valid_trailer_def crlf_def
          cd_step.simps cd_reset_def)
qed

lemma cd_run_trailers:
  "\<forall>t\<in>set ts. valid_trailer t \<Longrightarrow>
     cd_run in_trailer (concat (map (\<lambda>t. t @ crlf) ts) @ crlf) out =
       (Ok, cd_reset\<lparr>dstate := StDone\<rparr>, out)"
proof (induction ts)
  case Nil
  then show ?case by (simp add: crlf_def cd_step.simps cd_reset_def)
next
  case (Cons t ts)
  then show ?case using cd_run_append [of in_trailer "t @ crlf"] cd_run_trailer by simp
qed

text \<open>A size line whose value is a multiple of \<open>2 ^ 32\<close>, zero included, starts the trailer.\<close>

lemma cd_run_zero_size:
  assumes "(word_of_nat v :: size_t) = 0"
  shows "cd_run cd_reset (to_hex v @ crlf) out = (Ok, in_trailer, out)"
  using cd_run_size_line [of "[]" v out] assms
  by (simp add: valid_ext_def size_line_end_def cd_reset_def)

lemma cd_run_encode:
  assumes "\<forall>ep\<in>set cs. valid_chunk ep" "\<forall>t\<in>set ts. valid_trailer t"
  shows "cd_run cd_reset (chunk_encode cs ts) out =
           (Ok, cd_reset\<lparr>dstate := StDone\<rparr>, out @ concat (map snd cs))"
proof -
  have "cd_run cd_reset (''0'' @ crlf) out' = (Ok, in_trailer, out')" for out'
    using cd_run_zero_size [of 0 out'] by (simp add: to_hex_def)
  then show ?thesis
    using assms cd_run_append [of cd_reset "''0'' @ crlf"]
    by (simp add: chunk_encode_def cd_run_append [of _ "concat (map encode_chunk cs)"]
          cd_run_chunks cd_run_trailers)
qed

section \<open>Properties\<close>

text \<open>Successive calls of \<open>feed\<close>, the caller stopping at the first error.\<close>

fun cd_feed_all :: "chunked_decoder \<Rightarrow> string list \<Rightarrow> string \<Rightarrow> status \<times> chunked_decoder \<times> string" where
  "cd_feed_all d [] out = (Ok, d, out)"
| "cd_feed_all d (p # ps) out =
     (case cd_feed d p out False of (s, d', out', dn) \<Rightarrow>
        if s = Ok then cd_feed_all d' ps out' else (s, d', out'))"

lemma cd_feed_all_run: "cd_inv d \<Longrightarrow> cd_feed_all d ps out = cd_run d (concat ps) out"
proof (induction ps arbitrary: d out)
  case Nil
  then show ?case by simp
next
  case (Cons p ps)
  obtain s d' out' where r: "cd_run d p out = (s, d', out')" by (metis prod_cases3)
  with Cons.prems have "cd_inv d'" using cd_run_inv by blast
  with Cons.IH [of d' out'] Cons.prems r show ?case by (simp add: cd_feed_run cd_run_append)
qed

text \<open>C6: however a body is cut into reads, the decoder's verdict, its state and the bytes it
  produces are those of the whole body fed at once, malformed bodies included.\<close>

theorem feed_pieces_equal_whole:
  assumes "cd_inv d"
  shows "cd_feed_all d ps out =
    (case cd_feed d (concat ps) out False of (s, d', out', dn) \<Rightarrow> (s, d', out'))"
  using assms by (simp add: cd_feed_all_run cd_feed_run split: prod.split)

theorem feed_pieces_equal_whole_witness:
  "cd_feed_all cd_reset [''3'', crlf @ ''a'', ''bc'' @ crlf] [] =
    (case cd_feed cd_reset (concat [''3'', crlf @ ''a'', ''bc'' @ crlf]) [] False of
       (s, d', out', dn) \<Rightarrow> (s, d', out'))"
  by (rule feed_pieces_equal_whole) simp

text \<open>C5: decoding a chunked body (any chunks with extensions, any trailer fields), delivered in
  any pieces, returns exactly the concatenated chunk payloads and ends in the done state.\<close>

theorem chunked_roundtrip:
  assumes "\<forall>ep\<in>set cs. valid_chunk ep" "\<forall>t\<in>set ts. valid_trailer t"
    and "concat ps = chunk_encode cs ts"
  shows "cd_feed_all cd_reset ps out = (Ok, cd_reset\<lparr>dstate := StDone\<rparr>, out @ concat (map snd cs))"
  using cd_run_encode [OF assms(1,2), of out] assms(3) by (simp add: cd_feed_all_run)

theorem chunked_roundtrip_witness:
  "cd_feed_all cd_reset
     [take 4 (chunk_encode [('';x'', ''hello''), ('''', ''!'')] [''A: b'']),
      drop 4 (chunk_encode [('';x'', ''hello''), ('''', ''!'')] [''A: b''])] [] =
   (Ok, cd_reset\<lparr>dstate := StDone\<rparr>, ''hello!'')"
  using chunked_roundtrip [of "[('';x'', ''hello''), ('''', ''!'')]" "[''A: b'']"
    "[take 4 (chunk_encode [('';x'', ''hello''), ('''', ''!'')] [''A: b'']),
      drop 4 (chunk_encode [('';x'', ''hello''), ('''', ''!'')] [''A: b''])]" "[]"]
  by (simp add: valid_chunk_def valid_trailer_def valid_ext_def)

text \<open>the size accumulator wraps at \<open>2^32\<close>: a chunk whose size is a multiple of \<open>2^32\<close> is
  taken for the final chunk, so what follows it is read as trailer fields and the body ends.\<close>

theorem oversized_chunk_ends_body:
  "cd_feed cd_reset (to_hex (2 ^ 32 * k) @ crlf @ crlf) out False =
     (Ok, cd_reset\<lparr>dstate := StDone\<rparr>, out, True)"
proof -
  have "(word_of_nat (2 ^ 32 * k) :: size_t) = 0"
    by (simp only: word_of_nat_eq_0_iff) simp
  from cd_run_zero_size [OF this, of out] cd_run_trailers [of "[]" out]
  have "cd_run cd_reset ((to_hex (2 ^ 32 * k) @ crlf) @ crlf) out =
      (Ok, cd_reset\<lparr>dstate := StDone\<rparr>, out)"
    by (simp add: cd_run_append del: append_assoc)
  then show ?thesis by (simp add: cd_feed_run)
qed

end
