(* ===== verification/Sse_Parser.thy ===== *)
theory Sse_Parser
  imports Core_Errors
begin

text \<open>
  The incremental Server-Sent Events parser, \<open>transport/SseParser.{h,cpp}\<close>.  The handler calls of
  \<open>feed\<close> are modelled by the list of events, in the order the handler receives them.  Proved: the
  parser is insensitive to how the bytes are split, works line by line for both line endings, and
  recovers every message of a serialized stream.
\<close>

section \<open>State and operations\<close>

record sse_event =
  ev_event :: string
  ev_data :: string
  ev_id :: string

record sse_parser =
  lineBuf :: string
  eventType :: string
  dataBuf :: string
  lastId :: string
  sawData :: bool

definition sse_reset :: sse_parser where
  "sse_reset = \<lparr>lineBuf = [], eventType = [], dataBuf = [], lastId = [], sawData = False\<rparr>"

definition sse_dispatch :: "sse_parser \<Rightarrow> sse_parser \<times> sse_event list" where
  "sse_dispatch p =
     (if \<not> sawData p then (p\<lparr>eventType := []\<rparr>, [])
      else
        (let ev = \<lparr>ev_event = (if eventType p = [] then ''message'' else eventType p),
                   ev_data = (if dataBuf p \<noteq> [] \<and> last (dataBuf p) = LF
                              then butlast (dataBuf p) else dataBuf p),
                   ev_id = lastId p\<rparr>
         in (p\<lparr>eventType := [], dataBuf := [], sawData := False\<rparr>, [ev])))"

text \<open>The split of a line into field and value, with the one optional space dropped.\<close>

definition split_field :: "string \<Rightarrow> string \<times> string" where
  "split_field line =
     (case str_find_char line (CHR '':'') 0 of
        None \<Rightarrow> (line, [])
      | Some colon \<Rightarrow>
          (let value = substr_from line (colon + 1)
           in (substr line 0 colon,
               if value \<noteq> [] \<and> hd value = CHR '' '' then tl value else value)))"

definition set_field :: "sse_parser \<Rightarrow> string \<Rightarrow> string \<Rightarrow> sse_parser" where
  "set_field p field value =
     (if field = ''event'' then p\<lparr>eventType := value\<rparr>
      else if field = ''data'' then p\<lparr>dataBuf := dataBuf p @ value @ [LF], sawData := True\<rparr>
      else if field = ''id'' then
        (if CHR 0x00 \<in> set value then p else p\<lparr>lastId := value\<rparr>)
      else p)"

definition processLine :: "sse_parser \<Rightarrow> string \<Rightarrow> sse_parser \<times> sse_event list" where
  "processLine p line =
     (if line = [] then sse_dispatch p
      else if hd line = CHR '':'' then (p, [])
      else (let (field, value) = split_field line in (set_field p field value, [])))"

definition strip_cr :: "string \<Rightarrow> string" where
  "strip_cr line = (if line \<noteq> [] \<and> last line = CR then butlast line else line)"

fun sse_feed :: "sse_parser \<Rightarrow> string \<Rightarrow> sse_parser \<times> sse_event list" where
  "sse_feed p [] = (p, [])"
| "sse_feed p (c # cs) =
     (if c = LF then
        (let (p1, evs1) = processLine p (strip_cr (lineBuf p));
             (p2, evs2) = sse_feed (p1\<lparr>lineBuf := []\<rparr>) cs
         in (p2, evs1 @ evs2))
      else sse_feed (p\<lparr>lineBuf := lineBuf p @ [c]\<rparr>) cs)"

section \<open>Feeding in pieces and line by line\<close>

lemma sse_feed_append [str_simps]:
  "sse_feed p (a @ b) =
     (let (p1, evs1) = sse_feed p a; (p2, evs2) = sse_feed p1 b in (p2, evs1 @ evs2))"
  by (induction p a rule: sse_feed.induct) (auto simp: Let_def split: prod.splits)

lemma sse_feed_text:
  "LF \<notin> set s \<Longrightarrow> sse_feed p s = (p\<lparr>lineBuf := lineBuf p @ s\<rparr>, [])"
  by (induction s arbitrary: p) auto

definition eol_ok :: "string \<Rightarrow> bool" where
  "eol_ok eol \<longleftrightarrow> eol = [LF] \<or> eol = [CR, LF]"

lemma strip_cr_text: "CR \<notin> set s \<Longrightarrow> strip_cr s = s \<and> strip_cr (s @ [CR]) = s"
  by (metis butlast_snoc last_in_set snoc_eq_iff_butlast strip_cr_def)

text \<open>\<open>processLine\<close> neither reads nor writes the line buffer.\<close>

lemma processLine_lineBuf:
  "processLine (p\<lparr>lineBuf := b\<rparr>) line =
     (let (p1, evs) = processLine p line in (p1\<lparr>lineBuf := b\<rparr>, evs))"
  by (simp add: processLine_def sse_dispatch_def set_field_def Let_def split: prod.split)

lemma sse_feed_lf:
  "LF \<notin> set s \<Longrightarrow> lineBuf p = [] \<Longrightarrow>
     sse_feed p (s @ [LF]) =
       (let (p1, evs) = processLine p (strip_cr s) in (p1\<lparr>lineBuf := []\<rparr>, evs))"
  by (simp add: sse_feed_append sse_feed_text processLine_lineBuf Let_def split: prod.split)

text \<open>A whole line, whichever line ending closes it, is one \<open>processLine\<close>.\<close>

lemma sse_feed_line:
  assumes "eol_ok eol" "LF \<notin> set line" "CR \<notin> set line" "lineBuf p = []"
  shows "sse_feed p (line @ eol) =
           (let (p1, evs) = processLine p line in (p1\<lparr>lineBuf := []\<rparr>, evs))"
  using assms sse_feed_lf [of line p] sse_feed_lf [of "line @ [CR]" p] strip_cr_text [of line]
  by (auto simp: eol_ok_def)

section \<open>Serialized messages\<close>

text \<open>
  A message of an event stream: its type, an optional id, and its data lines.  \<open>sse_encode\<close> writes
  it in the wire format; \<open>sse_expect\<close> is what a conforming client reports, the id persisting
  from message to message.
\<close>

record sse_msg =
  m_type :: string
  m_id :: "string option"
  m_lines :: "string list"

definition line_ok :: "string \<Rightarrow> bool" where
  "line_ok s \<longleftrightarrow> CR \<notin> set s \<and> LF \<notin> set s"

definition msg_ok :: "sse_msg \<Rightarrow> bool" where
  "msg_ok m \<longleftrightarrow> line_ok (m_type m) \<and> m_lines m \<noteq> [] \<and> (\<forall>l\<in>set (m_lines m). line_ok l) \<and>
     (case m_id m of None \<Rightarrow> True | Some i \<Rightarrow> line_ok i \<and> CHR 0x00 \<notin> set i)"

definition msg_fields :: "sse_msg \<Rightarrow> (string \<times> string) list" where
  "msg_fields m =
     (''event'', m_type m) #
     (case m_id m of None \<Rightarrow> [] | Some i \<Rightarrow> [(''id'', i)]) @
     map (\<lambda>l. (''data'', l)) (m_lines m)"

definition field_line :: "string \<times> string \<Rightarrow> string" where
  "field_line fv = fst fv @ '': '' @ snd fv"

definition sse_encode :: "string \<Rightarrow> sse_msg \<Rightarrow> string" where
  "sse_encode eol m = concat (map (\<lambda>fv. field_line fv @ eol) (msg_fields m)) @ eol"

definition join_lines :: "string list \<Rightarrow> string" where
  "join_lines ls = concat (map (\<lambda>l. l @ [LF]) (butlast ls)) @ last ls"

definition next_id :: "string \<Rightarrow> sse_msg \<Rightarrow> string" where
  "next_id lid m = (case m_id m of None \<Rightarrow> lid | Some i \<Rightarrow> i)"

fun sse_expect :: "string \<Rightarrow> sse_msg list \<Rightarrow> sse_event list" where
  "sse_expect lid [] = []"
| "sse_expect lid (m # ms) =
     \<lparr>ev_event = (if m_type m = [] then ''message'' else m_type m),
      ev_data = join_lines (m_lines m), ev_id = next_id lid m\<rparr> # sse_expect (next_id lid m) ms"

lemma split_field_line:
  "CHR '':'' \<notin> set f \<Longrightarrow> split_field (field_line (f, v)) = (f, v)"
  using find_char_idx_append [of "CHR '':''" f "CHR '' '' # v"]
  by (simp add: split_field_def field_line_def str_find_char_def substr_def substr_from_def)

lemma processLine_field:
  assumes "CHR '':'' \<notin> set f" "f \<noteq> []"
  shows "processLine p (field_line (f, v)) = (set_field p f v, [])"
proof -
  from assms have "hd (field_line (f, v)) \<noteq> CHR '':'' \<and> field_line (f, v) \<noteq> []"
    by (cases f) (auto simp: field_line_def)
  with assms show ?thesis by (simp add: processLine_def split_field_line)
qed

definition field_ok :: "string \<times> string \<Rightarrow> bool" where
  "field_ok fv \<longleftrightarrow> fst fv \<noteq> [] \<and> CHR '':'' \<notin> set (fst fv) \<and> line_ok (fst fv) \<and> line_ok (snd fv)"

lemma set_field_lineBuf [simp]: "lineBuf (set_field p f v) = lineBuf p"
  by (simp add: set_field_def)

lemma set_field_simps [str_simps]:
  "set_field p ''event'' v = p\<lparr>eventType := v\<rparr>"
  "set_field p ''data'' v = p\<lparr>dataBuf := dataBuf p @ v @ [LF], sawData := True\<rparr>"
  "CHR 0x00 \<notin> set v \<Longrightarrow> set_field p ''id'' v = p\<lparr>lastId := v\<rparr>"
  by (simp_all add: set_field_def)

lemma sse_feed_fields:
  assumes "eol_ok eol"
  shows "\<forall>fv\<in>set fvs. field_ok fv \<Longrightarrow> lineBuf p = [] \<Longrightarrow>
    sse_feed p (concat (map (\<lambda>fv. field_line fv @ eol) fvs)) =
      (fold (\<lambda>(f, v) p. set_field p f v) fvs p, [])"
proof (induction fvs arbitrary: p)
  case Nil
  then show ?case by simp
next
  case (Cons fv fvs)
  obtain f v where fv: "fv = (f, v)" by fastforce
  from Cons.prems(1) fv have ok: "f \<noteq> []" "CHR '':'' \<notin> set f" "line_ok f" "line_ok v"
    by (simp_all add: field_ok_def)
  then have "LF \<notin> set (field_line (f, v))" "CR \<notin> set (field_line (f, v))"
    by (auto simp: field_line_def line_ok_def)
  from sse_feed_line [OF assms this Cons.prems(2)] ok Cons.prems(2)
  have "sse_feed p (field_line fv @ eol) = (set_field p f v, [])"
    by (simp add: fv processLine_field)
  moreover have "sse_feed (set_field p f v) (concat (map (\<lambda>fv. field_line fv @ eol) fvs)) =
      (fold (\<lambda>(f, v) p. set_field p f v) fvs (set_field p f v), [])"
    using Cons by simp
  ultimately show ?case
    using sse_feed_append [of p "field_line fv @ eol"] by (simp add: fv)
qed

lemma fold_data_lines:
  "fold (\<lambda>(f, v) p. set_field p f v) (map (Pair ''data'') ls) p =
     p\<lparr>dataBuf := dataBuf p @ concat (map (\<lambda>l. l @ [LF]) ls), sawData := (sawData p \<or> ls \<noteq> [])\<rparr>"
  by (induction ls arbitrary: p) (simp_all add: set_field_simps)

lemma concat_lines_join:
  "ls \<noteq> [] \<Longrightarrow> concat (map (\<lambda>l. l @ [LF]) ls) = join_lines ls @ [LF]"
  by (induction ls) (auto simp: join_lines_def)

lemma msg_fields_ok: "msg_ok m \<Longrightarrow> \<forall>fv\<in>set (msg_fields m). field_ok fv"
  by (auto simp: msg_ok_def msg_fields_def field_ok_def line_ok_def split: option.splits)

lemma fold_msg_fields:
  assumes "msg_ok m"
  shows "fold (\<lambda>(f, v) p. set_field p f v) (msg_fields m) (sse_reset\<lparr>lastId := lid\<rparr>) =
    \<lparr>lineBuf = [], eventType = m_type m, dataBuf = join_lines (m_lines m) @ [LF],
     lastId = next_id lid m, sawData = True\<rparr>"
  using assms
  by (auto simp: msg_fields_def msg_ok_def fold_data_lines concat_lines_join set_field_simps
        sse_reset_def next_id_def split: option.splits)

lemma sse_feed_msg:
  assumes "eol_ok eol" "msg_ok m"
  shows "sse_feed (sse_reset\<lparr>lastId := lid\<rparr>) (sse_encode eol m) =
    (sse_reset\<lparr>lastId := next_id lid m\<rparr>, sse_expect lid [m])"
proof -
  let ?q = "\<lparr>lineBuf = [], eventType = m_type m, dataBuf = join_lines (m_lines m) @ [LF],
             lastId = next_id lid m, sawData = True\<rparr>"
  have "sse_feed (sse_reset\<lparr>lastId := lid\<rparr>)
          (concat (map (\<lambda>fv. field_line fv @ eol) (msg_fields m))) = (?q, [])"
    using sse_feed_fields [OF assms(1) msg_fields_ok [OF assms(2)]] fold_msg_fields [OF assms(2)]
    by (simp add: sse_reset_def)
  moreover have "sse_feed ?q eol = (sse_reset\<lparr>lastId := next_id lid m\<rparr>, sse_expect lid [m])"
    using sse_feed_line [OF assms(1), of "[]" ?q]
    by (simp add: processLine_def sse_dispatch_def sse_reset_def)
  ultimately show ?thesis by (simp add: sse_encode_def sse_feed_append)
qed

lemma sse_feed_msgs:
  assumes "eol_ok eol"
  shows "\<forall>m\<in>set ms. msg_ok m \<Longrightarrow>
    sse_feed (sse_reset\<lparr>lastId := lid\<rparr>) (concat (map (sse_encode eol) ms)) =
      (sse_reset\<lparr>lastId := fold (\<lambda>m l. next_id l m) ms lid\<rparr>, sse_expect lid ms)"
proof (induction ms arbitrary: lid)
  case Nil
  then show ?case by simp
next
  case (Cons m ms)
  then show ?case using sse_feed_msg [OF assms, of m lid] by (simp add: sse_feed_append)
qed

section \<open>Properties\<close>

fun sse_feed_all :: "sse_parser \<Rightarrow> string list \<Rightarrow> sse_parser \<times> sse_event list" where
  "sse_feed_all p [] = (p, [])"
| "sse_feed_all p (x # xs) =
     (let (p1, evs1) = sse_feed p x; (p2, evs2) = sse_feed_all p1 xs in (p2, evs1 @ evs2))"

lemma sse_feed_all_concat: "sse_feed_all p xs = sse_feed p (concat xs)"
  by (induction xs arbitrary: p) (simp_all add: sse_feed_append)

text \<open>the events the parser reports and the state it is left in do not depend on how the
  stream is cut into reads.\<close>

theorem sse_pieces_equal_whole: "sse_feed_all p xs = sse_feed p (concat xs)"
  by (rule sse_feed_all_concat)

text \<open>C36: parsing a serialized stream of messages, with LF or CRLF line ends and delivered in any
  pieces, reports exactly the messages sent: type (\<open>message\<close> by default), data lines joined by
  line feeds, and the last id seen so far.\<close>

theorem sse_roundtrip:
  assumes "eol_ok eol" "\<forall>m\<in>set ms. msg_ok m" "concat xs = concat (map (sse_encode eol) ms)"
  shows "snd (sse_feed_all sse_reset xs) = sse_expect [] ms"
  using sse_feed_msgs [OF assms(1,2), of "[]"] assms(3)
  by (simp add: sse_feed_all_concat sse_reset_def)

theorem sse_roundtrip_witness:
  "snd (sse_feed_all sse_reset
     [sse_encode crlf \<lparr>m_type = ''ping'', m_id = Some ''7'', m_lines = [''a'', ''b'']\<rparr>,
      sse_encode crlf \<lparr>m_type = [], m_id = None, m_lines = [''c'']\<rparr>]) =
   sse_expect [] [\<lparr>m_type = ''ping'', m_id = Some ''7'', m_lines = [''a'', ''b'']\<rparr>,
                  \<lparr>m_type = [], m_id = None, m_lines = [''c'']\<rparr>]"
  by (rule sse_roundtrip [where eol = crlf])
     (simp_all add: eol_ok_def crlf_def msg_ok_def line_ok_def)

end
