(* ===== verification/Http_Types.thy ===== *)
theory Http_Types
  imports Core_Errors
begin

text \<open>
  HTTP requests and responses (\<open>transport/HttpTypes.{h,cpp}\<close>), the request serializer
  (\<open>transport/HttpRequestBuilder.{h,cpp}\<close>) and the parser of a response's header block
  (\<open>parseHeaderBlock\<close> of \<open>transport/HttpClient.cpp\<close>).  Proved: header names form an equivalence
  and \<open>setHeader\<close>/\<open>header\<close> obey the map laws up to it, no value of a request can add a line or
  move the end of its head, the length line reads back as the body's length, and parsing a
  serialized response head returns its status, reason and headers.
\<close>

section \<open>Headers\<close>

type_synonym header = "string \<times> string"

definition headerNameEquals :: "string \<Rightarrow> string \<Rightarrow> bool" where
  "headerNameEquals a b \<longleftrightarrow>
     length a = length b \<and> list_all2 (\<lambda>x y. asciiLower x = asciiLower y) a b"

fun header_lookup :: "header list \<Rightarrow> string \<Rightarrow> string option" where
  "header_lookup [] name = None"
| "header_lookup (h # hs) name =
     (if headerNameEquals (fst h) name then Some (snd h) else header_lookup hs name)"

fun header_set :: "header list \<Rightarrow> string \<Rightarrow> string \<Rightarrow> header list" where
  "header_set [] name value = [(name, value)]"
| "header_set (h # hs) name value =
     (if headerNameEquals (fst h) name then (fst h, value) # hs
      else h # header_set hs name value)"

record http_request =
  rq_method :: string
  rq_host :: string
  rq_port :: u16
  rq_path :: string
  rq_headers :: "header list"
  rq_body :: string

definition empty_request :: http_request where
  "empty_request = \<lparr>rq_method = ''GET'', rq_host = [], rq_port = 443, rq_path = ''/'',
                    rq_headers = [], rq_body = []\<rparr>"

definition setHeader :: "http_request \<Rightarrow> string \<Rightarrow> string \<Rightarrow> http_request" where
  "setHeader req name value = req\<lparr>rq_headers := header_set (rq_headers req) name value\<rparr>"

definition addHeader :: "http_request \<Rightarrow> string \<Rightarrow> string \<Rightarrow> http_request" where
  "addHeader req name value = req\<lparr>rq_headers := rq_headers req @ [(name, value)]\<rparr>"

definition request_header :: "http_request \<Rightarrow> string \<Rightarrow> string option" where
  "request_header req name = header_lookup (rq_headers req) name"

record http_response =
  rs_status :: int
  rs_reason :: string
  rs_headers :: "header list"
  rs_body :: string

definition empty_response :: http_response where
  "empty_response = \<lparr>rs_status = 0, rs_reason = [], rs_headers = [], rs_body = []\<rparr>"

definition isSuccess :: "http_response \<Rightarrow> bool" where
  "isSuccess r \<longleftrightarrow> 200 \<le> rs_status r \<and> rs_status r < 300"

definition response_header :: "http_response \<Rightarrow> string \<Rightarrow> string option" where
  "response_header r name = header_lookup (rs_headers r) name"

lemma headerNameEquals_map: "headerNameEquals a b \<longleftrightarrow> map asciiLower a = map asciiLower b"
  by (auto simp: headerNameEquals_def list_all2_conv_all_nth list_eq_iff_nth_eq)

lemma headerNameEquals_refl [simp]: "headerNameEquals a a"
  by (simp add: headerNameEquals_map)

lemma headerNameEquals_sym: "headerNameEquals a b \<Longrightarrow> headerNameEquals b a"
  by (simp add: headerNameEquals_map)

lemma headerNameEquals_trans:
  "headerNameEquals a b \<Longrightarrow> headerNameEquals b c \<Longrightarrow> headerNameEquals a c"
  by (simp add: headerNameEquals_map)

lemma header_lookup_cong:
  "headerNameEquals a b \<Longrightarrow> header_lookup hs a = header_lookup hs b"
  by (induction hs) (auto simp: headerNameEquals_map)

lemma header_lookup_set:
  "header_lookup (header_set hs name value) n =
     (if headerNameEquals name n then Some value else header_lookup hs n)"
  by (induction hs) (auto simp: headerNameEquals_map)

lemma header_lookup_append:
  "header_lookup (hs @ hs') n =
     (case header_lookup hs n of None \<Rightarrow> header_lookup hs' n | Some v \<Rightarrow> Some v)"
  by (induction hs) auto

section \<open>Serializing a request\<close>

definition hasHeader :: "http_request \<Rightarrow> string \<Rightarrow> bool" where
  "hasHeader req name \<longleftrightarrow> request_header req name \<noteq> None"

definition stripCRLF :: "string \<Rightarrow> string" where
  "stripCRLF s =
     (if CR \<notin> set s \<and> LF \<notin> set s then s else filter (\<lambda>c. c \<noteq> CR \<and> c \<noteq> LF) s)"

definition serializeRequest :: "http_request \<Rightarrow> bool \<Rightarrow> string" where
  "serializeRequest req defaultKeepAlive =
     stripCRLF (rq_method req) @ '' '' @
     (if rq_path req = [] then ''/'' else stripCRLF (rq_path req)) @ '' HTTP/1.1'' @ crlf @
     (if \<not> hasHeader req ''Host'' then ''Host: '' @ stripCRLF (rq_host req) @ crlf else []) @
     concat (map (\<lambda>h. stripCRLF (fst h) @ '': '' @ stripCRLF (snd h) @ crlf) (rq_headers req)) @
     (let chunked = hasHeader req ''Transfer-Encoding''
      in if rq_body req \<noteq> [] \<and> \<not> hasHeader req ''Content-Length'' \<and> \<not> chunked
         then ''Content-Length: '' @ toDecimal (length (rq_body req)) @ crlf else []) @
     (if \<not> hasHeader req ''Connection''
      then (if defaultKeepAlive then ''Connection: keep-alive'' else ''Connection: close'') @ crlf
      else []) @
     crlf @ rq_body req"

text \<open>
  What a server reads: the text up to the first empty line, cut into lines.  \<open>request_lines\<close> lists
  the lines the request stands for.
\<close>

definition clean_line :: "string \<Rightarrow> bool" where
  "clean_line l \<longleftrightarrow> l \<noteq> [] \<and> CR \<notin> set l \<and> LF \<notin> set l"

definition wire_lines :: "string list \<Rightarrow> string" where
  "wire_lines ls = concat (map (\<lambda>l. l @ crlf) ls)"

definition length_line :: "http_request \<Rightarrow> string list" where
  "length_line req =
     (if rq_body req \<noteq> [] \<and> \<not> hasHeader req ''Content-Length''
         \<and> \<not> hasHeader req ''Transfer-Encoding''
      then [''Content-Length: '' @ toDecimal (length (rq_body req))] else [])"

definition request_lines :: "http_request \<Rightarrow> bool \<Rightarrow> string list" where
  "request_lines req ka =
     [stripCRLF (rq_method req) @ '' '' @
      (if rq_path req = [] then ''/'' else stripCRLF (rq_path req)) @ '' HTTP/1.1''] @
     (if hasHeader req ''Host'' then [] else [''Host: '' @ stripCRLF (rq_host req)]) @
     map (\<lambda>h. stripCRLF (fst h) @ '': '' @ stripCRLF (snd h)) (rq_headers req) @
     length_line req @
     (if hasHeader req ''Connection'' then []
      else [if ka then ''Connection: keep-alive'' else ''Connection: close''])"

lemma set_stripCRLF: "set (stripCRLF s) = set s - {CR, LF}"
  by (auto simp: stripCRLF_def)

lemma clean_digits: "CR \<notin> set (toDecimal n)" "LF \<notin> set (toDecimal n)"
  using toDecimal_digits [of n] by (auto simp: is_digit_def char_code_def)

lemma request_lines_clean: "\<forall>l\<in>set (request_lines req ka). clean_line l"
  by (auto simp: request_lines_def length_line_def clean_line_def set_stripCRLF clean_digits)

lemma wire_lines_simps [str_simps]:
  "wire_lines [] = []"
  "wire_lines (l # ls) = l @ crlf @ wire_lines ls"
  "wire_lines (ls @ ls') = wire_lines ls @ wire_lines ls'"
  by (simp_all add: wire_lines_def)

lemma serializeRequest_lines:
  "serializeRequest req ka = wire_lines (request_lines req ka) @ crlf @ rq_body req"
proof -
  have "wire_lines (map (\<lambda>h. stripCRLF (fst h) @ '': '' @ stripCRLF (snd h)) hs) =
      concat (map (\<lambda>h. stripCRLF (fst h) @ '': '' @ stripCRLF (snd h) @ crlf) hs)" for hs
    by (induction hs) (simp_all add: wire_lines_simps)
  then show ?thesis
    by (simp add: serializeRequest_def request_lines_def length_line_def wire_lines_simps)
qed

text \<open>The first empty line of a text made of clean lines is the one after the last line.\<close>

definition crlf2 :: string where
  "crlf2 = [CR, LF, CR, LF]"

lemma find_idx_skip:
  assumes "CR \<notin> set l"
  shows "find_idx (CR # pat) (l @ s) = map_option (\<lambda>k. length l + k) (find_idx (CR # pat) s)"
  using assms by (induction l; cases "find_idx (CR # pat) s") auto

lemma find_idx_crlf2_line:
  assumes "clean_line l"
  shows "find_idx crlf2 (crlf @ l @ s) = map_option (\<lambda>k. 2 + length l + k) (find_idx crlf2 s)"
proof -
  from assms obtain c l' where l: "l = c # l'" and "c \<noteq> CR"
    by (cases l) (auto simp: clean_line_def)
  then have "\<not> prefix crlf2 (crlf @ l @ s)" "\<not> prefix crlf2 (LF # l @ s)"
    by (simp_all add: crlf2_def crlf_def)
  then have "find_idx crlf2 (crlf @ l @ s) = map_option (\<lambda>k. Suc (Suc k)) (find_idx crlf2 (l @ s))"
    by (simp add: crlf_def option.map_comp comp_def)
  then show ?thesis
    using assms find_idx_skip [of l "[LF, CR, LF]" s]
    by (simp add: crlf2_def clean_line_def option.map_comp comp_def)
qed

lemma find_idx_crlf2_lines:
  "\<forall>l\<in>set ls. clean_line l \<Longrightarrow>
     find_idx crlf2 (crlf @ wire_lines ls @ crlf @ body) = Some (length (wire_lines ls))"
proof (induction ls)
  case Nil
  then show ?case by (simp add: wire_lines_simps crlf2_def crlf_def)
next
  case (Cons l ls)
  then show ?case
    by (simp add: wire_lines_simps find_idx_crlf2_line) (simp add: crlf_def)
qed

lemma find_crlf2_lines:
  assumes "\<forall>l\<in>set ls. clean_line l" "ls \<noteq> []"
  shows "find_idx crlf2 (wire_lines ls @ crlf @ body) = Some (length (wire_lines ls) - 2)"
proof -
  from assms obtain l ls' where ls: "ls = l # ls'" and l: "CR \<notin> set l"
    and ls': "\<forall>l\<in>set ls'. clean_line l"
    by (cases ls) (auto simp: clean_line_def)
  have "find_idx crlf2 (l @ crlf @ wire_lines ls' @ crlf @ body) =
      Some (length l + length (wire_lines ls'))"
    using find_idx_skip [OF l, of "[LF, CR, LF]"] find_idx_crlf2_lines [OF ls', of body]
    by (simp add: crlf2_def)
  then show ?thesis by (simp add: ls wire_lines_simps) (simp add: crlf_def)
qed

section \<open>Parsing a response's header block\<close>

text \<open>\<open>trim\<close> and \<open>containsCaseInsensitive\<close> of HttpClient.cpp.\<close>

definition is_blank :: "char \<Rightarrow> bool" where
  "is_blank c \<longleftrightarrow> c = CHR '' '' \<or> c = TAB"

definition http_trim :: "string \<Rightarrow> string" where
  "http_trim s = trim_by is_blank (\<lambda>c. is_blank c \<or> c = CR) s"

definition containsCaseInsensitive :: "string \<Rightarrow> string \<Rightarrow> bool" where
  "containsCaseInsensitive haystack needle \<longleftrightarrow>
     find_idx needle (map asciiLower haystack) \<noteq> None"

text \<open>
  The status code accumulates in an \<open>int\<close>; more than ten digits overflow it, modelled by the
  two's complement wrap-around of the supported targets.
\<close>

fun parse_status_code :: "32 word \<Rightarrow> string \<Rightarrow> 32 word option" where
  "parse_status_code code [] = Some code"
| "parse_status_code code (c # cs) =
     (if \<not> is_digit c then None
      else parse_status_code (code * 10 + word_of_nat (digit_val c)) cs)"

definition parse_header_line :: "string \<Rightarrow> header list" where
  "parse_header_line line =
     (case str_find_char line (CHR '':'') 0 of
        None \<Rightarrow> []
      | Some colon \<Rightarrow>
          [(http_trim (substr line 0 colon), http_trim (substr_from line (colon + 1)))])"

function parse_header_lines :: "string \<Rightarrow> nat \<Rightarrow> header list" where
  "parse_header_lines block lineStart =
     (if lineStart < length block then
        (let lineEnd = (case str_find block crlf lineStart of None \<Rightarrow> length block | Some e \<Rightarrow> e);
             line = substr block lineStart (lineEnd - lineStart)
         in if line = [] then []
            else parse_header_line line @ parse_header_lines block (lineEnd + 2))
      else [])"
  by pat_completeness auto
termination
  by (relation "measure (\<lambda>(block, lineStart). length block - lineStart)")
     (auto simp: str_find_def split: option.splits if_splits)

declare parse_header_lines.simps [simp del]

definition parseHeaderBlock :: "string \<Rightarrow> http_response \<Rightarrow> status \<times> http_response" where
  "parseHeaderBlock block out =
     (case str_find block crlf 0 of
        None \<Rightarrow> (HttpMalformed, out)
      | Some pos \<Rightarrow>
          (let statusLine = substr block 0 pos
           in case str_find_char statusLine (CHR '' '') 0 of
                None \<Rightarrow> (HttpMalformed, out)
              | Some sp1 \<Rightarrow>
                  (let sp2 = str_find_char statusLine (CHR '' '') (sp1 + 1);
                       codeEnd = (case sp2 of None \<Rightarrow> length statusLine | Some e \<Rightarrow> e);
                       codeStr = substr statusLine (sp1 + 1) (codeEnd - sp1 - 1)
                   in if length codeStr < 3 then (HttpMalformed, out)
                      else
                        (case parse_status_code 0 codeStr of
                           None \<Rightarrow> (HttpMalformed, out)
                         | Some code \<Rightarrow>
                             (Ok, out\<lparr>rs_status := sint code,
                                      rs_reason :=
                                        (case sp2 of
                                           None \<Rightarrow> []
                                         | Some e \<Rightarrow> http_trim (substr_from statusLine (e + 1))),
                                      rs_headers :=
                                        rs_headers out @ parse_header_lines block (pos + 2)\<rparr>)))))"

section \<open>Parsing a serialized head\<close>

definition trimmed :: "string \<Rightarrow> bool" where
  "trimmed s \<longleftrightarrow> s = [] \<or> (\<not> is_blank (hd s) \<and> \<not> is_blank (last s))"

definition header_ok :: "header \<Rightarrow> bool" where
  "header_ok h \<longleftrightarrow>
     fst h \<noteq> [] \<and> CHR '':'' \<notin> set (fst h) \<and> trimmed (fst h) \<and> trimmed (snd h) \<and>
     CR \<notin> set (fst h) \<and> LF \<notin> set (fst h) \<and> CR \<notin> set (snd h) \<and> LF \<notin> set (snd h)"

definition header_line :: "header \<Rightarrow> string" where
  "header_line h = fst h @ '': '' @ snd h"

definition status_line :: "nat \<Rightarrow> string \<Rightarrow> string" where
  "status_line code reason = ''HTTP/1.1 '' @ toDecimal code @ '' '' @ reason"

definition response_head :: "nat \<Rightarrow> string \<Rightarrow> header list \<Rightarrow> string" where
  "response_head code reason hs =
     wire_lines (status_line code reason # map header_line hs)"

definition reason_ok :: "string \<Rightarrow> bool" where
  "reason_ok r \<longleftrightarrow> trimmed r \<and> CR \<notin> set r \<and> LF \<notin> set r"

lemma http_trim_id: "trimmed s \<Longrightarrow> CR \<notin> set s \<Longrightarrow> http_trim s = s"
  unfolding http_trim_def trimmed_def
  by (cases "s = []") (auto intro!: trim_by_id dest: last_in_set)

lemma http_trim_space: "trimmed s \<Longrightarrow> CR \<notin> set s \<Longrightarrow> http_trim (CHR '' '' # s) = s"
  using http_trim_id [of s] by (simp add: http_trim_def trim_by_def is_blank_def)

lemma parse_header_line_ok: "header_ok h \<Longrightarrow> parse_header_line (header_line h) = [h]"
  using find_char_idx_append [of "CHR '':''" "fst h" "CHR '' '' # snd h"]
  by (simp add: parse_header_line_def header_line_def str_find_char_def substr_def
        substr_from_def header_ok_def http_trim_id http_trim_space)

lemma header_line_clean: "header_ok h \<Longrightarrow> clean_line (header_line h)"
  by (auto simp: header_ok_def header_line_def clean_line_def)

lemma find_crlf_line: "CR \<notin> set l \<Longrightarrow> find_idx crlf (l @ crlf @ s) = Some (length l)"
  using find_idx_skip [of l "[LF]" "crlf @ s"] by (simp add: crlf_def)

lemma parse_header_lines_wire:
  "\<forall>l\<in>set ls. clean_line l \<Longrightarrow> i \<le> length block \<Longrightarrow> drop i block = wire_lines ls \<Longrightarrow>
     parse_header_lines block i = concat (map parse_header_line ls)"
proof (induction ls arbitrary: i)
  case Nil
  then show ?case by (simp add: wire_lines_simps parse_header_lines.simps)
next
  case (Cons l ls)
  let ?j = "i + length l"
  from Cons.prems have d: "drop i block = l @ crlf @ wire_lines ls" and l: "CR \<notin> set l" "l \<noteq> []"
    by (simp_all add: wire_lines_simps clean_line_def)
  from d l(2) have i: "i < length block" by (metis append_is_Nil_conv drop_eq_Nil not_le)
  have "str_find block crlf i = Some ?j"
    using i d find_crlf_line [OF l(1)] by (simp add: str_find_def)
  moreover have "substr block i (length l) = l" by (simp add: substr_def d)
  ultimately have step: "parse_header_lines block i =
      parse_header_line l @ parse_header_lines block (?j + 2)"
    using i l(2) by (simp add: parse_header_lines.simps [of block i])
  have "drop (?j + 2) block = drop (length l + 2) (drop i block)"
    by (simp add: add.commute add.left_commute)
  then have "drop (?j + 2) block = wire_lines ls" by (simp add: d crlf_def)
  moreover have "length (drop i block) = length l + 2 + length (wire_lines ls)"
    by (simp add: d crlf_def)
  then have "?j + 2 \<le> length block" using i by simp
  ultimately show ?case using Cons step by simp
qed

lemma parse_status_code_digits:
  "\<forall>c\<in>set cs. is_digit c \<Longrightarrow>
     parse_status_code (word_of_nat a) cs = Some (word_of_nat (parse_digits a cs))"
proof (induction cs arbitrary: a)
  case Nil
  then show ?case by simp
next
  case (Cons c cs)
  then show ?case using Cons.IH [of "a * 10 + digit_val c"] by simp
qed

lemma length_toDecimal3: "100 \<le> n \<Longrightarrow> 3 \<le> length (toDecimal n)"
  using less_power_length_toDecimal [of n]
    power_increasing [of "length (toDecimal n)" 2 "10 :: nat"]
  by (cases "length (toDecimal n) \<le> 2") simp_all

text \<open>The status line and the headers of a serialized head are read back exactly.\<close>

lemma parseHeaderBlock_head:
  assumes "100 \<le> code" "code < 2 ^ 31" "reason_ok reason" "\<forall>h\<in>set hs. header_ok h"
  shows "parseHeaderBlock (response_head code reason hs) out =
    (Ok, out\<lparr>rs_status := int code, rs_reason := reason, rs_headers := rs_headers out @ hs\<rparr>)"
proof -
  let ?v = "''HTTP/1.1''" and ?sl = "status_line code reason"
  let ?block = "response_head code reason hs"
  have nocr: "CR \<notin> set ?sl"
    using assms(3) by (simp add: status_line_def reason_ok_def clean_digits)
  have block: "?block = ?sl @ crlf @ wire_lines (map header_line hs)"
    by (simp add: response_head_def wire_lines_simps)
  have pos: "str_find ?block crlf 0 = Some (length ?sl)"
    using find_crlf_line [OF nocr] by (simp add: block str_find_def)
  have sl: "substr ?block 0 (length ?sl) = ?sl" by (simp add: block substr_def)
  have sp1: "str_find_char ?sl (CHR '' '') 0 = Some 8"
    by (simp add: status_line_def str_find_char_def)
  have nosp: "CHR '' '' \<notin> set (toDecimal code)"
    using toDecimal_digits [of code] by (auto simp: is_digit_def char_code_def)
  have "drop 9 ?sl = toDecimal code @ CHR '' '' # reason" by (simp add: status_line_def)
  then have sp2: "str_find_char ?sl (CHR '' '') 9 = Some (9 + length (toDecimal code))"
    and codeStr: "substr ?sl 9 (length (toDecimal code)) = toDecimal code"
    and rest: "substr_from ?sl (10 + length (toDecimal code)) = reason"
    using find_char_idx_append [OF nosp, of reason] drop_drop [of "Suc (length (toDecimal code))" 9 ?sl]
    by (simp_all add: str_find_char_def substr_def substr_from_def)
  have "sint (word_of_nat code :: 32 word) = int code"
    using assms(2) by (simp add: signed_of_nat signed_take_bit_int_eq_self)
  moreover have "parse_status_code 0 (toDecimal code) = Some (word_of_nat code)"
    using parse_status_code_digits [OF toDecimal_digits, of 0 code] by (simp add: parse_toDecimal)
  moreover have "parse_header_lines ?block (length ?sl + 2) = hs"
  proof -
    have "parse_header_lines ?block (length ?sl + 2) =
        concat (map parse_header_line (map header_line hs))"
      using assms(4) by (intro parse_header_lines_wire) (auto simp: header_line_clean block crlf_def)
    also have "\<dots> = hs"
      using assms(4) by (induction hs) (simp_all add: parse_header_line_ok)
    finally show ?thesis .
  qed
  moreover have "http_trim reason = reason"
    using assms(3) by (simp add: reason_ok_def http_trim_id)
  ultimately show ?thesis
    using length_toDecimal3 [OF assms(1)]
    by (simp add: parseHeaderBlock_def pos sl sp1 sp2 codeStr rest Let_def)
qed

section \<open>Properties\<close>

text \<open>C35: whatever the method, path, host and header values contain, the head of a serialized
  request consists of the intended lines only: none of them is empty or holds a CR or LF, and the
  first empty line is the one in front of the body.\<close>

theorem no_header_injection:
  "list_all clean_line (request_lines req ka) \<and>
   serializeRequest req ka = wire_lines (request_lines req ka) @ crlf @ rq_body req \<and>
   find_idx crlf2 (serializeRequest req ka) = Some (length (wire_lines (request_lines req ka)) - 2)"
  using request_lines_clean [of req ka] find_crlf2_lines [of "request_lines req ka" "rq_body req"]
  by (simp add: serializeRequest_lines list_all_iff) (simp add: request_lines_def)

text \<open>the length line written for a body reads back, digit by digit, as the body's length.\<close>

theorem content_length_reads_back:
  assumes "rq_body req \<noteq> []" "\<not> hasHeader req ''Content-Length''"
    "\<not> hasHeader req ''Transfer-Encoding''"
  shows "\<exists>digits. ''Content-Length: '' @ digits \<in> set (request_lines req ka) \<and>
    parse_digits 0 digits = length (rq_body req)"
  using assms parse_toDecimal [of "length (rq_body req)"]
  by (auto simp: request_lines_def length_line_def)

theorem content_length_reads_back_witness:
  "\<exists>digits. ''Content-Length: '' @ digits \<in>
      set (request_lines (empty_request\<lparr>rq_body := ''{}''\<rparr>) True) \<and>
    parse_digits 0 digits = length (rq_body (empty_request\<lparr>rq_body := ''{}''\<rparr>))"
  by (rule content_length_reads_back)
     (simp_all add: empty_request_def hasHeader_def request_header_def)

text \<open>\<open>setHeader\<close> and \<open>header\<close> form a map up to the case of the name: the value set is found
  under every spelling of the name, other names are unaffected.\<close>

theorem set_header_lookup:
  "request_header (setHeader req name value) n =
     (if headerNameEquals name n then Some value else request_header req n)"
  by (simp add: request_header_def setHeader_def header_lookup_set)

text \<open>parsing the head of a response returns its status code, reason phrase and headers, in
  order.\<close>

theorem response_head_roundtrip:
  assumes "100 \<le> code" "code < 2 ^ 31" "reason_ok reason" "\<forall>h\<in>set hs. header_ok h"
  shows "parseHeaderBlock (response_head code reason hs) empty_response =
    (Ok, \<lparr>rs_status = int code, rs_reason = reason, rs_headers = hs, rs_body = []\<rparr>)"
  using parseHeaderBlock_head [OF assms, of empty_response] by (simp add: empty_response_def)

theorem response_head_roundtrip_witness:
  "parseHeaderBlock (response_head 404 ''Not Found'' [(''Retry-After'', ''3''), (''X'', [])])
     empty_response =
   (Ok, \<lparr>rs_status = int 404, rs_reason = ''Not Found'',
         rs_headers = [(''Retry-After'', ''3''), (''X'', [])], rs_body = []\<rparr>)"
  by (rule response_head_roundtrip)
     (simp_all add: reason_ok_def header_ok_def trimmed_def is_blank_def)

end
