(* ===== verification/Std_Map.thy ===== *)
theory Std_Map
  imports Edge_Prelude
begin

text \<open>
  \<open>std::map<K, V>\<close> as the association list its iteration visits: strictly ascending keys.  The
  collection \<open>map_simps\<close> gives the value of \<open>find\<close> after every update, the preserved order, and
  the sizes; \<open>smap_eqI\<close> says a map is determined by its lookups.
\<close>

type_synonym ('k, 'v) smap = "('k \<times> 'v) list"

definition smap_ok :: "('k::linorder, 'v) smap \<Rightarrow> bool" where
  "smap_ok m \<longleftrightarrow> sorted_wrt (<) (map fst m)"

abbreviation smap_find :: "('k, 'v) smap \<Rightarrow> 'k \<Rightarrow> 'v option" where
  "smap_find m \<equiv> map_of m"

fun smap_insert :: "'k::linorder \<Rightarrow> 'v \<Rightarrow> ('k, 'v) smap \<Rightarrow> ('k, 'v) smap" where
  "smap_insert k v [] = [(k, v)]"
| "smap_insert k v (e # m) =
     (if k < fst e then (k, v) # e # m
      else if k = fst e then (k, v) # m
      else e # smap_insert k v m)"

definition smap_erase :: "'k \<Rightarrow> ('k, 'v) smap \<Rightarrow> ('k, 'v) smap" where
  "smap_erase k m = filter (\<lambda>e. fst e \<noteq> k) m"

lemma smap_ok_Nil [simp]: "smap_ok []"
  by (simp add: smap_ok_def)

lemma smap_ok_Cons: "smap_ok (e # m) \<longleftrightarrow> (\<forall>x\<in>set m. fst e < fst x) \<and> smap_ok m"
  by (simp add: smap_ok_def)

lemma smap_find_insert [map_simps]:
  "smap_ok m \<Longrightarrow> smap_find (smap_insert k v m) = (smap_find m)(k \<mapsto> v)"
proof (induction m)
  case Nil
  then show ?case by auto
next
  case (Cons e m)
  then show ?case by (cases e) (auto simp: smap_ok_Cons fun_eq_iff)
qed

lemma set_smap_insert: "set (smap_insert k v m) \<subseteq> insert (k, v) (set m)"
  by (induction m) auto

lemma fst_smap_insert: "fst ` set (smap_insert k v m) = insert k (fst ` set m)"
  by (induction m) auto

lemma smap_ok_insert [map_simps]: "smap_ok m \<Longrightarrow> smap_ok (smap_insert k v m)"
proof (induction m)
  case Nil
  then show ?case by (simp add: smap_ok_def)
next
  case (Cons e m)
  from Cons have IH: "smap_ok (smap_insert k v m)" by (simp add: smap_ok_Cons)
  show ?case
  proof (cases "fst e < k")
    case True
    then have "\<forall>x\<in>set (smap_insert k v m). fst e < fst x"
      using set_smap_insert [of k v m] Cons.prems by (force simp: smap_ok_Cons)
    with IH True show ?thesis by (auto simp: smap_ok_Cons)
  next
    case False
    with Cons.prems show ?thesis by (force simp: smap_ok_Cons)
  qed
qed

lemma smap_ok_erase [map_simps]: "smap_ok m \<Longrightarrow> smap_ok (smap_erase k m)"
  by (induction m) (auto simp: smap_erase_def smap_ok_Cons)

lemma smap_find_erase [map_simps]: "smap_find (smap_erase k m) = (smap_find m)(k := None)"
  by (induction m) (auto simp: smap_erase_def fun_eq_iff)

lemma smap_ok_distinct: "smap_ok m \<Longrightarrow> distinct (map fst m)"
  by (induction m) (auto simp: smap_ok_Cons)

lemma length_smap_insert [map_simps]:
  "smap_ok m \<Longrightarrow>
     length (smap_insert k v m) = (if smap_find m k = None then Suc (length m) else length m)"
  by (induction m) (auto simp: smap_ok_Cons map_of_eq_None_iff)

lemma length_smap_erase: "length (smap_erase k m) \<le> length m"
  by (simp add: smap_erase_def)

lemma length_smap_erase_less: "smap_find m k \<noteq> None \<Longrightarrow> length (smap_erase k m) < length m"
  unfolding smap_erase_def
  by (intro length_filter_less [of "(k, the (smap_find m k))"]) (auto dest: map_of_SomeD)

lemma dom_smap: "dom (smap_find m) = fst ` set m"
  by (rule dom_map_of_conv_image_fst)

lemma length_smap_card: "smap_ok m \<Longrightarrow> length m = card (dom (smap_find m))"
  by (metis dom_smap distinct_card length_map set_map smap_ok_distinct)

lemma smap_find_mem: "smap_ok m \<Longrightarrow> smap_find m k = Some v \<longleftrightarrow> (k, v) \<in> set m"
  by (simp add: smap_ok_distinct map_of_eq_Some_iff)

lemma smap_eqI:
  assumes "smap_ok m" "smap_ok n" "smap_find m = smap_find n"
  shows "m = n"
proof -
  have eq: "set m = set n"
    using assms by (auto simp flip: smap_find_mem)
  have "sorted (map fst m)" "distinct (map fst m)" "sorted (map fst n)" "distinct (map fst n)"
    using assms by (simp_all add: smap_ok_def strict_sorted_iff)
  moreover from this have "inj_on fst (set m \<union> set n)"
    by (simp add: eq distinct_map)
  ultimately show ?thesis
    using eq map_sorted_distinct_set_unique [of fst m n] by simp
qed

lemma smap_insert_last:
  "\<forall>x\<in>set m. fst x < k \<Longrightarrow> smap_insert k v m = m @ [(k, v)]"
  by (induction m) auto

lemma smap_fold_insert:
  "smap_ok (m @ es) \<Longrightarrow> fold (\<lambda>e. smap_insert (fst e) (snd e)) es m = m @ es"
proof (induction es arbitrary: m)
  case Nil
  then show ?case by simp
next
  case (Cons e es)
  obtain k v where e: "e = (k, v)" by fastforce
  from Cons.prems have "\<forall>x\<in>set m. fst x < k"
    by (auto simp: smap_ok_def sorted_wrt_append e)
  then have "smap_insert k v m = m @ [(k, v)]" by (rule smap_insert_last)
  with Cons.IH [of "m @ [e]"] Cons.prems show ?case by (simp add: e)
qed

end
