(* ===== verification/Eeprom_Codec.thy ===== *)
theory Eeprom_Codec
  imports Std_Map
begin

text \<open>
  The serializer of the EEPROM-backed secret store, \<open>hal/EepromCodec.{h,cpp}\<close>.  Byte vectors are
  lists of 8-bit words, positions are \<open>nat\<close> with the bounds checks of the code in front of every
  read.  Proved: decoding an encoding, whatever bytes follow it, restores the map; every proper
  prefix of an encoding is rejected; encoding refuses exactly the maps outside the limits.
\<close>

section \<open>Encoding and decoding\<close>

type_synonym kv = "(string, string) smap"

definition kMagic :: "u8 list" where
  "kMagic = [0x45, 0x4C, 0x4B, 0x56]"

definition kVersion :: u8 where
  "kVersion = 1"

definition kHeaderSize :: nat where
  "kHeaderSize = 4 + 1 + 2"

definition kMaxKeyLen :: nat where
  "kMaxKeyLen = 255"

definition kMaxValLen :: nat where
  "kMaxValLen = 65535"

definition byte_of :: "char \<Rightarrow> u8" where
  "byte_of c = word_of_nat (char_code c)"

definition char_of_byte :: "u8 \<Rightarrow> char" where
  "char_of_byte b = char_of (unat b)"

definition putU16 :: "u16 \<Rightarrow> u8 list" where
  "putU16 v = [ucast (v AND 0xFF), ucast (drop_bit 8 v AND 0xFF)]"

definition getU16 :: "u8 \<Rightarrow> u8 \<Rightarrow> u16" where
  "getU16 p0 p1 = ucast p0 OR push_bit 8 (ucast p1)"

definition encode_entry :: "string \<times> string \<Rightarrow> u8 list" where
  "encode_entry e =
     word_of_nat (length (fst e)) # map byte_of (fst e) @
     putU16 (word_of_nat (length (snd e))) @ map byte_of (snd e)"

text \<open>The entry loop of \<open>encodeKv\<close>; \<open>None\<close> is its \<open>return false\<close>.\<close>

fun encode_entries :: "kv \<Rightarrow> u8 list \<Rightarrow> nat \<Rightarrow> u8 list option" where
  "encode_entries [] buf maxBytes = Some buf"
| "encode_entries (e # es) buf maxBytes =
     (let buf' = buf @ encode_entry e
      in if maxBytes < length buf' then None else encode_entries es buf' maxBytes)"

definition encode_header :: "kv \<Rightarrow> u8 list" where
  "encode_header kv = kMagic @ [kVersion] @ putU16 (word_of_nat (length kv))"

text \<open>\<open>encodeKv\<close> returns its verdict and the contents of \<open>out\<close>, empty on failure.\<close>

definition encodeKv :: "kv \<Rightarrow> nat \<Rightarrow> bool \<times> u8 list" where
  "encodeKv kv maxBytes =
     (if 0xFFFF < length kv then (False, [])
      else if list_ex (\<lambda>e. kMaxKeyLen < length (fst e) \<or> kMaxValLen < length (snd e)) kv
        then (False, [])
      else
        (case encode_entries kv (encode_header kv) maxBytes of
           None \<Rightarrow> (False, [])
         | Some buf \<Rightarrow> if maxBytes < length buf then (False, []) else (True, buf)))"

primrec decode_entries :: "u8 list \<Rightarrow> nat \<Rightarrow> nat \<Rightarrow> kv \<Rightarrow> bool \<times> kv" where
  "decode_entries data 0 pos out = (True, out)"
| "decode_entries data (Suc n) pos out =
     (if length data < pos + 1 then (False, out)
      else
        (let keyLen = unat (data ! pos); pos1 = pos + 1
         in if length data < pos1 + keyLen + 2 then (False, out)
            else
              (let key = map char_of_byte (take keyLen (drop pos1 data));
                   pos2 = pos1 + keyLen;
                   valLen = unat (getU16 (data ! pos2) (data ! (pos2 + 1)));
                   pos3 = pos2 + 2
               in if length data < pos3 + valLen then (False, out)
                  else
                    (let val = map char_of_byte (take valLen (drop pos3 data))
                     in decode_entries data n (pos3 + valLen) (smap_insert key val out)))))"

definition decodeKv :: "u8 list \<Rightarrow> bool \<times> kv" where
  "decodeKv data =
     (if length data < kHeaderSize then (False, [])
      else if take 4 data \<noteq> kMagic then (False, [])
      else if data ! 4 \<noteq> kVersion then (False, [])
      else decode_entries data (unat (getU16 (data ! 5) (data ! 6))) kHeaderSize [])"

section \<open>Bytes and 16-bit integers\<close>

lemma char_of_byte_of [simp]: "char_of_byte (byte_of c) = c"
  by (simp add: char_of_byte_def byte_of_def unat_of_nat take_bit_nat_eq_self)

lemma chars_of_bytes [simp]: "map char_of_byte (map byte_of s) = s"
  by (simp add: comp_def)

lemma getU16_putU16:
  "getU16 (ucast (v AND 0xFF)) (ucast (drop_bit 8 v AND 0xFF)) = v"
proof (rule bit_word_eqI)
  fix n
  assume "n < LENGTH(16)"
  have ff: "(0xFF :: 16 word) = mask 8" by (simp add: mask_eq_exp_minus_1)
  show "bit (getU16 (ucast (v AND 0xFF)) (ucast (drop_bit 8 v AND 0xFF))) n = bit v n"
    using \<open>n < LENGTH(16)\<close> by (auto simp: getU16_def ff bit_simps)
qed

lemma length_putU16 [simp]: "length (putU16 v) = 2"
  by (simp add: putU16_def)

lemma length_encode_entry:
  "length (encode_entry e) = 3 + length (fst e) + length (snd e)"
  by (simp add: encode_entry_def)

definition entry_ok :: "string \<times> string \<Rightarrow> bool" where
  "entry_ok e \<longleftrightarrow> length (fst e) \<le> kMaxKeyLen \<and> length (snd e) \<le> kMaxValLen"

lemma unat_key_len: "entry_ok e \<Longrightarrow> unat (word_of_nat (length (fst e)) :: u8) = length (fst e)"
  by (simp add: entry_ok_def kMaxKeyLen_def unat_of_nat take_bit_nat_eq_self)

lemma unat_val_len: "entry_ok e \<Longrightarrow> unat (word_of_nat (length (snd e)) :: u16) = length (snd e)"
  by (simp add: entry_ok_def kMaxValLen_def unat_of_nat take_bit_nat_eq_self)

section \<open>Reading one entry back\<close>

text \<open>What an encoded entry at position \<open>length pre\<close> looks like to the decoder.\<close>

lemma entry_layout:
  assumes "entry_ok e"
  defines "k \<equiv> length (fst e)" and "v \<equiv> length (snd e)"
  shows "unat ((pre @ encode_entry e @ post) ! length pre) = k"
    and "take k (drop (length pre + 1) (pre @ encode_entry e @ post)) = map byte_of (fst e)"
    and "unat (getU16 ((pre @ encode_entry e @ post) ! (length pre + 1 + k))
           ((pre @ encode_entry e @ post) ! (length pre + 1 + k + 1))) = v"
    and "take v (drop (length pre + 1 + k + 2) (pre @ encode_entry e @ post)) = map byte_of (snd e)"
proof -
  let ?d = "pre @ encode_entry e @ post"
  let ?val = "putU16 (word_of_nat v) @ map byte_of (snd e) @ post"
  have d: "?d = (pre @ word_of_nat k # map byte_of (fst e)) @ ?val"
    by (simp add: encode_entry_def k_def v_def)
  have len: "length (pre @ word_of_nat k # map byte_of (fst e)) = length pre + 1 + k"
    by (simp add: k_def)
  show "unat (?d ! length pre) = k"
    using unat_key_len [OF assms(1)] by (simp add: encode_entry_def k_def)
  show "take k (drop (length pre + 1) ?d) = map byte_of (fst e)"
    by (simp add: encode_entry_def k_def)
  have rest: "drop (length pre + 1 + k) ?d = ?val"
    unfolding d len [symmetric] by simp
  have "?d ! (length pre + 1 + k + i) = ?val ! i" for i
    unfolding d len [symmetric] by (simp add: nth_append)
  from this [of 0] this [of 1] show "unat (getU16 (?d ! (length pre + 1 + k))
      (?d ! (length pre + 1 + k + 1))) = v"
    using unat_val_len [OF assms(1)] by (simp add: putU16_def getU16_putU16 v_def)
  have "drop (length pre + 1 + k + 2) ?d = drop 2 (drop (length pre + 1 + k) ?d)"
    by (simp only: drop_drop add.commute)
  then have "drop (length pre + 1 + k + 2) ?d = drop 2 ?val"
    unfolding rest .
  then show "take v (drop (length pre + 1 + k + 2) ?d) = map byte_of (snd e)"
    by (simp add: putU16_def v_def)
qed

lemma decode_read:
  assumes "unat (data ! pos) = k" "unat (getU16 (data ! (pos + 1 + k)) (data ! (pos + 1 + k + 1))) = v"
    and "pos + 1 + k + 2 + v \<le> length data"
  shows "decode_entries data (Suc n) pos out =
    decode_entries data n (pos + 1 + k + 2 + v)
      (smap_insert (map char_of_byte (take k (drop (pos + 1) data)))
        (map char_of_byte (take v (drop (pos + 1 + k + 2) data))) out)"
  using assms by (simp add: Let_def)

declare decode_entries.simps(2) [simp del]

lemma decode_entry_step:
  assumes "entry_ok e"
  shows "decode_entries (pre @ encode_entry e @ post) (Suc n) (length pre) out =
    decode_entries (pre @ encode_entry e @ post) n (length (pre @ encode_entry e))
      (smap_insert (fst e) (snd e) out)"
proof -
  let ?d = "pre @ encode_entry e @ post" and ?k = "length (fst e)" and ?v = "length (snd e)"
  have next_pos: "length pre + 1 + ?k + 2 + ?v = length (pre @ encode_entry e)"
    by (simp add: length_encode_entry)
  note layout = entry_layout [OF assms, where pre = pre and post = post]
  have "decode_entries ?d (Suc n) (length pre) out =
      decode_entries ?d n (length pre + 1 + ?k + 2 + ?v)
        (smap_insert (map char_of_byte (take ?k (drop (length pre + 1) ?d)))
          (map char_of_byte (take ?v (drop (length pre + 1 + ?k + 2) ?d))) out)"
    by (rule decode_read [OF layout(1) layout(3)]) (simp add: length_encode_entry)
  then show ?thesis unfolding layout(2) layout(4) next_pos chars_of_bytes .
qed

lemma decode_encoded_entries:
  "\<forall>e\<in>set es. entry_ok e \<Longrightarrow>
     decode_entries (pre @ concat (map encode_entry es) @ post) (length es) (length pre) out =
       (True, fold (\<lambda>e. smap_insert (fst e) (snd e)) es out)"
proof (induction es arbitrary: pre out)
  case Nil
  then show ?case by simp
next
  case (Cons e es)
  then have "decode_entries ((pre @ encode_entry e) @ concat (map encode_entry es) @ post)
      (length es) (length (pre @ encode_entry e)) (smap_insert (fst e) (snd e) out) =
      (True, fold (\<lambda>e. smap_insert (fst e) (snd e)) es (smap_insert (fst e) (snd e) out))"
    by (intro Cons.IH) simp
  with Cons.prems show ?case
    using decode_entry_step [of e pre "concat (map encode_entry es) @ post" "length es" out]
    by simp
qed

section \<open>Truncated data\<close>

lemma decode_short:
  assumes "entry_ok e" "j < length (encode_entry e)"
  shows "\<not> fst (decode_entries (pre @ take j (encode_entry e)) (Suc n) (length pre) out)"
proof -
  let ?k = "length (fst e)" and ?d = "pre @ take j (encode_entry e)"
  let ?f = "pre @ encode_entry e @ []"
  have same: "?d ! i = ?f ! i" if "i < length ?d" for i
    using that by (auto simp: nth_append)
  have len: "length ?d = length pre + j" using assms(2) by simp
  note layout = entry_layout [OF assms(1), where pre = pre and post = "[]"]
  show ?thesis
  proof (cases "length pre + 1 + ?k + 2 \<le> length ?d")
    case False
    have "unat (?d ! length pre) = ?k" if "j \<noteq> 0"
    proof -
      from that len have "length pre < length ?d" by simp
      from same [OF this] layout(1) show ?thesis by (simp only: )
    qed
    with False len show ?thesis by (auto simp: decode_entries.simps(2) Let_def)
  next
    case True
    then have "?d ! length pre = ?f ! length pre"
      "?d ! (length pre + 1 + ?k) = ?f ! (length pre + 1 + ?k)"
      "?d ! (length pre + 1 + ?k + 1) = ?f ! (length pre + 1 + ?k + 1)"
      using len by (intro same; linarith)+
    with layout(1,3) have "unat (?d ! length pre) = ?k"
      "unat (getU16 (?d ! (length pre + 1 + ?k)) (?d ! (length pre + 1 + ?k + 1))) = length (snd e)"
      by simp_all
    moreover have "length ?d < length pre + 1 + ?k + 2 + length (snd e)"
      using assms(2) len by (simp add: length_encode_entry)
    ultimately show ?thesis using True by (simp add: decode_entries.simps(2) Let_def)
  qed
qed

lemma decode_truncated_entries:
  "\<forall>e\<in>set es. entry_ok e \<Longrightarrow> j < length (concat (map encode_entry es)) \<Longrightarrow>
     \<not> fst (decode_entries (pre @ take j (concat (map encode_entry es)))
           (length es) (length pre) out)"
proof (induction es arbitrary: pre out j)
  case Nil
  then show ?case by simp
next
  case (Cons e es)
  from Cons.prems have e: "entry_ok e" and es: "\<forall>e\<in>set es. entry_ok e" by simp_all
  show ?case
  proof (cases "j < length (encode_entry e)")
    case True
    with decode_short [OF e True] show ?thesis by simp
  next
    case False
    let ?j = "j - length (encode_entry e)"
    have "\<not> fst (decode_entries ((pre @ encode_entry e) @ take ?j (concat (map encode_entry es)))
        (length es) (length (pre @ encode_entry e)) (smap_insert (fst e) (snd e) out))"
      using Cons.prems False by (intro Cons.IH [OF es]) simp
    with False show ?thesis
      using decode_entry_step [OF e, of pre "take ?j (concat (map encode_entry es))" "length es" out]
      by simp
  qed
qed

section \<open>Whole blobs\<close>

definition kv_ok :: "kv \<Rightarrow> bool" where
  "kv_ok kv \<longleftrightarrow> smap_ok kv \<and> length kv \<le> 0xFFFF \<and> (\<forall>e\<in>set kv. entry_ok e)"

definition encoded_length :: "kv \<Rightarrow> nat" where
  "encoded_length kv = kHeaderSize + (\<Sum>e\<leftarrow>kv. 3 + length (fst e) + length (snd e))"

lemma encode_entries_eq:
  "encode_entries es buf mx =
     (if es = [] \<or> length (buf @ concat (map encode_entry es)) \<le> mx
      then Some (buf @ concat (map encode_entry es)) else None)"
  by (induction es arbitrary: buf) (auto simp: Let_def)

lemma length_encoded:
  "length (encode_header kv @ concat (map encode_entry kv)) = encoded_length kv"
  by (simp add: encode_header_def kMagic_def encoded_length_def kHeaderSize_def length_concat
        comp_def length_encode_entry)

lemma encodeKv_eq:
  "encodeKv kv mx =
     (if length kv \<le> 0xFFFF \<and> (\<forall>e\<in>set kv. entry_ok e) \<and> encoded_length kv \<le> mx
      then (True, encode_header kv @ concat (map encode_entry kv)) else (False, []))"
proof -
  have ex: "list_ex (\<lambda>e. kMaxKeyLen < length (fst e) \<or> kMaxValLen < length (snd e)) kv \<longleftrightarrow>
      \<not> (\<forall>e\<in>set kv. entry_ok e)"
    unfolding list_ex_iff entry_ok_def by (simp only: bex_simps de_Morgan_conj not_le ball_simps)
  have len: "length (encode_header kv) + length (concat (map encode_entry kv)) = encoded_length kv"
    using length_encoded [of kv] by simp
  show ?thesis
    unfolding encodeKv_def ex encode_entries_eq using len by (cases "kv = []") (auto simp: not_less)
qed

lemma decodeKv_header:
  assumes "length kv \<le> 0xFFFF"
  shows "decodeKv (encode_header kv @ rest) =
    decode_entries (encode_header kv @ rest) (length kv) (length (encode_header kv)) []"
proof -
  let ?n = "word_of_nat (length kv) :: u16"
  have "unat ?n = length kv"
    using assms by (simp add: unat_of_nat take_bit_nat_eq_self)
  moreover have "length (encode_header kv) = 7"
    by (simp add: encode_header_def kMagic_def)
  ultimately show ?thesis
    using getU16_putU16 [of ?n]
    by (simp add: decodeKv_def encode_header_def kMagic_def kHeaderSize_def putU16_def
        eval_nat_numeral)
qed

lemma decodeKv_encoded:
  assumes "kv_ok kv"
  shows "decodeKv (encode_header kv @ concat (map encode_entry kv) @ junk) = (True, kv)"
proof -
  have "fold (\<lambda>e. smap_insert (fst e) (snd e)) kv [] = kv"
    using smap_fold_insert [of "[]" kv] assms by (simp add: kv_ok_def)
  then show ?thesis
    using assms decode_encoded_entries [of kv "encode_header kv" junk "[]"]
    by (simp add: kv_ok_def decodeKv_header)
qed

lemma decodeKv_truncated:
  assumes "kv_ok kv" "j < encoded_length kv"
  shows "\<not> fst (decodeKv (take j (encode_header kv @ concat (map encode_entry kv))))"
proof (cases "j < kHeaderSize")
  case True
  then have "length (take j (encode_header kv @ concat (map encode_entry kv))) < kHeaderSize"
    by simp
  then show ?thesis unfolding decodeKv_def by (simp only: if_True fst_conv not_False_eq_True)
next
  case False
  have hdr: "length (encode_header kv) = kHeaderSize"
    by (simp add: encode_header_def kMagic_def kHeaderSize_def)
  let ?j = "j - kHeaderSize"
  have "?j < length (concat (map encode_entry kv))"
    using assms(2) False length_encoded [of kv] hdr by simp
  from decode_truncated_entries [OF _ this, of "encode_header kv" "[]"] assms(1) False hdr
  show ?thesis by (simp add: kv_ok_def decodeKv_header)
qed

section \<open>Properties\<close>

text \<open>encoding a map within the limits succeeds, and decoding the blob restores the map,
  whatever bytes follow the blob in the EEPROM.\<close>

theorem eeprom_blob_roundtrip:
  assumes "kv_ok kv" "encoded_length kv \<le> maxBytes"
  shows "\<exists>blob. encodeKv kv maxBytes = (True, blob) \<and> length blob = encoded_length kv \<and>
    decodeKv (blob @ junk) = (True, kv)"
  using assms decodeKv_encoded [OF assms(1), of junk] length_encoded [of kv]
  by (simp add: encodeKv_eq kv_ok_def)

theorem eeprom_blob_roundtrip_witness:
  "\<exists>blob. encodeKv [(''api'', ''sk''), (''ssid'', [])] 64 = (True, blob) \<and>
    length blob = encoded_length [(''api'', ''sk''), (''ssid'', [])] \<and>
    decodeKv (blob @ [1, 2, 3]) = (True, [(''api'', ''sk''), (''ssid'', [])])"
  by (rule eeprom_blob_roundtrip)
     (simp_all add: kv_ok_def smap_ok_def entry_ok_def kMaxKeyLen_def kMaxValLen_def
       encoded_length_def kHeaderSize_def less_char_def)

text \<open>no proper prefix of an encoded map is accepted: a blob cut short by an interrupted write
  or a too small read is reported as invalid.\<close>

theorem truncated_blob_rejected:
  assumes "kv_ok kv" "encodeKv kv maxBytes = (True, blob)" "j < length blob"
  shows "\<not> fst (decodeKv (take j blob))"
  using assms decodeKv_truncated [OF assms(1), of j] length_encoded [of kv]
  by (auto simp: encodeKv_eq split: if_splits)

theorem truncated_blob_rejected_witness:
  "\<not> fst (decodeKv (take 9 (snd (encodeKv [(''a'', ''b'')] 64))))"
proof (rule truncated_blob_rejected)
  show ok: "kv_ok [(''a'', ''b'')]"
    by (simp add: kv_ok_def smap_ok_def entry_ok_def kMaxKeyLen_def kMaxValLen_def)
  have e: "encodeKv [(''a'', ''b'')] 64 =
      (True, encode_header [(''a'', ''b'')] @ concat (map encode_entry [(''a'', ''b'')]))"
    using ok by (simp add: encodeKv_eq kv_ok_def encoded_length_def kHeaderSize_def)
  then show "encodeKv [(''a'', ''b'')] 64 = (True, snd (encodeKv [(''a'', ''b'')] 64))" by simp
  show "9 < length (snd (encodeKv [(''a'', ''b'')] 64))"
    using e length_encoded [of "[(''a'', ''b'')]"] by (simp add: encoded_length_def kHeaderSize_def)
qed

text \<open>encoding fails exactly for maps with too many entries, a key over 255 or a value over
  65535 bytes, or a blob larger than the space, and then leaves no bytes behind.\<close>

theorem encode_refuses_exactly:
  "encodeKv kv maxBytes =
     (if 65535 < length kv \<or> list_ex (\<lambda>e. 255 < length (fst e) \<or> 65535 < length (snd e)) kv \<or>
         maxBytes < encoded_length kv
      then (False, [])
      else (True, encode_header kv @ concat (map encode_entry kv)))"
proof -
  have "list_ex (\<lambda>e. 255 < length (fst e) \<or> 65535 < length (snd e)) kv \<longleftrightarrow>
      \<not> (\<forall>e\<in>set kv. entry_ok e)"
    unfolding list_ex_iff entry_ok_def kMaxKeyLen_def kMaxValLen_def
    by (simp only: bex_simps de_Morgan_conj not_le ball_simps)
  then show ?thesis unfolding encodeKv_eq by (simp add: not_le)
qed

end
