(* ===== verification/Secret_Store.thy ===== *)
theory Secret_Store
  imports Core_Errors Std_Map
begin

text \<open>
  The interface \<open>ISecretStore\<close> (hal/ISecretStore.h) as a locale, and its RAM implementation
  \<open>MemorySecretStore\<close> (hal/MemorySecretStore.{h,cpp}), which interprets it.  A store is a record
  of operations over a state; \<open>view\<close> is the abstract map the state stands for and \<open>inv\<close> the
  states that occur.  The stores of the library read without changing their state, so \<open>get\<close> and
  \<open>has\<close> return a value only.
\<close>

section \<open>The interface\<close>

record 's secret_ops =
  ss_set :: "string \<Rightarrow> string \<Rightarrow> 's \<Rightarrow> status \<times> 's"
  ss_get :: "string \<Rightarrow> 's \<Rightarrow> string result"
  ss_has :: "string \<Rightarrow> 's \<Rightarrow> bool"
  ss_remove :: "string \<Rightarrow> 's \<Rightarrow> status \<times> 's"
  ss_clear :: "'s \<Rightarrow> status \<times> 's"

text \<open>The comments of the interface, as laws.\<close>

locale secret_store =
  fixes ops :: "'s secret_ops"
    and view :: "'s \<Rightarrow> string \<Rightarrow> string option"
    and inv :: "'s \<Rightarrow> bool"
  assumes set_ok: "\<lbrakk>inv s; ss_set ops k v s = (Ok, s')\<rbrakk> \<Longrightarrow> inv s' \<and> view s' = (view s)(k \<mapsto> v)"
    and set_fail: "\<lbrakk>inv s; ss_set ops k v s = (e, s'); e \<noteq> Ok\<rbrakk> \<Longrightarrow> inv s' \<and> view s' = view s"
    and set_empty: "inv s \<Longrightarrow> ss_set ops [] v s = (InvalidArgument, s)"
    and get_eq: "inv s \<Longrightarrow>
      ss_get ops k s = (case view s k of None \<Rightarrow> Inl SecretNotFound | Some v \<Rightarrow> Inr v)"
    and has_eq: "inv s \<Longrightarrow> ss_has ops k s \<longleftrightarrow> view s k \<noteq> None"
    and remove_ok: "\<lbrakk>inv s; ss_remove ops k s = (e, s')\<rbrakk> \<Longrightarrow>
      e = Ok \<and> inv s' \<and> view s' = (view s)(k := None)"
    and clear_ok: "\<lbrakk>inv s; ss_clear ops s = (e, s')\<rbrakk> \<Longrightarrow> e = Ok \<and> inv s' \<and> view s' = Map.empty"
begin

lemma set_inv: "inv s \<Longrightarrow> inv (snd (ss_set ops k v s))"
  by (metis set_ok set_fail surjective_pairing)

lemma view_set:
  "inv s \<Longrightarrow> view (snd (ss_set ops k v s)) =
     (if fst (ss_set ops k v s) = Ok then (view s)(k \<mapsto> v) else view s)"
  by (metis set_ok set_fail surjective_pairing)

lemma remove_inv: "inv s \<Longrightarrow> inv (snd (ss_remove ops k s))"
  using remove_ok [of s k "fst (ss_remove ops k s)" "snd (ss_remove ops k s)"] by simp

lemma view_remove: "inv s \<Longrightarrow> view (snd (ss_remove ops k s)) = (view s)(k := None)"
  using remove_ok [of s k "fst (ss_remove ops k s)" "snd (ss_remove ops k s)"] by simp

lemma get_Inr: "inv s \<Longrightarrow> ss_get ops k s = Inr v \<longleftrightarrow> view s k = Some v"
  by (simp add: get_eq split: option.split)

text \<open>What a client of the interface relies on, whichever store it was given.\<close>

lemma get_after_set:
  assumes "inv s" "ss_set ops k v s = (Ok, s')"
  shows "ss_get ops k s' = Inr v" "ss_has ops k s'"
    "k' \<noteq> k \<Longrightarrow> ss_get ops k' s' = ss_get ops k' s"
  using set_ok [OF assms] assms(1) by (simp_all add: get_eq has_eq)

lemma get_after_remove:
  assumes "inv s"
  shows "ss_get ops k (snd (ss_remove ops k s)) = Inl SecretNotFound"
    "k' \<noteq> k \<Longrightarrow> ss_get ops k' (snd (ss_remove ops k s)) = ss_get ops k' s"
  using assms by (simp_all add: get_eq remove_inv view_remove)

lemma get_keeps_frame:
  assumes "inv s" "ss_set ops k v s = (e, s')" "e \<noteq> Ok"
  shows "ss_get ops k' s' = ss_get ops k' s"
  using set_fail [OF assms] assms(1) by (simp add: get_eq)

lemma no_empty_key:
  assumes "inv s" "view s [] = None"
  shows "view (snd (ss_set ops k v s)) [] = None"
  using assms set_empty [OF assms(1), of v] by (cases "k = []") (auto simp: view_set)

end

section \<open>MemorySecretStore\<close>

record memory_store =
  items :: "(string, string) smap"

definition mem_empty :: memory_store where
  "mem_empty = \<lparr>items = []\<rparr>"

definition mem_set :: "string \<Rightarrow> string \<Rightarrow> memory_store \<Rightarrow> status \<times> memory_store" where
  "mem_set key value s =
     (if key = [] then (InvalidArgument, s)
      else (Ok, s\<lparr>items := smap_insert key value (items s)\<rparr>))"

definition mem_get :: "string \<Rightarrow> memory_store \<Rightarrow> string result" where
  "mem_get key s =
     (case smap_find (items s) key of None \<Rightarrow> Inl SecretNotFound | Some v \<Rightarrow> Inr v)"

definition mem_has :: "string \<Rightarrow> memory_store \<Rightarrow> bool" where
  "mem_has key s \<longleftrightarrow> smap_find (items s) key \<noteq> None"

definition mem_remove :: "string \<Rightarrow> memory_store \<Rightarrow> status \<times> memory_store" where
  "mem_remove key s = (Ok, s\<lparr>items := smap_erase key (items s)\<rparr>)"

definition mem_clear :: "memory_store \<Rightarrow> status \<times> memory_store" where
  "mem_clear s = (Ok, s\<lparr>items := []\<rparr>)"

definition mem_size :: "memory_store \<Rightarrow> nat" where
  "mem_size s = length (items s)"

definition memory_secret_store :: "memory_store secret_ops" where
  "memory_secret_store =
     \<lparr>ss_set = mem_set, ss_get = mem_get, ss_has = mem_has,
      ss_remove = mem_remove, ss_clear = mem_clear\<rparr>"

definition mem_view :: "memory_store \<Rightarrow> string \<Rightarrow> string option" where
  "mem_view s = smap_find (items s)"

definition mem_inv :: "memory_store \<Rightarrow> bool" where
  "mem_inv s \<longleftrightarrow> smap_ok (items s)"

lemmas mem_defs = memory_secret_store_def mem_set_def mem_get_def mem_has_def mem_remove_def
  mem_clear_def mem_view_def mem_inv_def

interpretation mem: secret_store memory_secret_store mem_view mem_inv
  by unfold_locales (auto simp: mem_defs map_simps split: if_splits option.splits)

lemma mem_inv_empty [simp]: "mem_inv mem_empty"
  by (simp add: mem_inv_def mem_empty_def)

lemma mem_ops_simps [simp]:
  "ss_set memory_secret_store = mem_set"
  "ss_get memory_secret_store = mem_get"
  "ss_has memory_secret_store = mem_has"
  "ss_remove memory_secret_store = mem_remove"
  "ss_clear memory_secret_store = mem_clear"
  by (simp_all add: memory_secret_store_def)

lemma mem_size_view: "mem_inv s \<Longrightarrow> mem_size s = card (dom (mem_view s))"
  by (simp add: mem_size_def mem_inv_def mem_view_def length_smap_card)

end
