(* ===== verification/Eeprom_Store.thy ===== *)
theory Eeprom_Store
  imports Eeprom_Codec Secret_Store
begin

text \<open>
  \<open>EepromSecretStore\<close> (hal/EepromSecretStore.{h,cpp}).  The Arduino \<open>EEPROM\<close> object is not part
  of the repository: it is a parameter, a record of its operations over a device state, together
  with \<open>ee_reboot\<close>, the effect of a power cycle.  \<open>eeprom_laws\<close> states what the EEPROM
  libraries document of it.  The abstract map of a store is what its device holds: the entries
  \<open>begin\<close> would load after a power cycle.  Proved: with that reading the store meets the contract
  \<open>secret_store\<close> over any such device, \<open>begin\<close> establishes its invariant, and every EEPROM content
  is loaded into a well-formed store.
\<close>

section \<open>The device\<close>

record 'd eeprom_ops =
  ee_length :: "'d \<Rightarrow> nat"
  ee_read :: "nat \<Rightarrow> 'd \<Rightarrow> u8"
  ee_write :: "nat \<Rightarrow> u8 \<Rightarrow> 'd \<Rightarrow> 'd"
  ee_commit :: "'d \<Rightarrow> 'd"
  ee_reboot :: "'d \<Rightarrow> 'd"

text \<open>\<open>nc\<close> is \<open>EDGELLM_EEPROM_NEEDS_COMMIT\<close>: set on SAMD, not on the Uno R4.\<close>

definition ee_flush :: "'d eeprom_ops \<Rightarrow> bool \<Rightarrow> 'd \<Rightarrow> 'd" where
  "ee_flush dv nc d = (if nc then ee_commit dv d else d)"

definition eeprom_laws :: "'d eeprom_ops \<Rightarrow> bool \<Rightarrow> bool" where
  "eeprom_laws dv nc \<longleftrightarrow>
     (\<forall>d i b. ee_length dv (ee_write dv i b d) = ee_length dv d) \<and>
     (\<forall>d i j b. i < ee_length dv d \<longrightarrow> j < ee_length dv d \<longrightarrow>
        ee_read dv j (ee_write dv i b d) = (if j = i then b else ee_read dv j d)) \<and>
     (\<forall>d. ee_length dv (ee_commit dv d) = ee_length dv d) \<and>
     (\<forall>d i. ee_read dv i (ee_commit dv d) = ee_read dv i d) \<and>
     (\<forall>d. ee_length dv (ee_reboot dv d) = ee_length dv d) \<and>
     (\<forall>d i. ee_read dv i (ee_reboot dv (ee_flush dv nc d)) = ee_read dv i d)"

section \<open>The store\<close>

record 'd eeprom_store =
  data :: kv
  capacity :: nat
  dev :: 'd

definition capacityBytes :: "'d eeprom_ops \<Rightarrow> 'd eeprom_store \<Rightarrow> nat" where
  "capacityBytes dv s =
     (let hw = ee_length dv (dev s)
      in if capacity s = 0 then hw else if capacity s < hw then capacity s else hw)"

primrec write_bytes :: "'d eeprom_ops \<Rightarrow> nat \<Rightarrow> u8 list \<Rightarrow> 'd \<Rightarrow> 'd" where
  "write_bytes dv i [] d = d"
| "write_bytes dv i (b # bs) d = write_bytes dv (i + 1) bs (ee_write dv i b d)"

definition writeBlob :: "'d eeprom_ops \<Rightarrow> bool \<Rightarrow> u8 list \<Rightarrow> 'd eeprom_store \<Rightarrow> 'd eeprom_store" where
  "writeBlob dv nc blob s = s\<lparr>dev := ee_flush dv nc (write_bytes dv 0 blob (dev s))\<rparr>"

definition ee_bytes :: "'d eeprom_ops \<Rightarrow> nat \<Rightarrow> 'd \<Rightarrow> u8 list" where
  "ee_bytes dv n d = map (\<lambda>i. ee_read dv i d) [0..<n]"

definition eeprom_begin :: "'d eeprom_ops \<Rightarrow> 'd eeprom_store \<Rightarrow> 'd eeprom_store" where
  "eeprom_begin dv s =
     (let n = capacityBytes dv s;
          blob = ee_bytes dv n (dev s)
      in s\<lparr>data := snd (decodeKv blob)\<rparr>)"

definition eeprom_set ::
  "'d eeprom_ops \<Rightarrow> bool \<Rightarrow> string \<Rightarrow> string \<Rightarrow> 'd eeprom_store \<Rightarrow> status \<times> 'd eeprom_store" where
  "eeprom_set dv nc key value s =
     (if key = [] then (InvalidArgument, s)
      else
        (let candidate = smap_insert key value (data s)
         in case encodeKv candidate (capacityBytes dv s) of
              (False, _) \<Rightarrow> (Capacity, s)
            | (True, blob) \<Rightarrow> (Ok, writeBlob dv nc blob (s\<lparr>data := candidate\<rparr>))))"

definition eeprom_get :: "string \<Rightarrow> 'd eeprom_store \<Rightarrow> string result" where
  "eeprom_get key s =
     (case smap_find (data s) key of None \<Rightarrow> Inl SecretNotFound | Some v \<Rightarrow> Inr v)"

definition eeprom_has :: "string \<Rightarrow> 'd eeprom_store \<Rightarrow> bool" where
  "eeprom_has key s \<longleftrightarrow> smap_find (data s) key \<noteq> None"

definition eeprom_remove ::
  "'d eeprom_ops \<Rightarrow> bool \<Rightarrow> string \<Rightarrow> 'd eeprom_store \<Rightarrow> status \<times> 'd eeprom_store" where
  "eeprom_remove dv nc key s =
     (if smap_find (data s) key = None then (Ok, s)
      else
        (let candidate = smap_erase key (data s)
         in case encodeKv candidate (capacityBytes dv s) of
              (False, _) \<Rightarrow> (Capacity, s)
            | (True, blob) \<Rightarrow> (Ok, writeBlob dv nc blob (s\<lparr>data := candidate\<rparr>))))"

definition eeprom_clear ::
  "'d eeprom_ops \<Rightarrow> bool \<Rightarrow> 'd eeprom_store \<Rightarrow> status \<times> 'd eeprom_store" where
  "eeprom_clear dv nc s =
     (let s' = s\<lparr>data := []\<rparr>;
          blob = snd (encodeKv (data s') (capacityBytes dv s'))
      in (Ok, writeBlob dv nc blob s'))"

definition eeprom_secret_store :: "'d eeprom_ops \<Rightarrow> bool \<Rightarrow> 'd eeprom_store secret_ops" where
  "eeprom_secret_store dv nc =
     \<lparr>ss_set = eeprom_set dv nc, ss_get = eeprom_get, ss_has = eeprom_has,
      ss_remove = eeprom_remove dv nc, ss_clear = eeprom_clear dv nc\<rparr>"

text \<open>A power cycle loses the RAM copy; the sketch then calls \<open>begin\<close>.\<close>

definition power_cycle :: "'d eeprom_ops \<Rightarrow> 'd eeprom_store \<Rightarrow> 'd eeprom_store" where
  "power_cycle dv s = eeprom_begin dv \<lparr>data = [], capacity = capacity s, dev = ee_reboot dv (dev s)\<rparr>"

section \<open>Well-formed stores\<close>

text \<open>The RAM copy the store answers from.\<close>

definition eeprom_entries :: "'d eeprom_store \<Rightarrow> string \<Rightarrow> string option" where
  "eeprom_entries s = smap_find (data s)"

definition eeprom_wf :: "'d eeprom_ops \<Rightarrow> 'd eeprom_store \<Rightarrow> bool" where
  "eeprom_wf dv s \<longleftrightarrow>
     kv_ok (data s) \<and> (data s = [] \<or> encoded_length (data s) \<le> capacityBytes dv s)"

text \<open>What the device holds: the entries \<open>begin\<close> loads from it after a power cycle.\<close>

definition eeprom_view :: "'d eeprom_ops \<Rightarrow> 'd eeprom_store \<Rightarrow> string \<Rightarrow> string option" where
  "eeprom_view dv s = smap_find (data (power_cycle dv s))"

definition synced :: "'d eeprom_ops \<Rightarrow> 'd eeprom_store \<Rightarrow> bool" where
  "synced dv s \<longleftrightarrow> data (power_cycle dv s) = data s"

text \<open>The states after \<open>begin\<close> on a device with room for the header: the RAM copy is well formed
  and is what the device holds.\<close>

definition eeprom_inv :: "'d eeprom_ops \<Rightarrow> 'd eeprom_store \<Rightarrow> bool" where
  "eeprom_inv dv s \<longleftrightarrow> eeprom_wf dv s \<and> synced dv s \<and> kHeaderSize \<le> capacityBytes dv s"

lemma view_synced: "synced dv s \<Longrightarrow> eeprom_view dv s = eeprom_entries s"
  by (simp add: eeprom_view_def eeprom_entries_def synced_def)

lemma encoded_length_Cons:
  "encoded_length (e # m) = 3 + length (fst e) + length (snd e) + encoded_length m"
  by (simp add: encoded_length_def)

lemma encoded_length_erase: "encoded_length (smap_erase k m) \<le> encoded_length m"
proof (induction m)
  case Nil
  then show ?case by (simp add: smap_erase_def)
next
  case (Cons e m)
  then show ?case by (simp add: smap_erase_def encoded_length_Cons)
qed

lemma encoded_length_insert:
  "encoded_length (smap_insert k v m) \<le> encoded_length m + 3 + length k + length v"
proof (induction m)
  case Nil
  then show ?case by (simp add: encoded_length_def)
next
  case (Cons e m)
  then show ?case by (simp add: encoded_length_Cons)
qed

lemma kv_ok_erase: "kv_ok m \<Longrightarrow> kv_ok (smap_erase k m)"
  using length_smap_erase [of k m] by (auto simp: kv_ok_def smap_ok_erase) (simp add: smap_erase_def)

lemma encodeKv_cases:
  "smap_ok m \<Longrightarrow> encodeKv m n = (True, blob) \<Longrightarrow>
     kv_ok m \<and> encoded_length m \<le> n \<and> blob = encode_header m @ concat (map encode_entry m)"
  by (simp add: encodeKv_eq kv_ok_def split: if_splits)

lemma encodeKv_True:
  "kv_ok m \<Longrightarrow> encoded_length m \<le> n \<Longrightarrow>
     encodeKv m n = (True, encode_header m @ concat (map encode_entry m))"
  by (simp add: encodeKv_eq kv_ok_def)

section \<open>Writing and reading the device\<close>

lemma write_bytes_length:
  "eeprom_laws dv nc \<Longrightarrow> ee_length dv (write_bytes dv i bs d) = ee_length dv d"
  by (induction bs arbitrary: i d) (simp_all add: eeprom_laws_def)

lemma write_bytes_read:
  "eeprom_laws dv nc \<Longrightarrow> i + length bs \<le> ee_length dv d \<Longrightarrow> j < ee_length dv d \<Longrightarrow>
     ee_read dv j (write_bytes dv i bs d) =
       (if i \<le> j \<and> j < i + length bs then bs ! (j - i) else ee_read dv j d)"
proof (induction bs arbitrary: i d)
  case Nil
  then show ?case by auto
next
  case (Cons b bs)
  have len: "ee_length dv (ee_write dv i b d) = ee_length dv d"
    using Cons.prems(1) by (simp add: eeprom_laws_def)
  have "ee_read dv j (ee_write dv i b d) = (if j = i then b else ee_read dv j d)"
    using Cons.prems by (simp add: eeprom_laws_def)
  moreover have "ee_read dv j (write_bytes dv (i + 1) bs (ee_write dv i b d)) =
      (if i + 1 \<le> j \<and> j < i + 1 + length bs then bs ! (j - (i + 1))
       else ee_read dv j (ee_write dv i b d))"
    using Cons.prems len by (intro Cons.IH) simp_all
  moreover have "(b # bs) ! (j - i) = bs ! (j - (i + 1))" if "i < j"
    using that by (simp add: nth_Cons')
  ultimately show ?case by auto
qed

lemma ee_flush_laws:
  assumes "eeprom_laws dv nc"
  shows "ee_length dv (ee_flush dv nc d) = ee_length dv d"
    and "ee_read dv i (ee_flush dv nc d) = ee_read dv i d"
    and "ee_length dv (ee_reboot dv d) = ee_length dv d"
    and "ee_read dv i (ee_reboot dv (ee_flush dv nc d)) = ee_read dv i d"
  using assms by (simp_all add: eeprom_laws_def ee_flush_def)

lemma capacityBytes_le: "capacityBytes dv s \<le> ee_length dv (dev s)"
  by (simp add: capacityBytes_def Let_def)

lemma capacityBytes_writeBlob:
  "eeprom_laws dv nc \<Longrightarrow> capacityBytes dv (writeBlob dv nc blob s) = capacityBytes dv s"
  by (simp add: capacityBytes_def writeBlob_def ee_flush_laws write_bytes_length Let_def)

lemma capacityBytes_data: "capacityBytes dv (s\<lparr>data := m\<rparr>) = capacityBytes dv s"
  by (simp add: capacityBytes_def Let_def)

lemma data_writeBlob [simp]: "data (writeBlob dv nc blob s) = data s"
  by (simp add: writeBlob_def)

text \<open>After a blob that fits has been written, the bytes read start with it, also after a reboot.\<close>

lemma ee_bytes_written:
  assumes laws: "eeprom_laws dv nc" and fit: "length blob \<le> n" "n \<le> ee_length dv d"
  shows "\<exists>junk. ee_bytes dv n (ee_reboot dv (ee_flush dv nc (write_bytes dv 0 blob d))) = blob @ junk"
proof -
  let ?r = "\<lambda>i. if i < length blob then blob ! i else ee_read dv i d"
  have "ee_bytes dv n (ee_reboot dv (ee_flush dv nc (write_bytes dv 0 blob d))) = map ?r [0..<n]"
    using fit write_bytes_read [OF laws, of 0 blob d]
    by (simp add: ee_bytes_def ee_flush_laws [OF laws])
  moreover have "[0..<n] = [0..<length blob] @ [length blob..<n]"
    using fit(1) upt_add_eq_append [of 0 "length blob" "n - length blob"] by simp
  moreover have "map ?r [0..<length blob] = blob"
    by (rule nth_equalityI) simp_all
  ultimately have "ee_bytes dv n (ee_reboot dv (ee_flush dv nc (write_bytes dv 0 blob d))) =
      blob @ map ?r [length blob..<n]"
    by (simp only: map_append)
  then show ?thesis by (rule exI)
qed

lemma power_cycle_written:
  assumes laws: "eeprom_laws dv nc"
    and m: "kv_ok m" "encoded_length m \<le> capacityBytes dv s"
    and blob: "blob = encode_header m @ concat (map encode_entry m)"
  shows "data (power_cycle dv (writeBlob dv nc blob s)) = m"
proof -
  let ?s = "writeBlob dv nc blob s"
  let ?t = "\<lparr>data = [], capacity = capacity ?s, dev = ee_reboot dv (dev ?s)\<rparr> :: 'a eeprom_store"
  have cap: "capacityBytes dv ?t = capacityBytes dv s"
    by (simp add: capacityBytes_def writeBlob_def ee_flush_laws [OF laws] write_bytes_length [OF laws] Let_def)
  have dev: "dev ?t = ee_reboot dv (dev ?s)" by simp
  have "length blob \<le> capacityBytes dv s"
    unfolding blob length_encoded by (rule m(2))
  then obtain junk where bytes: "ee_bytes dv (capacityBytes dv s) (dev ?t) = blob @ junk"
    using ee_bytes_written [OF laws _ capacityBytes_le] by (auto simp: writeBlob_def)
  have "data (power_cycle dv ?s) = snd (decodeKv (ee_bytes dv (capacityBytes dv ?t) (dev ?t)))"
    by (simp add: power_cycle_def eeprom_begin_def Let_def)
  then show ?thesis
    using decodeKv_encoded [OF m(1), of junk] unfolding cap bytes by (simp add: blob)
qed

section \<open>The contract\<close>

lemma eeprom_store_write:
  assumes laws: "eeprom_laws dv nc" and ok: "smap_ok m"
    and enc: "encodeKv m (capacityBytes dv s) = (True, blob)"
  shows "eeprom_wf dv (writeBlob dv nc blob (s\<lparr>data := m\<rparr>))"
    and "synced dv (writeBlob dv nc blob (s\<lparr>data := m\<rparr>))"
    and "eeprom_entries (writeBlob dv nc blob (s\<lparr>data := m\<rparr>)) = smap_find m"
proof -
  from encodeKv_cases [OF ok enc] have m: "kv_ok m" "encoded_length m \<le> capacityBytes dv s"
    and blob: "blob = encode_header m @ concat (map encode_entry m)" by auto
  then show "eeprom_wf dv (writeBlob dv nc blob (s\<lparr>data := m\<rparr>))"
    by (simp add: eeprom_wf_def capacityBytes_writeBlob [OF laws] capacityBytes_data)
  show "synced dv (writeBlob dv nc blob (s\<lparr>data := m\<rparr>))"
    using power_cycle_written [OF laws m(1) _ blob, of "s\<lparr>data := m\<rparr>"] m(2)
    by (simp add: synced_def capacityBytes_data)
  show "eeprom_entries (writeBlob dv nc blob (s\<lparr>data := m\<rparr>)) = smap_find m"
    by (simp add: eeprom_entries_def)
qed

lemma eeprom_set_cases:
  assumes "eeprom_laws dv nc" "eeprom_wf dv s" "eeprom_set dv nc k v s = (e, s')"
  shows "(e = Ok \<and> k \<noteq> [] \<and> eeprom_wf dv s' \<and> synced dv s' \<and>
            capacityBytes dv s' = capacityBytes dv s \<and>
            eeprom_entries s' = (eeprom_entries s)(k \<mapsto> v)) \<or>
         (e = InvalidArgument \<and> k = [] \<and> s' = s) \<or> (e = Capacity \<and> k \<noteq> [] \<and> s' = s)"
proof -
  have ok: "smap_ok (data s)" using assms(2) by (simp add: eeprom_wf_def kv_ok_def)
  obtain b blob where enc: "encodeKv (smap_insert k v (data s)) (capacityBytes dv s) = (b, blob)"
    by fastforce
  show ?thesis
  proof (cases "k = [] \<or> \<not> b")
    case True
    with assms(3) enc show ?thesis by (auto simp: eeprom_set_def Let_def split: if_splits)
  next
    case False
    with enc have enc': "encodeKv (smap_insert k v (data s)) (capacityBytes dv s) = (True, blob)"
      by simp
    have s': "e = Ok" "s' = writeBlob dv nc blob (s\<lparr>data := smap_insert k v (data s)\<rparr>)"
      using assms(3) enc' False by (simp_all add: eeprom_set_def Let_def)
    from eeprom_store_write [OF assms(1) smap_ok_insert [OF ok] enc'] False show ?thesis
      unfolding s'
      by (simp add: smap_find_insert [OF ok] capacityBytes_writeBlob [OF assms(1)] capacityBytes_data)
         (simp add: eeprom_entries_def)
  qed
qed

lemma eeprom_remove_cases:
  assumes "eeprom_laws dv nc" "eeprom_wf dv s" "eeprom_remove dv nc k s = (e, s')"
  shows "e = Ok \<and> eeprom_wf dv s' \<and> eeprom_entries s' = (eeprom_entries s)(k := None) \<and>
    capacityBytes dv s' = capacityBytes dv s \<and> (synced dv s' \<or> s' = s)"
proof (cases "smap_find (data s) k = None")
  case True
  with assms(2,3) show ?thesis by (auto simp: eeprom_remove_def eeprom_entries_def)
next
  case False
  have ok: "kv_ok (data s)" and len: "encoded_length (data s) \<le> capacityBytes dv s"
    using assms(2) False by (auto simp: eeprom_wf_def)
  then obtain blob where
    enc: "encodeKv (smap_erase k (data s)) (capacityBytes dv s) = (True, blob)"
    using encodeKv_True [OF kv_ok_erase [OF ok]] encoded_length_erase [of k "data s"]
    by (meson order_trans)
  have s': "e = Ok" "s' = writeBlob dv nc blob (s\<lparr>data := smap_erase k (data s)\<rparr>)"
    using assms(3) enc False by (simp_all add: eeprom_remove_def Let_def)
  have "smap_ok (smap_erase k (data s))" using ok by (simp add: kv_ok_def smap_ok_erase)
  from eeprom_store_write [OF assms(1) this enc] show ?thesis
    unfolding s'
    by (simp add: smap_find_erase capacityBytes_writeBlob [OF assms(1)] capacityBytes_data)
       (simp add: eeprom_entries_def)
qed

lemma eeprom_clear_cases:
  assumes "eeprom_laws dv nc" "eeprom_clear dv nc s = (e, s')"
  shows "e = Ok \<and> eeprom_wf dv s' \<and> eeprom_entries s' = Map.empty \<and>
    capacityBytes dv s' = capacityBytes dv s \<and> (kHeaderSize \<le> capacityBytes dv s \<longrightarrow> synced dv s')"
proof -
  let ?blob = "snd (encodeKv [] (capacityBytes dv s))"
  have s': "e = Ok" "s' = writeBlob dv nc ?blob (s\<lparr>data := []\<rparr>)"
    using assms(2) by (simp_all add: eeprom_clear_def Let_def capacityBytes_data)
  have ok: "kv_ok []" by (simp add: kv_ok_def)
  then have wf: "eeprom_wf dv s' \<and> eeprom_entries s' = Map.empty"
    by (simp add: s' eeprom_wf_def eeprom_entries_def)
  have cap: "capacityBytes dv s' = capacityBytes dv s"
    by (simp add: s' capacityBytes_writeBlob [OF assms(1)] capacityBytes_data)
  have "synced dv s'" if "kHeaderSize \<le> capacityBytes dv s"
  proof -
    have "encodeKv [] (capacityBytes dv s) = (True, ?blob)"
      using that encodeKv_True [OF ok] by (simp add: encoded_length_def)
    from eeprom_store_write(2) [OF assms(1) _ this] show ?thesis unfolding s' by simp
  qed
  with wf cap s' show ?thesis by simp
qed

text \<open>Over a lawful device the store is a secret store: the interface's contract holds, the
  abstract map being the content of the device.\<close>

lemma eeprom_is_secret_store:
  assumes "eeprom_laws dv nc"
  shows "secret_store (eeprom_secret_store dv nc) (eeprom_view dv) (eeprom_inv dv)"
proof
  fix s s' :: "'a eeprom_store" and k v :: string and e
  assume inv: "eeprom_inv dv s"
  then have ok: "eeprom_wf dv s" "synced dv s" "kHeaderSize \<le> capacityBytes dv s"
    by (simp_all add: eeprom_inv_def)
  note cases = eeprom_set_cases [OF assms ok(1)] and view = view_synced [OF ok(2)]
  show "eeprom_inv dv s' \<and> eeprom_view dv s' = (eeprom_view dv s)(k \<mapsto> v)"
    if "ss_set (eeprom_secret_store dv nc) k v s = (Ok, s')"
    using cases [of k v Ok s'] that ok(3) view
    by (auto simp: eeprom_secret_store_def eeprom_inv_def view_synced)
  show "eeprom_inv dv s' \<and> eeprom_view dv s' = eeprom_view dv s"
    if "ss_set (eeprom_secret_store dv nc) k v s = (e, s')" "e \<noteq> Ok"
    using cases [of k v e s'] that inv by (auto simp: eeprom_secret_store_def)
  show "ss_set (eeprom_secret_store dv nc) [] v s = (InvalidArgument, s)"
    by (simp add: eeprom_secret_store_def eeprom_set_def)
  show "ss_get (eeprom_secret_store dv nc) k s =
      (case eeprom_view dv s k of None \<Rightarrow> Inl SecretNotFound | Some v \<Rightarrow> Inr v)"
    by (simp add: eeprom_secret_store_def eeprom_get_def view eeprom_entries_def)
  show "ss_has (eeprom_secret_store dv nc) k s \<longleftrightarrow> eeprom_view dv s k \<noteq> None"
    by (simp add: eeprom_secret_store_def eeprom_has_def view eeprom_entries_def)
  show "e = Ok \<and> eeprom_inv dv s' \<and> eeprom_view dv s' = (eeprom_view dv s)(k := None)"
    if "ss_remove (eeprom_secret_store dv nc) k s = (e, s')"
    using eeprom_remove_cases [OF assms ok(1), of k e s'] that ok view
    by (auto simp: eeprom_secret_store_def eeprom_inv_def view_synced)
  show "e = Ok \<and> eeprom_inv dv s' \<and> eeprom_view dv s' = Map.empty"
    if "ss_clear (eeprom_secret_store dv nc) s = (e, s')"
    using eeprom_clear_cases [OF assms, of s e s'] that ok(3)
    by (auto simp: eeprom_secret_store_def eeprom_inv_def view_synced)
qed

section \<open>Loading arbitrary EEPROM contents\<close>

lemma decode_entries_ok:
  "smap_ok out \<Longrightarrow> \<forall>e\<in>set out. entry_ok e \<Longrightarrow> length out + n \<le> 65535 \<Longrightarrow>
     encoded_length out \<le> pos \<Longrightarrow> pos \<le> length dat \<Longrightarrow>
     decode_entries dat n pos out = (b, m) \<Longrightarrow>
     kv_ok m \<and> encoded_length m \<le> length dat"
proof (induction n arbitrary: pos out)
  case 0
  then show ?case by (simp add: kv_ok_def)
next
  case (Suc n)
  have stop: ?case if "m = out"
    using Suc.prems that by (simp add: kv_ok_def)
  show ?case
  proof (cases "decode_entries dat (Suc n) pos out = (False, out)")
    case True
    with Suc.prems(6) stop show ?thesis by simp
  next
    case False
    let ?k = "unat (dat ! pos)"
    let ?v = "unat (getU16 (dat ! (pos + 1 + ?k)) (dat ! (pos + 1 + ?k + 1)))"
    from False have fit: "pos + 1 + ?k + 2 + ?v \<le> length dat"
      by (simp add: decode_entries.simps(2) Let_def split: if_splits)
    let ?key = "map char_of_byte (take ?k (drop (pos + 1) dat))"
    let ?val = "map char_of_byte (take ?v (drop (pos + 1 + ?k + 2) dat))"
    have lens: "length ?key = ?k" "length ?val = ?v" using fit by simp_all
    have kle: "?k \<le> 255" using unsigned_less [of "dat ! pos", where 'a = nat] by simp
    have vle: "?v \<le> 65535"
      using unsigned_less [of "getU16 (dat ! (pos + 1 + ?k)) (dat ! (pos + 1 + ?k + 1))", where 'a = nat]
    by simp
    have eok: "entry_ok (?key, ?val)"
      using kle vle by (simp only: entry_ok_def fst_conv snd_conv lens kMaxKeyLen_def kMaxValLen_def)
    have next_eq: "decode_entries dat n (pos + 1 + ?k + 2 + ?v) (smap_insert ?key ?val out) = (b, m)"
      using decode_read [OF refl refl fit] Suc.prems(6) by simp
    have len': "length (smap_insert ?key ?val out) + n \<le> 65535"
      using Suc.prems(1,3) by (simp add: length_smap_insert)
    have enc': "encoded_length (smap_insert ?key ?val out) \<le> pos + 1 + ?k + 2 + ?v"
      using encoded_length_insert [of ?key ?val out] Suc.prems(4) unfolding lens by linarith
    have all': "\<forall>e\<in>set (smap_insert ?key ?val out). entry_ok e"
      using set_smap_insert [of ?key ?val out] Suc.prems(2) eok by blast
    show ?thesis
      by (rule Suc.IH [OF smap_ok_insert [OF Suc.prems(1)] all' len' enc' fit next_eq])
  qed
qed

lemma decodeKv_ok:
  "kv_ok (snd (decodeKv dat)) \<and>
     (snd (decodeKv dat) = [] \<or> encoded_length (snd (decodeKv dat)) \<le> length dat)"
proof (cases "length dat < kHeaderSize \<or> take 4 dat \<noteq> kMagic \<or> dat ! 4 \<noteq> kVersion")
  case True
  then have "snd (decodeKv dat) = []" by (auto simp: decodeKv_def)
  then show ?thesis by (simp add: kv_ok_def)
next
  case False
  let ?n = "unat (getU16 (dat ! 5) (dat ! 6))"
  obtain b m where m: "decode_entries dat ?n kHeaderSize [] = (b, m)" by fastforce
  with False have dk: "decodeKv dat = (b, m)" by (simp add: decodeKv_def)
  have "?n \<le> 65535" using unsigned_less [of "getU16 (dat ! 5) (dat ! 6)", where 'a = nat] by simp
  with decode_entries_ok [OF _ _ _ _ _ m] False show ?thesis
    by (simp add: dk encoded_length_def)
qed

lemma eeprom_begin_wf: "eeprom_wf dv (eeprom_begin dv s)"
  using decodeKv_ok [of "ee_bytes dv (capacityBytes dv s) (dev s)"]
  by (simp add: eeprom_wf_def eeprom_begin_def Let_def capacityBytes_data ee_bytes_def)

text \<open>\<open>begin\<close> on a device with nothing left to commit, as after a power cycle, loads what the
  device holds.\<close>

lemma eeprom_begin_synced:
  assumes "eeprom_laws dv nc" "\<And>i. ee_read dv i (ee_reboot dv (dev s)) = ee_read dv i (dev s)"
  shows "synced dv (eeprom_begin dv s)"
proof -
  have "ee_bytes dv n (ee_reboot dv (dev s)) = ee_bytes dv n (dev s)" for n
    by (simp add: ee_bytes_def assms(2))
  then show ?thesis
    by (simp add: synced_def power_cycle_def eeprom_begin_def Let_def capacityBytes_def
        ee_flush_laws(3) [OF assms(1)])
qed

section \<open>Properties\<close>

text \<open>C16: over an EEPROM that behaves as documented, the store obeys the contract of the secret
  store interface, the abstract map being what a power cycle and \<open>begin\<close> read back from the device:
  a write reported as done is in the device, a rejected one leaves the device as it was, and every
  read answers what the device holds.  It does so from any state whose RAM copy is what the device
  holds (the one \<open>begin\<close> leaves, lemma \<open>begin_ready\<close>) with room for the header.\<close>

theorem eeprom_store_contract:
  assumes "eeprom_laws dv nc"
  shows "secret_store (eeprom_secret_store dv nc) (eeprom_view dv) (eeprom_inv dv)"
  using assms by (rule eeprom_is_secret_store)

text \<open>A device to apply the laws to: an array that needs no commit.\<close>

definition ram_dev :: "u8 list eeprom_ops" where
  "ram_dev =
     \<lparr>ee_length = length,
      ee_read = (\<lambda>i d. if i < length d then d ! i else 0),
      ee_write = (\<lambda>i b d. d[i := b]),
      ee_commit = (\<lambda>d. d),
      ee_reboot = (\<lambda>d. d)\<rparr>"

lemma ram_dev_laws: "eeprom_laws ram_dev nc"
  by (simp add: eeprom_laws_def ram_dev_def ee_flush_def)

text \<open>And one with a volatile buffer, as on SAMD: what is not committed is lost with the power.\<close>

definition buffered_dev :: "(u8 list \<times> u8 list) eeprom_ops" where
  "buffered_dev =
     \<lparr>ee_length = (\<lambda>d. length (fst d)),
      ee_read = (\<lambda>i d. if i < length (fst d) then fst d ! i else 0),
      ee_write = (\<lambda>i b d. ((fst d)[i := b], snd d)),
      ee_commit = (\<lambda>d. (fst d, fst d)),
      ee_reboot = (\<lambda>d. (take (length (fst d)) (snd d @ replicate (length (fst d)) 0), snd d))\<rparr>"

lemma buffered_dev_laws: "eeprom_laws buffered_dev True"
  by (simp add: eeprom_laws_def buffered_dev_def ee_flush_def min_def)

theorem eeprom_store_contract_witness:
  "secret_store (eeprom_secret_store buffered_dev True) (eeprom_view buffered_dev) (eeprom_inv buffered_dev)"
  using buffered_dev_laws by (rule eeprom_store_contract)

theorem begin_ready:
  assumes "eeprom_laws dv nc" "\<And>i. ee_read dv i (ee_reboot dv (dev s)) = ee_read dv i (dev s)"
    and "kHeaderSize \<le> capacityBytes dv s"
  shows "eeprom_inv dv (eeprom_begin dv s)"
  using eeprom_begin_synced [OF assms(1,2)] assms(3) eeprom_begin_wf [of dv s]
  by (simp add: eeprom_inv_def eeprom_begin_def Let_def capacityBytes_data)

theorem begin_ready_witness:
  "eeprom_inv ram_dev (eeprom_begin ram_dev \<lparr>data = [], capacity = 0, dev = replicate 32 0\<rparr>)"
  by (rule begin_ready [OF ram_dev_laws]) (simp_all add: ram_dev_def capacityBytes_def kHeaderSize_def)

text \<open>when \<open>set\<close> reports success, a power cycle right after it loses nothing: \<open>begin\<close> loads
  the old entries with the new one, also when the store was loaded from a device in any state.\<close>

theorem set_survives_power_cycle:
  assumes "eeprom_laws dv nc" "eeprom_wf dv s" "eeprom_set dv nc k v s = (Ok, s')"
  shows "eeprom_view dv s' = (eeprom_entries s)(k \<mapsto> v)"
  using eeprom_set_cases [OF assms] by (auto simp: view_synced)

theorem set_survives_power_cycle_witness:
  "eeprom_view ram_dev
      (snd (eeprom_set ram_dev True ''k'' ''v'' \<lparr>data = [], capacity = 0, dev = replicate 32 0\<rparr>))
   = (eeprom_entries \<lparr>data = [], capacity = 0, dev = replicate 32 0 :: u8 list\<rparr>)(''k'' \<mapsto> ''v'')"
proof (rule set_survives_power_cycle [OF ram_dev_laws])
  let ?s = "\<lparr>data = [], capacity = 0, dev = replicate 32 0 :: u8 list\<rparr>"
  show "eeprom_wf ram_dev ?s" by (simp add: eeprom_wf_def kv_ok_def)
  have "capacityBytes ram_dev ?s = 32" by (simp add: capacityBytes_def ram_dev_def)
  moreover have "kv_ok [(''k'', ''v'')]"
    by (simp add: kv_ok_def smap_ok_def entry_ok_def kMaxKeyLen_def kMaxValLen_def)
  ultimately have "fst (eeprom_set ram_dev True ''k'' ''v'' ?s) = Ok"
    by (simp add: eeprom_set_def encodeKv_True encoded_length_def kHeaderSize_def Let_def)
  then show "eeprom_set ram_dev True ''k'' ''v'' ?s =
      (Ok, snd (eeprom_set ram_dev True ''k'' ''v'' ?s))"
    by (simp add: prod_eq_iff)
qed

text \<open>whatever the EEPROM contains at start-up (an erased chip, another program's data, a blob
  cut short), \<open>begin\<close> leaves a well-formed store: keys ordered and distinct, fields within their
  limits, and its encoding fits the space again.\<close>

theorem begin_always_well_formed: "eeprom_wf dv (eeprom_begin dv s)"
  by (rule eeprom_begin_wf)

end
