(* ===== verification/Prefs_Store.thy ===== *)
theory Prefs_Store
  imports Core_Errors
begin

text \<open>
  \<open>PreferencesSecretStore\<close> (hal/PreferencesSecretStore.{h,cpp}): the derivation of the NVS key
  from a caller key and the five operations over the Arduino \<open>Preferences\<close> library, which is a
  parameter (\<open>prefs_ops\<close>) with its documented behaviour as \<open>prefs_laws\<close>.  Proved: derived keys
  fit the NVS limit; set/get/has/remove behave as a map on the derived keys, values cut at the
  first NUL as \<open>c_str()\<close> cuts them; two caller keys share an entry exactly when their hashes
  agree, which short keys can do.
\<close>

section \<open>The derived key\<close>

definition fnv_step :: "u32 \<Rightarrow> char \<Rightarrow> u32" where
  "fnv_step h c = (h XOR word_of_nat (char_code c)) * 16777619"

definition fnv1a :: "string \<Rightarrow> u32" where
  "fnv1a s = foldl fnv_step 2166136261 s"

definition hex_lower :: string where
  "hex_lower = ''0123456789abcdef''"

definition nibble :: "u32 \<Rightarrow> nat \<Rightarrow> nat" where
  "nibble h i = unat (drop_bit ((7 - i) * 4) h AND 0xF)"

definition shortKey :: "string \<Rightarrow> string" where
  "shortKey key = CHR ''k'' # map (\<lambda>i. hex_lower ! nibble (fnv1a key) i) [0..<8]"

definition nvs_key_limit :: nat where
  "nvs_key_limit = 15"

lemma nibble_less: "nibble h i < 16"
proof -
  have "drop_bit ((7 - i) * 4) h AND 0xF = take_bit 4 (drop_bit ((7 - i) * 4) h)"
    by (simp add: take_bit_eq_mask mask_eq_exp_minus_1)
  then have "nibble h i = take_bit 4 (unat (drop_bit ((7 - i) * 4) h))"
    by (simp add: nibble_def unsigned_take_bit_eq)
  then show ?thesis using take_bit_nat_less_exp [of 4 "unat (drop_bit ((7 - i) * 4) h)"] by simp
qed

lemma hex_lower_inj: "a < 16 \<Longrightarrow> b < 16 \<Longrightarrow> hex_lower ! a = hex_lower ! b \<longleftrightarrow> a = b"
proof -
  assume "a < 16" "b < 16"
  moreover have "distinct hex_lower" "length hex_lower = 16" by (simp_all add: hex_lower_def)
  ultimately show ?thesis by (simp add: nth_eq_iff_index_eq)
qed

lemma nibble_eq_bits:
  assumes "nibble g i = nibble h i" "j < 4"
  shows "bit g ((7 - i) * 4 + j) = bit h ((7 - i) * 4 + j)"
proof -
  have f: "(0xF :: u32) = mask 4" by (simp add: mask_eq_exp_minus_1)
  from assms(1) have "drop_bit ((7 - i) * 4) g AND 0xF = drop_bit ((7 - i) * 4) h AND 0xF"
    by (simp only: nibble_def unsigned_word_eqI)
  then have "bit (drop_bit ((7 - i) * 4) g AND 0xF) j = bit (drop_bit ((7 - i) * 4) h AND 0xF) j"
    by simp
  with assms(2) show ?thesis by (simp add: f bit_simps)
qed

lemma nibbles_determine:
  assumes "\<forall>i<8. nibble g i = nibble h i"
  shows "g = h"
proof (rule bit_word_eqI)
  fix n assume n: "n < LENGTH(32)"
  let ?i = "7 - n div 4"
  have "n div 4 < 8" using n by simp
  then have "(7 - ?i) * 4 + n mod 4 = n" by simp
  moreover have "nibble g ?i = nibble h ?i" using assms by simp
  from nibble_eq_bits [OF this, of "n mod 4"]
  have "bit g ((7 - ?i) * 4 + n mod 4) = bit h ((7 - ?i) * 4 + n mod 4)" by simp
  ultimately show "bit g n = bit h n" by simp
qed

lemma shortKey_eq: "shortKey a = shortKey b \<longleftrightarrow> fnv1a a = fnv1a b"
proof
  assume "shortKey a = shortKey b"
  then have "\<forall>i\<in>set [0..<8]. hex_lower ! nibble (fnv1a a) i = hex_lower ! nibble (fnv1a b) i"
    unfolding shortKey_def by (simp only: list.inject map_eq_conv simp_thms)
  then have "\<forall>i<8. nibble (fnv1a a) i = nibble (fnv1a b) i"
    using nibble_less hex_lower_inj by auto
  then show "fnv1a a = fnv1a b" by (rule nibbles_determine)
qed (simp add: shortKey_def)

lemma length_shortKey [simp]: "length (shortKey key) = 9"
  by (simp add: shortKey_def)

section \<open>The Preferences library\<close>

record 'd prefs_ops =
  pf_begin :: "string \<Rightarrow> bool \<Rightarrow> 'd \<Rightarrow> bool \<times> 'd"
  pf_putString :: "string \<Rightarrow> string \<Rightarrow> 'd \<Rightarrow> nat \<times> 'd"
  pf_isKey :: "string \<Rightarrow> 'd \<Rightarrow> bool"
  pf_getString :: "string \<Rightarrow> string \<Rightarrow> 'd \<Rightarrow> string"
  pf_remove :: "string \<Rightarrow> 'd \<Rightarrow> 'd"
  pf_clear :: "'d \<Rightarrow> 'd"
  pf_end :: "'d \<Rightarrow> 'd"

definition prefs_set ::
  "'d prefs_ops \<Rightarrow> string \<Rightarrow> string \<Rightarrow> string \<Rightarrow> 'd \<Rightarrow> status \<times> 'd" where
  "prefs_set pf ns key value d =
     (if key = [] then (InvalidArgument, d)
      else
        (case pf_begin pf ns False d of
           (False, d1) \<Rightarrow> (SecretStoreError, d1)
         | (True, d1) \<Rightarrow>
             (let (written, d2) = pf_putString pf (c_str (shortKey key)) (c_str value) d1;
                  d3 = pf_end pf d2
              in if written = 0 \<and> value \<noteq> [] then (SecretStoreError, d3) else (Ok, d3))))"

definition prefs_get :: "'d prefs_ops \<Rightarrow> string \<Rightarrow> string \<Rightarrow> 'd \<Rightarrow> string result \<times> 'd" where
  "prefs_get pf ns key d =
     (case pf_begin pf ns True d of
        (False, d1) \<Rightarrow> (Inl SecretStoreError, d1)
      | (True, d1) \<Rightarrow>
          (let sk = shortKey key
           in if \<not> pf_isKey pf (c_str sk) d1 then (Inl SecretNotFound, pf_end pf d1)
              else (let value = pf_getString pf (c_str sk) [] d1
                    in (Inr (c_str value), pf_end pf d1))))"

definition prefs_has :: "'d prefs_ops \<Rightarrow> string \<Rightarrow> string \<Rightarrow> 'd \<Rightarrow> bool \<times> 'd" where
  "prefs_has pf ns key d =
     (case pf_begin pf ns True d of
        (False, d1) \<Rightarrow> (False, d1)
      | (True, d1) \<Rightarrow>
          (let present = pf_isKey pf (c_str (shortKey key)) d1 in (present, pf_end pf d1)))"

definition prefs_remove :: "'d prefs_ops \<Rightarrow> string \<Rightarrow> string \<Rightarrow> 'd \<Rightarrow> status \<times> 'd" where
  "prefs_remove pf ns key d =
     (case pf_begin pf ns False d of
        (False, d1) \<Rightarrow> (SecretStoreError, d1)
      | (True, d1) \<Rightarrow> (Ok, pf_end pf (pf_remove pf (c_str (shortKey key)) d1)))"

definition prefs_clear :: "'d prefs_ops \<Rightarrow> string \<Rightarrow> 'd \<Rightarrow> status \<times> 'd" where
  "prefs_clear pf ns d =
     (case pf_begin pf ns False d of
        (False, d1) \<Rightarrow> (SecretStoreError, d1)
      | (True, d1) \<Rightarrow> (Ok, pf_end pf (pf_clear pf d1)))"

text \<open>
  What \<open>Preferences\<close> documents once the namespace opens: \<open>nv d\<close> is the namespace's content.
  \<open>putString\<close> returns the number of bytes written and, when that is not the length of the
  value, leaves the content alone; opening and closing change no content.
\<close>

definition prefs_laws :: "'d prefs_ops \<Rightarrow> string \<Rightarrow> ('d \<Rightarrow> string \<Rightarrow> string option) \<Rightarrow> bool" where
  "prefs_laws pf ns nv \<longleftrightarrow>
     (\<forall>d ro. fst (pf_begin pf ns ro d) \<and> nv (snd (pf_begin pf ns ro d)) = nv d) \<and>
     (\<forall>d. nv (pf_end pf d) = nv d) \<and>
     (\<forall>k v d. (fst (pf_putString pf k v d) = length v \<and>
               nv (snd (pf_putString pf k v d)) = (nv d)(k \<mapsto> v)) \<or>
              (fst (pf_putString pf k v d) = 0 \<and> v \<noteq> [] \<and> nv (snd (pf_putString pf k v d)) = nv d)) \<and>
     (\<forall>k d. pf_isKey pf k d \<longleftrightarrow> nv d k \<noteq> None) \<and>
     (\<forall>k v d. nv d k = Some v \<longrightarrow> pf_getString pf k [] d = v) \<and>
     (\<forall>k d. nv (pf_remove pf k d) = (nv d)(k := None)) \<and>
     (\<forall>d. nv (pf_clear pf d) = Map.empty)"

lemma hex_lower_no_nul: "i < 16 \<Longrightarrow> char_code (hex_lower ! i) \<noteq> 0"
proof -
  assume "i < 16"
  then have "i < length hex_lower" by (simp add: hex_lower_def)
  then have "hex_lower ! i \<in> set hex_lower" by (rule nth_mem)
  moreover have "\<forall>c\<in>set hex_lower. char_code c \<noteq> 0" by (simp add: hex_lower_def char_code_def)
  ultimately show ?thesis by blast
qed

lemma c_str_shortKey [simp]: "c_str (shortKey key) = shortKey key"
proof -
  have "\<forall>c\<in>set (shortKey key). char_code c \<noteq> 0"
    using nibble_less hex_lower_no_nul by (auto simp: shortKey_def char_code_def)
  then show ?thesis unfolding c_str_def by (simp add: takeWhile_eq_all_conv)
qed

lemma prefs_set_effect:
  assumes "prefs_laws pf ns nv" "prefs_set pf ns key value d = (Ok, d')"
    and "c_str value \<noteq> [] \<or> value = []"
  shows "nv d' = (nv d)(shortKey key \<mapsto> c_str value)"
proof -
  let ?d1 = "snd (pf_begin pf ns False d)"
  let ?put = "pf_putString pf (shortKey key) (c_str value) ?d1"
  have ne: "key \<noteq> []" using assms(2) by (auto simp: prefs_set_def)
  have b: "pf_begin pf ns False d = (True, ?d1)" and nv1: "nv ?d1 = nv d"
    using assms(1) by (simp_all add: prefs_laws_def prod_eq_iff)
  have d': "d' = pf_end pf (snd ?put)" "fst ?put \<noteq> 0 \<or> value = []"
    using assms(2) ne b by (auto simp: prefs_set_def Let_def split: prod.splits if_splits)
  have nvd: "nv d' = nv (snd ?put)" using assms(1) d'(1) by (simp add: prefs_laws_def)
  have "fst ?put = length (c_str value) \<and> nv (snd ?put) = (nv ?d1)(shortKey key \<mapsto> c_str value) \<or>
      fst ?put = 0 \<and> c_str value \<noteq> [] \<and> nv (snd ?put) = nv ?d1"
    using assms(1) unfolding prefs_laws_def by blast
  then show ?thesis using d'(2) nvd nv1 by (auto simp: c_str_def)
qed

lemma prefs_get_eq:
  assumes "prefs_laws pf ns nv"
  shows "fst (prefs_get pf ns key d) =
    (case nv d (shortKey key) of None \<Rightarrow> Inl SecretNotFound | Some v \<Rightarrow> Inr (c_str v))"
proof -
  let ?d1 = "snd (pf_begin pf ns True d)"
  have b: "pf_begin pf ns True d = (True, ?d1)" and nv1: "nv ?d1 = nv d"
    using assms by (simp_all add: prefs_laws_def prod_eq_iff)
  have "pf_isKey pf (shortKey key) ?d1 \<longleftrightarrow> nv d (shortKey key) \<noteq> None"
    and "\<And>v. nv d (shortKey key) = Some v \<Longrightarrow> pf_getString pf (shortKey key) [] ?d1 = v"
    using assms nv1 by (simp_all add: prefs_laws_def)
  then show ?thesis
    by (subst prefs_get_def, subst b) (auto simp: Let_def split: option.split)
qed

lemma prefs_remove_effect:
  assumes "prefs_laws pf ns nv"
  shows "fst (prefs_remove pf ns key d) = Ok"
    and "nv (snd (prefs_remove pf ns key d)) = (nv d)(shortKey key := None)"
proof -
  let ?d1 = "snd (pf_begin pf ns False d)"
  have b: "pf_begin pf ns False d = (True, ?d1)" and nv1: "nv ?d1 = nv d"
    using assms by (simp_all add: prefs_laws_def prod_eq_iff)
  have eq: "prefs_remove pf ns key d = (Ok, pf_end pf (pf_remove pf (shortKey key) ?d1))"
    by (subst prefs_remove_def, subst b) simp
  show "fst (prefs_remove pf ns key d) = Ok"
    and "nv (snd (prefs_remove pf ns key d)) = (nv d)(shortKey key := None)"
    unfolding eq using assms nv1 by (simp_all add: prefs_laws_def)
qed

section \<open>Properties\<close>

text \<open>a derived key fits the 15 characters NVS allows, whatever the caller's key.\<close>

theorem short_key_fits_nvs: "length (shortKey key) \<le> nvs_key_limit \<and> c_str (shortKey key) = shortKey key"
  by (simp add: nvs_key_limit_def)

text \<open>after a successful \<open>set\<close>, \<open>get\<close> of any caller key with the same hash returns the value up
  to its first NUL, and every key with another hash reads as before.\<close>

theorem prefs_get_after_set:
  assumes "prefs_laws pf ns nv" "prefs_set pf ns key value d = (Ok, d')"
    and "c_str value \<noteq> [] \<or> value = []"
  shows "fst (prefs_get pf ns key' d') =
    (if fnv1a key' = fnv1a key then Inr (c_str value) else fst (prefs_get pf ns key' d))"
  using prefs_set_effect [OF assms]
  by (auto simp: prefs_get_eq [OF assms(1)] shortKey_eq split: option.split)

definition ram_prefs :: "(string \<rightharpoonup> string) prefs_ops" where
  "ram_prefs =
     \<lparr>pf_begin = (\<lambda>ns ro d. (True, d)), pf_putString = (\<lambda>k v d. (length v, d(k \<mapsto> v))),
      pf_isKey = (\<lambda>k d. d k \<noteq> None),
      pf_getString = (\<lambda>k def d. case d k of None \<Rightarrow> def | Some v \<Rightarrow> v),
      pf_remove = (\<lambda>k d. d(k := None)), pf_clear = (\<lambda>d. Map.empty), pf_end = (\<lambda>d. d)\<rparr>"

theorem prefs_get_after_set_witness:
  "fst (prefs_get ram_prefs ''ns'' ''liquid''
      (snd (prefs_set ram_prefs ''ns'' ''costarring'' ''v'' Map.empty))) =
   (if fnv1a ''liquid'' = fnv1a ''costarring'' then Inr (c_str ''v'')
    else fst (prefs_get ram_prefs ''ns'' ''liquid'' Map.empty))"
proof (rule prefs_get_after_set [where nv = "\<lambda>d. d"])
  show "prefs_laws ram_prefs ''ns'' (\<lambda>d. d)"
    by (simp add: prefs_laws_def ram_prefs_def)
  show "prefs_set ram_prefs ''ns'' ''costarring'' ''v'' Map.empty =
      (Ok, snd (prefs_set ram_prefs ''ns'' ''costarring'' ''v'' Map.empty))"
    by (simp add: prefs_set_def ram_prefs_def c_str_def char_code_def)
  show "c_str ''v'' \<noteq> [] \<or> ''v'' = []" by (simp add: c_str_def char_code_def)
qed

text \<open>two different ordinary identifiers share one derived key, so storing one secret
  overwrites the other.\<close>

theorem short_key_collision:
  "shortKey ''costarring'' = shortKey ''liquid'' \<and> ''costarring'' \<noteq> ''liquid''"
proof -
  have "fnv1a ''costarring'' = fnv1a ''liquid''"
    by code_simp
  then show ?thesis by (simp add: shortKey_eq)
qed

end
