(* ===== verification/Edge_Store.thy ===== *)
theory Edge_Store
  imports Secret_Store
begin

text \<open>
  \<open>EdgeStore\<close> (mcp/EdgeStore.{h,cpp}), the bounded key/value store the MCP server exposes.  Its
  backend is any \<open>ISecretStore\<close>: the operations take the record \<open>ops\<close> of Secret_Store, and the
  lemmas on persistence are proved in the locale \<open>secret_store\<close>.  The clock is the sequence of
  its readings, \<open>ticks\<close> counts the readings taken; \<open>events\<close> records the calls of the change
  hook (Edge_Hooks runs a hook that calls back into the store).
\<close>

section \<open>State\<close>

definition kManifestKey :: string where
  "kManifestKey = ''__edgestore_manifest__''"

record 's edge_store =
  edata :: "(string, string) smap"
  expiry :: "(string, u32) smap"
  maxKeys :: nat
  maxValueLen :: nat
  maxKeyLen :: nat
  backend :: "'s option"
  onChange :: bool
  clock :: "(nat \<Rightarrow> u32) option"
  ticks :: nat
  events :: "(string \<times> bool) list"

definition edge_new :: "nat \<Rightarrow> nat \<Rightarrow> nat \<Rightarrow> 's edge_store" where
  "edge_new mk mv ml =
     \<lparr>edata = [], expiry = [], maxKeys = mk, maxValueLen = mv, maxKeyLen = ml, backend = None,
      onChange = False, clock = None, ticks = 0, events = []\<rparr>"

definition setOnChange :: "bool \<Rightarrow> 's edge_store \<Rightarrow> 's edge_store" where
  "setOnChange fn st = st\<lparr>onChange := fn\<rparr>"

definition setClock :: "(nat \<Rightarrow> u32) option \<Rightarrow> 's edge_store \<Rightarrow> 's edge_store" where
  "setClock c st = st\<lparr>clock := c, ticks := 0\<rparr>"

definition notify :: "string \<Rightarrow> bool \<Rightarrow> 's edge_store \<Rightarrow> 's edge_store" where
  "notify key removed st = (if onChange st then st\<lparr>events := events st @ [(key, removed)]\<rparr> else st)"

function splitLines :: "string \<Rightarrow> string list" where
  "splitLines s =
     (case find_char_idx LF s of
        None \<Rightarrow> if s \<noteq> [] then [s] else []
      | Some nl \<Rightarrow> (if 0 < nl then [take nl s] else []) @ splitLines (drop (Suc nl) s))"
  by pat_completeness auto
termination
  by (relation "measure length") (auto simp: find_char_idx_Some)

declare splitLines.simps [simp del]

section \<open>Operations\<close>

text \<open>\<open>static_cast<int32_t>(clock_() - deadline) >= 0\<close>.\<close>

definition deadline_passed :: "u32 \<Rightarrow> u32 \<Rightarrow> bool" where
  "deadline_passed now deadline \<longleftrightarrow> 0 \<le> sint (now - deadline)"

definition expiredNow :: "string \<Rightarrow> 's edge_store \<Rightarrow> bool \<times> 's edge_store" where
  "expiredNow key st =
     (case clock st of
        None \<Rightarrow> (False, st)
      | Some c \<Rightarrow>
          (case smap_find (expiry st) key of
             None \<Rightarrow> (False, st)
           | Some d \<Rightarrow> (deadline_passed (c (ticks st)) d, st\<lparr>ticks := ticks st + 1\<rparr>)))"

fun collect_dead :: "(nat \<Rightarrow> u32) \<Rightarrow> nat \<Rightarrow> (string, u32) smap \<Rightarrow> string list" where
  "collect_dead c t [] = []"
| "collect_dead c t ((k, d) # es) =
     (if deadline_passed (c t) d then k # collect_dead c (t + 1) es else collect_dead c (t + 1) es)"

definition evict_one :: "string \<Rightarrow> 's edge_store \<Rightarrow> 's edge_store" where
  "evict_one key st =
     notify key True (st\<lparr>edata := smap_erase key (edata st), expiry := smap_erase key (expiry st)\<rparr>)"

definition evictExpired :: "'s edge_store \<Rightarrow> 's edge_store" where
  "evictExpired st =
     (case clock st of
        None \<Rightarrow> st
      | Some c \<Rightarrow>
          if expiry st = [] then st
          else fold evict_one (collect_dead c (ticks st) (expiry st))
                 (st\<lparr>ticks := ticks st + length (expiry st)\<rparr>))"

definition validateAndStore :: "string \<Rightarrow> string \<Rightarrow> 's edge_store \<Rightarrow> status \<times> 's edge_store" where
  "validateAndStore key value st =
     (if key = [] \<or> maxKeyLen st < length key then (InvalidArgument, st)
      else if LF \<in> set key then (InvalidArgument, st)
      else if key = kManifestKey then (InvalidArgument, st)
      else if maxValueLen st < length value then (Capacity, st)
      else if smap_find (edata st) key = None \<and> maxKeys st \<le> length (edata st) then (Capacity, st)
      else (Ok, st\<lparr>edata := smap_insert key value (edata st)\<rparr>))"

fun join_keys :: "(string, u32) smap \<Rightarrow> string \<Rightarrow> (string, string) smap \<Rightarrow> string" where
  "join_keys ex joined [] = joined"
| "join_keys ex joined ((k, v) # m) =
     (if smap_find ex k \<noteq> None then join_keys ex joined m
      else join_keys ex ((if joined \<noteq> [] then joined @ [LF] else joined) @ k) m)"

definition persistManifest :: "'s secret_ops \<Rightarrow> 's edge_store \<Rightarrow> 's edge_store" where
  "persistManifest ops st =
     (case backend st of
        None \<Rightarrow> st
      | Some b \<Rightarrow>
          st\<lparr>backend := Some (snd (ss_set ops kManifestKey (join_keys (expiry st) [] (edata st)) b))\<rparr>)"

definition edge_set ::
  "'s secret_ops \<Rightarrow> string \<Rightarrow> string \<Rightarrow> 's edge_store \<Rightarrow> status \<times> 's edge_store" where
  "edge_set ops key value st0 =
     (let st = evictExpired st0;
          wasTtl = smap_find (expiry st) key \<noteq> None;
          isNew = smap_find (edata st) key = None;
          (stored, st1) = validateAndStore key value st
      in if stored \<noteq> Ok then (stored, st1)
         else
           (let st2 = st1\<lparr>expiry := smap_erase key (expiry st1)\<rparr>
            in case backend st2 of
                 None \<Rightarrow> (Ok, notify key False st2)
               | Some b \<Rightarrow>
                   (let (s, b') = ss_set ops key value b;
                        st3 = st2\<lparr>backend := Some b'\<rparr>
                    in if s \<noteq> Ok then (s, st3)
                       else
                         (let st4 = (if isNew \<or> wasTtl then persistManifest ops st3 else st3)
                          in (Ok, notify key False st4)))))"

definition edge_setWithTtl ::
  "'s secret_ops \<Rightarrow> string \<Rightarrow> string \<Rightarrow> u32 \<Rightarrow> 's edge_store \<Rightarrow> status \<times> 's edge_store" where
  "edge_setWithTtl ops key value ttlMs st0 =
     (case clock st0 of
        None \<Rightarrow> (InvalidState, st0)
      | Some c \<Rightarrow>
          (let st = evictExpired st0;
               wasDurable = (smap_find (edata st) key \<noteq> None \<and> smap_find (expiry st) key = None);
               (stored, st1) = validateAndStore key value st
           in if stored \<noteq> Ok then (stored, st1)
              else
                (let st2 = st1\<lparr>expiry := smap_insert key (c (ticks st1) + ttlMs) (expiry st1),
                               ticks := ticks st1 + 1\<rparr>;
                     st3 = (case backend st2 of
                              None \<Rightarrow> st2
                            | Some b \<Rightarrow>
                                if wasDurable
                                then persistManifest ops
                                       (st2\<lparr>backend := Some (snd (ss_remove ops key b))\<rparr>)
                                else st2)
                 in (Ok, notify key False st3))))"

definition edge_get :: "string \<Rightarrow> 's edge_store \<Rightarrow> string result \<times> 's edge_store" where
  "edge_get key st0 =
     (let st = evictExpired st0
      in case smap_find (edata st) key of
           None \<Rightarrow> (Inl NotFound, st)
         | Some v \<Rightarrow> (Inr v, st))"

definition edge_has :: "string \<Rightarrow> 's edge_store \<Rightarrow> bool \<times> 's edge_store" where
  "edge_has key st =
     (case smap_find (edata st) key of
        None \<Rightarrow> (False, st)
      | Some v \<Rightarrow> (let (x, st') = expiredNow key st in (\<not> x, st')))"

definition edge_remove ::
  "'s secret_ops \<Rightarrow> string \<Rightarrow> 's edge_store \<Rightarrow> status \<times> 's edge_store" where
  "edge_remove ops key st0 =
     (if key = kManifestKey then (Ok, st0)
      else
        (let st = evictExpired st0
         in if smap_find (edata st) key = None then (Ok, st)
            else
              (let st1 = st\<lparr>edata := smap_erase key (edata st),
                            expiry := smap_erase key (expiry st)\<rparr>;
                   st2 = (case backend st1 of
                            None \<Rightarrow> st1
                          | Some b \<Rightarrow>
                              persistManifest ops
                                (st1\<lparr>backend := Some (snd (ss_remove ops key b))\<rparr>))
               in (Ok, notify key True st2))))"

fun live_keys :: "string list \<Rightarrow> 's edge_store \<Rightarrow> string list \<times> 's edge_store" where
  "live_keys [] st = ([], st)"
| "live_keys (k # ks) st =
     (let (x, st1) = expiredNow k st;
          (out, st2) = live_keys ks st1
      in (if x then out else k # out, st2))"

definition edge_keys :: "'s edge_store \<Rightarrow> string list \<times> 's edge_store" where
  "edge_keys st = live_keys (map fst (edata st)) st"

definition edge_size :: "'s edge_store \<Rightarrow> nat \<times> 's edge_store" where
  "edge_size st = (let (ks, st') = edge_keys st in (length ks, st'))"

definition load_one ::
  "'s secret_ops \<Rightarrow> 's \<Rightarrow> string \<Rightarrow> 's edge_store \<Rightarrow> 's edge_store" where
  "load_one ops b key st =
     (case ss_get ops key b of
        Inl _ \<Rightarrow> st
      | Inr v \<Rightarrow>
          if length (edata st) < maxKeys st then st\<lparr>edata := smap_insert key v (edata st)\<rparr> else st)"

definition setPersistence ::
  "'s secret_ops \<Rightarrow> 's option \<Rightarrow> 's edge_store \<Rightarrow> 's edge_store" where
  "setPersistence ops be st0 =
     (let st = st0\<lparr>backend := be\<rparr>
      in case be of
           None \<Rightarrow> st
         | Some b \<Rightarrow>
             (case ss_get ops kManifestKey b of
                Inl _ \<Rightarrow> st
              | Inr manifest \<Rightarrow> fold (load_one ops b) (splitLines manifest) st))"

section \<open>The bounds invariant\<close>

definition key_ok :: "'s edge_store \<Rightarrow> string \<Rightarrow> bool" where
  "key_ok st k \<longleftrightarrow> k \<noteq> [] \<and> length k \<le> maxKeyLen st \<and> LF \<notin> set k \<and> k \<noteq> kManifestKey"

definition edge_inv :: "'s edge_store \<Rightarrow> bool" where
  "edge_inv st \<longleftrightarrow>
     smap_ok (edata st) \<and> smap_ok (expiry st) \<and>
     (\<forall>k. smap_find (expiry st) k \<noteq> None \<longrightarrow> smap_find (edata st) k \<noteq> None) \<and>
     length (edata st) \<le> maxKeys st \<and>
     (\<forall>k v. smap_find (edata st) k = Some v \<longrightarrow> key_ok st k \<and> length v \<le> maxValueLen st)"

text \<open>The fields no operation other than the setters changes.\<close>

definition same_config :: "'s edge_store \<Rightarrow> 's edge_store \<Rightarrow> bool" where
  "same_config a b \<longleftrightarrow> maxKeys a = maxKeys b \<and> maxValueLen a = maxValueLen b \<and>
     maxKeyLen a = maxKeyLen b \<and> clock a = clock b \<and> onChange a = onChange b"

lemma notify_simps [simp]:
  "edata (notify k r st) = edata st" "expiry (notify k r st) = expiry st"
  "maxKeys (notify k r st) = maxKeys st" "maxValueLen (notify k r st) = maxValueLen st"
  "maxKeyLen (notify k r st) = maxKeyLen st" "backend (notify k r st) = backend st"
  "clock (notify k r st) = clock st" "onChange (notify k r st) = onChange st"
  "ticks (notify k r st) = ticks st"
  by (simp_all add: notify_def)

lemma persistManifest_simps [simp]:
  "edata (persistManifest ops st) = edata st" "expiry (persistManifest ops st) = expiry st"
  "maxKeys (persistManifest ops st) = maxKeys st"
  "maxValueLen (persistManifest ops st) = maxValueLen st"
  "maxKeyLen (persistManifest ops st) = maxKeyLen st"
  "clock (persistManifest ops st) = clock st" "onChange (persistManifest ops st) = onChange st"
  by (simp_all add: persistManifest_def split: option.split)

lemma edge_inv_irrelevant [simp]:
  "edge_inv (notify k r st) = edge_inv st"
  "edge_inv (persistManifest ops st) = edge_inv st"
  "edge_inv (st\<lparr>backend := b\<rparr>) = edge_inv st"
  "edge_inv (st\<lparr>ticks := t\<rparr>) = edge_inv st"
  by (simp_all add: edge_inv_def key_ok_def)

lemma evict_one_simps [simp]:
  "edata (evict_one k st) = smap_erase k (edata st)"
  "expiry (evict_one k st) = smap_erase k (expiry st)"
  "maxKeys (evict_one k st) = maxKeys st" "maxValueLen (evict_one k st) = maxValueLen st"
  "maxKeyLen (evict_one k st) = maxKeyLen st" "backend (evict_one k st) = backend st"
  "clock (evict_one k st) = clock st" "onChange (evict_one k st) = onChange st"
  by (simp_all add: evict_one_def)

lemma edge_inv_evict_one: "edge_inv st \<Longrightarrow> edge_inv (evict_one k st)"
  using length_smap_erase [of k "edata st"]
  by (auto simp: edge_inv_def map_simps key_ok_def)

lemma fold_evict:
  "edge_inv st \<Longrightarrow> edge_inv (fold evict_one ks st) \<and> same_config (fold evict_one ks st) st \<and>
     backend (fold evict_one ks st) = backend st \<and>
     smap_find (edata (fold evict_one ks st)) = smap_find (edata st) |` (- set ks) \<and>
     smap_find (expiry (fold evict_one ks st)) = smap_find (expiry st) |` (- set ks)"
proof (induction ks arbitrary: st)
  case Nil
  then show ?case by (simp add: same_config_def)
next
  case (Cons k ks)
  show ?case
    using Cons.IH [OF edge_inv_evict_one [OF Cons.prems, of k]]
    by (auto simp: same_config_def smap_find_erase restrict_map_def fun_eq_iff)
qed

lemma collect_dead_keys: "set (collect_dead c t ex) \<subseteq> fst ` set ex"
  by (induction c t ex rule: collect_dead.induct) auto

definition durable :: "'s edge_store \<Rightarrow> string \<Rightarrow> string option" where
  "durable st k = (if smap_find (expiry st) k = None then smap_find (edata st) k else None)"

lemma evictExpired_facts:
  assumes "edge_inv st"
  shows "edge_inv (evictExpired st)" and "same_config (evictExpired st) st"
    and "backend (evictExpired st) = backend st"
    and "durable (evictExpired st) = durable st"
    and "smap_find (edata (evictExpired st)) \<subseteq>\<^sub>m smap_find (edata st)"
proof -
  have *: "edge_inv (evictExpired st) \<and> same_config (evictExpired st) st \<and>
      backend (evictExpired st) = backend st \<and> durable (evictExpired st) = durable st \<and>
      smap_find (edata (evictExpired st)) \<subseteq>\<^sub>m smap_find (edata st)"
  proof (cases "clock st = None \<or> expiry st = []")
    case True
    then have "evictExpired st = st" by (auto simp: evictExpired_def split: option.split)
    with assms show ?thesis by (simp add: same_config_def)
  next
    case False
    then obtain c where c: "clock st = Some c" by auto
    let ?ks = "collect_dead c (ticks st) (expiry st)"
    let ?st = "st\<lparr>ticks := ticks st + length (expiry st)\<rparr>"
    have e: "evictExpired st = fold evict_one ?ks ?st"
      using False c by (simp add: evictExpired_def)
    have "edge_inv ?st" using assms by simp
    note f = fold_evict [OF this, of ?ks]
    have expd: "\<exists>d. smap_find (expiry st) k = Some d" if "k \<in> set ?ks" for k
      using that collect_dead_keys [of c "ticks st" "expiry st"]
      by (auto simp flip: not_None_eq simp: map_of_eq_None_iff)
    have "durable (evictExpired st) = durable st"
      using f by (auto simp: e durable_def restrict_map_def fun_eq_iff dest: expd)
    then show ?thesis
      using f by (auto simp: e same_config_def map_le_def restrict_map_def split: if_splits)
  qed
  then show "edge_inv (evictExpired st)" "same_config (evictExpired st) st"
    "backend (evictExpired st) = backend st" "durable (evictExpired st) = durable st"
    "smap_find (edata (evictExpired st)) \<subseteq>\<^sub>m smap_find (edata st)" by blast+
qed

lemma validateAndStore_cases:
  assumes "edge_inv st" "validateAndStore key value st = (s, st')"
  shows "(s \<noteq> Ok \<and> st' = st) \<or>
    (s = Ok \<and> key_ok st key \<and> length value \<le> maxValueLen st \<and>
     st' = st\<lparr>edata := smap_insert key value (edata st)\<rparr> \<and> edge_inv st')"
proof (cases "s = Ok")
  case True
  with assms have st': "st' = st\<lparr>edata := smap_insert key value (edata st)\<rparr>" and
    ok: "key_ok st key" "length value \<le> maxValueLen st"
    and room: "smap_find (edata st) key = None \<longrightarrow> length (edata st) < maxKeys st"
    by (auto simp: validateAndStore_def key_ok_def split: if_splits)
  have "edge_inv st'"
    using assms(1) ok room by (auto simp: edge_inv_def st' map_simps key_ok_def)
  with True st' ok show ?thesis by simp
next
  case False
  with assms show ?thesis by (auto simp: validateAndStore_def split: if_splits)
qed

lemma edge_inv_erase_expiry: "edge_inv st \<Longrightarrow> edge_inv (st\<lparr>expiry := smap_erase k (expiry st)\<rparr>)"
  by (auto simp: edge_inv_def map_simps key_ok_def)

lemma edge_set_inv: "edge_inv st \<Longrightarrow> edge_inv (snd (edge_set ops key value st))"
proof -
  assume inv: "edge_inv st"
  obtain s st1 where v: "validateAndStore key value (evictExpired st) = (s, st1)" by fastforce
  from validateAndStore_cases [OF evictExpired_facts(1) [OF inv] v]
  have inv1: "edge_inv st1" using evictExpired_facts(1) [OF inv] by auto
  show "edge_inv (snd (edge_set ops key value st))"
    using inv1 edge_inv_erase_expiry [OF inv1, of key]
    by (auto simp: edge_set_def Let_def v split: option.split prod.split)
qed

lemma edge_inv_insert_expiry:
  "edge_inv st \<Longrightarrow> smap_find (edata st) k \<noteq> None \<Longrightarrow>
     edge_inv (st\<lparr>expiry := smap_insert k d (expiry st)\<rparr>)"
  by (auto simp: edge_inv_def map_simps key_ok_def)

lemma edge_setWithTtl_inv: "edge_inv st \<Longrightarrow> edge_inv (snd (edge_setWithTtl ops key value ttl st))"
proof (cases "clock st")
  case None
  then show "edge_inv st \<Longrightarrow> ?thesis" by (simp add: edge_setWithTtl_def)
next
  case (Some c)
  assume inv: "edge_inv st"
  obtain s st1 where v: "validateAndStore key value (evictExpired st) = (s, st1)" by fastforce
  note cases = validateAndStore_cases [OF evictExpired_facts(1) [OF inv] v]
  have inv1: "edge_inv st1" using evictExpired_facts(1) [OF inv] cases by auto
  show ?thesis
  proof (cases "s = Ok")
    case False
    with inv1 Some show ?thesis by (simp add: edge_setWithTtl_def v Let_def)
  next
    case True
    then have "smap_find (edata st1) key \<noteq> None"
      using cases evictExpired_facts(1) [OF inv] by (auto simp: edge_inv_def map_simps)
    from edge_inv_insert_expiry [OF inv1 this, of "c (ticks st1) + ttl"] True Some
    show ?thesis
      by (auto simp: edge_setWithTtl_def v Let_def split: option.split)
  qed
qed

lemma edge_get_inv: "edge_inv st \<Longrightarrow> edge_inv (snd (edge_get key st))"
  using evictExpired_facts(1) [of st] by (auto simp: edge_get_def Let_def split: option.split)

lemma edge_inv_erase:
  "edge_inv st \<Longrightarrow>
     edge_inv (st\<lparr>edata := smap_erase k (edata st), expiry := smap_erase k (expiry st)\<rparr>)"
  using length_smap_erase [of k "edata st"] by (auto simp: edge_inv_def map_simps key_ok_def)

lemma edge_remove_inv: "edge_inv st \<Longrightarrow> edge_inv (snd (edge_remove ops key st))"
  using evictExpired_facts(1) [of st] edge_inv_erase [of "evictExpired st" key]
  by (auto simp: edge_remove_def Let_def split: option.split)

section \<open>Deadlines\<close>

text \<open>
  An entry with a lifetime under \<open>2^31\<close> ms, read less than \<open>2^31\<close> ms after it was stored, has
  expired exactly when its lifetime has elapsed, wherever the 32-bit clock wraps.
\<close>

lemma sint_word_of_int_small:
  "- (2 ^ 31) \<le> i \<Longrightarrow> i < 2 ^ 31 \<Longrightarrow> sint (word_of_int i :: u32) = i"
  by (simp add: signed_of_int signed_take_bit_int_eq_self)

lemma nat_diff_bounds:
  "(a :: nat) < 2 ^ 31 \<Longrightarrow> b < 2 ^ 31 \<Longrightarrow>
     - (2 ^ 31) \<le> int a - int b \<and> int a - int b < 2 ^ 31"
  by auto

lemma deadline_passed_elapsed:
  fixes start ttl elapsed :: u32
  assumes "unat ttl < 2 ^ 31" "unat elapsed < 2 ^ 31"
  shows "deadline_passed (start + elapsed) (start + ttl) \<longleftrightarrow> ttl \<le> elapsed"
proof -
  have "(start + elapsed) - (start + ttl) = word_of_int (int (unat elapsed) - int (unat ttl))"
    by simp
  moreover have "sint (word_of_int (int (unat elapsed) - int (unat ttl)) :: u32) =
      int (unat elapsed) - int (unat ttl)"
    using nat_diff_bounds [OF assms(2,1)] by (intro sint_word_of_int_small) blast+
  ultimately have "sint ((start + elapsed) - (start + ttl)) = int (unat elapsed) - int (unat ttl)"
    by simp
  then show ?thesis by (simp add: deadline_passed_def word_le_def)
qed

section \<open>The manifest\<close>

definition durable_entries :: "'s edge_store \<Rightarrow> (string, string) smap" where
  "durable_entries st = filter (\<lambda>e. smap_find (expiry st) (fst e) = None) (edata st)"

definition add_line :: "string \<Rightarrow> string \<Rightarrow> string" where
  "add_line joined k = (if joined \<noteq> [] then joined @ [LF] else joined) @ k"

definition manifest :: "'s edge_store \<Rightarrow> string" where
  "manifest st = foldl add_line [] (map fst (durable_entries st))"

lemma join_keys_eq:
  "join_keys ex j m =
     foldl add_line j (map fst (filter (\<lambda>e. smap_find ex (fst e) = None) m))"
  by (induction ex j m rule: join_keys.induct) (simp_all add: add_line_def)

lemma join_keys_manifest: "join_keys (expiry st) [] (edata st) = manifest st"
  by (simp add: join_keys_eq manifest_def durable_entries_def)

lemma foldl_add_line:
  "j \<noteq> [] \<Longrightarrow> foldl add_line j ks = j @ concat (map (\<lambda>k. LF # k) ks)"
  by (induction ks arbitrary: j) (simp_all add: add_line_def)

lemma splitLines_lines:
  "LF \<notin> set k \<Longrightarrow> k \<noteq> [] \<Longrightarrow> \<forall>x\<in>set ks. LF \<notin> set x \<and> x \<noteq> [] \<Longrightarrow>
     splitLines (k @ concat (map (\<lambda>k. LF # k) ks)) = k # ks"
proof (induction ks arbitrary: k)
  case Nil
  then have "find_char_idx LF k = None" by (simp add: find_char_idx_None)
  with Nil show ?case by (simp add: splitLines.simps [of k])
next
  case (Cons x ks)
  let ?rest = "x @ concat (map (\<lambda>k. LF # k) ks)"
  have "find_char_idx LF (k @ LF # ?rest) = Some (length k)"
    using Cons.prems by (simp add: find_char_idx_append)
  moreover have "splitLines ?rest = x # ks"
    using Cons.prems by (intro Cons.IH) simp_all
  ultimately show ?case
    using Cons.prems by (simp add: splitLines.simps [of "k @ LF # ?rest"])
qed

lemma splitLines_join:
  assumes "\<forall>x\<in>set ks. LF \<notin> set x \<and> x \<noteq> []"
  shows "splitLines (foldl add_line [] ks) = ks"
proof (cases ks)
  case Nil
  then show ?thesis by (simp add: splitLines.simps)
next
  case (Cons k ks')
  with assms show ?thesis
    using splitLines_lines [of k ks'] by (simp add: add_line_def [of "[]"] foldl_add_line)
qed

lemma durable_entries_facts:
  assumes "edge_inv st"
  shows "smap_ok (durable_entries st)" and "smap_find (durable_entries st) = durable st"
    and "length (durable_entries st) \<le> maxKeys st"
    and "\<forall>x\<in>set (map fst (durable_entries st)). LF \<notin> set x \<and> x \<noteq> [] \<and> x \<noteq> kManifestKey"
proof -
  have ok: "smap_ok (edata st)" using assms by (simp add: edge_inv_def)
  then have "smap_ok (filter p (edata st))" for p
    by (induction "edata st") (auto simp: smap_ok_def sorted_wrt_filter sorted_wrt_map)
  then show "smap_ok (durable_entries st)" by (simp add: durable_entries_def)
  have filt: "smap_find (filter (\<lambda>e. p (fst e)) m) k = (if p k then smap_find m k else None)"
    for p and m :: "(string, string) smap" and k
    by (induction m) auto
  show "smap_find (durable_entries st) = durable st"
    by (rule ext) (simp add: durable_entries_def durable_def
        filt [where p = "\<lambda>k. smap_find (expiry st) k = None"])
  show "length (durable_entries st) \<le> maxKeys st"
    using assms length_filter_le order_trans unfolding durable_entries_def edge_inv_def by blast
  show "\<forall>x\<in>set (map fst (durable_entries st)). LF \<notin> set x \<and> x \<noteq> [] \<and> x \<noteq> kManifestKey"
  proof
    fix x assume "x \<in> set (map fst (durable_entries st))"
    then obtain v where "(x, v) \<in> set (edata st)" by (auto simp: durable_entries_def)
    with ok have "smap_find (edata st) x = Some v" by (simp add: smap_find_mem)
    with assms show "LF \<notin> set x \<and> x \<noteq> [] \<and> x \<noteq> kManifestKey"
      by (auto simp: edge_inv_def key_ok_def)
  qed
qed

lemma durable_entries_cong:
  assumes "edge_inv a" "edge_inv b" "durable a = durable b"
  shows "durable_entries a = durable_entries b"
  using durable_entries_facts [OF assms(1)] durable_entries_facts [OF assms(2)] assms(3)
  by (intro smap_eqI) simp_all

lemma smap_keys_cong:
  assumes "smap_ok m" "smap_ok n" "dom (smap_find m) = dom (smap_find n)"
  shows "map fst m = map fst n"
  using assms by (intro strict_sorted_equal) (simp_all add: smap_ok_def dom_smap)

lemma manifest_cong:
  assumes "edge_inv a" "edge_inv b" "dom (durable a) = dom (durable b)"
  shows "manifest a = manifest b"
  using smap_keys_cong [of "durable_entries a" "durable_entries b"]
    durable_entries_facts(1,2) [OF assms(1)] durable_entries_facts(1,2) [OF assms(2)] assms(3)
  by (simp add: manifest_def)

section \<open>Persistence, over any secret store\<close>

text \<open>
  The backend holds the manifest and the durable entries.  A write to it may fail (a full EEPROM, an
  NVS error): \<open>watched_store\<close> is a backend with a mark \<open>spoilt\<close> that every failed write sets and
  nothing clears.  As long as it is not set, the backend holds what the store needs to be loaded.
\<close>

locale watched_store = secret_store +
  fixes spoilt :: "'a \<Rightarrow> bool"
  assumes fail_spoils: "\<lbrakk>inv b; k \<noteq> []; ss_set ops k v b = (s, b'); s \<noteq> Ok\<rbrakk> \<Longrightarrow> spoilt b'"
    and set_spoilt: "\<lbrakk>inv b; spoilt b; ss_set ops k v b = (s, b')\<rbrakk> \<Longrightarrow> spoilt b'"
    and remove_spoilt: "\<lbrakk>inv b; spoilt b; ss_remove ops k b = (s, b')\<rbrakk> \<Longrightarrow> spoilt b'"

definition synced_with ::
  "('s \<Rightarrow> string \<Rightarrow> string option) \<Rightarrow> 's \<Rightarrow> 's edge_store \<Rightarrow> bool" where
  "synced_with view b st \<longleftrightarrow>
     (view b kManifestKey = Some (manifest st) \<or>
      view b kManifestKey = None \<and> durable_entries st = []) \<and>
     (\<forall>k v. durable st k = Some v \<longrightarrow> view b k = Some v)"

definition persisted ::
  "('s \<Rightarrow> string \<Rightarrow> string option) \<Rightarrow> ('s \<Rightarrow> bool) \<Rightarrow> ('s \<Rightarrow> bool) \<Rightarrow> 's edge_store \<Rightarrow> bool" where
  "persisted view good spoilt st \<longleftrightarrow>
     edge_inv st \<and>
     (\<exists>b. backend st = Some b \<and> good b \<and> (\<not> spoilt b \<longrightarrow> synced_with view b st))"

datatype edge_op =
    OpSet string string
  | OpSetTtl string string u32
  | OpGet string
  | OpRemove string

fun edge_step :: "'s secret_ops \<Rightarrow> edge_op \<Rightarrow> 's edge_store \<Rightarrow> 's edge_store" where
  "edge_step ops (OpSet k v) st = snd (edge_set ops k v st)"
| "edge_step ops (OpSetTtl k v ttl) st = snd (edge_setWithTtl ops k v ttl st)"
| "edge_step ops (OpGet k) st = snd (edge_get k st)"
| "edge_step ops (OpRemove k) st = snd (edge_remove ops k st)"

lemma edge_step_inv: "edge_inv st \<Longrightarrow> edge_inv (edge_step ops op st)"
  by (cases op) (simp_all add: edge_set_inv edge_setWithTtl_inv edge_get_inv edge_remove_inv)

lemma durable_irrelevant [simp]:
  "durable (notify k r st) = durable st"
  "durable (st\<lparr>backend := b\<rparr>) = durable st"
  "durable (st\<lparr>ticks := t\<rparr>) = durable st"
  "durable (persistManifest ops st) = durable st"
  by (simp_all add: durable_def fun_eq_iff)

lemma durable_entries_irrelevant [simp]:
  "durable_entries (notify k r st) = durable_entries st"
  "durable_entries (st\<lparr>backend := b\<rparr>) = durable_entries st"
  "durable_entries (persistManifest ops st) = durable_entries st"
  "manifest (notify k r st) = manifest st"
  "manifest (st\<lparr>backend := b\<rparr>) = manifest st"
  "manifest (persistManifest ops st) = manifest st"
  by (simp_all add: durable_entries_def manifest_def)

lemma synced_with_irrelevant [simp]:
  "synced_with view b (notify k r st) = synced_with view b st"
  "synced_with view b (st\<lparr>backend := x\<rparr>) = synced_with view b st"
  "synced_with view b (persistManifest ops st) = synced_with view b st"
  by (simp_all add: synced_with_def)

lemma persisted_notify [simp]:
  "persisted view good spoilt (notify k r st) = persisted view good spoilt st"
  by (simp add: persisted_def)

lemma durable_manifest_key: "edge_inv st \<Longrightarrow> durable st kManifestKey = None"
proof -
  assume "edge_inv st"
  then have "smap_find (edata st) kManifestKey = None"
    unfolding edge_inv_def key_ok_def by (metis not_None_eq)
  then show ?thesis by (simp add: durable_def)
qed

lemma durable_entries_Nil: "edge_inv st \<Longrightarrow> durable_entries st = [] \<longleftrightarrow> durable st = Map.empty"
proof -
  assume "edge_inv st"
  from durable_entries_facts(2) [OF this] show ?thesis
    by (metis map_of_eq_empty_iff)
qed

lemma kManifestKey_not_Nil [simp]: "kManifestKey \<noteq> []"
  by (simp add: kManifestKey_def)

context watched_store
begin

lemma persisted_evict: "persisted view inv spoilt st \<Longrightarrow> persisted view inv spoilt (evictExpired st)"
proof -
  assume p: "persisted view inv spoilt st"
  then have inv_st: "edge_inv st" by (simp add: persisted_def)
  note e = evictExpired_facts [OF inv_st]
  have "durable_entries (evictExpired st) = durable_entries st"
    by (rule durable_entries_cong [OF e(1) inv_st e(4)])
  with p e show ?thesis by (auto simp: persisted_def synced_with_def manifest_def)
qed

text \<open>Rewriting the manifest re-establishes the link when every durable value is in the backend.\<close>

lemma persisted_manifest:
  assumes st: "edge_inv st" "backend st = Some b" "inv b"
    and vals: "\<not> spoilt b \<Longrightarrow> \<forall>k v. durable st k = Some v \<longrightarrow> view b k = Some v"
  shows "persisted view inv spoilt (persistManifest ops st)"
proof -
  obtain s b' where w: "ss_set ops kManifestKey (manifest st) b = (s, b')" by fastforce
  have "synced_with view b' st" if ns: "\<not> spoilt b'"
  proof -
    from ns have ok: "s = Ok" using fail_spoils [OF st(3) kManifestKey_not_Nil w] by blast
    from ns have "\<not> spoilt b" using set_spoilt [OF st(3) _ w] by blast
    from vals [OF this] durable_manifest_key [OF st(1)] set_ok [OF st(3) w [unfolded ok]]
    show ?thesis by (auto simp: synced_with_def)
  qed
  moreover have "backend (persistManifest ops st) = Some b'"
    using w by (simp add: persistManifest_def st(2) join_keys_manifest)
  ultimately show ?thesis
    using st(1) set_inv [OF st(3), of kManifestKey "manifest st"] w by (simp add: persisted_def)
qed

lemma edge_set_persisted:
  assumes p: "persisted view inv spoilt st0"
  shows "persisted view inv spoilt (snd (edge_set ops key value st0))"
proof -
  let ?st = "evictExpired st0"
  from persisted_evict [OF p] obtain b where
    st: "edge_inv ?st" "backend ?st = Some b" "inv b" "\<not> spoilt b \<longrightarrow> synced_with view b ?st"
    by (auto simp: persisted_def)
  obtain s st1 where v: "validateAndStore key value ?st = (s, st1)" by fastforce
  show ?thesis
  proof (cases "s = Ok")
    case False
    with validateAndStore_cases [OF st(1) v] have "st1 = ?st" by simp
    with False persisted_evict [OF p] show ?thesis by (simp add: edge_set_def Let_def v)
  next
    case True
    let ?st2 = "st1\<lparr>expiry := smap_erase key (expiry st1)\<rparr>"
    obtain e b' where set_eq: "ss_set ops key value b = (e, b')" by fastforce
    let ?st3 = "?st2\<lparr>backend := Some b'\<rparr>"
    from True validateAndStore_cases [OF st(1) v] have key: "key_ok ?st key"
      and st1: "st1 = ?st\<lparr>edata := smap_insert key value (edata ?st)\<rparr>" and i1: "edge_inv st1"
      by blast+
    have i3: "edge_inv ?st3" using edge_inv_erase_expiry [OF i1, of key] by simp
    then have i2: "edge_inv ?st2" by simp
    have smok: "smap_ok (edata ?st)" using st(1) by (simp add: edge_inv_def)
    have d: "durable ?st2 = (durable ?st)(key \<mapsto> value)"
      by (auto simp: durable_def st1 smap_find_insert [OF smok] smap_find_erase fun_eq_iff)
    have ne: "key \<noteq> []" using key by (simp add: key_ok_def)
    have ib: "inv b'" using set_inv [OF st(3), of key "value"] set_eq by simp
    have clean: "e = Ok \<and> \<not> spoilt b" if "\<not> spoilt b'"
      using that fail_spoils [OF st(3) ne set_eq] set_spoilt [OF st(3) _ set_eq] by blast
    have vb: "view b' = (view b)(key \<mapsto> value)" if "e = Ok"
      using set_ok [OF st(3) set_eq [unfolded that]] by simp
    have vals: "\<forall>k v. durable ?st3 k = Some v \<longrightarrow> view b' k = Some v" if "\<not> spoilt b'"
      using st(4) clean [OF that] by (auto simp: d vb synced_with_def)
    have be2: "backend ?st2 = Some b" using st(2) by (simp add: st1)
    show ?thesis
    proof (cases "e = Ok")
      case False
      then have "spoilt b'" using fail_spoils [OF st(3) ne set_eq] by blast
      with i3 ib have "persisted view inv spoilt ?st3" by (simp add: persisted_def)
      with False True be2 show ?thesis by (simp add: edge_set_def Let_def v set_eq)
    next
      case e: True
      show ?thesis
      proof (cases "durable ?st key = None")
        case True
        have "persisted view inv spoilt (persistManifest ops ?st3)"
          by (rule persisted_manifest [OF i3 _ ib vals]) simp_all
        moreover have "smap_find (edata ?st) key = None \<or> smap_find (expiry ?st) key \<noteq> None"
          using True by (auto simp: durable_def split: if_splits)
        ultimately show ?thesis
          using \<open>s = Ok\<close> be2 by (auto simp: edge_set_def Let_def v set_eq e)
      next
        case False
        then have "dom (durable ?st2) = dom (durable ?st)" by (auto simp: d)
        from manifest_cong [OF i2 st(1) this] have man: "manifest ?st2 = manifest ?st" .
        have "synced_with view b' ?st3" if ns: "\<not> spoilt b'"
        proof -
          have "view b' kManifestKey = view b kManifestKey"
            using key by (auto simp: vb [OF e] key_ok_def)
          moreover have "view b kManifestKey = Some (manifest ?st)"
            using st(4) clean [OF ns] False durable_entries_Nil [OF st(1)]
            by (auto simp: synced_with_def)
          ultimately show ?thesis
            using vals [OF ns] man by (simp add: synced_with_def)
        qed
        then have "persisted view inv spoilt ?st3"
          using i3 ib by (simp add: persisted_def)
        moreover have "\<not> (smap_find (edata ?st) key = None \<or> smap_find (expiry ?st) key \<noteq> None)"
          using False by (auto simp: durable_def split: if_splits)
        ultimately show ?thesis
          using \<open>s = Ok\<close> be2 by (auto simp: edge_set_def Let_def v set_eq e)
      qed
    qed
  qed
qed

text \<open>Removing from the backend keeps what it holds of the other keys.\<close>

lemma removed_vals:
  assumes "inv b" "\<not> spoilt b \<longrightarrow> synced_with view b st" "durable st' = (durable st)(key := None)"
    and "\<not> spoilt (snd (ss_remove ops key b))"
  shows "\<forall>k v. durable st' k = Some v \<longrightarrow> view (snd (ss_remove ops key b)) k = Some v"
proof -
  have "\<not> spoilt b" using remove_spoilt [OF assms(1) _ surjective_pairing] assms(4) by blast
  with assms(2,3) show ?thesis by (auto simp: view_remove [OF assms(1)] synced_with_def)
qed

lemma edge_setWithTtl_persisted:
  assumes p: "persisted view inv spoilt st0"
  shows "persisted view inv spoilt (snd (edge_setWithTtl ops key value ttl st0))"
proof (cases "clock st0")
  case None
  with p show ?thesis by (simp add: edge_setWithTtl_def)
next
  case (Some c)
  let ?st = "evictExpired st0"
  from persisted_evict [OF p] obtain b where
    st: "edge_inv ?st" "backend ?st = Some b" "inv b" "\<not> spoilt b \<longrightarrow> synced_with view b ?st"
    by (auto simp: persisted_def)
  obtain s st1 where v: "validateAndStore key value ?st = (s, st1)" by fastforce
  show ?thesis
  proof (cases "s = Ok")
    case False
    with validateAndStore_cases [OF st(1) v] have "st1 = ?st" by simp
    with False Some persisted_evict [OF p] show ?thesis by (simp add: edge_setWithTtl_def Let_def v)
  next
    case True
    let ?st2 = "st1\<lparr>expiry := smap_insert key (c (ticks st1) + ttl) (expiry st1)\<rparr>"
    from True validateAndStore_cases [OF st(1) v] have key: "key_ok ?st key"
      and st1: "st1 = ?st\<lparr>edata := smap_insert key value (edata ?st)\<rparr>" and i1: "edge_inv st1"
      by blast+
    have smok: "smap_ok (edata ?st)" "smap_ok (expiry ?st)" using st(1) by (simp_all add: edge_inv_def)
    have i2: "edge_inv ?st2"
      using edge_inv_insert_expiry [OF i1, of key "c (ticks st1) + ttl"]
      by (simp add: st1 smap_find_insert [OF smok(1)])
    have d: "durable ?st2 = (durable ?st)(key := None)"
      by (auto simp: durable_def st1 smap_find_insert [OF smok(1)] smap_find_insert [OF smok(2)]
          fun_eq_iff)
    have be2: "backend ?st2 = Some b" using st(2) by (simp add: st1)
    show ?thesis
    proof (cases "durable ?st key = None")
      case True
      then have dd: "durable ?st2 = durable ?st" by (auto simp: d)
      have "durable_entries ?st2 = durable_entries ?st"
        by (rule durable_entries_cong [OF i2 st(1) dd])
      then have "persisted view inv spoilt ?st2"
        using i2 be2 st(3,4) dd by (simp add: persisted_def synced_with_def manifest_def)
      moreover have "\<not> (smap_find (edata ?st) key \<noteq> None \<and> smap_find (expiry ?st) key = None)"
        using True by (auto simp: durable_def split: if_splits)
      ultimately show ?thesis
        using \<open>s = Ok\<close> be2 Some
        by (auto simp: edge_setWithTtl_def Let_def v persisted_def synced_with_def durable_def
            durable_entries_def manifest_def)
    next
      case False
      let ?b = "snd (ss_remove ops key b)"
      have "persisted view inv spoilt (persistManifest ops (?st2\<lparr>ticks := t, backend := Some ?b\<rparr>))" for t
        using i2 d by (intro persisted_manifest [OF _ _ remove_inv [OF st(3)]] removed_vals [OF st(3,4)]) simp_all
      moreover have "smap_find (edata ?st) key \<noteq> None \<and> smap_find (expiry ?st) key = None"
        using False by (auto simp: durable_def split: if_splits)
      ultimately show ?thesis
        using \<open>s = Ok\<close> be2 Some by (auto simp: edge_setWithTtl_def Let_def v)
    qed
  qed
qed

lemma edge_remove_persisted:
  assumes p: "persisted view inv spoilt st0"
  shows "persisted view inv spoilt (snd (edge_remove ops key st0))"
proof -
  let ?st = "evictExpired st0"
  from persisted_evict [OF p] obtain b where
    st: "edge_inv ?st" "backend ?st = Some b" "inv b" "\<not> spoilt b \<longrightarrow> synced_with view b ?st"
    by (auto simp: persisted_def)
  let ?b = "snd (ss_remove ops key b)"
  let ?st1 = "?st\<lparr>edata := smap_erase key (edata ?st), expiry := smap_erase key (expiry ?st)\<rparr>"
  have d: "durable ?st1 = (durable ?st)(key := None)"
    by (auto simp: durable_def smap_find_erase fun_eq_iff)
  have "persisted view inv spoilt (persistManifest ops (?st1\<lparr>backend := Some ?b\<rparr>))"
    using edge_inv_erase [OF st(1), of key] d
    by (intro persisted_manifest [OF _ _ remove_inv [OF st(3)]] removed_vals [OF st(3,4)]) simp_all
  with p persisted_evict [OF p] st(2) show ?thesis
    by (auto simp: edge_remove_def Let_def split: option.split)
qed

lemma edge_step_persisted:
  assumes "persisted view inv spoilt st"
  shows "persisted view inv spoilt (edge_step ops op st)"
proof (cases op)
  case (OpGet k)
  have "snd (edge_get k st) = evictExpired st"
    by (simp add: edge_get_def Let_def split: option.split)
  with persisted_evict [OF assms] OpGet show ?thesis by simp
qed (use assms in \<open>simp_all add: edge_set_persisted edge_setWithTtl_persisted edge_remove_persisted\<close>)

lemma edge_run_persisted:
  "persisted view inv spoilt st \<Longrightarrow> persisted view inv spoilt (fold (edge_step ops) xs st)"
  by (induction xs arbitrary: st) (simp_all add: edge_step_persisted)

lemma persisted_fresh:
  assumes "inv b" "view b kManifestKey = None"
  shows "persisted view inv spoilt (setClock c (setPersistence ops (Some b) (edge_new mk mv ml)))"
  using assms
  by (simp add: persisted_def setPersistence_def get_eq setClock_def edge_new_def edge_inv_def
      synced_with_def durable_entries_def durable_def)

end

context secret_store
begin

text \<open>Loading after a restart.\<close>

lemma fold_load:
  assumes b: "inv b"
  shows "\<forall>e\<in>set es. view b (fst e) = Some (snd e) \<Longrightarrow> smap_ok (edata st @ es) \<Longrightarrow>
    length (edata st @ es) \<le> maxKeys st \<Longrightarrow>
    fold (load_one ops b) (map fst es) st = st\<lparr>edata := edata st @ es\<rparr>"
proof (induction es arbitrary: st)
  case Nil
  then show ?case by simp
next
  case (Cons e es)
  have "\<forall>x\<in>set (edata st). fst x < fst e"
    using Cons.prems(2) by (auto simp: smap_ok_def sorted_wrt_append)
  then have ins: "smap_insert (fst e) (snd e) (edata st) = edata st @ [e]"
    using smap_insert_last [of "edata st" "fst e" "snd e"] by simp
  have "load_one ops b (fst e) st = st\<lparr>edata := edata st @ [e]\<rparr>"
    using Cons.prems(1,3) b ins by (simp add: load_one_def get_eq)
  with Cons.IH [of "st\<lparr>edata := edata st @ [e]\<rparr>"] Cons.prems show ?case by simp
qed

lemma reload_persisted:
  assumes st: "edge_inv st" "inv b" "synced_with view b st"
  shows "edata (setPersistence ops (Some b) (edge_new (maxKeys st) mv ml)) = durable_entries st"
proof -
  note facts = durable_entries_facts [OF st(1)]
  let ?new = "(edge_new (maxKeys st) mv ml)\<lparr>backend := Some b\<rparr>"
  have "\<forall>e\<in>set (durable_entries st). view b (fst e) = Some (snd e)"
  proof
    fix e assume "e \<in> set (durable_entries st)"
    then have "smap_find (durable_entries st) (fst e) = Some (snd e)"
      using facts(1) by (simp add: smap_find_mem)
    then show "view b (fst e) = Some (snd e)"
      using facts(2) st(3) by (simp add: synced_with_def)
  qed
  then have load: "fold (load_one ops b) (map fst (durable_entries st)) ?new =
      ?new\<lparr>edata := durable_entries st\<rparr>"
    using fold_load [OF st(2), of "durable_entries st" ?new] facts(1,3) by (simp add: edge_new_def)
  have lines: "splitLines (manifest st) = map fst (durable_entries st)"
    unfolding manifest_def by (rule splitLines_join) (use facts(4) in blast)
  show ?thesis
  proof (cases "view b kManifestKey")
    case None
    with st(2,3) show ?thesis
      by (simp add: setPersistence_def get_eq synced_with_def edge_new_def)
  next
    case (Some m)
    with st(2,3) have "m = manifest st" by (auto simp: synced_with_def)
    with Some st(2) load lines show ?thesis by (simp add: setPersistence_def get_eq)
  qed
qed

end

section \<open>Properties\<close>

text \<open>no sequence of operations, on any backend and with any clock, breaks the bounds of the
  store: at most \<open>maxKeys\<close> entries in key order, every key non-empty, within its length limit,
  free of line feeds and not the reserved manifest key, every value within its limit, and a
  deadline only for a key that is present.\<close>

theorem edge_bounds_kept:
  assumes "edge_inv st"
  shows "edge_inv (fold (edge_step ops) xs st)"
  using assms by (induction xs arbitrary: st) (simp_all add: edge_step_inv)

theorem edge_bounds_kept_witness:
  "edge_inv (fold (edge_step memory_secret_store)
     [OpSet ''a'' ''1'', OpSetTtl ''b'' ''2'' 5, OpGet ''b'', OpRemove ''a'']
     (setClock (Some (\<lambda>n. word_of_nat (n * 3))) (edge_new 2 8 8)))"
  by (rule edge_bounds_kept) (simp add: edge_inv_def edge_new_def setClock_def)

text \<open>A store whose writes never fail, as the RAM store.\<close>

definition reliable :: "'s secret_ops \<Rightarrow> ('s \<Rightarrow> bool) \<Rightarrow> bool" where
  "reliable ops good \<longleftrightarrow> (\<forall>b k v. good b \<longrightarrow> k \<noteq> [] \<longrightarrow> fst (ss_set ops k v b) = Ok)"

locale reliable_store = secret_store +
  assumes reliable_set: "reliable ops inv"

sublocale reliable_store \<subseteq> clean: watched_store ops view inv "\<lambda>_. False"
  using reliable_set by unfold_locales (auto simp: reliable_def, metis fst_conv)

lemma memory_reliable: "reliable memory_secret_store mem_inv"
  by (simp add: reliable_def mem_set_def)

interpretation rmem: reliable_store memory_secret_store mem_view mem_inv
  by unfold_locales (rule memory_reliable)

text \<open>a lifetime below \<open>2^31\<close> ms is honoured exactly, also across the wrap of the 32-bit
  clock: an entry stored at time \<open>start\<close> and looked at \<open>elapsed\<close> ms later has expired if and only
  if its lifetime is over.\<close>

theorem ttl_honoured_across_wrap:
  fixes start ttl elapsed :: u32
  assumes "unat ttl < 2 ^ 31" "unat elapsed < 2 ^ 31"
    and "clock st = Some (\<lambda>n. start + elapsed)" "smap_find (expiry st) key = Some (start + ttl)"
  shows "fst (expiredNow key st) \<longleftrightarrow> ttl \<le> elapsed"
  using assms deadline_passed_elapsed [OF assms(1,2), of start] by (simp add: expiredNow_def)

theorem ttl_honoured_across_wrap_witness:
  "fst (expiredNow ''k'' ((edge_new 1 8 8)\<lparr>clock := Some (\<lambda>n. 0xFFFFFFFE + 7),
      expiry := [(''k'', 0xFFFFFFFE + 5)]\<rparr>)) \<longleftrightarrow> (5 :: u32) \<le> 7"
  by (rule ttl_honoured_across_wrap) simp_all

text \<open>a value the backend refuses is reported as an error but stays in RAM: the caller is told
  the write failed while a read returns the new value.\<close>

theorem failed_write_still_visible:
  assumes "clock st = None" "backend st = Some b" "ss_set ops key value b = (e, b')" "e \<noteq> Ok"
    and "edge_inv st" "fst (validateAndStore key value st) = Ok"
  shows "fst (edge_set ops key value st) = e \<and>
    fst (edge_get key (snd (edge_set ops key value st))) = Inr value"
proof -
  have ev: "evictExpired x = x" if "clock x = None" for x :: "'a edge_store"
    using that by (simp add: evictExpired_def)
  obtain st1 where v: "validateAndStore key value st = (Ok, st1)"
    using assms(6) by (metis prod.collapse)
  with validateAndStore_cases [OF assms(5) v]
  have st1: "st1 = st\<lparr>edata := smap_insert key value (edata st)\<rparr>" by blast
  have "smap_ok (edata st)" using assms(5) by (simp add: edge_inv_def)
  then show ?thesis
    using assms(1-4) v
    by (simp add: edge_set_def ev Let_def st1 edge_get_def smap_find_insert)
qed

theorem failed_write_still_visible_witness:
  "fst (edge_set (memory_secret_store\<lparr>ss_set := (\<lambda>k v s. (SecretStoreError, s))\<rparr>) ''k'' ''v''
      ((edge_new 4 8 8)\<lparr>backend := Some mem_empty\<rparr>)) = SecretStoreError \<and>
   fst (edge_get ''k'' (snd (edge_set
      (memory_secret_store\<lparr>ss_set := (\<lambda>k v s. (SecretStoreError, s))\<rparr>) ''k'' ''v''
      ((edge_new 4 8 8)\<lparr>backend := Some mem_empty\<rparr>)))) = Inr ''v''"
  by (rule failed_write_still_visible [where b = mem_empty and b' = mem_empty])
     (simp_all add: edge_new_def edge_inv_def validateAndStore_def kManifestKey_def)

end
