(* ===== verification/Edge_Durable.thy ===== *)
theory Edge_Durable
  imports Edge_Store Eeprom_Store
begin

text \<open>
  What the store of mcp/EdgeStore.cpp keeps over a restart when its backend may fail writes, as the
  EEPROM and NVS stores do.  \<open>tracked\<close> is a backend that remembers whether one of its writes has
  failed; running over it changes nothing else (\<open>tracked_run\<close>), so \<open>writes_succeed\<close> speaks about
  the run over the backend itself.  If no write failed, a restart loads exactly the durable entries;
  two runs over the EEPROM store show how a key is lost when one did.
\<close>

section \<open>A backend that remembers failed writes\<close>

definition tracked :: "'s secret_ops \<Rightarrow> ('s \<times> bool) secret_ops" where
  "tracked ops =
     \<lparr>ss_set = (\<lambda>k v b. case ss_set ops k v (fst b) of (s, b1) \<Rightarrow> (s, (b1, snd b \<or> k \<noteq> [] \<and> s \<noteq> Ok))),
      ss_get = (\<lambda>k b. ss_get ops k (fst b)),
      ss_has = (\<lambda>k b. ss_has ops k (fst b)),
      ss_remove = (\<lambda>k b. case ss_remove ops k (fst b) of (s, b1) \<Rightarrow> (s, (b1, snd b))),
      ss_clear = (\<lambda>b. case ss_clear ops (fst b) of (s, b1) \<Rightarrow> (s, (b1, snd b)))\<rparr>"

lemma tracked_simps [simp]:
  "ss_set (tracked ops) k v (b, f) =
     (fst (ss_set ops k v b), (snd (ss_set ops k v b), f \<or> k \<noteq> [] \<and> fst (ss_set ops k v b) \<noteq> Ok))"
  "ss_get (tracked ops) k (b, f) = ss_get ops k b"
  "ss_has (tracked ops) k (b, f) = ss_has ops k b"
  "ss_remove (tracked ops) k (b, f) = (fst (ss_remove ops k b), (snd (ss_remove ops k b), f))"
  "ss_clear (tracked ops) (b, f) = (fst (ss_clear ops b), (snd (ss_clear ops b), f))"
  by (simp_all add: tracked_def split: prod.split)

context secret_store
begin

lemma never_refused:
  assumes "inv s"
  shows "fst (ss_remove ops k s) = Ok" "fst (ss_clear ops s) = Ok"
    "inv (snd (ss_clear ops s))" "view (snd (ss_clear ops s)) = Map.empty"
  using remove_ok [OF assms surjective_pairing, of k] clear_ok [OF assms surjective_pairing] by simp_all

lemma tracked_store:
  "secret_store (tracked ops) (\<lambda>b. view (fst b)) (\<lambda>b. inv (fst b))"
  by unfold_locales
     (auto simp: set_inv view_set set_empty get_eq has_eq remove_inv view_remove never_refused)

lemma tracked_watched: "watched_store (tracked ops) (\<lambda>b. view (fst b)) (\<lambda>b. inv (fst b)) snd"
  by (intro watched_store.intro tracked_store watched_store_axioms.intro) auto

end

section \<open>Tracking changes nothing else\<close>

definition map_backend :: "('a \<Rightarrow> 'b) \<Rightarrow> 'a edge_store \<Rightarrow> 'b edge_store" where
  "map_backend f st =
     \<lparr>edata = edata st, expiry = expiry st, maxKeys = maxKeys st, maxValueLen = maxValueLen st,
      maxKeyLen = maxKeyLen st, backend = map_option f (backend st), onChange = onChange st,
      clock = clock st, ticks = ticks st, events = events st\<rparr>"

lemma map_backend_simps [simp]:
  "edata (map_backend f st) = edata st" "expiry (map_backend f st) = expiry st"
  "maxKeys (map_backend f st) = maxKeys st" "maxValueLen (map_backend f st) = maxValueLen st"
  "maxKeyLen (map_backend f st) = maxKeyLen st"
  "backend (map_backend f st) = map_option f (backend st)"
  "onChange (map_backend f st) = onChange st" "clock (map_backend f st) = clock st"
  "ticks (map_backend f st) = ticks st" "events (map_backend f st) = events st"
  "map_backend f (st\<lparr>edata := d\<rparr>) = (map_backend f st)\<lparr>edata := d\<rparr>"
  "map_backend f (st\<lparr>expiry := e\<rparr>) = (map_backend f st)\<lparr>expiry := e\<rparr>"
  "map_backend f (st\<lparr>ticks := t\<rparr>) = (map_backend f st)\<lparr>ticks := t\<rparr>"
  "map_backend f (st\<lparr>backend := b\<rparr>) = (map_backend f st)\<lparr>backend := map_option f b\<rparr>"
  "map_backend f (st\<lparr>events := ev\<rparr>) = (map_backend f st)\<lparr>events := ev\<rparr>"
  by (simp_all add: map_backend_def)

lemma map_notify: "map_backend f (notify k r st) = notify k r (map_backend f st)"
  by (simp add: notify_def)

lemma map_evict: "map_backend f (evictExpired st) = evictExpired (map_backend f st)"
proof -
  have "map_backend f (fold evict_one ks x) = fold evict_one ks (map_backend f x)" for ks x
    by (induction ks arbitrary: x) (simp_all add: evict_one_def map_notify)
  then show ?thesis by (simp add: evictExpired_def split: option.split)
qed

lemma map_validate:
  "map_prod id (map_backend f) (validateAndStore k v st) = validateAndStore k v (map_backend f st)"
  by (simp add: validateAndStore_def)

lemma map_manifest:
  "map_backend fst (persistManifest (tracked ops) st) = persistManifest ops (map_backend fst st)"
  by (auto simp: persistManifest_def split: option.split)

lemma map_expired: "map_prod id (map_backend f) (expiredNow k st) = expiredNow k (map_backend f st)"
  by (simp add: expiredNow_def split: option.split)

text \<open>Every operation of the store answers the same and leaves the same state but for the mark.\<close>

lemma map_edge_set:
  "map_prod id (map_backend fst) (edge_set (tracked ops) k v st) = edge_set ops k v (map_backend fst st)"
proof -
  obtain s st1 where v: "validateAndStore k v (evictExpired st) = (s, st1)" by fastforce
  then have v': "validateAndStore k v (evictExpired (map_backend fst st)) = (s, map_backend fst st1)"
    using map_validate [of fst k v "evictExpired st"] by (simp add: map_evict)
  have e: "edata (evictExpired (map_backend fst st)) = edata (evictExpired st)"
    "expiry (evictExpired (map_backend fst st)) = expiry (evictExpired st)"
    by (simp_all flip: map_evict)
  show ?thesis
    by (cases "backend st1")
       (auto simp: edge_set_def Let_def v v' e map_notify map_manifest split: prod.split)
qed

lemma map_edge_setWithTtl:
  "map_prod id (map_backend fst) (edge_setWithTtl (tracked ops) k v ttl st) =
     edge_setWithTtl ops k v ttl (map_backend fst st)"
proof -
  obtain s st1 where v: "validateAndStore k v (evictExpired st) = (s, st1)" by fastforce
  then have v': "validateAndStore k v (evictExpired (map_backend fst st)) = (s, map_backend fst st1)"
    using map_validate [of fst k v "evictExpired st"] by (simp add: map_evict)
  have e: "edata (evictExpired (map_backend fst st)) = edata (evictExpired st)"
    "expiry (evictExpired (map_backend fst st)) = expiry (evictExpired st)"
    by (simp_all flip: map_evict)
  show ?thesis
    by (cases "clock st"; cases "backend st1")
       (auto simp: edge_setWithTtl_def Let_def v v' e map_notify map_manifest)
qed

lemma map_edge_get:
  "map_prod id (map_backend f) (edge_get k st) = edge_get k (map_backend f st)"
proof -
  have "evictExpired (map_backend f st) = map_backend f (evictExpired st)" by (simp add: map_evict)
  then show ?thesis by (simp add: edge_get_def Let_def split: option.split)
qed

lemma map_edge_remove:
  "map_prod id (map_backend fst) (edge_remove (tracked ops) k st) =
     edge_remove ops k (map_backend fst st)"
proof -
  have "evictExpired (map_backend fst st) = map_backend fst (evictExpired st)" by (simp add: map_evict)
  then show ?thesis
    by (auto simp: edge_remove_def Let_def map_notify map_manifest split: option.split)
qed

lemma map_edge_step:
  "map_backend fst (edge_step (tracked ops) op st) = edge_step ops op (map_backend fst st)"
  by (cases op) (simp_all flip: map_edge_set map_edge_setWithTtl map_edge_get map_edge_remove)

text \<open>The run over the tracked backend projects to the run over the backend.\<close>

definition track :: "'s edge_store \<Rightarrow> ('s \<times> bool) edge_store" where
  "track st = map_backend (\<lambda>b. (b, False)) st"

lemma tracked_run:
  "map_backend fst (fold (edge_step (tracked ops)) xs st) = fold (edge_step ops) xs (map_backend fst st)"
  by (induction xs arbitrary: st) (simp_all add: map_edge_step)

lemma untrack: "map_backend fst (track st) = st"
  by (simp add: track_def map_backend_def option.map_comp comp_def option.map_ident)

text \<open>No write to the backend, of a value or of the manifest, failed in the run of \<open>xs\<close>.\<close>

definition writes_succeed :: "'s secret_ops \<Rightarrow> edge_op list \<Rightarrow> 's edge_store \<Rightarrow> bool" where
  "writes_succeed ops xs st \<longleftrightarrow>
     (case backend (fold (edge_step (tracked ops)) xs (track st)) of
        None \<Rightarrow> True
      | Some b \<Rightarrow> \<not> snd b)"

context secret_store
begin

text \<open>A restart reads the backend; any backend that stands for the same map will do, as an EEPROM
  store does after a power cycle.\<close>

lemma tracked_reload:
  assumes "persisted (\<lambda>b. view (fst b)) (\<lambda>b. inv (fst b)) snd st" "backend st = Some (b1, False)"
    and "inv b2" "view b2 = view b1"
  shows "edata (setPersistence ops (Some b2) (edge_new (maxKeys st) mv ml)) = durable_entries st"
proof -
  let ?st = "map_backend fst st"
  have same: "durable ?st = durable st" "durable_entries ?st = durable_entries st"
    "edge_inv ?st = edge_inv st" "manifest ?st = manifest st"
    by (simp_all add: durable_def durable_entries_def edge_inv_def key_ok_def manifest_def fun_eq_iff)
  have "edge_inv st" "synced_with (\<lambda>b. view (fst b)) (b1, False) st"
    using assms(1,2) by (auto simp: persisted_def)
  then have "edge_inv ?st" "synced_with view b2 ?st"
    using assms(4) by (simp_all add: same synced_with_def)
  from reload_persisted [OF this(1) assms(3) this(2), of mv ml] show ?thesis
    by (simp add: same)
qed

end

section \<open>The EEPROM store as backend\<close>

text \<open>What is known of an EEPROM store without looking into its device.\<close>

definition chip_holds :: "'d eeprom_ops \<Rightarrow> nat \<Rightarrow> (string \<times> string) list \<Rightarrow> 'd eeprom_store \<Rightarrow> bool" where
  "chip_holds dv n m s \<longleftrightarrow> eeprom_inv dv s \<and> data s = m \<and> capacityBytes dv s = n"

lemma chip_set:
  assumes laws: "eeprom_laws dv nc" and s: "chip_holds dv n m s" and "k \<noteq> []"
    and m': "kv_ok (smap_insert k v m)" "encoded_length (smap_insert k v m) \<le> n"
  shows "\<exists>s'. eeprom_set dv nc k v s = (Ok, s') \<and> chip_holds dv n (smap_insert k v m) s'"
proof -
  obtain e s' where set: "eeprom_set dv nc k v s = (e, s')" by fastforce
  have wf: "eeprom_wf dv s" "kHeaderSize \<le> capacityBytes dv s"
    using s by (simp_all add: chip_holds_def eeprom_inv_def)
  have "e = Ok \<and> data s' = smap_insert k v m"
    using set assms(3) s m' by (auto simp: eeprom_set_def chip_holds_def encodeKv_True Let_def)
  with eeprom_set_cases [OF laws wf(1) set] set wf(2) s show ?thesis
    by (auto simp: chip_holds_def eeprom_inv_def)
qed

lemma chip_full:
  assumes "chip_holds dv n m s" "k \<noteq> []" "n < encoded_length (smap_insert k v m)"
  shows "eeprom_set dv nc k v s = (Capacity, s)"
proof -
  have "smap_ok (data s)" using assms(1) by (auto simp: chip_holds_def eeprom_inv_def eeprom_wf_def kv_ok_def)
  then have "fst (encodeKv (smap_insert k v m) n) = False"
    using encodeKv_cases [OF smap_ok_insert, of m k v n] assms(1,3)
    by (cases "encodeKv (smap_insert k v m) n") (auto simp: chip_holds_def)
  then show ?thesis
    using assms(1,2) by (cases "encodeKv (smap_insert k v m) n") (auto simp: eeprom_set_def chip_holds_def Let_def)
qed

lemma chip_get:
  "chip_holds dv n m s \<Longrightarrow> eeprom_get k s = (case smap_find m k of None \<Rightarrow> Inl SecretNotFound | Some v \<Rightarrow> Inr v)"
  "chip_holds dv n m s \<Longrightarrow>
     eeprom_get k (power_cycle dv s) = (case smap_find m k of None \<Rightarrow> Inl SecretNotFound | Some v \<Rightarrow> Inr v)"
  by (auto simp: chip_holds_def eeprom_get_def eeprom_inv_def synced_def)

definition chip :: "nat \<Rightarrow> (u8 list \<times> u8 list) eeprom_store" where
  "chip n = eeprom_begin buffered_dev \<lparr>data = [], capacity = 0, dev = (replicate n 0, replicate n 0)\<rparr>"

lemma chip_blank:
  assumes "kHeaderSize \<le> n"
  shows "chip_holds buffered_dev n [] (chip n)"
proof -
  let ?s = "\<lparr>data = [], capacity = 0, dev = (replicate n 0, replicate n 0)\<rparr> :: (u8 list \<times> u8 list) eeprom_store"
  have cap: "capacityBytes buffered_dev ?s = n"
    by (simp add: capacityBytes_def buffered_dev_def)
  have "eeprom_inv buffered_dev (eeprom_begin buffered_dev ?s)"
    by (rule begin_ready [OF buffered_dev_laws]) (simp_all add: cap assms, simp add: buffered_dev_def)
  moreover have "data (eeprom_begin buffered_dev ?s) = []"
  proof -
    have "ee_bytes buffered_dev n (dev ?s) = replicate n 0"
      by (rule nth_equalityI) (simp_all add: ee_bytes_def buffered_dev_def)
    moreover have "take 4 (replicate n (0 :: u8)) \<noteq> kMagic"
      by (simp add: kMagic_def take_replicate) (cases n; simp)
    ultimately show ?thesis by (simp add: eeprom_begin_def cap decodeKv_def Let_def)
  qed
  moreover have "capacityBytes buffered_dev (eeprom_begin buffered_dev ?s) = n"
    by (simp add: eeprom_begin_def capacityBytes_def buffered_dev_def Let_def)
  ultimately show ?thesis by (simp add: chip_holds_def chip_def)
qed

text \<open>A store without a clock over a blank EEPROM, and the first values written to it.\<close>

definition blank_edge :: "'d eeprom_ops \<Rightarrow> bool \<Rightarrow> 'd eeprom_store \<Rightarrow> 'd eeprom_store edge_store" where
  "blank_edge dv nc b =
     setClock None (setPersistence (eeprom_secret_store dv nc) (Some b) (edge_new 4 16 16))"

lemma chip_ops [simp]:
  "ss_set (eeprom_secret_store dv nc) = eeprom_set dv nc"
  "ss_get (eeprom_secret_store dv nc) = eeprom_get"
  by (simp_all add: eeprom_secret_store_def)

definition small_edge :: "(string \<times> string) list \<Rightarrow> 's \<Rightarrow> 's edge_store" where
  "small_edge m b = (edge_new 4 16 16)\<lparr>edata := m, backend := Some b\<rparr>"

lemma blank_edge_eq: "chip_holds dv n [] b \<Longrightarrow> blank_edge dv nc b = small_edge [] b"
  by (simp add: blank_edge_def setPersistence_def chip_get setClock_def edge_new_def small_edge_def)

lemma small_edge_simps [simp]:
  "backend (small_edge m b) = Some b" "edata (small_edge m b) = m"
  "track (small_edge m b) = small_edge m (b, False)"
  by (simp_all add: small_edge_def track_def map_backend_def edge_new_def)

lemma small_set:
  assumes "k = ''a'' \<or> k = ''b''" "length v \<le> 16" "length m < 4"
  shows "edge_set ops k v (small_edge m b) =
    (case ss_set ops k v b of
       (s, b1) \<Rightarrow>
         if s \<noteq> Ok then (s, small_edge (smap_insert k v m) b1)
         else (Ok, small_edge (smap_insert k v m)
                (if smap_find m k = None
                 then snd (ss_set ops kManifestKey (join_keys [] [] (smap_insert k v m)) b1) else b1)))"
proof -
  have "key_ok (small_edge m b) k"
    using assms(1) by (auto simp: key_ok_def small_edge_def edge_new_def kManifestKey_def)
  then have v: "validateAndStore k v (small_edge m b) = (Ok, small_edge (smap_insert k v m) b)"
    using assms(2,3) by (simp add: validateAndStore_def key_ok_def small_edge_def edge_new_def)
  have e: "evictExpired (small_edge m b) = small_edge m b" "expiry (small_edge m b) = []"
    "(small_edge x y)\<lparr>expiry := []\<rparr> = small_edge x y" "(small_edge x y)\<lparr>backend := Some z\<rparr> = small_edge x z"
    "expiry (small_edge x y) = []" "notify k r (small_edge x y) = small_edge x y" for x y z r
    by (simp_all add: evictExpired_def small_edge_def edge_new_def notify_def)
  show ?thesis
    by (simp add: edge_set_def v e Let_def persistManifest_def smap_erase_def split: prod.split)
qed

lemma small_kv_ok:
  "kv_ok [(''a'', ''1'')]" "kv_ok [(kManifestKey, ''a''), (''a'', ''1'')]"
  "kv_ok [(kManifestKey, ''a''), (''a'', ''1''), (''b'', [])]"
  by (simp_all add: kv_ok_def smap_ok_def entry_ok_def kMaxKeyLen_def kMaxValLen_def kManifestKey_def
      list_less_def)

lemma small_lengths:
  "encoded_length [(''a'', ''1'')] = 12" "encoded_length [(kManifestKey, ''a''), (''a'', ''1'')] = 38"
  "encoded_length [(kManifestKey, ''a''), (''a'', ''1''), (''b'', [])] = 42"
  "encoded_length [(kManifestKey, ''a''), (''a'', ''1''), (''b'', ''0123456789'')] = 52"
  by (simp_all add: encoded_length_def kHeaderSize_def kManifestKey_def)

lemma small_inserts:
  "smap_insert kManifestKey ''a'' [(''a'', ''1'')] = [(kManifestKey, ''a''), (''a'', ''1'')]"
  "smap_insert ''b'' v [(kManifestKey, ''a''), (''a'', ''1'')] = [(kManifestKey, ''a''), (''a'', ''1''), (''b'', v)]"
  by (simp_all add: kManifestKey_def list_less_def)

lemma first_write:
  assumes "eeprom_laws dv nc" "chip_holds dv n [] b" "12 \<le> n"
  obtains b1 where "eeprom_set dv nc ''a'' ''1'' b = (Ok, b1)" "chip_holds dv n [(''a'', ''1'')] b1"
  using chip_set [OF assms(1,2), of "''a''" "''1''"] assms(3) small_kv_ok(1) small_lengths(1) by auto

lemma first_manifest:
  assumes "eeprom_laws dv nc" "chip_holds dv n [(''a'', ''1'')] b1" "38 \<le> n"
  obtains b2 where "eeprom_set dv nc kManifestKey ''a'' b1 = (Ok, b2)"
    "chip_holds dv n [(kManifestKey, ''a''), (''a'', ''1'')] b2"
  using chip_set [OF assms(1,2), of kManifestKey "''a''"] assms(3) small_kv_ok(2) small_lengths(2)
  by (auto simp: small_inserts simp del: smap_insert.simps)

section \<open>Properties\<close>

text \<open>C11: on any backend that meets the contract of the secret store and has no manifest yet, a
  restart after any sequence of operations in which no write to the backend failed loads exactly the
  durable entries: every plain value, none of the expiring ones.  The restarted backend may be in any
  state that stands for the same map, as an EEPROM store is after a power cycle.  (When a write
  fails, a key can be lost even though the call that stored it was answered ok:
  \<open>lost_manifest_write\<close> and \<open>retried_write_lost\<close>.)\<close>

theorem edge_reload_durable:
  assumes "secret_store ops view good" "good b" "view b kManifestKey = None"
    and "start = setClock c (setPersistence ops (Some b) (edge_new mk mv ml))"
    and "writes_succeed ops xs start" "st = fold (edge_step ops) xs start"
  shows "\<exists>b1. backend st = Some b1 \<and>
    (\<forall>b2. good b2 \<longrightarrow> view b2 = view b1 \<longrightarrow>
       smap_find (edata (setPersistence ops (Some b2) (edge_new (maxKeys st) mv ml))) = durable st)"
proof -
  let ?t = "fold (edge_step (tracked ops)) xs (track start)"
  have start: "track start = setClock c (setPersistence (tracked ops) (Some (b, False)) (edge_new mk mv ml))"
    using assms(2,3) by (simp add: assms(4) track_def setPersistence_def secret_store.get_eq [OF assms(1)]
        setClock_def edge_new_def map_backend_def)
  have p: "persisted (\<lambda>b. view (fst b)) (\<lambda>b. good (fst b)) snd ?t"
    unfolding start
    by (intro watched_store.edge_run_persisted [OF secret_store.tracked_watched [OF assms(1)]]
        watched_store.persisted_fresh [OF secret_store.tracked_watched [OF assms(1)]])
       (simp_all add: assms(2,3))
  obtain b1 where b1: "backend ?t = Some (b1, False)"
    using p assms(5) by (auto simp: persisted_def writes_succeed_def)
  have st: "st = map_backend fst ?t"
    using tracked_run [of ops xs "track start"] by (simp add: assms(6) untrack)
  have "edge_inv ?t" using p by (simp add: persisted_def)
  from secret_store.tracked_reload [OF assms(1) p b1] durable_entries_facts(2) [OF this] b1
  show ?thesis by (auto simp: st durable_def fun_eq_iff)
qed

text \<open>The store of a device whose EEPROM has 64 bytes: its first value is written, with the manifest.\<close>

lemma first_value_tracked:
  assumes laws: "eeprom_laws dv nc" and b: "chip_holds dv n [] b" and n: "38 \<le> n"
  obtains b2 where "edge_set (tracked (eeprom_secret_store dv nc)) ''a'' ''1'' (track (blank_edge dv nc b)) =
    (Ok, small_edge [(''a'', ''1'')] (b2, False))"
proof -
  obtain b1 where b1: "eeprom_set dv nc ''a'' ''1'' b = (Ok, b1)" "chip_holds dv n [(''a'', ''1'')] b1"
    using first_write [OF laws b] n by auto
  obtain b2 where "eeprom_set dv nc kManifestKey ''a'' b1 = (Ok, b2)"
    using first_manifest [OF laws b1(2) n] by metis
  then show thesis
    using b1(1) by (intro that [of b2]) (simp add: blank_edge_eq [OF b] small_set)
qed

lemma first_value_written:
  assumes "eeprom_laws dv nc" "chip_holds dv n [] b" "38 \<le> n"
  shows "writes_succeed (eeprom_secret_store dv nc) [OpSet ''a'' ''1''] (blank_edge dv nc b)"
proof -
  obtain b2 where "edge_set (tracked (eeprom_secret_store dv nc)) ''a'' ''1'' (track (blank_edge dv nc b)) =
    (Ok, small_edge [(''a'', ''1'')] (b2, False))"
    by (rule first_value_tracked [OF assms])
  then show ?thesis by (simp add: writes_succeed_def)
qed

theorem edge_reload_durable_witness:
  "\<exists>b1. backend (fold (edge_step (eeprom_secret_store buffered_dev True)) [OpSet ''a'' ''1'']
      (blank_edge buffered_dev True (chip 64))) = Some b1 \<and>
    (\<forall>b2. eeprom_inv buffered_dev b2 \<longrightarrow> eeprom_view buffered_dev b2 = eeprom_view buffered_dev b1 \<longrightarrow>
       smap_find (edata (setPersistence (eeprom_secret_store buffered_dev True) (Some b2) (edge_new (maxKeys
         (fold (edge_step (eeprom_secret_store buffered_dev True)) [OpSet ''a'' ''1'']
           (blank_edge buffered_dev True (chip 64)))) 16 16))) =
       durable (fold (edge_step (eeprom_secret_store buffered_dev True)) [OpSet ''a'' ''1'']
         (blank_edge buffered_dev True (chip 64))))"
proof (rule edge_reload_durable [OF eeprom_is_secret_store [OF buffered_dev_laws] _ _ blank_edge_def _ refl])
  have chip: "chip_holds buffered_dev 64 [] (chip 64)"
    by (rule chip_blank) (simp add: kHeaderSize_def)
  then show inv: "eeprom_inv buffered_dev (chip 64)"
    by (simp add: chip_holds_def)
  then show "eeprom_view buffered_dev (chip 64) kManifestKey = None"
    using chip by (simp add: eeprom_inv_def view_synced eeprom_entries_def chip_holds_def)
  show "writes_succeed (eeprom_secret_store buffered_dev True) [OpSet ''a'' ''1''] (blank_edge buffered_dev True (chip 64))"
    by (rule first_value_written [OF buffered_dev_laws chip]) simp
qed

text \<open>the store answers ok, the value is in the EEPROM, but there was no room for the manifest and
  nobody looked at that write's status: after a power cycle the value is not loaded.\<close>

theorem lost_manifest_write:
  assumes laws: "eeprom_laws dv nc" and b: "chip_holds dv 20 [] b"
  shows "\<exists>st b1. edge_set (eeprom_secret_store dv nc) ''a'' ''1'' (blank_edge dv nc b) = (Ok, st) \<and>
    backend st = Some b1 \<and> eeprom_view dv b1 ''a'' = Some ''1'' \<and>
    edata (setPersistence (eeprom_secret_store dv nc) (Some (power_cycle dv b1)) (edge_new 4 16 16)) = []"
proof -
  obtain b1 where b1: "eeprom_set dv nc ''a'' ''1'' b = (Ok, b1)" "chip_holds dv 20 [(''a'', ''1'')] b1"
    using first_write [OF laws b] by auto
  have "eeprom_set dv nc kManifestKey ''a'' b1 = (Capacity, b1)"
    by (rule chip_full [OF b1(2)]) (simp_all add: small_inserts small_lengths del: smap_insert.simps)
  then have "edge_set (eeprom_secret_store dv nc) ''a'' ''1'' (blank_edge dv nc b) =
      (Ok, small_edge [(''a'', ''1'')] b1)"
    using b1(1) by (simp add: blank_edge_eq [OF b] small_set)
  moreover have "edata (setPersistence (eeprom_secret_store dv nc) (Some (power_cycle dv b1)) (edge_new 4 16 16)) = []"
    using chip_get(2) [OF b1(2), of kManifestKey]
    by (simp add: setPersistence_def edge_new_def kManifestKey_def)
  moreover have "eeprom_view dv b1 ''a'' = Some ''1''"
    using b1(2) by (simp add: chip_holds_def eeprom_inv_def view_synced eeprom_entries_def)
  ultimately show ?thesis by simp
qed

text \<open>a write that is refused leaves its key in RAM, so repeating it when there is room again counts
  as an update: the manifest is not rewritten, the call answers ok, and the key is not loaded after a
  power cycle.\<close>

theorem retried_write_lost:
  assumes laws: "eeprom_laws dv nc" and b: "chip_holds dv 45 [] b"
  shows "\<exists>st1 st2 st3 b3. edge_set (eeprom_secret_store dv nc) ''a'' ''1'' (blank_edge dv nc b) = (Ok, st1) \<and>
    edge_set (eeprom_secret_store dv nc) ''b'' ''0123456789'' st1 = (Capacity, st2) \<and>
    edge_set (eeprom_secret_store dv nc) ''b'' [] st2 = (Ok, st3) \<and>
    smap_find (edata st3) ''b'' = Some [] \<and> backend st3 = Some b3 \<and>
    edata (setPersistence (eeprom_secret_store dv nc) (Some (power_cycle dv b3)) (edge_new 4 16 16)) =
      [(''a'', ''1'')]"
proof -
  obtain b1 where b1: "eeprom_set dv nc ''a'' ''1'' b = (Ok, b1)" "chip_holds dv 45 [(''a'', ''1'')] b1"
    using first_write [OF laws b] by auto
  obtain b2 where b2: "eeprom_set dv nc kManifestKey ''a'' b1 = (Ok, b2)"
    "chip_holds dv 45 [(kManifestKey, ''a''), (''a'', ''1'')] b2"
    using first_manifest [OF laws b1(2)] by auto
  have s1: "edge_set (eeprom_secret_store dv nc) ''a'' ''1'' (blank_edge dv nc b) =
      (Ok, small_edge [(''a'', ''1'')] b2)"
    using b1(1) b2(1) by (simp add: blank_edge_eq [OF b] small_set)
  have "eeprom_set dv nc ''b'' ''0123456789'' b2 = (Capacity, b2)"
    by (rule chip_full [OF b2(2)]) (simp_all add: small_inserts small_lengths del: smap_insert.simps)
  then have s2: "edge_set (eeprom_secret_store dv nc) ''b'' ''0123456789'' (small_edge [(''a'', ''1'')] b2) =
      (Capacity, small_edge [(''a'', ''1''), (''b'', ''0123456789'')] b2)"
    by (simp add: small_set list_less_def)
  obtain b3 where b3: "eeprom_set dv nc ''b'' [] b2 = (Ok, b3)"
    "chip_holds dv 45 [(kManifestKey, ''a''), (''a'', ''1''), (''b'', [])] b3"
    using chip_set [OF laws b2(2), of "''b''" "[]"]
    by (auto simp: small_inserts small_lengths small_kv_ok simp del: smap_insert.simps)
  have s3: "edge_set (eeprom_secret_store dv nc) ''b'' [] (small_edge [(''a'', ''1''), (''b'', ''0123456789'')] b2) =
      (Ok, small_edge [(''a'', ''1''), (''b'', [])] b3)"
    using b3(1) by (simp add: small_set list_less_def)
  have "splitLines ''a'' = [''a'']"
    by (simp add: splitLines.simps)
  then have "edata (setPersistence (eeprom_secret_store dv nc) (Some (power_cycle dv b3)) (edge_new 4 16 16)) = [(''a'', ''1'')]"
    using chip_get(2) [OF b3(2), of kManifestKey] chip_get(2) [OF b3(2), of "''a''"]
    by (simp add: setPersistence_def edge_new_def kManifestKey_def load_one_def)
  with s1 s2 s3 show ?thesis by auto
qed

end
