(* ===== verification/Edge_Hooks.thy ===== *)
theory Edge_Hooks
  imports Edge_Store
begin

text \<open>
  Change hooks that call back into the store (mcp/EdgeStore.{h,cpp}).  \<open>Edge_Store\<close> records what the
  hook is told; here the hook runs at the place the code calls it and may use every operation of the
  store, whose own notifications run it again.  \<open>plain_hook\<close> relates the two models, and the
  invariants of Edge_Store are proved for any hook.
\<close>

section \<open>Hooks\<close>

text \<open>The public operations, and what they return.\<close>

datatype store_call =
    CSet string string
  | CSetTtl string string u32
  | CGet string
  | CRemove string
  | CHas string
  | CKeys
  | CSize

datatype store_reply = RStatus status | RValue "string result" | RBool bool | RKeys "string list" | RSize nat

text \<open>A hook is the sketch's function.  Given the change, the replies its calls got so far and the
  state \<open>'w\<close> it captures, it makes its next call or returns.\<close>

type_synonym 'w hook = "string \<Rightarrow> bool \<Rightarrow> store_reply list \<Rightarrow> 'w \<Rightarrow> store_call option \<times> 'w"

section \<open>The operations, cut at the hook calls\<close>

text \<open>What an operation does before it looks for expired entries: the answers that are given at once.\<close>

fun answer_at_once :: "store_call \<Rightarrow> 's edge_store \<Rightarrow> (store_reply \<times> 's edge_store) option" where
  "answer_at_once (CSetTtl key value ttlMs) st =
     (if clock st = None then Some (RStatus InvalidState, st) else None)"
| "answer_at_once (CRemove key) st = (if key = kManifestKey then Some (RStatus Ok, st) else None)"
| "answer_at_once (CHas key) st = Some (map_prod RBool id (edge_has key st))"
| "answer_at_once CKeys st = Some (map_prod RKeys id (edge_keys st))"
| "answer_at_once CSize st = Some (map_prod RSize id (edge_size st))"
| "answer_at_once (CSet key value) st = None"
| "answer_at_once (CGet key) st = None"

text \<open>The first loop of \<open>evictExpired\<close>.\<close>

definition find_dead :: "'s edge_store \<Rightarrow> string list \<times> 's edge_store" where
  "find_dead st =
     (case clock st of
        None \<Rightarrow> ([], st)
      | Some c \<Rightarrow>
          if expiry st = [] then ([], st)
          else (collect_dead c (ticks st) (expiry st), st\<lparr>ticks := ticks st + length (expiry st)\<rparr>))"

definition erase_entry :: "string \<Rightarrow> 's edge_store \<Rightarrow> 's edge_store" where
  "erase_entry key st = st\<lparr>edata := smap_erase key (edata st), expiry := smap_erase key (expiry st)\<rparr>"

text \<open>The rest of each operation; \<open>Some (key, removed)\<close> when it ends with the hook.  No hook changes
  the clock, so \<open>setWithTtl\<close> still finds the one it tested for.\<close>

definition set_rest ::
  "'s secret_ops \<Rightarrow> string \<Rightarrow> string \<Rightarrow> 's edge_store \<Rightarrow>
     store_reply \<times> 's edge_store \<times> (string \<times> bool) option" where
  "set_rest ops key value st =
     (let wasTtl = smap_find (expiry st) key \<noteq> None;
          isNew = smap_find (edata st) key = None;
          (stored, st1) = validateAndStore key value st
      in if stored \<noteq> Ok then (RStatus stored, st1, None)
         else
           (let st2 = st1\<lparr>expiry := smap_erase key (expiry st1)\<rparr>
            in case backend st2 of
                 None \<Rightarrow> (RStatus Ok, st2, Some (key, False))
               | Some b \<Rightarrow>
                   (let (s, b') = ss_set ops key value b;
                        st3 = st2\<lparr>backend := Some b'\<rparr>
                    in if s \<noteq> Ok then (RStatus s, st3, None)
                       else (RStatus Ok, if isNew \<or> wasTtl then persistManifest ops st3 else st3,
                             Some (key, False)))))"

definition set_ttl_rest ::
  "'s secret_ops \<Rightarrow> string \<Rightarrow> string \<Rightarrow> u32 \<Rightarrow> 's edge_store \<Rightarrow>
     store_reply \<times> 's edge_store \<times> (string \<times> bool) option" where
  "set_ttl_rest ops key value ttlMs st =
     (case clock st of
        None \<Rightarrow> (RStatus InvalidState, st, None)
      | Some c \<Rightarrow>
          (let wasDurable = (smap_find (edata st) key \<noteq> None \<and> smap_find (expiry st) key = None);
               (stored, st1) = validateAndStore key value st
           in if stored \<noteq> Ok then (RStatus stored, st1, None)
              else
                (let st2 = st1\<lparr>expiry := smap_insert key (c (ticks st1) + ttlMs) (expiry st1),
                               ticks := ticks st1 + 1\<rparr>
                 in (RStatus Ok,
                     case backend st2 of
                       None \<Rightarrow> st2
                     | Some b \<Rightarrow>
                         if wasDurable
                         then persistManifest ops (st2\<lparr>backend := Some (snd (ss_remove ops key b))\<rparr>)
                         else st2,
                     Some (key, False)))))"

definition get_rest ::
  "string \<Rightarrow> 's edge_store \<Rightarrow> store_reply \<times> 's edge_store \<times> (string \<times> bool) option" where
  "get_rest key st =
     (RValue (case smap_find (edata st) key of None \<Rightarrow> Inl NotFound | Some v \<Rightarrow> Inr v), st, None)"

definition remove_rest ::
  "'s secret_ops \<Rightarrow> string \<Rightarrow> 's edge_store \<Rightarrow>
     store_reply \<times> 's edge_store \<times> (string \<times> bool) option" where
  "remove_rest ops key st =
     (if smap_find (edata st) key = None then (RStatus Ok, st, None)
      else
        (let st1 = erase_entry key st
         in (RStatus Ok,
             case backend st1 of
               None \<Rightarrow> st1
             | Some b \<Rightarrow> persistManifest ops (st1\<lparr>backend := Some (snd (ss_remove ops key b))\<rparr>),
             Some (key, True))))"

text \<open>The last three operations have no rest: they are answered at once.\<close>

fun call_rest ::
  "'s secret_ops \<Rightarrow> store_call \<Rightarrow> 's edge_store \<Rightarrow>
     store_reply \<times> 's edge_store \<times> (string \<times> bool) option" where
  "call_rest ops (CSet key value) st = set_rest ops key value st"
| "call_rest ops (CSetTtl key value ttlMs) st = set_ttl_rest ops key value ttlMs st"
| "call_rest ops (CGet key) st = get_rest key st"
| "call_rest ops (CRemove key) st = remove_rest ops key st"
| "call_rest ops (CHas key) st = (RBool False, st, None)"
| "call_rest ops CKeys st = (RKeys [], st, None)"
| "call_rest ops CSize st = (RSize 0, st, None)"

section \<open>Running with the hook\<close>

text \<open>
  \<open>hook_call\<close> is one public operation, \<open>evict_loop\<close> the second loop of \<open>evictExpired\<close>, \<open>hook_body\<close>
  the hook from its next call on.  The number bounds the nesting and the calls of a hook; \<open>None\<close>
  means that it did not suffice.
\<close>

fun hook_call ::
  "nat \<Rightarrow> 'w hook \<Rightarrow> 's secret_ops \<Rightarrow> store_call \<Rightarrow> 's edge_store \<Rightarrow> 'w \<Rightarrow>
     (store_reply \<times> 's edge_store \<times> 'w) option"
and evict_loop ::
  "nat \<Rightarrow> 'w hook \<Rightarrow> 's secret_ops \<Rightarrow> string list \<Rightarrow> 's edge_store \<Rightarrow> 'w \<Rightarrow>
     ('s edge_store \<times> 'w) option"
and hook_body ::
  "nat \<Rightarrow> 'w hook \<Rightarrow> 's secret_ops \<Rightarrow> string \<Rightarrow> bool \<Rightarrow> store_reply list \<Rightarrow> 's edge_store \<Rightarrow> 'w \<Rightarrow>
     ('s edge_store \<times> 'w) option" where
  "hook_call 0 h ops c st w = None"
| "hook_call (Suc n) h ops c st w =
     (case answer_at_once c st of
        Some (r, st1) \<Rightarrow> Some (r, st1, w)
      | None \<Rightarrow>
          (case find_dead st of
             (dead, st1) \<Rightarrow>
               (case evict_loop n h ops dead st1 w of
                  None \<Rightarrow> None
                | Some (st2, w2) \<Rightarrow>
                    (case call_rest ops c st2 of
                       (r, st3, None) \<Rightarrow> Some (r, st3, w2)
                     | (r, st3, Some (key, removed)) \<Rightarrow>
                         if onChange st3 then
                           map_option (\<lambda>(st4, w4). (r, st4, w4))
                             (hook_body n h ops key removed [] (notify key removed st3) w2)
                         else Some (r, st3, w2)))))"
| "evict_loop n h ops [] st w = Some (st, w)"
| "evict_loop 0 h ops (key # dead) st w = None"
| "evict_loop (Suc n) h ops (key # dead) st w =
     (let st1 = erase_entry key st
      in if onChange st1 then
           (case hook_body n h ops key True [] (notify key True st1) w of
              None \<Rightarrow> None
            | Some (st2, w2) \<Rightarrow> evict_loop n h ops dead st2 w2)
         else evict_loop n h ops dead st1 w)"
| "hook_body 0 h ops key removed rs st w = None"
| "hook_body (Suc n) h ops key removed rs st w =
     (case h key removed rs w of
        (None, w1) \<Rightarrow> Some (st, w1)
      | (Some c, w1) \<Rightarrow>
          (case hook_call n h ops c st w1 of
             None \<Rightarrow> None
           | Some (r, st2, w2) \<Rightarrow> hook_body n h ops key removed (rs @ [r]) st2 w2))"

lemmas hook_induct = hook_call_evict_loop_hook_body.induct

text \<open>The plain operations, and the record of one more hook call.\<close>

fun plain_call ::
  "'s secret_ops \<Rightarrow> store_call \<Rightarrow> 's edge_store \<Rightarrow> store_reply \<times> 's edge_store" where
  "plain_call ops (CSet key value) st = map_prod RStatus id (edge_set ops key value st)"
| "plain_call ops (CSetTtl key value ttl) st = map_prod RStatus id (edge_setWithTtl ops key value ttl st)"
| "plain_call ops (CGet key) st = map_prod RValue id (edge_get key st)"
| "plain_call ops (CRemove key) st = map_prod RStatus id (edge_remove ops key st)"
| "plain_call ops (CHas key) st = map_prod RBool id (edge_has key st)"
| "plain_call ops CKeys st = map_prod RKeys id (edge_keys st)"
| "plain_call ops CSize st = map_prod RSize id (edge_size st)"

definition told :: "(string \<times> bool) option \<Rightarrow> 's edge_store \<Rightarrow> 's edge_store" where
  "told ev st = (case ev of None \<Rightarrow> st | Some (key, removed) \<Rightarrow> notify key removed st)"

lemma evict_one_notify: "evict_one key st = notify key True (erase_entry key st)"
  by (simp add: evict_one_def erase_entry_def)

lemma evictExpired_find_dead:
  "evictExpired st = (case find_dead st of (dead, st1) \<Rightarrow> fold evict_one dead st1)"
  by (simp add: evictExpired_def find_dead_def split: option.split)

lemma find_dead_simps [simp]:
  "edata (snd (find_dead st)) = edata st" "expiry (snd (find_dead st)) = expiry st"
  "clock (snd (find_dead st)) = clock st" "onChange (snd (find_dead st)) = onChange st"
  "backend (snd (find_dead st)) = backend st" "events (snd (find_dead st)) = events st"
  "edge_inv (snd (find_dead st)) = edge_inv st"
  by (simp_all add: find_dead_def split: option.split)

lemma fold_evict_clock [simp]: "clock (fold evict_one dead st) = clock st"
  by (induction dead arbitrary: st) simp_all

lemma evictExpired_clock [simp]: "clock (evictExpired st) = clock st"
  using find_dead_simps(3) [of st] by (cases "find_dead st") (simp add: evictExpired_find_dead)

text \<open>The pieces make up the operations.\<close>

lemma plain_call_pieces:
  "plain_call ops c st =
     (case answer_at_once c st of
        Some p \<Rightarrow> p
      | None \<Rightarrow> (case call_rest ops c (evictExpired st) of (r, st1, ev) \<Rightarrow> (r, told ev st1)))"
proof (cases c)
  case (CSet key v)
  then show ?thesis
    by (auto simp: edge_set_def set_rest_def told_def Let_def split: prod.split option.split)
next
  case (CSetTtl key v ttl)
  then show ?thesis
    by (auto simp: edge_setWithTtl_def set_ttl_rest_def told_def Let_def split: prod.split option.split)
qed (auto simp: edge_get_def get_rest_def edge_remove_def remove_rest_def erase_entry_def told_def
       Let_def split: option.split)

text \<open>Inversion rules.\<close>

lemma told_quiet: "ev = None \<or> \<not> onChange st \<Longrightarrow> told ev st = st"
  by (auto simp: told_def notify_def split: option.split)

lemma hook_call_SucE:
  assumes "hook_call (Suc n) h ops c st w = Some (r, st', w')"
  obtains (at_once) "answer_at_once c st = Some (r, st')" "w' = w"
  | (rest) dead st0 st1 w1 st2 ev where "answer_at_once c st = None" "find_dead st = (dead, st0)"
      "evict_loop n h ops dead st0 w = Some (st1, w1)" "call_rest ops c st1 = (r, st2, ev)"
      "(ev = None \<or> \<not> onChange st2) \<and> st' = told ev st2 \<and> w' = w1 \<or>
       (\<exists>key removed. ev = Some (key, removed) \<and> onChange st2 \<and>
          hook_body n h ops key removed [] (told ev st2) w1 = Some (st', w'))"
proof (cases "answer_at_once c st")
  case (Some p)
  then show thesis
    using assms at_once by (auto split: prod.splits)
next
  case None
  obtain dead st0 where d: "find_dead st = (dead, st0)"
    by fastforce
  obtain st1 w1 where l: "evict_loop n h ops dead st0 w = Some (st1, w1)"
    using assms None d by (auto split: option.splits)
  obtain r' st2 ev where c: "call_rest ops c st1 = (r', st2, ev)"
    using prod_cases3 by blast
  show thesis
    using assms None d l c
    by (intro rest [OF None d l, of st2 ev])
      (auto simp: told_def notify_def split: option.splits if_splits)
qed

lemma evict_loop_ConsE:
  assumes "evict_loop (Suc n) h ops (key # dead) st w = Some (st', w')"
  obtains (quiet) "\<not> onChange st" "evict_loop n h ops dead (evict_one key st) w = Some (st', w')"
  | (loud) st1 w1 where "onChange st" "hook_body n h ops key True [] (evict_one key st) w = Some (st1, w1)"
      "evict_loop n h ops dead st1 w1 = Some (st', w')"
proof (cases "onChange st")
  case True
  then show thesis
    using assms loud by (auto simp: evict_one_notify erase_entry_def Let_def split: option.splits)
next
  case False
  then show thesis
    using assms quiet by (simp add: evict_one_notify notify_def erase_entry_def)
qed

lemma hook_body_SucE:
  assumes "hook_body (Suc n) h ops key removed rs st w = Some (st', w')"
  obtains (returns) "h key removed rs w = (None, w')" "st' = st"
  | (calls) c w1 r st1 w2 where "h key removed rs w = (Some c, w1)"
      "hook_call n h ops c st w1 = Some (r, st1, w2)"
      "hook_body n h ops key removed (rs @ [r]) st1 w2 = Some (st', w')"
  using assms by (auto split: option.splits prod.splits)

section \<open>Hooks that make no call\<close>

text \<open>What such a hook makes of a list of changes.\<close>

definition hear :: "'w hook \<Rightarrow> (string \<times> bool) list \<Rightarrow> 'w \<Rightarrow> 'w" where
  "hear h evs w = fold (\<lambda>(key, removed) w. snd (h key removed [] w)) evs w"

definition silent :: "'w hook \<Rightarrow> bool" where
  "silent h \<longleftrightarrow> (\<forall>key removed w. fst (h key removed [] w) = None)"

lemma silent_hook_body:
  assumes "silent h"
  shows "hook_body (Suc n) h ops key removed [] st w = Some (st, snd (h key removed [] w))"
proof -
  have "h key removed [] w = (None, snd (h key removed [] w))"
    using assms by (simp add: silent_def prod_eq_iff)
  then show ?thesis
    by (subst hook_body.simps(2)) (metis (no_types, lifting) option.simps(4) prod.simps(2))
qed

lemma silent_evict_loop:
  assumes "silent h" "length dead < n"
  shows "evict_loop n h ops dead st w =
    Some (fold evict_one dead st, if onChange st then hear h (map (\<lambda>key. (key, True)) dead) w else w)"
  using assms(2)
proof (induction dead arbitrary: n st w)
  case (Cons key dead)
  then obtain m where n: "n = Suc (Suc m)" "length dead < Suc m"
    by (cases n; cases "n - 1") auto
  have on: "onChange (erase_entry key st) = onChange st"
    by (simp add: erase_entry_def)
  have quiet: "notify key True (erase_entry key st) = erase_entry key st" if "\<not> onChange st"
    using that by (simp add: notify_def on)
  show ?case
    using Cons.IH [OF n(2)] quiet
    by (simp add: n(1) on hear_def silent_hook_body [OF assms(1)] evict_one_notify del: hook_body.simps)
qed (simp add: hear_def)

lemma length_collect_dead: "length (collect_dead c t ex) \<le> length ex"
  by (induction c t ex rule: collect_dead.induct) auto

lemma events_fold_evict:
  "events (fold evict_one dead st) =
     events st @ (if onChange st then map (\<lambda>key. (key, True)) dead else [])"
  by (induction dead arbitrary: st) (simp_all add: evict_one_def notify_def)

lemma onChange_fold_evict [simp]: "onChange (fold evict_one dead st) = onChange st"
  by (induction dead arbitrary: st) simp_all

lemma call_rest_keeps:
  assumes "call_rest ops c st = (r, st1, ev)"
  shows "onChange st1 = onChange st \<and> events st1 = events st \<and> clock st1 = clock st"
  using assms
  by (cases c) (auto simp: set_rest_def set_ttl_rest_def get_rest_def remove_rest_def erase_entry_def
      validateAndStore_def persistManifest_def Let_def split: if_splits option.splits prod.splits)

lemma at_once_keeps:
  assumes "answer_at_once c st = Some (r, st1)"
  shows "\<exists>t. st1 = st\<lparr>ticks := t\<rparr>"
proof -
  have has: "\<exists>t. snd (edge_has key st) = st\<lparr>ticks := t\<rparr>" "\<exists>t. snd (expiredNow key st) = st\<lparr>ticks := t\<rparr>"
    for key and st :: "'s edge_store"
    by (auto simp: edge_has_def expiredNow_def Let_def intro: exI [of _ "ticks st"]
        split: option.split prod.split)
  have live: "\<exists>t. snd (live_keys ks st) = st\<lparr>ticks := t\<rparr>" for ks and st :: "'s edge_store"
  proof (induction ks arbitrary: st)
    case (Cons k ks)
    obtain t where t: "snd (expiredNow k st) = st\<lparr>ticks := t\<rparr>"
      using has(2) by blast
    obtain t' where "snd (live_keys ks (st\<lparr>ticks := t\<rparr>)) = st\<lparr>ticks := t\<rparr>\<lparr>ticks := t'\<rparr>"
      using Cons by blast
    then show ?case
      using t by (auto simp: Let_def split: prod.split)
  next
    case Nil
    show ?case
      by (auto intro: exI [of _ "ticks st"])
  qed
  have "st1 = st \<or> (\<exists>key. st1 = snd (edge_has key st)) \<or> (\<exists>ks. st1 = snd (live_keys ks st))"
    using assms
    by (cases c) (force simp: edge_keys_def edge_size_def Let_def case_prod_unfold prod_eq_iff split: if_splits)+
  moreover have "\<exists>t. st = st\<lparr>ticks := t\<rparr>"
    by (intro exI [of _ "ticks st"]) simp
  ultimately show ?thesis
    using has(1) live by metis
qed

text \<open>A change hook that makes no call back into the store never disturbs it: every operation
  returns and leaves the store exactly as the plain operation does, and the hook has heard exactly
  the changes the plain operation records, in order, the evictions it caused included.\<close>

theorem silent_hook_is_plain:
  assumes "silent h" "length (expiry st) + 2 \<le> n" "plain_call ops c st = (r, st1)"
  shows "hook_call n h ops c st w = Some (r, st1, hear h (drop (length (events st)) (events st1)) w)"
proof -
  obtain m where n: "n = Suc m" "length (expiry st) < m"
    using assms(2) by (cases n) auto
  show ?thesis
  proof (cases "answer_at_once c st")
    case (Some p)
    then show ?thesis
      using assms(3) at_once_keeps [of c st r st1]
      by (auto simp: n(1) plain_call_pieces hear_def)
  next
    case None
    obtain dead st0 where d: "find_dead st = (dead, st0)"
      by fastforce
    obtain r' st2 ev where rest: "call_rest ops c (fold evict_one dead st0) = (r', st2, ev)"
      using prod_cases3 by blast
    have "length dead \<le> length (expiry st)"
      using d length_collect_dead by (auto simp: find_dead_def split: option.splits if_splits)
    then have st0: "onChange st0 = onChange st" "events st0 = events st" "length dead < m"
      using d n(2) find_dead_simps(4,6) [of st] by simp_all
    have loop: "evict_loop m h ops dead st0 w = Some (fold evict_one dead st0,
        if onChange st then hear h (map (\<lambda>key. (key, True)) dead) w else w)"
      using silent_evict_loop [OF assms(1) st0(3), of ops st0 w] by (simp add: st0)
    have st2: "onChange st2 = onChange st" "events st2 =
        events st @ (if onChange st then map (\<lambda>key. (key, True)) dead else [])"
      using call_rest_keeps [OF rest] by (simp_all add: st0 events_fold_evict)
    have plain: "r = r'" "st1 = told ev st2"
      using assms(3) None rest by (simp_all add: plain_call_pieces evictExpired_find_dead d)
    obtain m' where m: "m = Suc m'"
      using n(2) by (cases m) auto
    show ?thesis
      using None d loop rest st2
      by (auto simp: n(1) plain told_def notify_def hear_def m silent_hook_body [OF assms(1)]
          simp del: hook_body.simps evict_loop.simps split: option.split prod.split)
  qed
qed

section \<open>Invariants under any hook\<close>

definition calls_only :: "(store_call \<Rightarrow> bool) \<Rightarrow> 'w hook \<Rightarrow> bool" where
  "calls_only allowed h \<longleftrightarrow> (\<forall>key removed rs w c w1. h key removed rs w = (Some c, w1) \<longrightarrow> allowed c)"

lemma calls_onlyD: "calls_only allowed h \<Longrightarrow> h key removed rs w = (Some c, w1) \<Longrightarrow> allowed c"
  unfolding calls_only_def by blast

lemma calls_only_any [simp]: "calls_only (\<lambda>_. True) h"
  by (simp add: calls_only_def)

text \<open>What every piece keeps for the allowed calls, every operation keeps, whatever the hook does with
  them and however deep.\<close>

locale hook_invariant =
  fixes ops :: "'s secret_ops" and allowed :: "store_call \<Rightarrow> bool" and inv :: "'s edge_store \<Rightarrow> bool"
  assumes inv_ticks: "inv st \<Longrightarrow> inv (st\<lparr>ticks := t\<rparr>)"
    and inv_evict: "inv st \<Longrightarrow> inv (evict_one key st)"
    and inv_rest: "allowed c \<Longrightarrow> inv st \<Longrightarrow> call_rest ops c st = (r, st1, ev) \<Longrightarrow> inv (told ev st1)"
begin

lemma inv_find_dead: "inv st \<Longrightarrow> find_dead st = (dead, st1) \<Longrightarrow> inv st1"
  by (auto simp: find_dead_def inv_ticks split: option.splits if_splits)

lemma inv_at_once: "inv st \<Longrightarrow> answer_at_once c st = Some (r, st1) \<Longrightarrow> inv st1"
  using at_once_keeps [of c st r st1] inv_ticks by auto

lemma hooked_keep:
  "hook_call n h ops' c st w = Some (r, st1, w1) \<Longrightarrow> ops' = ops \<Longrightarrow> calls_only allowed h \<Longrightarrow>
     allowed c \<Longrightarrow> inv st \<Longrightarrow> inv st1"
  "evict_loop n h ops' dead st w = Some (st2, w2) \<Longrightarrow> ops' = ops \<Longrightarrow> calls_only allowed h \<Longrightarrow>
     inv st \<Longrightarrow> inv st2"
  "hook_body n h ops' key removed rs st w = Some (st3, w3) \<Longrightarrow> ops' = ops \<Longrightarrow> calls_only allowed h \<Longrightarrow>
     inv st \<Longrightarrow> inv st3"
proof (induction n h ops' c st w and n h ops' dead st w and n h ops' key removed rs st w
    arbitrary: r st1 w1 and st2 w2 and st3 w3 rule: hook_induct)
  case (2 n h ops' c st w)
  from \<open>hook_call (Suc n) h ops' c st w = Some (r, st1, w1)\<close> show ?case
  proof (cases rule: hook_call_SucE)
    case at_once
    with 2 show ?thesis
      by (simp add: inv_at_once)
  next
    case (rest dead st0 sta wa stb ev)
    then have "inv (told ev stb)"
      using 2 inv_find_dead [OF _ rest(2)] inv_rest by metis
    with rest 2 show ?thesis
      by (auto simp: told_def)
  qed
next
  case (5 n h ops' key dead st w)
  from \<open>evict_loop (Suc n) h ops' (key # dead) st w = Some (st2, w2)\<close> show ?case
    using 5 inv_evict [of st key]
    by (cases rule: evict_loop_ConsE)
      (auto simp: evict_one_notify erase_entry_def notify_def Let_def split: option.splits)
next
  case (7 n h ops' key removed rs st w)
  from \<open>hook_body (Suc n) h ops' key removed rs st w = Some (st3, w3)\<close> show ?case
    using 7 calls_onlyD [of allowed h key removed rs w]
    by (cases rule: hook_body_SucE) (auto split: option.splits)
qed simp_all

end

text \<open>The operations of a sketch, in order; the state of the hook runs through all of them.\<close>

fun hook_run ::
  "nat \<Rightarrow> 'w hook \<Rightarrow> 's secret_ops \<Rightarrow> store_call list \<Rightarrow> 's edge_store \<Rightarrow> 'w \<Rightarrow>
     (store_reply list \<times> 's edge_store \<times> 'w) option" where
  "hook_run n h ops [] st w = Some ([], st, w)"
| "hook_run n h ops (c # cs) st w =
     (case hook_call n h ops c st w of
        None \<Rightarrow> None
      | Some (r, st1, w1) \<Rightarrow> map_option (\<lambda>(rs, st2, w2). (r # rs, st2, w2)) (hook_run n h ops cs st1 w1))"

context hook_invariant
begin

lemma hook_run_keeps:
  "hook_run n h ops cs st w = Some (rs, st1, w1) \<Longrightarrow> calls_only allowed h \<Longrightarrow>
     list_all allowed cs \<Longrightarrow> inv st \<Longrightarrow> inv st1"
proof (induction cs arbitrary: rs st w)
  case (Cons c cs)
  then show ?case
    using hooked_keep(1) [OF _ refl] by (fastforce split: option.splits)
qed simp

end

lemma set_rest_inv: "edge_inv st \<Longrightarrow> set_rest ops key v st = (r, st1, ev) \<Longrightarrow> edge_inv st1"
  using validateAndStore_cases [of st key v] edge_inv_erase_expiry
  by (fastforce simp: set_rest_def Let_def split: prod.splits option.splits if_splits)

lemma set_ttl_rest_inv:
  assumes "edge_inv st" "set_ttl_rest ops key v ttl st = (r, st1, ev)"
  shows "edge_inv st1"
proof -
  obtain s sta where v: "validateAndStore key v st = (s, sta)"
    by fastforce
  note cases = validateAndStore_cases [OF assms(1) v]
  then have inv: "edge_inv sta"
    using assms(1) by auto
  have "edge_inv (sta\<lparr>expiry := smap_insert key d (expiry sta)\<rparr>)" if "s = Ok" for d
    using that cases assms(1) inv by (intro edge_inv_insert_expiry) (auto simp: edge_inv_def map_simps)
  then show ?thesis
    using assms inv v by (auto simp: set_ttl_rest_def Let_def split: option.splits if_splits)
qed

lemma remove_rest_inv: "edge_inv st \<Longrightarrow> remove_rest ops key st = (r, st1, ev) \<Longrightarrow> edge_inv st1"
  using edge_inv_erase [of st key]
  by (auto simp: remove_rest_def erase_entry_def Let_def split: option.splits if_splits)

lemma call_rest_inv:
  assumes "edge_inv st" "call_rest ops c st = (r, st1, ev)"
  shows "edge_inv st1"
  using assms
  by (cases c) (simp_all add: set_rest_inv [OF assms(1)] set_ttl_rest_inv [OF assms(1)]
      remove_rest_inv [OF assms(1)] get_rest_def)

lemma edge_inv_told [simp]: "edge_inv (told ev st) = edge_inv st"
  by (auto simp: told_def split: option.split)

interpretation bounds: hook_invariant ops "\<lambda>_. True" edge_inv for ops
  by unfold_locales (auto simp: edge_inv_evict_one call_rest_inv)

text \<open>C12: no sequence of store operations breaks the bounds of the store, whatever the change hook
  does: it may call every operation of the store, from within an eviction too, and their changes run
  it again.  At most \<open>maxKeys\<close> entries in key order, every key non-empty, within its length limit, free
  of line feeds and not the reserved manifest key, every value within its limit, and a deadline only
  for a key that is present.\<close>

theorem hooked_bounds_kept:
  assumes "hook_run n h ops cs st w = Some (rs, st1, w1)" "edge_inv st"
  shows "edge_inv st1"
  using bounds.hook_run_keeps [OF assms(1)] assms(2) by (simp add: list_all_iff)

text \<open>A hook that copies what changed.\<close>

definition copy_hook :: "string list hook" where
  "copy_hook key removed rs w =
     (if removed \<or> key = ''copy'' then (None, w)
      else if rs = [] then (Some (CGet key), w)
      else (case rs ! 0 of
              RValue (Inr v) \<Rightarrow> if length rs = 1 then (Some (CSet ''copy'' v), w) else (None, v # w)
            | _ \<Rightarrow> (None, w)))"

lemma copy_hook_run:
  "map_option (\<lambda>(rs, st, w). (edata st, events st, w))
     (hook_run 9 copy_hook memory_secret_store [CSet ''a'' ''1'', CRemove ''a'']
        (setOnChange True (edge_new 2 8 8)) []) =
   Some ([(''copy'', ''1'')], [(''a'', False), (''copy'', False), (''a'', True)], [''1''])"
  by code_simp

theorem hooked_bounds_kept_witness:
  "\<exists>rs st1 w1. hook_run 9 copy_hook memory_secret_store [CSet ''a'' ''1'', CRemove ''a'']
       (setOnChange True (edge_new 2 8 8)) [] = Some (rs, st1, w1) \<and> edge_inv st1"
proof -
  let ?run = "hook_run 9 copy_hook memory_secret_store [CSet ''a'' ''1'', CRemove ''a'']
    (setOnChange True (edge_new 2 8 8)) []"
  obtain rs st1 w1 where run: "?run = Some (rs, st1, w1)"
    using copy_hook_run by (cases ?run) auto
  have "edge_inv (setOnChange True (edge_new 2 8 8 :: memory_store edge_store))"
    by (simp add: edge_inv_def edge_new_def setOnChange_def)
  from hooked_bounds_kept [OF run this] run show ?thesis
    by blast
qed

section \<open>The change hook as an observer\<close>

text \<open>A listener that keeps the set of keys it was told about.\<close>

definition follow :: "string \<times> bool \<Rightarrow> string set \<Rightarrow> string set" where
  "follow ev K = (case ev of (key, removed) \<Rightarrow> if removed then K - {key} else insert key K)"

definition stored_keys :: "'s edge_store \<Rightarrow> string set" where
  "stored_keys st = dom (smap_find (edata st))"

text \<open>\<open>K\<close> is what was stored before the first event.\<close>

definition followed ::
  "('s \<Rightarrow> bool) \<Rightarrow> string set \<Rightarrow> 's edge_store \<Rightarrow> bool" where
  "followed good K st \<longleftrightarrow>
     edge_inv st \<and> onChange st \<and> (\<forall>b. backend st = Some b \<longrightarrow> good b) \<and>
     fold follow (events st) K = stored_keys st"

text \<open>The hook's view of the store is exact as long as the backend does not fail.\<close>

context reliable_store
begin

lemma set_reliable:
  "inv b \<Longrightarrow> k \<noteq> [] \<Longrightarrow> ss_set ops k v b = (s, b') \<Longrightarrow> s = Ok \<and> inv b'"
  using reliable_set set_inv [of b k v] unfolding reliable_def by (metis fst_conv snd_conv)

lemma manifest_good:
  "(\<And>b. backend st = Some b \<Longrightarrow> inv b) \<Longrightarrow> backend (persistManifest ops st) = Some b \<Longrightarrow> inv b"
  by (auto simp: persistManifest_def set_inv split: option.splits)

lemma set_rest_followed:
  assumes "followed inv K st" "set_rest ops key v st = (r, st1, ev)"
  shows "followed inv K (told ev st1)"
proof -
  obtain s sta where v: "validateAndStore key v st = (s, sta)"
    by fastforce
  have st: "edge_inv st" "onChange st" "\<And>b. backend st = Some b \<Longrightarrow> inv b"
    "fold follow (events st) K = stored_keys st"
    using assms(1) by (auto simp: followed_def)
  show ?thesis
  proof (cases "s = Ok")
    case False
    with assms v validateAndStore_cases [OF st(1) v] show ?thesis
      by (auto simp: set_rest_def Let_def told_def)
  next
    case True
    with validateAndStore_cases [OF st(1) v] have
      sta: "sta = st\<lparr>edata := smap_insert key v (edata st)\<rparr>" "key \<noteq> []"
      by (auto simp: key_ok_def)
    have ok: "smap_ok (edata st)"
      using st(1) by (simp add: edge_inv_def)
    have rest: "ev = Some (key, False) \<and> edata st1 = edata sta \<and> events st1 = events st \<and>
        onChange st1 \<and> (\<forall>b. backend st1 = Some b \<longrightarrow> inv b)"
    proof (cases "backend st")
      case None
      then show ?thesis
        using assms(2) st(2) True v by (auto simp: set_rest_def Let_def sta)
    next
      case (Some b)
      obtain e b' where e: "ss_set ops key v b = (e, b')"
        by fastforce
      from set_reliable [OF st(3) [OF Some] sta(2) e] show ?thesis
        using assms(2) st(2) True v e Some
        by (auto simp: set_rest_def Let_def sta persistManifest_def set_inv split: if_splits)
    qed
    moreover have "edge_inv st1"
      by (rule set_rest_inv [OF st(1) assms(2)])
    ultimately show ?thesis
      using st(4)
      by (auto simp: followed_def told_def notify_def follow_def stored_keys_def sta
          smap_find_insert [OF ok] edge_inv_def key_ok_def)
  qed
qed

lemma set_ttl_rest_followed:
  assumes "followed inv K st" "set_ttl_rest ops key v ttl st = (r, st1, ev)"
  shows "followed inv K (told ev st1)"
proof -
  obtain s sta where v: "validateAndStore key v st = (s, sta)"
    by fastforce
  have st: "edge_inv st" "onChange st" "\<And>b. backend st = Some b \<Longrightarrow> inv b"
    "fold follow (events st) K = stored_keys st"
    using assms(1) by (auto simp: followed_def)
  note inv1 = set_ttl_rest_inv [OF st(1) assms(2)]
  show ?thesis
  proof (cases "s = Ok \<and> clock st \<noteq> None")
    case False
    with assms v validateAndStore_cases [OF st(1) v] show ?thesis
      by (auto simp: set_ttl_rest_def Let_def told_def split: option.splits)
  next
    case True
    with validateAndStore_cases [OF st(1) v] have
      sta: "sta = st\<lparr>edata := smap_insert key v (edata st)\<rparr>"
      by auto
    have ok: "smap_ok (edata st)"
      using st(1) by (simp add: edge_inv_def)
    have "ev = Some (key, False) \<and> edata st1 = edata sta \<and> events st1 = events st \<and>
        onChange st1 \<and> (\<forall>b. backend st1 = Some b \<longrightarrow> inv b)"
      using assms(2) st(2,3) True v
      by (auto simp: set_ttl_rest_def Let_def sta persistManifest_def set_inv remove_inv
          split: option.splits if_splits)
    then show ?thesis
      using st(4) inv1
      by (auto simp: followed_def told_def notify_def follow_def stored_keys_def sta
          smap_find_insert [OF ok] edge_inv_def key_ok_def)
  qed
qed

lemma remove_rest_followed:
  assumes "followed inv K st" "remove_rest ops key st = (r, st1, ev)"
  shows "followed inv K (told ev st1)"
proof (cases "smap_find (edata st) key")
  case None
  then show ?thesis
    using assms by (auto simp: remove_rest_def told_def)
next
  case (Some v)
  have st: "edge_inv st" "onChange st" "\<And>b. backend st = Some b \<Longrightarrow> inv b"
    "fold follow (events st) K = stored_keys st"
    using assms(1) by (auto simp: followed_def)
  have "ev = Some (key, True) \<and> edata st1 = smap_erase key (edata st) \<and> events st1 = events st \<and>
      onChange st1 \<and> (\<forall>b. backend st1 = Some b \<longrightarrow> inv b)"
    using assms(2) st(2,3) Some
    by (auto simp: remove_rest_def erase_entry_def Let_def persistManifest_def set_inv remove_inv
        split: option.splits)
  then show ?thesis
    using st(4) remove_rest_inv [OF st(1) assms(2)]
    by (auto simp: followed_def told_def notify_def follow_def stored_keys_def smap_find_erase
        edge_inv_def key_ok_def)
qed

end

sublocale reliable_store \<subseteq> observer: hook_invariant ops "\<lambda>_. True" "followed inv K" for K
proof unfold_locales
  fix st :: "'a edge_store" and t key
  show "followed inv K st \<Longrightarrow> followed inv K (st\<lparr>ticks := t\<rparr>)"
    by (simp add: followed_def stored_keys_def)
  show "followed inv K st \<Longrightarrow> followed inv K (evict_one key st)"
    using edge_inv_evict_one [of st key]
    by (auto simp: followed_def stored_keys_def follow_def evict_one_def notify_def smap_find_erase)
next
  fix st st1 :: "'a edge_store" and c r ev
  assume "followed inv K st" "call_rest ops c st = (r, st1, ev)"
  then show "followed inv K (told ev st1)"
    by (cases c) (auto simp: set_rest_followed set_ttl_rest_followed remove_rest_followed get_rest_def told_quiet)
qed

context reliable_store
begin

lemmas followed_run = observer.hook_run_keeps

end

text \<open>C13: a listener that starts with the keys the store holds and follows the change hook knows
  exactly which keys it holds after every sequence of operations, as long as the backend does not
  fail writes: no change is missed and none is reported that did not happen, even if the hook itself
  changes the store.\<close>

theorem hook_follows_store:
  assumes "reliable_store ops view good" "hook_run n h ops cs st w = Some (rs, st1, w1)"
    and "edge_inv st" "onChange st" "events st = []" "\<forall>b. backend st = Some b \<longrightarrow> good b"
  shows "fold follow (events st1) (stored_keys st) = stored_keys st1"
proof -
  have "followed good (stored_keys st) st"
    using assms(3-6) by (simp add: followed_def)
  then have "followed good (stored_keys st) st1"
    using reliable_store.followed_run [OF assms(1,2)] by (simp add: list_all_iff)
  then show ?thesis
    by (simp add: followed_def)
qed

theorem hook_follows_store_witness:
  "\<exists>rs st1 w1. hook_run 9 copy_hook memory_secret_store [CSet ''a'' ''1'', CRemove ''a'']
       (setOnChange True (edge_new 2 8 8)) [] = Some (rs, st1, w1) \<and>
     fold follow (events st1) (stored_keys (setOnChange True (edge_new 2 8 8) :: memory_store edge_store)) =
       stored_keys st1"
proof -
  let ?st = "setOnChange True (edge_new 2 8 8) :: memory_store edge_store"
  let ?run = "hook_run 9 copy_hook memory_secret_store [CSet ''a'' ''1'', CRemove ''a''] ?st []"
  obtain rs st1 w1 where run: "?run = Some (rs, st1, w1)"
    using copy_hook_run by (cases ?run) auto
  have "edge_inv ?st" "onChange ?st" "events ?st = []" "\<forall>b. backend ?st = Some b \<longrightarrow> mem_inv b"
    by (simp_all add: edge_inv_def edge_new_def setOnChange_def)
  from hook_follows_store [OF rmem.reliable_store_axioms run this] run show ?thesis
    by blast
qed

section \<open>What a hook must not do\<close>

text \<open>Two entries expire together.  A hook that writes the second when it hears of the first loses
  the write: the loop of \<open>evictExpired\<close> still erases the entry, though it is durable by then, and
  leaves the backend alone.  The value is gone from RAM and comes back with the next restart.\<close>

definition expired_pair :: "memory_store edge_store" where
  "expired_pair = (edge_new 4 8 8)\<lparr>
     edata := [(''a'', ''1''), (''b'', ''2'')], expiry := [(''a'', 5), (''b'', 5)],
     backend := Some mem_empty, onChange := True, clock := Some (\<lambda>_. 9)\<rparr>"

definition renewing_hook :: "unit hook" where
  "renewing_hook key removed rs w =
     (if removed \<and> key = ''a'' \<and> rs = [] then (Some (CSet ''b'' ''new''), w) else (None, w))"

lemma eviction_loses_write:
  "map_option (\<lambda>(r, st, w). (r, edata st, events st,
       map_option (\<lambda>b. edata (setPersistence memory_secret_store (Some b) (edge_new 4 8 8))) (backend st)))
     (hook_call 9 renewing_hook memory_secret_store (CGet ''b'') expired_pair ()) =
   Some (RValue (Inl NotFound), [], [(''a'', True), (''b'', True), (''b'', False), (''b'', True)],
     Some [(''b'', ''new'')])"
  by code_simp

text \<open>A hook that only reads hears of the second entry twice.\<close>

definition reading_hook :: "store_reply list hook" where
  "reading_hook key removed rs w = (if rs = [] then (Some (CGet ''b''), w) else (None, w @ rs))"

lemma eviction_reported_twice:
  "map_option (\<lambda>(r, st, w). (r, edata st, events st, length w))
     (hook_call 9 reading_hook memory_secret_store (CGet ''a'') expired_pair []) =
   Some (RValue (Inl NotFound), [], [(''a'', True), (''b'', True), (''b'', True)], 3)"
  by code_simp

end
