(* ===== verification/Edge_Hook_Returns.thy ===== *)
theory Edge_Hook_Returns
  imports Edge_Hooks
begin

text \<open>
  Change hooks that only read and remove: every operation of the store returns, however the hook's
  calls nest (mcp/EdgeStore.cpp).  Every nested run of the hook is caused by an entry that was erased,
  so the entries bound the nesting; more fuel never changes a result.
\<close>

section \<open>More fuel\<close>

declare hook_call.simps(2) [simp del] evict_loop.simps(3) [simp del] hook_body.simps(2) [simp del]

lemma hook_call_rest:
  assumes "answer_at_once c st = None" "find_dead st = (dead, st0)"
    "evict_loop n h ops dead st0 w = Some (st1, w1)" "call_rest ops c st1 = (r, st2, ev)"
  shows "hook_call (Suc n) h ops c st w =
    (if ev = None \<or> \<not> onChange st2 then Some (r, st2, w1)
     else map_option (\<lambda>(st3, w3). (r, st3, w3))
       (hook_body n h ops (fst (the ev)) (snd (the ev)) [] (told ev st2) w1))"
  using assms by (cases ev) (auto simp: hook_call.simps(2) told_def)

lemma evict_loop_Cons:
  "evict_loop (Suc n) h ops (key # dead) st w =
     (if onChange st then
        (case hook_body n h ops key True [] (evict_one key st) w of
           None \<Rightarrow> None | Some (st1, w1) \<Rightarrow> evict_loop n h ops dead st1 w1)
      else evict_loop n h ops dead (evict_one key st) w)"
  by (simp add: evict_loop.simps(3) evict_one_notify erase_entry_def notify_def Let_def)

lemma hooked_Suc:
  "hook_call n h ops c st w = Some (r, st1, w1) \<Longrightarrow> hook_call (Suc n) h ops c st w = Some (r, st1, w1)"
  "evict_loop n h ops dead st w = Some (st2, w2) \<Longrightarrow> evict_loop (Suc n) h ops dead st w = Some (st2, w2)"
  "hook_body n h ops key removed rs st w = Some (st3, w3) \<Longrightarrow>
     hook_body (Suc n) h ops key removed rs st w = Some (st3, w3)"
proof (induction n h ops c st w and n h ops dead st w and n h ops key removed rs st w
    arbitrary: r st1 w1 and st2 w2 and st3 w3 rule: hook_induct)
  case (2 n h ops c st w)
  from \<open>hook_call (Suc n) h ops c st w = Some (r, st1, w1)\<close> show ?case
  proof (cases rule: hook_call_SucE)
    case at_once
    then show ?thesis
      by (simp add: hook_call.simps(2))
  next
    case (rest dead st0 sta wa stb ev)
    have loop: "evict_loop (Suc n) h ops dead st0 w = Some (sta, wa)"
      using 2(1) rest(1,2,3) by metis
    show ?thesis
    proof (cases "ev = None \<or> \<not> onChange stb")
      case True
      then show ?thesis
        using rest(5) told_quiet [OF True] by (auto simp: hook_call_rest [OF rest(1,2) loop rest(4)])
    next
      case False
      then obtain key removed where ev: "ev = Some (key, removed)" "onChange stb"
        "hook_body n h ops key removed [] (told ev stb) wa = Some (st1, w1)"
        using rest(5) by auto
      have "hook_body (Suc n) h ops key removed [] (told ev stb) wa = Some (st1, w1)"
        using ev rest 2(2) by (simp add: told_def)
      then show ?thesis
        using ev by (simp add: hook_call_rest [OF rest(1,2) loop rest(4)])
    qed
  qed
next
  case (5 n h ops key dead st w)
  from \<open>evict_loop (Suc n) h ops (key # dead) st w = Some (st2, w2)\<close> show ?case
  proof (cases rule: evict_loop_ConsE)
    case quiet
    then show ?thesis
      using 5 by (subst evict_loop_Cons) (simp add: evict_one_notify erase_entry_def notify_def Let_def)
  next
    case (loud sta wa)
    then show ?thesis
      using 5 by (subst evict_loop_Cons) (simp add: evict_one_notify erase_entry_def notify_def Let_def)
  qed
next
  case (7 n h ops key removed rs st w)
  from \<open>hook_body (Suc n) h ops key removed rs st w = Some (st3, w3)\<close> show ?case
  proof (cases rule: hook_body_SucE)
    case returns
    then show ?thesis
      by (subst hook_body.simps(2)) simp
  next
    case (calls c wa r sta wb)
    then show ?thesis
      using 7 by (subst hook_body.simps(2)) simp
  qed
qed simp_all

lemma hooked_more:
  assumes "n \<le> m"
  shows "hook_call n h ops c st w = Some (r, st1, w1) \<Longrightarrow> hook_call m h ops c st w = Some (r, st1, w1)"
    and "evict_loop n h ops dead st w = Some (st2, w2) \<Longrightarrow> evict_loop m h ops dead st w = Some (st2, w2)"
    and "hook_body n h ops key removed rs st w = Some (st3, w3) \<Longrightarrow>
      hook_body m h ops key removed rs st w = Some (st3, w3)"
  using assms by (induction m rule: dec_induct) (simp_all add: hooked_Suc)

section \<open>Hooks that never write\<close>

fun not_writing :: "store_call \<Rightarrow> bool" where
  "not_writing (CSet key value) = False"
| "not_writing (CSetTtl key value ttlMs) = False"
| "not_writing _ = True"

text \<open>A run of the hook makes finitely many calls.\<close>

definition ends_within :: "nat \<Rightarrow> 'w hook \<Rightarrow> bool" where
  "ends_within b h \<longleftrightarrow> (\<forall>key removed rs w. b \<le> length rs \<longrightarrow> fst (h key removed rs w) = None)"

lemma not_writing_rest:
  assumes "not_writing c" "edge_inv st" "call_rest ops c st = (r, st1, ev)"
  shows "ev = None \<and> st1 = st \<or>
    edge_inv (told ev st1) \<and> length (edata (told ev st1)) < length (edata st)"
proof (cases c)
  case (CRemove key)
  have "edge_inv (told ev st1)"
    using call_rest_inv [OF assms(2,3)] by simp
  moreover have "length (edata (told ev st1)) < length (edata st)" if "ev \<noteq> None"
  proof -
    have "ev = Some (key, True)" "edata st1 = smap_erase key (edata st)"
      "smap_find (edata st) key \<noteq> None"
      using assms(3) that CRemove
      by (auto simp: remove_rest_def erase_entry_def Let_def split: if_splits option.splits)
    then show ?thesis
      using length_smap_erase_less [of "edata st" key] by (simp add: told_def)
  qed
  ultimately show ?thesis
    using assms(3) CRemove by (auto simp: remove_rest_def Let_def split: if_splits)
qed (use assms in \<open>auto simp: get_rest_def\<close>)

interpretation shrinking: hook_invariant ops not_writing "\<lambda>st. edge_inv st \<and> length (edata st) \<le> l" for ops l
proof unfold_locales
  fix st :: "'a edge_store" and t key
  show "edge_inv st \<and> length (edata st) \<le> l \<Longrightarrow>
      edge_inv (st\<lparr>ticks := t\<rparr>) \<and> length (edata (st\<lparr>ticks := t\<rparr>)) \<le> l"
    by simp
  show "edge_inv st \<and> length (edata st) \<le> l \<Longrightarrow>
      edge_inv (evict_one key st) \<and> length (edata (evict_one key st)) \<le> l"
    using length_smap_erase [of key "edata st"] by (simp add: edge_inv_evict_one)
next
  fix c and st st1 :: "'a edge_store" and r ev
  assume "not_writing c" "edge_inv st \<and> length (edata st) \<le> l" "call_rest ops c st = (r, st1, ev)"
  then show "edge_inv (told ev st1) \<and> length (edata (told ev st1)) \<le> l"
    using not_writing_rest [of c st ops r st1 ev] by (auto simp: told_def)
qed

text \<open>Below a store where every call returns, the hook and the eviction loop return.\<close>

definition calls_return :: "'w hook \<Rightarrow> 's secret_ops \<Rightarrow> nat \<Rightarrow> bool" where
  "calls_return h ops l \<longleftrightarrow>
     (\<forall>c st w. not_writing c \<longrightarrow> edge_inv st \<longrightarrow> length (edata st) \<le> l \<longrightarrow>
        (\<exists>n r st1 w1. hook_call n h ops c st w = Some (r, st1, w1)))"

lemma hook_body_returns:
  assumes "calls_return h ops l" "calls_only not_writing h" "ends_within b h"
    and "edge_inv st" "length (edata st) \<le> l"
  shows "\<exists>n st1 w1. hook_body n h ops key removed rs st w = Some (st1, w1)"
  using assms(4,5)
proof (induction "b - length rs" arbitrary: rs st w rule: less_induct)
  case less
  show ?case
  proof (cases "h key removed rs w")
    case (Pair next_call w1)
    show ?thesis
    proof (cases next_call)
      case None
      then have "hook_body (Suc 0) h ops key removed rs st w = Some (st, w1)"
        using Pair by (simp add: hook_body.simps(2))
      then show ?thesis
        by blast
    next
      case (Some c)
      have c: "not_writing c"
        using calls_onlyD [OF assms(2)] Pair Some by simp
      have "fst (h key removed rs w) = Some c"
        using Pair Some by simp
      then have short: "length rs < b"
        using assms(3) unfolding ends_within_def by (metis not_le option.distinct(1))
      obtain n r st1 w2 where n: "hook_call n h ops c st w1 = Some (r, st1, w2)"
        using assms(1) c less.prems unfolding calls_return_def by blast
      have "edge_inv st1" "length (edata st1) \<le> l"
        using shrinking.hooked_keep(1) [OF n refl assms(2) c, of l] less.prems by simp_all
      with less.hyps [of "rs @ [r]"] short obtain m st2 w3 where
        m: "hook_body m h ops key removed (rs @ [r]) st1 w2 = Some (st2, w3)"
        by fastforce
      have "hook_body (Suc (n + m)) h ops key removed rs st w = Some (st2, w3)"
        using Pair Some hooked_more(1) [OF _ n, of "n + m"] hooked_more(3) [OF _ m, of "n + m"]
        by (simp add: hook_body.simps(2))
      then show ?thesis
        by blast
    qed
  qed
qed

lemma evict_loop_step:
  assumes "calls_return h ops l" "calls_only not_writing h" "ends_within b h"
    and small: "edge_inv (evict_one key st)" "length (edata (evict_one key st)) \<le> l"
    and rest: "\<And>st w. edge_inv st \<Longrightarrow> length (edata st) \<le> l \<Longrightarrow>
      \<exists>n st1 w1. evict_loop n h ops dead st w = Some (st1, w1)"
  shows "\<exists>n st1 w1. evict_loop n h ops (key # dead) st w = Some (st1, w1)"
proof (cases "onChange st")
  case False
  obtain n st1 w1 where "evict_loop n h ops dead (evict_one key st) w = Some (st1, w1)"
    using rest [OF small] by blast
  then have "evict_loop (Suc n) h ops (key # dead) st w = Some (st1, w1)"
    using False by (simp add: evict_loop_Cons)
  then show ?thesis
    by blast
next
  case True
  obtain m st1 w1 where m: "hook_body m h ops key True [] (evict_one key st) w = Some (st1, w1)"
    using hook_body_returns [OF assms(1-3) small] by blast
  have "edge_inv st1" "length (edata st1) \<le> l"
    using shrinking.hooked_keep(3) [OF m refl assms(2), of l] small by simp_all
  then obtain n st2 w2 where n: "evict_loop n h ops dead st1 w1 = Some (st2, w2)"
    using rest by blast
  have "evict_loop (Suc (m + n)) h ops (key # dead) st w = Some (st2, w2)"
    using True hooked_more(3) [OF _ m, of "m + n"] hooked_more(2) [OF _ n, of "m + n"]
    by (simp add: evict_loop_Cons)
  then show ?thesis
    by blast
qed

lemma evict_loop_returns:
  assumes "calls_return h ops l" "calls_only not_writing h" "ends_within b h"
    and "edge_inv st" "length (edata st) \<le> l"
  shows "\<exists>n st1 w1. evict_loop n h ops dead st w = Some (st1, w1)"
  using assms(4,5)
proof (induction dead arbitrary: st w)
  case (Cons key dead)
  then show ?case
    using edge_inv_evict_one [of st key] length_smap_erase [of key "edata st"]
    by (intro evict_loop_step [OF assms(1-3)]) simp_all
qed simp

text \<open>The dead entries are entries: the first erasure makes the store smaller.\<close>

lemma first_dead_stored:
  assumes "edge_inv st" "find_dead st = (key # dead, st0)"
  shows "smap_find (edata st) key \<noteq> None"
proof -
  obtain c where "key \<in> set (collect_dead c (ticks st) (expiry st))"
    using assms(2) by (auto simp: find_dead_def split: option.splits if_splits) (metis list.set_intros(1))
  then have "key \<in> dom (smap_find (expiry st))"
    using collect_dead_keys [of c "ticks st" "expiry st"] by (auto simp only: dom_smap)
  then show ?thesis
    using assms(1) by (auto simp: edge_inv_def)
qed

lemma eviction_returns:
  assumes "\<And>l'. l' < l \<Longrightarrow> calls_return h ops l'" "calls_only not_writing h" "ends_within b h"
    and "edge_inv st" "length (edata st) \<le> l" "find_dead st = (dead, st0)"
  shows "\<exists>n st1 w1. evict_loop n h ops dead st0 w = Some (st1, w1)"
proof (cases dead)
  case (Cons key rest)
  have "edge_inv st0" "edata st0 = edata st"
    using find_dead_simps(1,7) [of st] assms(4,6) by simp_all
  moreover from this have less_l: "length (edata (evict_one key st0)) < l"
    using first_dead_stored [OF assms(4) assms(6) [unfolded Cons]] assms(5)
      length_smap_erase_less [of "edata st" key] by simp
  ultimately show ?thesis
    unfolding Cons
    using evict_loop_returns [OF assms(1) [OF less_l] assms(2,3)] edge_inv_evict_one [of st0 key]
    by (intro evict_loop_step [OF assms(1) [OF less_l] assms(2,3)]) simp_all
qed simp

lemma smaller_calls_return:
  assumes "calls_only not_writing h" "ends_within b h"
  shows "calls_return h ops l"
proof (induction l rule: less_induct)
  case (less l)
  have call: "\<exists>n r st1 w1. hook_call n h ops c st w = Some (r, st1, w1)"
    if c: "not_writing c" and st: "edge_inv st" "length (edata st) \<le> l"
    for c :: store_call and st :: "'b edge_store" and w
  proof (cases "answer_at_once c st")
    case (Some p)
    then have "hook_call (Suc 0) h ops c st w = Some (fst p, snd p, w)"
      by (cases p) (simp add: hook_call.simps(2))
    then show ?thesis
      by blast
  next
    case None
    obtain dead st0 where d: "find_dead st = (dead, st0)"
      by fastforce
    have st0: "edge_inv st0" "edata st0 = edata st"
      using find_dead_simps(1,7) [of st] st(1) by (simp_all add: d)
    have "\<exists>n st1 w1. evict_loop n h ops dead st0 w = Some (st1, w1)"
      by (rule eviction_returns [OF less.IH assms st d])
    then obtain n st1 w1 where n: "evict_loop n h ops dead st0 w = Some (st1, w1)"
      by blast
    have st1: "edge_inv st1" "length (edata st1) \<le> l"
      using shrinking.hooked_keep(2) [OF n refl assms(1), of l] st0 st(2) by simp_all
    obtain r st2 ev where rest: "call_rest ops c st1 = (r, st2, ev)"
      using prod_cases3 by blast
    show ?thesis
    proof (cases "ev = None \<or> \<not> onChange st2")
      case True
      then have "hook_call (Suc n) h ops c st w = Some (r, st2, w1)"
        by (simp add: hook_call_rest [OF None d n rest])
      then show ?thesis
        by blast
    next
      case False
      then have told: "edge_inv (told ev st2)" "length (edata (told ev st2)) < l"
        using not_writing_rest [OF c st1(1) rest] st1(2) by auto
      obtain m st3 w3 where m: "hook_body m h ops (fst (the ev)) (snd (the ev)) [] (told ev st2) w1 = Some (st3, w3)"
        using hook_body_returns [OF less.IH [OF told(2)] assms told(1) order_refl] by blast
      have "hook_call (Suc (n + m)) h ops c st w = Some (r, st3, w3)"
        using False hook_call_rest [OF None d hooked_more(2) [OF _ n] rest, of "n + m"]
          hooked_more(3) [OF _ m, of "n + m"] by auto
      then show ?thesis
        by blast
    qed
  qed
  then show ?case
    unfolding calls_return_def by blast
qed

text \<open>C14: with a change hook that only reads and removes, in any number of calls up to some bound,
  every read and removal of the store returns, however the evictions and the hook nest.\<close>

theorem reading_hooks_return:
  assumes "calls_only not_writing h" "ends_within b h" "not_writing c" "edge_inv st"
  shows "\<exists>n r st1 w1. hook_call n h ops c st w = Some (r, st1, w1)"
  using smaller_calls_return [OF assms(1,2), of ops "length (edata st)"] assms(3,4)
  unfolding calls_return_def by blast

theorem reading_hooks_return_witness:
  "\<exists>n r st1 w1. hook_call n reading_hook memory_secret_store (CGet ''a'') expired_pair [] = Some (r, st1, w1)"
proof (rule reading_hooks_return [where b = 1])
  show "calls_only not_writing reading_hook"
    by (simp add: calls_only_def reading_hook_def)
  show "ends_within 1 reading_hook"
    by (auto simp: ends_within_def reading_hook_def)
  show "edge_inv expired_pair"
    by (simp add: edge_inv_def expired_pair_def edge_new_def smap_ok_def key_ok_def kManifestKey_def)
qed simp

section \<open>A hook that writes\<close>

text \<open>A hook that answers every change with a write of the same entry: each write runs it again, so no
  fuel is enough and the program's stack is not either.\<close>

definition echo_hook :: "unit hook" where
  "echo_hook key removed rs w = (Some (CSet key ''x''), w)"

definition accepts :: "string \<Rightarrow> 's edge_store \<Rightarrow> bool" where
  "accepts key st \<longleftrightarrow>
     backend st = None \<and> clock st = None \<and> onChange st \<and> smap_ok (edata st) \<and> key_ok st key \<and>
     0 < maxValueLen st \<and> (smap_find (edata st) key = None \<longrightarrow> length (edata st) < maxKeys st)"

lemma accepted_set:
  assumes "accepts key st" "length v \<le> maxValueLen st"
  obtains st1 where "set_rest ops key v st = (RStatus Ok, st1, Some (key, False))"
    "accepts key (told (Some (key, False)) st1)" "onChange st1"
proof -
  let ?st = "st\<lparr>edata := smap_insert key v (edata st)\<rparr>"
  have "validateAndStore key v st = (Ok, ?st)"
    using assms by (auto simp: accepts_def validateAndStore_def key_ok_def)
  then have set: "set_rest ops key v st =
      (RStatus Ok, ?st\<lparr>expiry := smap_erase key (expiry ?st)\<rparr>, Some (key, False))"
    using assms(1) by (simp add: set_rest_def accepts_def)
  show thesis
    by (rule that [OF set]) (use assms(1) in \<open>auto simp: accepts_def told_def map_simps key_ok_def\<close>)
qed

lemma echo_hook_never_returns:
  assumes "accepts key st" "length v \<le> maxValueLen st"
  shows "hook_call n echo_hook ops (CSet key v) st w = None"
  using assms
proof (induction n arbitrary: st v w rule: less_induct)
  case (less n)
  obtain st1 where st1: "set_rest ops key v st = (RStatus Ok, st1, Some (key, False))"
    "accepts key (told (Some (key, False)) st1)" "onChange st1"
    using accepted_set [OF less.prems] by metis
  have "hook_body m echo_hook ops key False [] (told (Some (key, False)) st1) w = None" if "m < n" for m
  proof (cases m)
    case (Suc m')
    have "length ''x'' \<le> maxValueLen (told (Some (key, False)) st1)"
      using st1(2) by (simp add: accepts_def)
    with less.IH [of m' "told (Some (key, False)) st1" "''x''" w] that Suc st1(2)
    have "hook_call m' echo_hook ops (CSet key ''x'') (told (Some (key, False)) st1) w = None"
      by simp
    moreover have "echo_hook key False [] w = (Some (CSet key ''x''), w)"
      by (simp add: echo_hook_def)
    ultimately show ?thesis
      by (simp add: hook_body.simps(2) Suc)
  qed simp
  moreover have "find_dead st = ([], st)"
    using less.prems(1) by (simp add: find_dead_def accepts_def)
  ultimately show ?case
    using st1(1,3) by (cases n) (simp_all add: hook_call_rest [OF _ _ evict_loop.simps(1)])
qed

end
