(* ===== verification/Url_Guard.thy ===== *)
theory Url_Guard
  imports Edge_Prelude
begin

text \<open>
  The SSRF guard, tools/UrlGuard.{h,cpp}.  Proved: the host of a URL assembled from a scheme, an
  optional user part, a host, an optional port and a path is that host; a dotted quad is blocked
  exactly when it lies in one of the reserved CIDR blocks, which are listed here independently of
  the code; so a URL whose host is such a quad is refused with or without a user part, a port and a
  path.  Spellings the guard does not see are shown by evaluation.
\<close>

section \<open>Definitions\<close>

definition toLower :: "string \<Rightarrow> string" where
  "toLower s = map asciiLower s"

definition parse_octet :: "string \<Rightarrow> nat option" where
  "parse_octet part =
     (if part = [] \<or> 3 < length part then None
      else if \<not> (\<forall>c\<in>set part. is_digit c) then None
      else (let value = parse_digits 0 part in if 255 < value then None else Some value))"

text \<open>The loop of \<open>parseIpv4\<close>: \<open>n\<close> octets are still to come.\<close>

fun ipv4_octets :: "nat \<Rightarrow> string \<Rightarrow> nat list option" where
  "ipv4_octets 0 s = Some []"
| "ipv4_octets (Suc 0) s =
     (if CHR ''.'' \<in> set s then None else map_option (\<lambda>v. [v]) (parse_octet s))"
| "ipv4_octets (Suc (Suc n)) s =
     (case find_char_idx (CHR ''.'') s of
        None \<Rightarrow> None
      | Some dot \<Rightarrow>
          (case parse_octet (take dot s) of
             None \<Rightarrow> None
           | Some v \<Rightarrow> map_option ((#) v) (ipv4_octets (Suc n) (drop (dot + 1) s))))"

definition parseIpv4 :: "string \<Rightarrow> nat list option" where
  "parseIpv4 host = ipv4_octets 4 host"

definition authority_end :: "char \<Rightarrow> bool" where
  "authority_end c \<longleftrightarrow> c = CHR ''/'' \<or> c = CHR ''?'' \<or> c = CHR ''#''"

definition hostFromUrl :: "string \<Rightarrow> string" where
  "hostFromUrl url =
     (let start = (case str_find url ''://'' 0 of None \<Rightarrow> 0 | Some scheme \<Rightarrow> scheme + 3);
          authority0 = takeWhile (\<lambda>c. \<not> authority_end c) (drop start url);
          authority = (case find_char_idx (CHR ''@'') authority0 of
                         None \<Rightarrow> authority0
                       | Some at \<Rightarrow> drop (at + 1) authority0)
      in if authority \<noteq> [] \<and> authority ! 0 = CHR ''[''
         then (case find_char_idx (CHR '']'') authority of
                 None \<Rightarrow> authority
               | Some close \<Rightarrow> take (close + 1) authority)
         else (case find_char_idx (CHR '':'') authority of
                 None \<Rightarrow> authority
               | Some colon \<Rightarrow> take colon authority))"

definition blocked_ipv4 :: "nat list \<Rightarrow> bool" where
  "blocked_ipv4 ob \<longleftrightarrow>
     ob ! 0 = 127 \<or> ob ! 0 = 10 \<or>
     (ob ! 0 = 172 \<and> 16 \<le> ob ! 1 \<and> ob ! 1 \<le> 31) \<or>
     (ob ! 0 = 192 \<and> ob ! 1 = 168) \<or>
     (ob ! 0 = 169 \<and> ob ! 1 = 254) \<or>
     ob ! 0 = 0 \<or>
     (ob ! 0 = 100 \<and> 64 \<le> ob ! 1 \<and> ob ! 1 \<le> 127)"

definition blocked_ipv6 :: "string \<Rightarrow> bool" where
  "blocked_ipv6 host \<longleftrightarrow>
     host = ''::1'' \<or> host = ''[::1]'' \<or>
     (let h = (if host \<noteq> [] \<and> host ! 0 = CHR ''['' then drop 1 host else host)
      in take 4 h = ''fe80'' \<or>
         (h \<noteq> [] \<and> h ! 0 = CHR ''f'' \<and> 1 < length h \<and> (h ! 1 = CHR ''c'' \<or> h ! 1 = CHR ''d'')))"

definition isBlockedHost :: "string \<Rightarrow> bool" where
  "isBlockedHost hostIn =
     (if hostIn = [] then True
      else
        (let host = toLower hostIn
         in if host = ''localhost'' \<or> host = ''metadata.google.internal'' then True
            else if 6 \<le> length host \<and> drop (length host - 6) host = ''.local'' then True
            else
              (case parseIpv4 host of
                 Some ob \<Rightarrow> blocked_ipv4 ob
               | None \<Rightarrow> if CHR '':'' \<in> set host then blocked_ipv6 host else False)))"

definition isUrlAllowed :: "string \<Rightarrow> bool" where
  "isUrlAllowed url =
     (let lower = toLower url;
          http = (take 7 lower = ''http://'');
          https = (take 8 lower = ''https://'')
      in if \<not> http \<and> \<not> https then False else \<not> isBlockedHost (hostFromUrl url))"

section \<open>Dotted quads\<close>

definition dotted_quad :: "nat \<Rightarrow> nat \<Rightarrow> nat \<Rightarrow> nat \<Rightarrow> string" where
  "dotted_quad a b c d =
     toDecimal a @ ''.'' @ toDecimal b @ ''.'' @ toDecimal c @ ''.'' @ toDecimal d"

lemma length_decimal_digits: "v < 10 ^ n \<Longrightarrow> length (decimal_digits v acc) \<le> n + length acc"
proof (induction n arbitrary: v acc)
  case 0
  then show ?case by (simp add: decimal_digits.simps)
next
  case (Suc n)
  then have "v div 10 < 10 ^ n" by (simp add: less_mult_imp_div_less)
  from Suc.IH [OF this, of "digit_char (v mod 10) # acc"] show ?case
    by (simp add: decimal_digits.simps [of v])
qed

lemma parse_octet_toDecimal: "v < 256 \<Longrightarrow> parse_octet (toDecimal v) = Some v"
proof -
  assume v: "v < 256"
  have "length (toDecimal v) \<le> 3"
    using length_decimal_digits [of v 3 "[]"] v by (simp add: toDecimal_def)
  then show ?thesis
    using v toDecimal_digits [of v] by (simp add: parse_octet_def parse_toDecimal Let_def)
qed

lemma digit_not_special: "is_digit c \<Longrightarrow> c \<noteq> CHR ''.'' \<and> c \<noteq> CHR '':'' \<and> \<not> is_upper c"
  by (auto simp: is_digit_def is_upper_def char_code_def)

lemma toDecimal_no_dot: "CHR ''.'' \<notin> set (toDecimal v)"
  using toDecimal_digits digit_not_special by blast

lemma ipv4_octets_step:
  "v < 256 \<Longrightarrow> ipv4_octets (Suc (Suc n)) (toDecimal v @ CHR ''.'' # rest) =
     map_option ((#) v) (ipv4_octets (Suc n) rest)"
  by (simp add: find_char_idx_append toDecimal_no_dot parse_octet_toDecimal)

lemma parseIpv4_dotted:
  "a < 256 \<Longrightarrow> b < 256 \<Longrightarrow> c < 256 \<Longrightarrow> d < 256 \<Longrightarrow>
     parseIpv4 (dotted_quad a b c d) = Some [a, b, c, d]"
  by (simp add: parseIpv4_def dotted_quad_def eval_nat_numeral ipv4_octets_step
      toDecimal_no_dot parse_octet_toDecimal del: ipv4_octets.simps(3))

lemma toLower_digits: "\<forall>c\<in>set s. is_digit c \<or> c = CHR ''.'' \<Longrightarrow> toLower s = s"
proof -
  assume *: "\<forall>c\<in>set s. is_digit c \<or> c = CHR ''.''"
  have "asciiLower c = c" if "is_digit c \<or> c = CHR ''.''" for c
    using that by (auto simp: asciiLower_def is_digit_def is_upper_def char_code_def)
  with * show ?thesis by (simp add: toLower_def map_idI)
qed

lemma dotted_quad_chars: "\<forall>c\<in>set (dotted_quad w x y z). is_digit c \<or> c = CHR ''.''"
  using toDecimal_digits by (auto simp: dotted_quad_def)

lemma last_dotted: "is_digit (last (dotted_quad a b c d))"
  using toDecimal_digits [of d] by (simp add: dotted_quad_def)

lemma dotted_not_name:
  "dotted_quad a b c d \<noteq> ''localhost''" "dotted_quad a b c d \<noteq> ''metadata.google.internal''"
  "6 \<le> length (dotted_quad a b c d) \<Longrightarrow>
     drop (length (dotted_quad a b c d) - 6) (dotted_quad a b c d) \<noteq> ''.local''"
proof -
  let ?q = "dotted_quad a b c d"
  have ne: "?q \<noteq> []" by (simp add: dotted_quad_def)
  have l: "\<not> is_digit (CHR ''t'')" "\<not> is_digit (CHR ''l'')" by (simp_all add: is_digit_def char_code_def)
  show "?q \<noteq> ''localhost''" "?q \<noteq> ''metadata.google.internal''" using last_dotted [of a b c d] l by auto
  assume "6 \<le> length ?q"
  then have "last (drop (length ?q - 6) ?q) = last ?q" by (simp add: ne last_drop)
  then show "drop (length ?q - 6) ?q \<noteq> ''.local''" using last_dotted [of a b c d] l by auto
qed

lemma isBlockedHost_dotted:
  assumes "a < 256" "b < 256" "c < 256" "d < 256"
  shows "isBlockedHost (dotted_quad a b c d) \<longleftrightarrow> blocked_ipv4 [a, b, c, d]"
proof -
  have "dotted_quad a b c d \<noteq> []" by (simp add: dotted_quad_def)
  then show ?thesis
    unfolding isBlockedHost_def Let_def toLower_digits [OF dotted_quad_chars]
      parseIpv4_dotted [OF assms]
    using dotted_not_name [of a b c d] by auto
qed

section \<open>Hosts of URLs\<close>

lemma str_find_scheme:
  assumes "CHR '':'' \<notin> set scheme"
  shows "str_find (scheme @ ''://'' @ rest) ''://'' 0 = Some (length scheme)"
proof -
  have "find_idx ''://'' (scheme @ ''://'' @ rest) = Some (length scheme)"
    using assms by (induction scheme) auto
  then show ?thesis by (simp add: str_find_def)
qed

text \<open>\<open>user\<close> is \<open>[]\<close> or ends in \<open>@\<close>; \<open>port\<close> is \<open>[]\<close> or starts with a colon.\<close>

definition plain_host :: "string \<Rightarrow> bool" where
  "plain_host h \<longleftrightarrow>
     (\<forall>c\<in>set h. \<not> authority_end c \<and> c \<noteq> CHR ''@'' \<and> c \<noteq> CHR '':'' \<and> c \<noteq> CHR ''['')"

definition url_of :: "string \<Rightarrow> string option \<Rightarrow> string \<Rightarrow> string option \<Rightarrow> string \<Rightarrow> string" where
  "url_of scheme user host port path =
     scheme @ ''://'' @ (case user of None \<Rightarrow> [] | Some u \<Rightarrow> u @ ''@'') @ host @
     (case port of None \<Rightarrow> [] | Some p \<Rightarrow> CHR '':'' # p) @ path"

definition url_parts_ok :: "string \<Rightarrow> string option \<Rightarrow> string option \<Rightarrow> string \<Rightarrow> bool" where
  "url_parts_ok scheme user port path \<longleftrightarrow>
     CHR '':'' \<notin> set scheme \<and>
     (case user of None \<Rightarrow> True | Some u \<Rightarrow> \<forall>c\<in>set u. \<not> authority_end c \<and> c \<noteq> CHR ''@'') \<and>
     (case port of None \<Rightarrow> True | Some p \<Rightarrow> \<forall>c\<in>set p. is_digit c) \<and>
     (path = [] \<or> authority_end (hd path))"

lemma takeWhile_authority:
  "\<forall>c\<in>set s. \<not> authority_end c \<Longrightarrow> path = [] \<or> authority_end (hd path) \<Longrightarrow>
     takeWhile (\<lambda>c. \<not> authority_end c) (s @ path) = s"
  by (cases path) (auto simp: takeWhile_append2)

lemma hostFromUrl_url_of:
  assumes host: "plain_host host" and parts: "url_parts_ok scheme user port path"
  shows "hostFromUrl (url_of scheme user host port path) = host"
proof -
  let ?u = "case user of None \<Rightarrow> [] | Some u \<Rightarrow> u @ ''@''"
  let ?p = "case port of None \<Rightarrow> [] | Some p \<Rightarrow> CHR '':'' # p"
  let ?auth = "?u @ host @ ?p"
  have digits: "is_digit c \<Longrightarrow> \<not> authority_end c \<and> c \<noteq> CHR ''@''" for c
    by (auto simp: is_digit_def authority_end_def char_code_def)
  have pchars: "\<forall>c\<in>set ?p. \<not> authority_end c \<and> c \<noteq> CHR ''@''"
  proof (cases port)
    case (Some p)
    then have "\<forall>c\<in>set p. is_digit c" using parts by (simp add: url_parts_ok_def)
    moreover have "\<not> authority_end (CHR '':'')" by (simp add: authority_end_def)
    ultimately show ?thesis using Some digits by auto
  qed simp
  have uchars: "\<forall>c\<in>set ?u. \<not> authority_end c"
  proof (cases user)
    case (Some u)
    then have "\<forall>c\<in>set u. \<not> authority_end c" using parts by (simp add: url_parts_ok_def)
    moreover have "\<not> authority_end (CHR ''@'')" by (simp add: authority_end_def)
    ultimately show ?thesis using Some by auto
  qed simp
  have hchars: "\<forall>c\<in>set host. \<not> authority_end c" using host by (simp add: plain_host_def)
  have "\<forall>c\<in>set ?auth. \<not> authority_end c"
    unfolding set_append ball_Un using uchars hchars pchars by blast
  then have tw: "takeWhile (\<lambda>c. \<not> authority_end c) (?auth @ path) = ?auth"
    using parts by (intro takeWhile_authority) (simp_all add: url_parts_ok_def)
  have strip: "(case find_char_idx (CHR ''@'') ?auth of None \<Rightarrow> ?auth | Some at \<Rightarrow> drop (at + 1) ?auth)
      = host @ ?p"
  proof (cases user)
    case None
    then have "find_char_idx (CHR ''@'') ?auth = None"
      using host pchars by (auto simp: find_char_idx_None plain_host_def)
    with None show ?thesis by simp
  next
    case (Some u)
    with parts have "CHR ''@'' \<notin> set u" by (auto simp: url_parts_ok_def)
    from find_char_idx_append [OF this, of "host @ ?p"] Some show ?thesis by simp
  qed
  have colon: "(case find_char_idx (CHR '':'') (host @ ?p) of None \<Rightarrow> host @ ?p
      | Some n \<Rightarrow> take n (host @ ?p)) = host"
  proof (cases port)
    case None
    then have "find_char_idx (CHR '':'') (host @ ?p) = None"
      using host by (auto simp: find_char_idx_None plain_host_def)
    with None show ?thesis by simp
  next
    case (Some p)
    have "CHR '':'' \<notin> set host" using host by (auto simp: plain_host_def)
    from find_char_idx_append [OF this, of p] Some show ?thesis by simp
  qed
  have nobr: "\<not> (host @ ?p \<noteq> [] \<and> (host @ ?p) ! 0 = CHR ''['')"
    using host by (cases host) (auto simp: plain_host_def split: option.split)
  have "drop (length scheme + 3) (url_of scheme user host port path) = ?auth @ path"
    by (simp add: url_of_def)
  moreover have "str_find (url_of scheme user host port path) ''://'' 0 = Some (length scheme)"
    using str_find_scheme parts by (simp add: url_of_def url_parts_ok_def)
  ultimately show ?thesis
    unfolding hostFromUrl_def Let_def by (simp only: option.case tw strip nobr colon if_False)
qed

lemma isUrlAllowed_url_of:
  assumes "toLower scheme = ''http'' \<or> toLower scheme = ''https''"
  shows "isUrlAllowed (url_of scheme user host port path) \<longleftrightarrow>
    \<not> isBlockedHost (hostFromUrl (url_of scheme user host port path))"
proof -
  have "toLower (scheme @ ''://'' @ r) = toLower scheme @ ''://'' @ toLower r" for r
    by (simp add: toLower_def asciiLower_def is_upper_def char_code_def)
  then have "take 7 (toLower (url_of scheme user host port path)) = ''http://'' \<or>
      take 8 (toLower (url_of scheme user host port path)) = ''https://''"
    using assms by (auto simp: url_of_def)
  then show ?thesis by (auto simp: isUrlAllowed_def Let_def)
qed

lemma plain_host_dotted: "plain_host (dotted_quad a b c d)"
  using dotted_quad_chars [of a b c d]
  by (fastforce simp: plain_host_def is_digit_def authority_end_def char_code_def)

section \<open>Properties\<close>

text \<open>The reserved IPv4 blocks, written down independently of the code as network and prefix
  length (RFC 6890): this network, the three private blocks, carrier-grade NAT, loopback and
  link-local (which holds the cloud metadata address).\<close>

definition quad_addr :: "nat \<Rightarrow> nat \<Rightarrow> nat \<Rightarrow> nat \<Rightarrow> 32 word" where
  "quad_addr a b c d = word_of_nat (((a * 256 + b) * 256 + c) * 256 + d)"

definition in_network :: "32 word \<times> nat \<Rightarrow> 32 word \<Rightarrow> bool" where
  "in_network nw x \<longleftrightarrow> drop_bit (32 - snd nw) x = drop_bit (32 - snd nw) (fst nw)"

definition reserved_networks :: "(32 word \<times> nat) list" where
  "reserved_networks =
     [(quad_addr 0 0 0 0, 8), (quad_addr 10 0 0 0, 8), (quad_addr 100 64 0 0, 10),
      (quad_addr 127 0 0 0, 8), (quad_addr 169 254 0 0, 16), (quad_addr 172 16 0 0, 12),
      (quad_addr 192 168 0 0, 16)]"

lemma quad_bound:
  assumes "a < 256" "b < 256" "c < 256" "d < 256"
  shows "((a * 256 + b) * 256 + c) * 256 + d < (2 ^ 32 :: nat)"
  using assms by simp

lemma unat_drop_of_nat:
  assumes "n < 2 ^ 32"
  shows "unat (drop_bit k (word_of_nat n :: 32 word)) = n div 2 ^ k"
proof -
  have "unat (word_of_nat n :: 32 word) = n"
    by (simp only: unsigned_of_nat) (use assms in \<open>simp add: take_bit_nat_eq_self\<close>)
  moreover have "unat (drop_bit k w) = unat w div 2 ^ k" for w :: "32 word"
    by (simp only: unat_drop_bit_eq) (rule drop_bit_eq_div)
  ultimately show ?thesis by (simp only:)
qed

lemma unat_drop_quad:
  assumes "a < 256" "b < 256" "c < 256" "d < 256"
  shows "unat (drop_bit k (quad_addr a b c d)) = (((a * 256 + b) * 256 + c) * 256 + d) div 2 ^ k"
  unfolding quad_addr_def by (rule unat_drop_of_nat [OF quad_bound [OF assms]])

text \<open>What a prefix of each length in use keeps of the four octets.\<close>

lemma quad_prefix:
  fixes a b c d :: nat
  assumes "b < 256" "c < 256" "d < 256"
  shows "(((a * 256 + b) * 256 + c) * 256 + d) div 2 ^ 24 = a"
    "(((a * 256 + b) * 256 + c) * 256 + d) div 2 ^ 22 = 4 * a + b div 64"
    "(((a * 256 + b) * 256 + c) * 256 + d) div 2 ^ 20 = 16 * a + b div 16"
    "(((a * 256 + b) * 256 + c) * 256 + d) div 2 ^ 16 = 256 * a + b"
  using assms by simp_all

lemma in_network_quad:
  assumes "a < 256" "b < 256" "c < 256" "d < 256" "p < 256" "q < 256"
  shows "in_network (quad_addr p q 0 0, 8) (quad_addr a b c d) \<longleftrightarrow> a = p"
    and "in_network (quad_addr p q 0 0, 10) (quad_addr a b c d) \<longleftrightarrow>
      4 * a + b div 64 = 4 * p + q div 64"
    and "in_network (quad_addr p q 0 0, 12) (quad_addr a b c d) \<longleftrightarrow>
      16 * a + b div 16 = 16 * p + q div 16"
    and "in_network (quad_addr p q 0 0, 16) (quad_addr a b c d) \<longleftrightarrow> 256 * a + b = 256 * p + q"
proof -
  have z: "(0::nat) < 256" by simp
  have len: "(32::nat) - 8 = 24" "(32::nat) - 10 = 22" "(32::nat) - 12 = 20" "(32::nat) - 16 = 16"
    by simp_all
  note rules = in_network_def fst_conv snd_conv word_unat_eq_iff len unat_drop_quad [OF assms(1-4)]
    unat_drop_quad [OF assms(5,6) z z] quad_prefix [OF assms(2-4)] quad_prefix [OF assms(6) z z]
  show "in_network (quad_addr p q 0 0, 8) (quad_addr a b c d) \<longleftrightarrow> a = p"
    by (simp only: rules)
  show "in_network (quad_addr p q 0 0, 10) (quad_addr a b c d) \<longleftrightarrow>
      4 * a + b div 64 = 4 * p + q div 64"
    by (simp only: rules)
  show "in_network (quad_addr p q 0 0, 12) (quad_addr a b c d) \<longleftrightarrow>
      16 * a + b div 16 = 16 * p + q div 16"
    by (simp only: rules)
  show "in_network (quad_addr p q 0 0, 16) (quad_addr a b c d) \<longleftrightarrow> 256 * a + b = 256 * p + q"
    by (simp only: rules)
qed

lemma blocked_ipv4_reserved:
  assumes "a < 256" "b < 256" "c < 256" "d < 256"
  shows "blocked_ipv4 [a, b, c, d] \<longleftrightarrow> (\<exists>nw\<in>set reserved_networks. in_network nw (quad_addr a b c d))"
proof -
  have "(\<exists>nw\<in>set reserved_networks. in_network nw (quad_addr a b c d)) \<longleftrightarrow>
      a = 0 \<or> a = 10 \<or> 4 * a + b div 64 = 401 \<or> a = 127 \<or> 256 * a + b = 43518 \<or>
      16 * a + b div 16 = 2753 \<or> 256 * a + b = 49320"
    by (simp add: reserved_networks_def in_network_quad [OF assms])
  moreover have "4 * a + b div 64 = 401 \<longleftrightarrow> a = 100 \<and> 64 \<le> b \<and> b \<le> 127"
  proof -
    have split: "4 * a + x = 401 \<longleftrightarrow> a = 100 \<and> x = 1" if "x < 4" for x
      using that by presburger
    have "b div 64 < 4" using assms(2) by simp
    from split [OF this] show ?thesis by auto
  qed
  moreover have "16 * a + b div 16 = 2753 \<longleftrightarrow> a = 172 \<and> 16 \<le> b \<and> b \<le> 31"
  proof -
    have split: "16 * a + x = 2753 \<longleftrightarrow> a = 172 \<and> x = 1" if "x < 16" for x
      using that by presburger
    have "b div 16 < 16" using assms(2) by simp
    from split [OF this] show ?thesis by auto
  qed
  moreover have "256 * a + b = 43518 \<longleftrightarrow> a = 169 \<and> b = 254" "256 * a + b = 49320 \<longleftrightarrow> a = 192 \<and> b = 168"
  proof -
    have ab: "(256 * a + b) div 256 = a" "(256 * a + b) mod 256 = b" using assms(2) by simp_all
    show "256 * a + b = 43518 \<longleftrightarrow> a = 169 \<and> b = 254"
      using ab by (cases "256 * a + b = 43518") auto
    show "256 * a + b = 49320 \<longleftrightarrow> a = 192 \<and> b = 168"
      using ab by (cases "256 * a + b = 49320") auto
  qed
  ultimately show ?thesis by (auto simp: blocked_ipv4_def)
qed

text \<open>C15: an http or https URL whose host is written as four decimal octets is allowed exactly
  when the address lies in none of the reserved blocks (0/8, 10/8, 100.64/10, 127/8, 169.254/16,
  172.16/12, 192.168/16), with or without one user part (that has no further \<open>@\<close>), a port and a
  path.\<close>

theorem ipv4_urls_guarded:
  assumes "toLower scheme = ''http'' \<or> toLower scheme = ''https''"
    and "url_parts_ok scheme user port path" "a < 256" "b < 256" "c < 256" "d < 256"
  shows "isUrlAllowed (url_of scheme user (dotted_quad a b c d) port path) \<longleftrightarrow>
    (\<forall>nw\<in>set reserved_networks. \<not> in_network nw (quad_addr a b c d))"
  using isUrlAllowed_url_of [OF assms(1)] isBlockedHost_dotted [OF assms(3-6)]
    hostFromUrl_url_of [OF plain_host_dotted assms(2)] blocked_ipv4_reserved [OF assms(3-6)] by simp

theorem ipv4_urls_guarded_witness:
  "isUrlAllowed (url_of ''http'' (Some ''me:x'') (dotted_quad 169 254 169 254) (Some ''80'') ''/latest'')
   \<longleftrightarrow> (\<forall>nw\<in>set reserved_networks. \<not> in_network nw (quad_addr 169 254 169 254))"
  by (rule ipv4_urls_guarded)
     (simp_all add: toLower_def asciiLower_def is_upper_def char_code_def url_parts_ok_def
       authority_end_def is_digit_def)

text \<open>the host extracted from a URL is the host the URL was assembled from.\<close>

theorem host_from_url:
  assumes "plain_host host" "url_parts_ok scheme user port path"
  shows "hostFromUrl (url_of scheme user host port path) = host"
  using assms by (rule hostFromUrl_url_of)

theorem host_from_url_witness:
  "hostFromUrl (url_of ''https'' (Some ''user:pass'') ''host.tld'' None ''/?q=a:b@c'') = ''host.tld''"
  by (rule host_from_url) (simp_all add: plain_host_def url_parts_ok_def authority_end_def)

text \<open>the guard can be bypassed: with two \<open>@\<close> signs the host is cut after the first, and
  shorthand or integer spellings of 127.0.0.1 are not recognised as addresses at all.\<close>

theorem loopback_spellings_allowed:
  "isUrlAllowed ''http://a@b@127.0.0.1/'' \<and> isUrlAllowed ''http://127.1/'' \<and>
   isUrlAllowed ''http://2130706433/'' \<and> isUrlAllowed ''http://localhost./'' \<and>
   isUrlAllowed ''http://[::ffff:127.0.0.1]/''"
  by code_simp

end
