(* ===== verification/Connection.thy ===== *)
theory Connection
  imports Core_Errors
begin

text \<open>
  The socket interface transport/IConnection.h.  A connection is a record of operations over a
  socket state.  Locale \<open>connection\<close> holds what every socket does, over two ghost observations:
  the bytes accepted for sending and the bytes handed to the reader.  Locale \<open>reader\<close> extends it
  with a stream the socket delivers, \<open>peer\<close> with a server that takes what is written meanwhile.
\<close>

text \<open>
  \<open>cn_write\<close> returns the byte count or a negative number; \<open>cn_read\<close> returns \<open>None\<close> for a negative
  result and the bytes placed in the buffer otherwise.  Queries may change the socket state.
\<close>

record 's conn_ops =
  cn_connect :: "string \<Rightarrow> u16 \<Rightarrow> 's \<Rightarrow> status \<times> 's"
  cn_connected :: "'s \<Rightarrow> bool \<times> 's"
  cn_write :: "string \<Rightarrow> 's \<Rightarrow> int \<times> 's"
  cn_read :: "nat \<Rightarrow> 's \<Rightarrow> string option \<times> 's"
  cn_available :: "'s \<Rightarrow> int \<times> 's"
  cn_stop :: "'s \<Rightarrow> 's"

locale connection =
  fixes ops :: "'s conn_ops" and sent :: "'s \<Rightarrow> string" and recvd :: "'s \<Rightarrow> string"
  assumes connect_quiet: "cn_connect ops h p s = (e, s') \<Longrightarrow> sent s' = sent s \<and> recvd s' = recvd s"
    and connected_quiet: "cn_connected ops s = (b, s') \<Longrightarrow> sent s' = sent s \<and> recvd s' = recvd s"
    and available_quiet: "cn_available ops s = (n, s') \<Longrightarrow> sent s' = sent s \<and> recvd s' = recvd s"
    and stop_quiet: "sent (cn_stop ops s) = sent s \<and> recvd (cn_stop ops s) = recvd s"
    and write_quiet: "cn_write ops dat s = (n, s') \<Longrightarrow> recvd s' = recvd s"
    and write_sent: "cn_write ops dat s = (n, s') \<Longrightarrow> 0 \<le> n \<Longrightarrow>
      nat n \<le> length dat \<and> sent s' = sent s @ take (nat n) dat"
    and read_sent: "cn_read ops len s = (r, s') \<Longrightarrow> sent s' = sent s"
    and read_some: "cn_read ops len s = (Some bs, s') \<Longrightarrow>
      length bs \<le> len \<and> recvd s' = recvd s @ bs"
    and read_none: "cn_read ops len s = (None, s') \<Longrightarrow> recvd s' = recvd s"

text \<open>A socket that is open (\<open>up s\<close>) and has \<open>stream s\<close> still to deliver.\<close>

locale reader = connection ops sent recvd
  for ops :: "'s conn_ops" and sent :: "'s \<Rightarrow> string" and recvd :: "'s \<Rightarrow> string" +
  fixes stream :: "'s \<Rightarrow> string" and up :: "'s \<Rightarrow> bool"
  assumes up_connected: "up s \<Longrightarrow>
      \<exists>s'. cn_connected ops s = (True, s') \<and> up s' \<and> stream s' = stream s"
    and up_read: "up s \<Longrightarrow> stream s \<noteq> [] \<Longrightarrow> 0 < len \<Longrightarrow>
      \<exists>bs s'. cn_read ops len s = (Some bs, s') \<and> bs \<noteq> [] \<and> up s' \<and> stream s = bs @ stream s'"

text \<open>A peer that takes whatever is written and goes on with its stream.\<close>

locale peer = reader ops sent recvd stream up
  for ops :: "'s conn_ops" and sent :: "'s \<Rightarrow> string" and recvd :: "'s \<Rightarrow> string"
    and stream :: "'s \<Rightarrow> string" and up :: "'s \<Rightarrow> bool" +
  assumes up_write: "up s \<Longrightarrow>
      \<exists>s'. cn_write ops dat s = (int (length dat), s') \<and> up s' \<and> stream s' = stream s"

end
