(* ===== verification/Http_Client.thy ===== *)
theory Http_Client
  imports Http_Types Chunked_Decoder Logger Connection
begin

text \<open>
  The HTTP/1.1 client, transport/HttpClient.{h,cpp}, over the connection interface
  transport/IConnection.h.  Loops that wait for the peer are partial functions: \<open>None\<close> is a wait
  that never ends.  A client record holds the socket state, the lines passed to the logger, the
  clock as the sequence of its readings, and the private fields of the class.
\<close>

section \<open>The client\<close>

definition kMaxHeaderSection :: nat where
  "kMaxHeaderSection = 8192"

record 's http_client =
  conn :: 's
  hlog :: "(log_level \<times> string) list option"
  hclock :: "(nat \<Rightarrow> u32) option"
  hticks :: nat
  timeoutMs :: u32
  maxResponseBody :: u32
  recvBufferSize :: u16
  keepAlive :: bool
  reusable :: bool
  sawResponseBytes :: bool
  pending :: string

definition new_client :: "'s \<Rightarrow> (log_level \<times> string) list option \<Rightarrow> 's http_client" where
  "new_client s lg =
     \<lparr>conn = s, hlog = lg, hclock = None, hticks = 0, timeoutMs = 15000, maxResponseBody = 16384,
      recvBufferSize = 512, keepAlive = False, reusable = False, sawResponseBytes = False,
      pending = []\<rparr>"

definition setReceiveBufferSize :: "u16 \<Rightarrow> 's http_client \<Rightarrow> 's http_client" where
  "setReceiveBufferSize bytes c = c\<lparr>recvBufferSize := (if bytes < 64 then 64 else bytes)\<rparr>"

definition http_log :: "log_level \<Rightarrow> string \<Rightarrow> 's http_client \<Rightarrow> 's http_client" where
  "http_log lv msg c = c\<lparr>hlog := map_option (\<lambda>l. l @ [(lv, msg)]) (hlog c)\<rparr>"

text \<open>The configuration.\<close>

definition http_setClock :: "(nat \<Rightarrow> u32) option \<Rightarrow> 's http_client \<Rightarrow> 's http_client" where [simp]:
  "http_setClock fn c = c\<lparr>hclock := fn\<rparr>"

definition http_setTimeout :: "u32 \<Rightarrow> 's http_client \<Rightarrow> 's http_client" where [simp]:
  "http_setTimeout ms c = c\<lparr>timeoutMs := ms\<rparr>"

definition http_setMaxResponseBody :: "u32 \<Rightarrow> 's http_client \<Rightarrow> 's http_client" where [simp]:
  "http_setMaxResponseBody bytes c = c\<lparr>maxResponseBody := bytes\<rparr>"

definition setKeepAlive :: "bool \<Rightarrow> 's http_client \<Rightarrow> 's http_client" where [simp]:
  "setKeepAlive on c = c\<lparr>keepAlive := on\<rparr>"

definition now :: "'s http_client \<Rightarrow> u32 \<times> 's http_client" where
  "now c = (case hclock c of None \<Rightarrow> (0, c) | Some f \<Rightarrow> (f (hticks c), c\<lparr>hticks := hticks c + 1\<rparr>))"

definition timedOut :: "u32 \<Rightarrow> 's http_client \<Rightarrow> bool \<times> 's http_client" where
  "timedOut startMs c =
     (if hclock c = None then (False, c)
      else (case now c of (t, c') \<Rightarrow> (timeoutMs c' \<le> t - startMs, c')))"

definition conn_write :: "'s conn_ops \<Rightarrow> string \<Rightarrow> 's http_client \<Rightarrow> int \<times> 's http_client" where
  "conn_write ops dat c = (case cn_write ops dat (conn c) of (n, s) \<Rightarrow> (n, c\<lparr>conn := s\<rparr>))"

definition conn_read ::
  "'s conn_ops \<Rightarrow> nat \<Rightarrow> 's http_client \<Rightarrow> string option \<times> 's http_client" where
  "conn_read ops len c = (case cn_read ops len (conn c) of (r, s) \<Rightarrow> (r, c\<lparr>conn := s\<rparr>))"

definition conn_connected :: "'s conn_ops \<Rightarrow> 's http_client \<Rightarrow> bool \<times> 's http_client" where
  "conn_connected ops c = (case cn_connected ops (conn c) of (b, s) \<Rightarrow> (b, c\<lparr>conn := s\<rparr>))"

definition conn_stop :: "'s conn_ops \<Rightarrow> 's http_client \<Rightarrow> 's http_client" where
  "conn_stop ops c = c\<lparr>conn := cn_stop ops (conn c)\<rparr>"

text \<open>\<open>!conn_.connected() && conn_.available() <= 0\<close>.\<close>

definition drained :: "'s conn_ops \<Rightarrow> 's http_client \<Rightarrow> bool \<times> 's http_client" where
  "drained ops c =
     (case conn_connected ops c of (up, c1) \<Rightarrow>
        if up then (False, c1)
        else (case cn_available ops (conn c1) of (n, s) \<Rightarrow> (n \<le> 0, c1\<lparr>conn := s\<rparr>)))"

partial_function (option) writeAll ::
  "'s conn_ops \<Rightarrow> string \<Rightarrow> nat \<Rightarrow> u32 \<Rightarrow> 's http_client \<Rightarrow> (status \<times> 's http_client) option"
where
  "writeAll ops dat off startMs c =
     (if off < length dat then
        (case conn_write ops (drop off dat) c of (n, c1) \<Rightarrow>
           if n < 0 then Some (WriteFailed, c1)
           else if n = 0 then
             (case timedOut startMs c1 of (late, c2) \<Rightarrow>
                if late then Some (Timeout, c2) else writeAll ops dat off startMs c2)
           else writeAll ops dat (off + nat n) startMs c1)
      else Some (Ok, c))"

text \<open>The loop of \<open>readHeaders\<close>; the result carries \<open>leftoverBody\<close> and \<open>out\<close>.\<close>

partial_function (option) header_loop ::
  "'s conn_ops \<Rightarrow> string \<Rightarrow> http_response \<Rightarrow> u32 \<Rightarrow> 's http_client \<Rightarrow>
     (status \<times> string \<times> http_response \<times> 's http_client) option"
where
  "header_loop ops acc out startMs c =
     (case str_find acc crlf2 0 of
        Some e \<Rightarrow>
          (case parseHeaderBlock (substr acc 0 (e + 2)) out of (s, out') \<Rightarrow>
             if s \<noteq> Ok then Some (s, [], out', c)
             else Some (Ok, substr_from acc (e + 4), out', c))
      | None \<Rightarrow>
          if kMaxHeaderSection < length acc then Some (HttpMalformed, [], out, c)
          else
            (case conn_read ops (unat (recvBufferSize c)) c of (r, c1) \<Rightarrow>
               (case r of
                  None \<Rightarrow> Some (HttpMalformed, [], out, c1)
                | Some bs \<Rightarrow>
                    if bs \<noteq> [] then
                      header_loop ops (acc @ bs) out startMs (c1\<lparr>sawResponseBytes := True\<rparr>)
                    else
                      (case drained ops c1 of (gone, c2) \<Rightarrow>
                         if gone then Some (HttpMalformed, [], out, c2)
                         else
                           (case timedOut startMs c2 of (late, c3) \<Rightarrow>
                              if late then Some (Timeout, [], out, c3)
                              else header_loop ops acc out startMs c3)))))"

definition readHeaders ::
  "'s conn_ops \<Rightarrow> http_response \<Rightarrow> u32 \<Rightarrow> 's http_client \<Rightarrow>
     (status \<times> string \<times> http_response \<times> 's http_client) option" where
  "readHeaders ops out startMs c =
     (let acc = pending c;
          c1 = c\<lparr>pending := []\<rparr>;
          c2 = (if acc \<noteq> [] then c1\<lparr>sawResponseBytes := True\<rparr> else c1)
      in header_loop ops acc out startMs c2)"

partial_function (option) chunked_loop ::
  "'s conn_ops \<Rightarrow> chunked_decoder \<Rightarrow> bool \<Rightarrow> string \<Rightarrow> u32 \<Rightarrow> 's http_client \<Rightarrow>
     (status \<times> string \<times> 's http_client) option"
where
  "chunked_loop ops d fin body startMs c =
     (if fin then
        (if unat (maxResponseBody c) < length body then Some (HttpBodyTooLarge, body, c)
         else Some (Ok, body, c))
      else if unat (maxResponseBody c) < length body then Some (HttpBodyTooLarge, body, c)
      else
        (case conn_read ops (unat (recvBufferSize c)) c of (r, c1) \<Rightarrow>
           (case r of
              None \<Rightarrow> Some (ConnectionClosed, body, c1)
            | Some bs \<Rightarrow>
                if bs \<noteq> [] then
                  (case cd_feed d bs body fin of (s, d', body', fin') \<Rightarrow>
                     if s \<noteq> Ok then Some (s, body', c1)
                     else chunked_loop ops d' fin' body' startMs c1)
                else
                  (case timedOut startMs c1 of (late, c2) \<Rightarrow>
                     if late then Some (Timeout, body, c2)
                     else
                       (case drained ops c2 of (gone, c3) \<Rightarrow>
                          if gone then Some (ConnectionClosed, body, c3)
                          else chunked_loop ops d fin body startMs c3)))))"

partial_function (option) length_loop ::
  "'s conn_ops \<Rightarrow> nat \<Rightarrow> string \<Rightarrow> u32 \<Rightarrow> 's http_client \<Rightarrow>
     (status \<times> string \<times> 's http_client) option"
where
  "length_loop ops want body startMs c =
     (if length body < want then
        (case conn_read ops (min (want - length body) (unat (recvBufferSize c))) c of (r, c1) \<Rightarrow>
           (case r of
              None \<Rightarrow> Some (ConnectionClosed, body, c1)
            | Some bs \<Rightarrow>
                if bs \<noteq> [] then length_loop ops want (take want (body @ bs)) startMs c1
                else
                  (case timedOut startMs c1 of (late, c2) \<Rightarrow>
                     if late then Some (Timeout, body, c2)
                     else
                       (case drained ops c2 of (gone, c3) \<Rightarrow>
                          if gone then Some (ConnectionClosed, body, c3)
                          else length_loop ops want body startMs c3))))
      else Some (Ok, body, c))"

partial_function (option) close_loop ::
  "'s conn_ops \<Rightarrow> string \<Rightarrow> u32 \<Rightarrow> 's http_client \<Rightarrow> (status \<times> string \<times> 's http_client) option"
where
  "close_loop ops body startMs c =
     (if unat (maxResponseBody c) < length body then Some (HttpBodyTooLarge, body, c)
      else
        (case conn_read ops (unat (recvBufferSize c)) c of (r, c1) \<Rightarrow>
           (case r of
              None \<Rightarrow> Some (Ok, body, c1)
            | Some bs \<Rightarrow>
                if bs \<noteq> [] then close_loop ops (body @ bs) startMs c1
                else
                  (case drained ops c1 of (gone, c2) \<Rightarrow>
                     if gone then Some (Ok, body, c2)
                     else
                       (case timedOut startMs c2 of (late, c3) \<Rightarrow>
                          if late then Some (Timeout, body, c3)
                          else close_loop ops body startMs c3)))))"

text \<open>The digits of a Content-Length value, accumulated in a \<open>size_t\<close>; other characters are
  skipped.\<close>

fun parse_content_length :: "size_t \<Rightarrow> string \<Rightarrow> size_t" where
  "parse_content_length want [] = want"
| "parse_content_length want (c # cs) =
     parse_content_length
       (if is_digit c then want * 10 + word_of_nat (digit_val c) else want) cs"

definition is_chunked :: "http_response \<Rightarrow> bool" where
  "is_chunked out \<longleftrightarrow>
     (case response_header out ''Transfer-Encoding'' of
        None \<Rightarrow> False
      | Some te \<Rightarrow> containsCaseInsensitive te ''chunked'')"

definition with_body ::
  "http_response \<Rightarrow> (status \<times> string \<times> 's http_client) option \<Rightarrow>
     (status \<times> http_response \<times> 's http_client) option" where
  "with_body out r = map_option (\<lambda>(s, body, c). (s, out\<lparr>rs_body := body\<rparr>, c)) r"

definition readBody ::
  "'s conn_ops \<Rightarrow> string \<Rightarrow> http_response \<Rightarrow> u32 \<Rightarrow> 's http_client \<Rightarrow>
     (status \<times> http_response \<times> 's http_client) option" where
  "readBody ops initial out startMs c =
     (if is_chunked out then
        (case cd_feed cd_reset initial (rs_body out) False of (s, d, body, fin) \<Rightarrow>
           if s \<noteq> Ok then Some (s, out\<lparr>rs_body := body\<rparr>, c)
           else with_body out (chunked_loop ops d fin body startMs c))
      else
        (case response_header out ''Content-Length'' of
           Some cl \<Rightarrow>
             (let want = parse_content_length 0 cl
              in if maxResponseBody c < want then Some (HttpBodyTooLarge, out, c)
                 else
                   (let c1 = (if unat want < length initial
                              then c\<lparr>pending := substr_from initial (unat want)\<rparr> else c)
                    in with_body out
                         (length_loop ops (unat want) (take (unat want) initial) startMs c1)))
         | None \<Rightarrow> with_body out (close_loop ops initial startMs c)))"

definition status_has_body :: "http_response \<Rightarrow> bool" where
  "status_has_body out \<longleftrightarrow>
     \<not> (rs_status out = 204 \<or> rs_status out = 304 \<or> (100 \<le> rs_status out \<and> rs_status out < 200))"

text \<open>The end of \<open>sendOnce\<close> in keep-alive mode.\<close>

definition finish_keep_alive ::
  "'s conn_ops \<Rightarrow> http_response \<Rightarrow> bool \<Rightarrow> 's http_client \<Rightarrow> 's http_client" where
  "finish_keep_alive ops out hasBody c =
     (let respClose = (case response_header out ''Connection'' of
                         None \<Rightarrow> False | Some h \<Rightarrow> containsCaseInsensitive h ''close'');
          framed = (\<not> hasBody \<or> response_header out ''Content-Length'' \<noteq> None \<or> is_chunked out)
      in if \<not> respClose \<and> framed then
           (case conn_connected ops c of (up, c1) \<Rightarrow>
              (let c2 = c1\<lparr>reusable := up\<rparr> in if up then c2 else conn_stop ops c2))
         else conn_stop ops (c\<lparr>reusable := False\<rparr>))"

definition exchange ::
  "'s conn_ops \<Rightarrow> http_request \<Rightarrow> http_response \<Rightarrow> u32 \<Rightarrow> 's http_client \<Rightarrow>
     (status \<times> http_response \<times> 's http_client) option" where
  "exchange ops req out start c =
     (case writeAll ops (serializeRequest req (keepAlive c)) 0 start c of
        None \<Rightarrow> None
      | Some (s, c1) \<Rightarrow>
          if s \<noteq> Ok then Some (s, out, c1)
          else
            (case readHeaders ops out start c1 of
               None \<Rightarrow> None
             | Some (s, leftover, out1, c2) \<Rightarrow>
                 if s \<noteq> Ok then Some (s, out1, c2)
                 else
                   (case (if status_has_body out1 then readBody ops leftover out1 start c2
                          else Some (Ok, out1, c2)) of
                      None \<Rightarrow> None
                    | Some (s, out2, c3) \<Rightarrow>
                        if s \<noteq> Ok then Some (s, out2, c3)
                        else Some (Ok, out2,
                          if keepAlive c3 then finish_keep_alive ops out2 (status_has_body out1) c3
                          else c3))))"

text \<open>Connecting when the socket is down; \<open>fresh\<close> says whether leftover bytes are dropped.\<close>

definition ensure_connected ::
  "'s conn_ops \<Rightarrow> bool \<Rightarrow> http_request \<Rightarrow> 's http_client \<Rightarrow> status \<times> 's http_client" where
  "ensure_connected ops fresh req c =
     (case conn_connected ops c of (up, c1) \<Rightarrow>
        if up then (Ok, c1)
        else
          (let c2 = (if fresh then c1\<lparr>pending := []\<rparr> else c1)
           in case cn_connect ops (c_str (rq_host req)) (rq_port req) (conn c2) of (s, k) \<Rightarrow>
                (let c3 = c2\<lparr>conn := k\<rparr>
                 in if s \<noteq> Ok
                    then (s, http_log LvWarn (''http connect failed: '' @ errorString s) c3)
                    else (Ok, c3))))"

definition sendOnce ::
  "'s conn_ops \<Rightarrow> http_request \<Rightarrow> http_response \<Rightarrow> 's http_client \<Rightarrow>
     (status \<times> http_response \<times> 's http_client) option" where
  "sendOnce ops req out c0 =
     (case now c0 of (start, c1) \<Rightarrow>
        (case ensure_connected ops True req (c1\<lparr>sawResponseBytes := False, reusable := False\<rparr>) of
           (s, c2) \<Rightarrow>
             if s \<noteq> Ok then Some (s, out, c2) else exchange ops req out start c2))"

definition stale_error :: "error \<Rightarrow> bool" where
  "stale_error e \<longleftrightarrow> e = WriteFailed \<or> e = ConnectionClosed \<or> e = HttpMalformed"

definition send ::
  "'s conn_ops \<Rightarrow> http_request \<Rightarrow> http_response \<Rightarrow> 's http_client \<Rightarrow>
     (status \<times> http_response \<times> 's http_client) option" where
  "send ops req out c0 =
     (case conn_connected ops c0 of (wasOpen, c) \<Rightarrow>
        (case sendOnce ops req out c of
           None \<Rightarrow> None
         | Some (s, out1, c1) \<Rightarrow>
             if s \<noteq> Ok \<and> wasOpen \<and> \<not> sawResponseBytes c1 \<and> stale_error s
             then sendOnce ops req empty_response
                    (conn_stop ops
                      (http_log LvInfo ''http: reused connection was stale, retrying once'' c1))
             else Some (s, out1, c1)))"

text \<open>The loops compute.\<close>

declare writeAll.simps [code] header_loop.simps [code] chunked_loop.simps [code]
  length_loop.simps [code] close_loop.simps [code]

text \<open>Induction over the runs of the loops that end.\<close>

lemmas writeAll_induct = writeAll.raw_induct [rotated, consumes 1, case_names step]
lemmas header_loop_induct = header_loop.raw_induct [rotated, consumes 1, case_names step]
lemmas chunked_loop_induct = chunked_loop.raw_induct [rotated, consumes 1, case_names step]
lemmas length_loop_induct = length_loop.raw_induct [rotated, consumes 1, case_names step]
lemmas close_loop_induct = close_loop.raw_induct [rotated, consumes 1, case_names step]

end
