(* ===== verification/Http_Exchange.thy ===== *)
theory Http_Exchange
  imports Http_Client
begin

text \<open>
  What a successful exchange of the HTTP client means, over any socket that obeys the laws of
  locale \<open>connection\<close>: the request was sent whole, and the response is what the bytes received
  say: head, framing, body, with the surplus kept for the next response.
\<close>

section \<open>Steps that only talk to the socket\<close>

definition quiet ::
  "('s \<Rightarrow> string) \<Rightarrow> ('s \<Rightarrow> string) \<Rightarrow> 's http_client \<Rightarrow> 's http_client \<Rightarrow> string \<Rightarrow> bool" where
  "quiet snt rcv c c' got \<longleftrightarrow>
     (\<exists>k h. c' = c\<lparr>conn := k, hticks := h\<rparr> \<and> snt k = snt (conn c) \<and> rcv k = rcv (conn c) @ got)"

lemma quietI:
  "snt k = snt (conn c) \<Longrightarrow> rcv k = rcv (conn c) @ got \<Longrightarrow>
     quiet snt rcv c (c\<lparr>conn := k, hticks := h\<rparr>) got"
  by (auto simp: quiet_def)

lemma quietI_conn:
  "snt k = snt (conn c) \<Longrightarrow> rcv k = rcv (conn c) @ got \<Longrightarrow> quiet snt rcv c (c\<lparr>conn := k\<rparr>) got"
  using quietI [of snt k c rcv got "hticks c"] by simp

lemma quiet_refl: "quiet snt rcv c c []"
  using quietI_conn [of snt "conn c" c rcv "[]"] by simp

lemma quiet_trans: "quiet snt rcv a b x \<Longrightarrow> quiet snt rcv b c y \<Longrightarrow> quiet snt rcv a c (x @ y)"
proof -
  assume "quiet snt rcv a b x" "quiet snt rcv b c y"
  then obtain k h k' h' where b: "b = a\<lparr>conn := k, hticks := h\<rparr>"
    and k: "snt k = snt (conn a)" "rcv k = rcv (conn a) @ x"
    and c: "c = b\<lparr>conn := k', hticks := h'\<rparr>" and k': "snt k' = snt k" "rcv k' = rcv k @ y"
    by (auto simp: quiet_def)
  from quietI [of snt k' a rcv "x @ y" h'] b k c k' show ?thesis by simp
qed

lemma quiet_trans0: "quiet snt rcv a b [] \<Longrightarrow> quiet snt rcv b c y \<Longrightarrow> quiet snt rcv a c y"
  using quiet_trans by fastforce

lemma quiet_fields:
  assumes "quiet snt rcv c c' got"
  shows "hlog c' = hlog c" "hclock c' = hclock c" "timeoutMs c' = timeoutMs c"
    "maxResponseBody c' = maxResponseBody c" "recvBufferSize c' = recvBufferSize c"
    "keepAlive c' = keepAlive c" "reusable c' = reusable c"
    "sawResponseBytes c' = sawResponseBytes c" "pending c' = pending c"
    "snt (conn c') = snt (conn c)" "rcv (conn c') = rcv (conn c) @ got"
  using assms by (auto simp: quiet_def)

lemma timedOut_ticks:
  assumes "timedOut t c = (b, c')"
  obtains h where "c' = c\<lparr>hticks := h\<rparr>"
proof (cases "hclock c")
  case None
  with assms have "c' = c\<lparr>hticks := hticks c\<rparr>" by (simp add: timedOut_def)
  then show ?thesis by (rule that)
next
  case (Some f)
  with assms have "c' = c\<lparr>hticks := hticks c + 1\<rparr>" by (auto simp: timedOut_def now_def)
  then show ?thesis by (rule that)
qed

lemma quiet_timedOut: "timedOut t c = (b, c') \<Longrightarrow> quiet snt rcv c c' []"
proof (erule timedOut_ticks)
  fix h assume "c' = c\<lparr>hticks := h\<rparr>"
  then show ?thesis using quietI [of snt "conn c" c rcv "[]" h] by simp
qed

lemma head_split:
  assumes "str_find acc crlf2 0 = Some e"
  shows "acc = take e acc @ crlf2 @ substr_from acc (e + 4)"
    and "substr acc 0 (e + 2) = take e acc @ crlf"
proof -
  from assms have f: "find_idx crlf2 acc = Some e" by (simp add: str_find_def split: if_splits)
  from find_idx_Some [OF f] show a: "acc = take e acc @ crlf2 @ substr_from acc (e + 4)"
    by (simp add: crlf2_def substr_from_def numeral_eq_Suc)
  have "length (take e acc) = e" using find_idx_Some [OF f] by simp
  then have "take (e + 2) (take e acc @ crlf2 @ r) = take e acc @ crlf" for r
    by (simp add: crlf2_def crlf_def)
  from this [of "substr_from acc (e + 4)", folded a] show "substr acc 0 (e + 2) = take e acc @ crlf"
    by (simp add: substr_def)
qed

lemma parseHeaderBlock_body: "parseHeaderBlock block out = (s, out') \<Longrightarrow> rs_body out' = rs_body out"
  by (auto simp: parseHeaderBlock_def Let_def split: option.splits if_splits)

lemma quiet_saw:
  "quiet snt rcv c c' got \<Longrightarrow>
     quiet snt rcv (c\<lparr>sawResponseBytes := b\<rparr>) (c'\<lparr>sawResponseBytes := b\<rparr>) got"
proof -
  assume "quiet snt rcv c c' got"
  then obtain k h where "c' = c\<lparr>conn := k, hticks := h\<rparr>" "snt k = snt (conn c)"
    "rcv k = rcv (conn c) @ got" by (auto simp: quiet_def)
  moreover from this(1) have "c'\<lparr>sawResponseBytes := b\<rparr> =
      c\<lparr>sawResponseBytes := b, conn := k, hticks := h\<rparr>"
    by (intro http_client.equality) simp_all
  ultimately show ?thesis
    by (simp only:) (rule quietI; simp)
qed

lemma quiet_saw_same:
  "quiet snt rcv c c' got \<Longrightarrow> quiet snt rcv (c\<lparr>sawResponseBytes := sawResponseBytes c'\<rparr>) c' got"
  using quiet_saw [of snt rcv c c' got "sawResponseBytes c'"] by simp

section \<open>Framing\<close>

text \<open>
  How a response's headers cut its body out of the bytes after the head: \<open>excess\<close> is what a
  Content-Length body leaves for the next response.
\<close>

definition framed_as :: "http_response \<Rightarrow> string \<Rightarrow> string \<Rightarrow> string \<Rightarrow> bool" where
  "framed_as out rest body excess \<longleftrightarrow>
     (if is_chunked out then excess = [] \<and> (\<exists>d. cd_feed cd_reset rest [] False = (Ok, d, body, True))
      else (case response_header out ''Content-Length'' of
              Some cl \<Rightarrow> rest = body @ excess \<and> length body = unat (parse_content_length 0 cl)
            | None \<Rightarrow> rest = body \<and> excess = []))"

lemma is_chunked_body [simp]: "is_chunked (out\<lparr>rs_body := b\<rparr>) = is_chunked out"
  by (simp add: is_chunked_def response_header_def)

lemma response_header_body [simp]: "response_header (out\<lparr>rs_body := b\<rparr>) n = response_header out n"
  by (simp add: response_header_def)

lemma status_has_body_body [simp]: "status_has_body (out\<lparr>rs_body := b\<rparr>) = status_has_body out"
  by (simp add: status_has_body_def)

lemma framed_as_body [simp]: "framed_as (out\<lparr>rs_body := b\<rparr>) = framed_as out"
  by (simp add: framed_as_def fun_eq_iff)

text \<open>What it means that \<open>bytes\<close> hold the response \<open>out\<close>, followed by \<open>excess\<close>.\<close>

definition response_of :: "string \<Rightarrow> http_response \<Rightarrow> string \<Rightarrow> bool" where
  "response_of bytes out excess \<longleftrightarrow>
     (\<exists>head rest. bytes = head @ crlf2 @ rest \<and>
        parseHeaderBlock (head @ crlf) empty_response = (Ok, out\<lparr>rs_body := []\<rparr>) \<and>
        (if status_has_body out then framed_as out rest (rs_body out) excess
         else rs_body out = [] \<and> excess = []))"

lemma response_ofI:
  "bytes = head @ crlf2 @ rest \<Longrightarrow>
     parseHeaderBlock (head @ crlf) empty_response = (Ok, out\<lparr>rs_body := []\<rparr>) \<Longrightarrow>
     (if status_has_body out then framed_as out rest (rs_body out) excess
      else rs_body out = [] \<and> excess = []) \<Longrightarrow> response_of bytes out excess"
  unfolding response_of_def by blast

lemma with_body_Some:
  assumes "with_body out r = Some (s, out', c')"
  obtains body where "r = Some (s, body, c')" "out' = out\<lparr>rs_body := body\<rparr>"
  using assms by (auto simp: with_body_def)

context connection
begin

abbreviation q :: "'s http_client \<Rightarrow> 's http_client \<Rightarrow> string \<Rightarrow> bool" where
  "q \<equiv> quiet sent recvd"

lemma quiet_read:
  assumes "conn_read ops n c = (r, c')"
  shows "q c c' (case r of None \<Rightarrow> [] | Some bs \<Rightarrow> bs)" "r = Some bs \<Longrightarrow> length bs \<le> n"
  using assms
  by (auto simp: conn_read_def split: prod.splits option.splits
      intro!: quietI_conn dest: read_sent read_some read_none)

lemma quiet_connected: "conn_connected ops c = (b, c') \<Longrightarrow> q c c' []"
  by (auto simp: conn_connected_def split: prod.splits intro!: quietI_conn dest: connected_quiet)

lemma quiet_drained: "drained ops c = (b, c') \<Longrightarrow> q c c' []"
proof -
  assume d: "drained ops c = (b, c')"
  obtain u c1 where c1: "conn_connected ops c = (u, c1)" by fastforce
  note q1 = quiet_connected [OF c1]
  obtain n s where n: "cn_available ops (conn c1) = (n, s)" by fastforce
  have "q c1 (c1\<lparr>conn := s\<rparr>) []" using available_quiet [OF n] by (intro quietI_conn) simp_all
  from d quiet_trans0 [OF q1 this] q1 show ?thesis
    by (auto simp: drained_def c1 n split: if_splits)
qed

section \<open>Writing\<close>

lemma writeAll_facts:
  "writeAll op dat off t c = Some y \<Longrightarrow> op = ops \<longrightarrow> off \<le> length dat \<longrightarrow>
     (\<exists>k h. snd y = c\<lparr>conn := k, hticks := h\<rparr> \<and> recvd k = recvd (conn c) \<and>
       (fst y = Ok \<longrightarrow> sent k = sent (conn c) @ drop off dat))"
proof (induct rule: writeAll_induct)
  case (step rec op dat off t c y)
  show ?case
  proof (intro impI)
    assume op: "op = ops" and off: "off \<le> length dat"
    obtain n c1 where w: "conn_write ops (drop off dat) c = (n, c1)" by fastforce
    then obtain k where cw: "cn_write ops (drop off dat) (conn c) = (n, k)" and c1: "c1 = c\<lparr>conn := k\<rparr>"
      by (auto simp: conn_write_def split: prod.splits)
    note rk = write_quiet [OF cw] and sk = write_sent [OF cw]
    obtain late c2 where t: "timedOut t c1 = (late, c2)" by fastforce
    obtain h where "c2 = c1\<lparr>hticks := h\<rparr>" using t by (rule timedOut_ticks)
    then have c2: "c2 = c\<lparr>conn := k, hticks := h\<rparr>" by (simp add: c1)
    consider (stop) "\<not> off < length dat" "y = (Ok, c)" | (err) "n < 0" "y = (WriteFailed, c1)"
      | (late) "n = 0" "y = (Timeout, c2)" | (again) "n = 0" "rec op dat off t c2 = Some y"
      | (more) "0 < n" "off < length dat" "rec op dat (off + nat n) t c1 = Some y"
    proof (cases "off < length dat")
      case False
      with step.hyps(2) show thesis by (intro stop) simp_all
    next
      case True
      with step.hyps(2) have y: "(if n < 0 then Some (WriteFailed, c1)
          else if n = 0 then (if late then Some (Timeout, c2) else rec op dat off t c2)
          else rec op dat (off + nat n) t c1) = Some y"
        unfolding op by (simp only: if_True w t prod.case)
      consider "n < 0" | "n = 0" late | "n = 0" "\<not> late" | "0 < n" by linarith
      then show thesis
        using y True err that(3-5) by cases simp_all
    qed
    then show "\<exists>k h. snd y = c\<lparr>conn := k, hticks := h\<rparr> \<and> recvd k = recvd (conn c) \<and>
       (fst y = Ok \<longrightarrow> sent k = sent (conn c) @ drop off dat)"
    proof cases
      case stop
      with off show ?thesis by (intro exI [of _ "conn c"] exI [of _ "hticks c"]) simp
    next
      case err
      then show ?thesis by (intro exI [of _ k] exI [of _ "hticks c"]) (simp add: c1 rk)
    next
      case late
      then show ?thesis by (intro exI [of _ k] exI [of _ h]) (simp add: c2 rk)
    next
      case again
      from step.hyps(1) [OF again(2)] op off rk sk again(1) show ?thesis
        by (auto simp: c2)
    next
      case more
      from sk more have "nat n \<le> length (drop off dat)" by simp
      with more(2) have "off + nat n \<le> length dat" by simp
      with step.hyps(1) [OF more(3)] op obtain k' h' where
        y: "snd y = c1\<lparr>conn := k', hticks := h'\<rparr>" "recvd k' = recvd k"
           "fst y = Ok \<Longrightarrow> sent k' = sent k @ drop (off + nat n) dat"
        by (auto simp: c1)
      have "take (nat n) (drop off dat) @ drop (off + nat n) dat = drop off dat"
        by (metis append_take_drop_id drop_drop add.commute)
      with y sk more rk show ?thesis by (intro exI [of _ k'] exI [of _ h']) (simp add: c1)
    qed
  qed
qed

section \<open>Reading\<close>

lemma length_loop_facts:
  "length_loop op want body t c = Some y \<Longrightarrow> op = ops \<longrightarrow> length body \<le> want \<longrightarrow>
     (\<exists>got. q c (snd (snd y)) got \<and> fst (snd y) = body @ got \<and> length (body @ got) \<le> want \<and>
       (fst y = Ok \<longrightarrow> length (body @ got) = want))"
proof (induct rule: length_loop_induct)
  case (step rec op want body t c y)
  show ?case
  proof (intro impI)
    assume op: "op = ops" and body: "length body \<le> want"
    let ?P = "\<lambda>got. q c (snd (snd y)) got \<and> fst (snd y) = body @ got \<and> length (body @ got) \<le> want \<and>
       (fst y = Ok \<longrightarrow> length (body @ got) = want)"
    let ?n = "min (want - length body) (unat (recvBufferSize c))"
    show "\<exists>got. ?P got"
    proof (cases "length body < want")
      case False
      with step.hyps(2) body have "y = (Ok, body, c)" "length body = want" by simp_all
      then show ?thesis by (intro exI [of _ "[]"]) (simp add: quiet_refl)
    next
      case True
      obtain r c1 where rd: "conn_read ops ?n c = (r, c1)" by fastforce
      note q1 = quiet_read [OF rd]
      obtain late c2 where t: "timedOut t c1 = (late, c2)" by fastforce
      obtain gone c3 where d: "drained ops c2 = (gone, c3)" by fastforce
      from step.hyps(2) True have y: "(case r of None \<Rightarrow> Some (ConnectionClosed, body, c1)
          | Some bs \<Rightarrow> if bs \<noteq> [] then rec op want (take want (body @ bs)) t c1
              else if late then Some (Timeout, body, c2)
              else if gone then Some (ConnectionClosed, body, c3) else rec op want body t c3) = Some y"
        unfolding op by (simp only: if_True rd t d prod.case)
      show ?thesis
      proof (cases r)
        case None
        with y q1(1) body show ?thesis by (intro exI [of _ "[]"]) auto
      next
        case (Some bs)
        show ?thesis
        proof (cases "bs = []")
          case False
          from q1(2) [OF Some] body have fit: "length (body @ bs) \<le> want" by auto
          with y Some False have "rec op want (body @ bs) t c1 = Some y" by simp
          from step.hyps(1) [OF this] op fit obtain got where
            "q c1 (snd (snd y)) got" "fst (snd y) = (body @ bs) @ got"
            "length ((body @ bs) @ got) \<le> want" "fst y = Ok \<Longrightarrow> length ((body @ bs) @ got) = want"
            by blast
          with quiet_trans [OF _ this(1)] q1(1) Some show ?thesis
            by (intro exI [of _ "bs @ got"]) simp
        next
          case True
          with q1(1) Some have qc1: "q c c1 []" by simp
          have qc2: "q c c2 []" by (rule quiet_trans0 [OF qc1 quiet_timedOut [OF t]])
          have qc3: "q c c3 []" by (rule quiet_trans0 [OF qc2 quiet_drained [OF d]])
          show ?thesis
          proof (cases "late \<or> gone")
            case stop: True
            with y Some True qc2 qc3 body show ?thesis
              by (intro exI [of _ "[]"]) (auto split: if_splits)
          next
            case go: False
            with y Some True have "rec op want body t c3 = Some y" by simp
            from step.hyps(1) [OF this] op body quiet_trans0 [OF qc3] show ?thesis by blast
          qed
        qed
      qed
    qed
  qed
qed

lemma chunked_loop_facts:
  "chunked_loop op d fin body t c = Some y \<Longrightarrow>
     op = ops \<longrightarrow> cd_inv d \<longrightarrow> fin = (dstate d = StDone) \<longrightarrow>
     (\<exists>got. q c (snd (snd y)) got \<and>
       (fst y = Ok \<longrightarrow> length (fst (snd y)) \<le> unat (maxResponseBody c) \<and>
         (\<exists>d'. cd_run d got body = (Ok, d', fst (snd y)) \<and> dstate d' = StDone)))"
proof (induct rule: chunked_loop_induct)
  case (step rec op d fin body t c y)
  show ?case
  proof (intro impI)
    assume op: "op = ops" and d: "cd_inv d" and fin: "fin = (dstate d = StDone)"
    let ?P = "\<lambda>got. q c (snd (snd y)) got \<and>
       (fst y = Ok \<longrightarrow> length (fst (snd y)) \<le> unat (maxResponseBody c) \<and>
         (\<exists>d'. cd_run d got body = (Ok, d', fst (snd y)) \<and> dstate d' = StDone))"
    show "\<exists>got. ?P got"
    proof (cases "fin \<or> unat (maxResponseBody c) < length body")
      case True
      with step.hyps(2) have "y = (if unat (maxResponseBody c) < length body
          then (HttpBodyTooLarge, body, c) else (Ok, body, c))"
        "fin \<or> unat (maxResponseBody c) < length body" by (auto split: if_splits)
      then show ?thesis using fin by (intro exI [of _ "[]"]) (auto simp: quiet_refl)
    next
      case False
      obtain r c1 where rd: "conn_read ops (unat (recvBufferSize c)) c = (r, c1)" by fastforce
      note q1 = quiet_read [OF rd]
      obtain late c2 where t: "timedOut t c1 = (late, c2)" by fastforce
      obtain gone c3 where g: "drained ops c2 = (gone, c3)" by fastforce
      from False have nf: "fin = False" "(unat (maxResponseBody c) < length body) = False" by auto
      from step.hyps(2) have y: "(case r of None \<Rightarrow> Some (ConnectionClosed, body, c1)
          | Some bs \<Rightarrow> if bs \<noteq> [] then (case cd_feed d bs body False of (s, d', body', fin') \<Rightarrow>
                if s \<noteq> Ok then Some (s, body', c1) else rec op d' fin' body' t c1)
              else if late then Some (Timeout, body, c2)
              else if gone then Some (ConnectionClosed, body, c3) else rec op d False body t c3) = Some y"
        unfolding op nf by (simp only: if_False rd t g prod.case)
      show ?thesis
      proof (cases r)
        case None
        with y q1(1) show ?thesis by (intro exI [of _ "[]"]) auto
      next
        case (Some bs)
        show ?thesis
        proof (cases "bs = []")
          case False
          obtain s d' body' where run: "cd_run d bs body = (s, d', body')" by (metis prod_cases3)
          then have feed: "cd_feed d bs body False = (s, d', body', s = Ok \<and> dstate d' = StDone)"
            by (simp add: cd_feed_run [OF d])
          show ?thesis
          proof (cases "s = Ok")
            case False
            with y Some \<open>bs \<noteq> []\<close> feed q1(1) show ?thesis by (intro exI [of _ bs]) auto
          next
            case True
            with y Some \<open>bs \<noteq> []\<close> feed have "rec op d' (dstate d' = StDone) body' t c1 = Some y" by simp
            from step.hyps(1) [OF this] op cd_run_inv [OF d run] obtain got where
              got: "q c1 (snd (snd y)) got" "fst y = Ok \<Longrightarrow>
                 length (fst (snd y)) \<le> unat (maxResponseBody c1) \<and>
                 (\<exists>e. cd_run d' got body' = (Ok, e, fst (snd y)) \<and> dstate e = StDone)"
              by blast
            have qc: "q c (snd (snd y)) (bs @ got)"
              using quiet_trans [OF _ got(1)] q1(1) Some by simp
            have "maxResponseBody c1 = maxResponseBody c" using q1(1) by (rule quiet_fields(4))
            with qc got(2) run True show ?thesis
              by (intro exI [of _ "bs @ got"]) (auto simp: cd_run_append)
          qed
        next
          case True
          with q1(1) Some have qc1: "q c c1 []" by simp
          have qc2: "q c c2 []" by (rule quiet_trans0 [OF qc1 quiet_timedOut [OF t]])
          have qc3: "q c c3 []" by (rule quiet_trans0 [OF qc2 quiet_drained [OF g]])
          show ?thesis
          proof (cases "late \<or> gone")
            case stop: True
            with y Some True qc2 qc3 show ?thesis
              by (intro exI [of _ "[]"]) (auto split: if_splits)
          next
            case go: False
            with y Some True have "rec op d False body t c3 = Some y" by simp
            from step.hyps(1) [OF this] op d fin nf(1) quiet_trans0 [OF qc3] quiet_fields(4) [OF qc3]
            show ?thesis by auto
          qed
        qed
      qed
    qed
  qed
qed

lemma close_loop_facts:
  "close_loop op body t c = Some y \<Longrightarrow> op = ops \<longrightarrow>
     (\<exists>got. q c (snd (snd y)) got \<and>
       (fst y = Ok \<longrightarrow> fst (snd y) = body @ got \<and> length (body @ got) \<le> unat (maxResponseBody c)))"
proof (induct rule: close_loop_induct)
  case (step rec op body t c y)
  show ?case
  proof
    assume op: "op = ops"
    let ?P = "\<lambda>got. q c (snd (snd y)) got \<and>
       (fst y = Ok \<longrightarrow> fst (snd y) = body @ got \<and> length (body @ got) \<le> unat (maxResponseBody c))"
    show "\<exists>got. ?P got"
    proof (cases "unat (maxResponseBody c) < length body")
      case True
      with step.hyps(2) have "y = (HttpBodyTooLarge, body, c)" by simp
      then show ?thesis by (intro exI [of _ "[]"]) (simp add: quiet_refl)
    next
      case False
      obtain r c1 where rd: "conn_read ops (unat (recvBufferSize c)) c = (r, c1)" by fastforce
      note q1 = quiet_read [OF rd]
      obtain gone c2 where g: "drained ops c1 = (gone, c2)" by fastforce
      obtain late c3 where t: "timedOut t c2 = (late, c3)" by fastforce
      from step.hyps(2) False have y: "(case r of None \<Rightarrow> Some (Ok, body, c1)
          | Some bs \<Rightarrow> if bs \<noteq> [] then rec op (body @ bs) t c1
              else if gone then Some (Ok, body, c2)
              else if late then Some (Timeout, body, c3) else rec op body t c3) = Some y"
        unfolding op by (simp only: if_False rd t g prod.case)
      show ?thesis
      proof (cases r)
        case None
        with y q1(1) False show ?thesis by (intro exI [of _ "[]"]) auto
      next
        case (Some bs)
        show ?thesis
        proof (cases "bs = []")
          case bs: False
          with y Some have "rec op (body @ bs) t c1 = Some y" by simp
          from step.hyps(1) [OF this] op obtain got where
            got: "q c1 (snd (snd y)) got" "fst y = Ok \<Longrightarrow> fst (snd y) = (body @ bs) @ got \<and>
               length ((body @ bs) @ got) \<le> unat (maxResponseBody c1)"
            by blast
          have qc: "q c (snd (snd y)) (bs @ got)"
            using quiet_trans [OF _ got(1)] q1(1) Some by simp
          have "maxResponseBody c1 = maxResponseBody c" using q1(1) by (rule quiet_fields(4))
          with qc got(2) show ?thesis by (intro exI [of _ "bs @ got"]) auto
        next
          case bs: True
          with q1(1) Some have qc1: "q c c1 []" by simp
          have qc2: "q c c2 []" by (rule quiet_trans0 [OF qc1 quiet_drained [OF g]])
          have qc3: "q c c3 []" by (rule quiet_trans0 [OF qc2 quiet_timedOut [OF t]])
          show ?thesis
          proof (cases "late \<or> gone")
            case stop: True
            with y Some bs qc2 qc3 False show ?thesis
              by (intro exI [of _ "[]"]) (auto split: if_splits)
          next
            case go: False
            with y Some bs have "rec op body t c3 = Some y" by simp
            from step.hyps(1) [OF this] op quiet_trans0 [OF qc3] quiet_fields(4) [OF qc3]
            show ?thesis by auto
          qed
        qed
      qed
    qed
  qed
qed

lemma header_loop_facts:
  "header_loop op acc out t c = Some y \<Longrightarrow> op = ops \<longrightarrow>
     (case y of (s, left, out', c') \<Rightarrow>
       \<exists>got. q (c\<lparr>sawResponseBytes := sawResponseBytes c'\<rparr>) c' got \<and>
         sawResponseBytes c' = (sawResponseBytes c \<or> got \<noteq> []) \<and> rs_body out' = rs_body out \<and>
         (s = Ok \<longrightarrow> (\<exists>head. acc @ got = head @ crlf2 @ left \<and>
            parseHeaderBlock (head @ crlf) out = (Ok, out'))))"
proof (induct rule: header_loop_induct)
  case (step rec op acc out t c y)
  show ?case
  proof
    assume op: "op = ops"
    obtain s left out' c' where y: "y = (s, left, out', c')" by (metis prod_cases4)
    let ?P = "\<lambda>got. q (c\<lparr>sawResponseBytes := sawResponseBytes c'\<rparr>) c' got \<and>
         sawResponseBytes c' = (sawResponseBytes c \<or> got \<noteq> []) \<and> rs_body out' = rs_body out \<and>
         (s = Ok \<longrightarrow> (\<exists>head. acc @ got = head @ crlf2 @ left \<and>
            parseHeaderBlock (head @ crlf) out = (Ok, out')))"
    have "\<exists>got. ?P got"
    proof (cases "str_find acc crlf2 0")
      case (Some e)
      obtain s1 out1 where ph: "parseHeaderBlock (substr acc 0 (e + 2)) out = (s1, out1)" by fastforce
      from step.hyps(2) Some ph have eq: "y = (if s1 \<noteq> Ok then (s1, [], out1, c)
          else (Ok, substr_from acc (e + 4), out1, c))" by (auto split: if_splits)
      have "?P []"
        using eq y head_split [OF Some] ph parseHeaderBlock_body [OF ph]
        by (auto simp: quiet_refl split: if_splits)
      then show ?thesis ..
    next
      case None
      show ?thesis
      proof (cases "kMaxHeaderSection < length acc")
        case True
        with step.hyps(2) None y have "s = HttpMalformed" "out' = out" "c' = c" by simp_all
        then have "?P []" by (simp add: quiet_refl)
        then show ?thesis ..
      next
        case False
        obtain r c1 where rd: "conn_read ops (unat (recvBufferSize c)) c = (r, c1)" by fastforce
        note q1 = quiet_read [OF rd]
        obtain gone c2 where g: "drained ops c1 = (gone, c2)" by fastforce
        obtain late c3 where t: "timedOut t c2 = (late, c3)" by fastforce
        from step.hyps(2) None False have eq: "(case r of None \<Rightarrow> Some (HttpMalformed, [], out, c1)
            | Some bs \<Rightarrow> if bs \<noteq> [] then rec op (acc @ bs) out t (c1\<lparr>sawResponseBytes := True\<rparr>)
                else if gone then Some (HttpMalformed, [], out, c2)
                else if late then Some (Timeout, [], out, c3) else rec op acc out t c3) = Some y"
          unfolding op by (simp only: if_False rd t g prod.case option.case)
        show ?thesis
        proof (cases r)
          case None
          with eq y q1(1) have c': "c' = c1" "s = HttpMalformed" "out' = out" "q c c1 []" by simp_all
          with quiet_fields(8) [OF c'(4)] quiet_saw_same [OF c'(4)] have "?P []" by simp
          then show ?thesis ..
        next
          case (Some bs)
          show ?thesis
          proof (cases "bs = []")
            case bs: False
            with eq Some have "rec op (acc @ bs) out t (c1\<lparr>sawResponseBytes := True\<rparr>) = Some y" by simp
            from step.hyps(1) [OF this] op y obtain got where
              got: "q (c1\<lparr>sawResponseBytes := sawResponseBytes c'\<rparr>) c' got"
              "sawResponseBytes c'" "rs_body out' = rs_body out"
              "s = Ok \<Longrightarrow> \<exists>head. (acc @ bs) @ got = head @ crlf2 @ left \<and>
                 parseHeaderBlock (head @ crlf) out = (Ok, out')"
              by auto
            have "q (c\<lparr>sawResponseBytes := True\<rparr>) (c1\<lparr>sawResponseBytes := True\<rparr>) bs"
              using q1(1) Some quiet_saw by fastforce
            from quiet_trans [OF this] got bs have "?P (bs @ got)" by simp
            then show ?thesis ..
          next
            case bs: True
            with q1(1) Some have qc1: "q c c1 []" by simp
            have qc2: "q c c2 []" by (rule quiet_trans0 [OF qc1 quiet_drained [OF g]])
            have qc3: "q c c3 []" by (rule quiet_trans0 [OF qc2 quiet_timedOut [OF t]])
            show ?thesis
            proof (cases "gone \<or> late")
              case True
              with eq Some bs y have "(c' = c2 \<or> c' = c3) \<and> s \<noteq> Ok \<and> out' = out"
                by (auto split: if_splits)
              then have "q c c' []" "s \<noteq> Ok" "out' = out" using qc2 qc3 by auto
              with quiet_fields(8) [OF this(1)] quiet_saw_same [OF this(1)] have "?P []" by simp
              then show ?thesis ..
            next
              case False
              with eq Some bs have "rec op acc out t c3 = Some y" by simp
              from step.hyps(1) [OF this] op y obtain got where
                got: "q (c3\<lparr>sawResponseBytes := sawResponseBytes c'\<rparr>) c' got"
                "sawResponseBytes c' = (sawResponseBytes c3 \<or> got \<noteq> [])" "rs_body out' = rs_body out"
                "s = Ok \<Longrightarrow> \<exists>head. acc @ got = head @ crlf2 @ left \<and>
                   parseHeaderBlock (head @ crlf) out = (Ok, out')"
                by auto
              from quiet_trans0 [OF quiet_saw [OF qc3]] got quiet_fields(8) [OF qc3] have "?P got"
                by simp
              then show ?thesis ..
            qed
          qed
        qed
      qed
    qed
    then show "case y of (s, left, out', c') \<Rightarrow>
       \<exists>got. q (c\<lparr>sawResponseBytes := sawResponseBytes c'\<rparr>) c' got \<and>
         sawResponseBytes c' = (sawResponseBytes c \<or> got \<noteq> []) \<and> rs_body out' = rs_body out \<and>
         (s = Ok \<longrightarrow> (\<exists>head. acc @ got = head @ crlf2 @ left \<and>
            parseHeaderBlock (head @ crlf) out = (Ok, out')))"
      by (simp add: y)
  qed
qed

section \<open>Bodies\<close>

lemma readBody_facts:
  assumes "readBody ops initial out t c = Some (s, out', c')" "rs_body out = []" "pending c = []"
  shows "\<exists>got body excess. q (c\<lparr>pending := pending c'\<rparr>) c' got \<and>
    (s = Ok \<longrightarrow> out' = out\<lparr>rs_body := body\<rparr> \<and> length body \<le> unat (maxResponseBody c) \<and>
      framed_as out (initial @ got) body excess \<and> pending c' = excess)"
  (is "\<exists>got body excess. ?P got body excess")
proof (cases "is_chunked out")
  case True
  obtain e d body where r: "cd_run cd_reset initial [] = (e, d, body)" by (metis prod_cases3)
  then have feed: "cd_feed cd_reset initial (rs_body out) False = (e, d, body, e = Ok \<and> dstate d = StDone)"
    using assms(2) by (simp add: cd_feed_run)
  show ?thesis
  proof (cases "e = Ok")
    case False
    with assms(1) True feed have "s \<noteq> Ok" "c' = c" by (auto simp: readBody_def)
    then have "?P [] [] []" by (simp add: quiet_refl)
    then show ?thesis by blast
  next
    case e: True
    with assms(1) True feed have "with_body out (chunked_loop ops d (dstate d = StDone) body t c) =
        Some (s, out', c')" by (simp add: readBody_def)
    then obtain b where b: "chunked_loop ops d (dstate d = StDone) body t c = Some (s, b, c')"
      "out' = out\<lparr>rs_body := b\<rparr>" by (rule with_body_Some)
    from cd_run_inv [OF _ r] have "cd_inv d" by simp
    with chunked_loop_facts [OF b(1)] obtain got where
      got: "q c c' got" "s = Ok \<Longrightarrow> length b \<le> unat (maxResponseBody c) \<and>
         (\<exists>d'. cd_run d got body = (Ok, d', b) \<and> dstate d' = StDone)" by auto
    have pend: "pending c' = []" using quiet_fields(9) [OF got(1)] assms(3) by simp
    have "framed_as out (initial @ got) b []" if "s = Ok"
      using got(2) [OF that] r e True by (auto simp: framed_as_def cd_feed_run cd_run_append)
    moreover have "c\<lparr>pending := pending c'\<rparr> = c"
      using pend assms(3) by (intro http_client.equality) simp_all
    ultimately have "?P got b []" using got pend b(2) by simp
    then show ?thesis by blast
  qed
next
  case nch: False
  show ?thesis
  proof (cases "response_header out ''Content-Length''")
    case (Some cl)
    let ?want = "parse_content_length 0 cl" and ?n = "unat (parse_content_length 0 cl)"
    let ?c1 = "if ?n < length initial then c\<lparr>pending := substr_from initial ?n\<rparr> else c"
    show ?thesis
    proof (cases "maxResponseBody c < ?want")
      case True
      with assms(1) nch Some have "s \<noteq> Ok" "c' = c" by (auto simp: readBody_def)
      then have "?P [] [] []" by (simp add: quiet_refl)
      then show ?thesis by blast
    next
      case False
      with assms(1) nch Some have "with_body out (length_loop ops ?n (take ?n initial) t ?c1) =
          Some (s, out', c')" by (simp add: readBody_def Let_def)
      then obtain b where b: "length_loop ops ?n (take ?n initial) t ?c1 = Some (s, b, c')"
        "out' = out\<lparr>rs_body := b\<rparr>" by (rule with_body_Some)
      from length_loop_facts [OF b(1)] obtain got where
        got: "q ?c1 c' got" "b = take ?n initial @ got" "length b \<le> ?n" "s = Ok \<Longrightarrow> length b = ?n"
        by auto
      have pend: "pending c' = drop ?n initial"
        using quiet_fields(9) [OF got(1)] assms(3) by (auto simp: substr_from_def)
      have c1: "c\<lparr>pending := pending c'\<rparr> = ?c1"
        using pend assms(3) by (intro http_client.equality) (auto simp: substr_from_def)
      have le: "?n \<le> unat (maxResponseBody c)" using False by (simp add: word_less_nat_alt)
      have "framed_as out (initial @ got) b (drop ?n initial)" if "s = Ok"
        using got(2,3) got(4) [OF that] nch Some by (cases "?n \<le> length initial") (auto simp: framed_as_def)
      with got le pend b(2) have "?P got b (drop ?n initial)" unfolding c1 by simp
      then show ?thesis by blast
    qed
  next
    case None
    with assms(1) nch have "with_body out (close_loop ops initial t c) = Some (s, out', c')"
      by (simp add: readBody_def)
    then obtain b where b: "close_loop ops initial t c = Some (s, b, c')" "out' = out\<lparr>rs_body := b\<rparr>"
      by (rule with_body_Some)
    from close_loop_facts [OF b(1)] obtain got where
      got: "q c c' got" "s = Ok \<Longrightarrow> b = initial @ got \<and> length (initial @ got) \<le> unat (maxResponseBody c)"
      by auto
    have pend: "pending c' = []" using quiet_fields(9) [OF got(1)] assms(3) by simp
    then have "c\<lparr>pending := pending c'\<rparr> = c"
      using assms(3) by (intro http_client.equality) simp_all
    with got pend b(2) None nch have "?P got b []" by (simp add: framed_as_def)
    then show ?thesis by blast
  qed
qed

lemma finish_keep_alive_facts:
  "recvd (conn (finish_keep_alive ops out hb c)) = recvd (conn c)"
  "sent (conn (finish_keep_alive ops out hb c)) = sent (conn c)"
  "pending (finish_keep_alive ops out hb c) = pending c"
  "sawResponseBytes (finish_keep_alive ops out hb c) = sawResponseBytes c"
  "keepAlive (finish_keep_alive ops out hb c) = keepAlive c"
  "maxResponseBody (finish_keep_alive ops out hb c) = maxResponseBody c"
proof -
  obtain u c1 where u: "conn_connected ops c = (u, c1)" by fastforce
  note q1 = quiet_fields [OF quiet_connected [OF u]]
  show "recvd (conn (finish_keep_alive ops out hb c)) = recvd (conn c)"
    "sent (conn (finish_keep_alive ops out hb c)) = sent (conn c)"
    "pending (finish_keep_alive ops out hb c) = pending c"
    "sawResponseBytes (finish_keep_alive ops out hb c) = sawResponseBytes c"
    "keepAlive (finish_keep_alive ops out hb c) = keepAlive c"
    "maxResponseBody (finish_keep_alive ops out hb c) = maxResponseBody c"
    using q1 stop_quiet by (simp_all add: finish_keep_alive_def Let_def u conn_stop_def)
qed

section \<open>Whole exchanges\<close>

lemma readHeaders_facts:
  assumes "readHeaders ops out t c = Some (s, left, out', c')"
  shows "\<exists>got. recvd (conn c') = recvd (conn c) @ got \<and> sent (conn c') = sent (conn c) \<and>
    keepAlive c' = keepAlive c \<and> maxResponseBody c' = maxResponseBody c \<and> pending c' = [] \<and>
    sawResponseBytes c' = (sawResponseBytes c \<or> pending c \<noteq> [] \<or> got \<noteq> []) \<and>
    rs_body out' = rs_body out \<and>
    (s = Ok \<longrightarrow> (\<exists>head. pending c @ got = head @ crlf2 @ left \<and>
       parseHeaderBlock (head @ crlf) out = (Ok, out')))"
proof -
  let ?c = "if pending c \<noteq> [] then c\<lparr>pending := [], sawResponseBytes := True\<rparr>
    else c\<lparr>pending := []\<rparr>"
  from assms have "header_loop ops (pending c) out t ?c = Some (s, left, out', c')"
    by (simp add: readHeaders_def Let_def split: if_split_asm)
  from header_loop_facts [OF this] obtain got where
    got: "q (?c\<lparr>sawResponseBytes := sawResponseBytes c'\<rparr>) c' got"
    "sawResponseBytes c' = (sawResponseBytes ?c \<or> got \<noteq> [])" "rs_body out' = rs_body out"
    "s = Ok \<Longrightarrow> \<exists>head. pending c @ got = head @ crlf2 @ left \<and>
       parseHeaderBlock (head @ crlf) out = (Ok, out')" by auto
  from quiet_fields [OF got(1)] got(2-4) show ?thesis
    by (intro exI [of _ got]) (auto split: if_splits)
qed

lemma exchange_facts:
  assumes ex: "exchange ops req empty_response start c = Some (s, out', c')"
  shows "\<exists>got. recvd (conn c') = recvd (conn c) @ got \<and> (\<not> sawResponseBytes c' \<longrightarrow>
      got = [] \<and> (pending c' = pending c \<or> pending c' = [])) \<and>
    keepAlive c' = keepAlive c \<and> maxResponseBody c' = maxResponseBody c \<and>
    (s = Ok \<longrightarrow> sent (conn c') = sent (conn c) @ serializeRequest req (keepAlive c) \<and>
       response_of (pending c @ got) out' (pending c') \<and>
       length (rs_body out') \<le> unat (maxResponseBody c))"
  (is "\<exists>got. ?P got")
proof -
  obtain s1 c1 where w: "writeAll ops (serializeRequest req (keepAlive c)) 0 start c = Some (s1, c1)"
    using ex by (auto simp: exchange_def split: option.splits)
  from writeAll_facts [OF w] obtain k h where c1: "c1 = c\<lparr>conn := k, hticks := h\<rparr>"
    and rk: "recvd k = recvd (conn c)"
    and sk: "s1 = Ok \<Longrightarrow> sent k = sent (conn c) @ serializeRequest req (keepAlive c)" by auto
  show ?thesis
  proof (cases "s1 = Ok")
    case False
    with ex w have "s = s1" "c' = c1" by (simp_all add: exchange_def)
    with False c1 rk have "?P []" by simp
    then show ?thesis ..
  next
    case True
    obtain s2 left out1 c2 where
      rh: "readHeaders ops empty_response start c1 = Some (s2, left, out1, c2)"
      using ex w True by (auto simp: exchange_def split: option.splits)
    from readHeaders_facts [OF rh] obtain g where
      g: "recvd (conn c2) = recvd (conn c1) @ g" "sent (conn c2) = sent (conn c1)"
      "keepAlive c2 = keepAlive c1 \<and> maxResponseBody c2 = maxResponseBody c1" "pending c2 = []"
      "sawResponseBytes c2 = (sawResponseBytes c1 \<or> pending c1 \<noteq> [] \<or> g \<noteq> [])"
      "rs_body out1 = rs_body empty_response"
      "s2 = Ok \<Longrightarrow> \<exists>head. pending c1 @ g = head @ crlf2 @ left \<and>
         parseHeaderBlock (head @ crlf) empty_response = (Ok, out1)"
      by blast
    show ?thesis
    proof (cases "s2 = Ok")
      case False
      with ex w rh \<open>s1 = Ok\<close> have "s \<noteq> Ok" "c' = c2" by (auto simp: exchange_def)
      with g c1 rk have "?P g" by simp
      then show ?thesis ..
    next
      case s2: True
      from g(7) [OF s2] c1 obtain head where head: "pending c @ g = head @ crlf2 @ left"
        "parseHeaderBlock (head @ crlf) empty_response = (Ok, out1)" by auto
      then have "pending c \<noteq> [] \<or> g \<noteq> []" by (auto simp: crlf2_def)
      then have saw2: "sawResponseBytes c2" using g(5) c1 by simp
      let ?body = "if status_has_body out1 then readBody ops left out1 start c2 else Some (Ok, out1, c2)"
      obtain s3 out3 c3 where b: "?body = Some (s3, out3, c3)"
        using ex w rh True s2 by (auto simp: exchange_def split: option.splits if_splits)
      have res: "s = s3" "out' = out3" "c' = c3 \<or> s3 = Ok \<and>
          c' = finish_keep_alive ops out3 (status_has_body out1) c3"
        using ex w rh b True s2 by (auto simp: exchange_def split: if_splits)
      have same: "recvd (conn c') = recvd (conn c3)" "sent (conn c') = sent (conn c3)"
        "pending c' = pending c3" "sawResponseBytes c' = sawResponseBytes c3"
        "keepAlive c' = keepAlive c3" "maxResponseBody c' = maxResponseBody c3"
        using res(3) finish_keep_alive_facts by auto
      have body: "\<exists>got. recvd (conn c3) = recvd (conn c2) @ got \<and> sent (conn c3) = sent (conn c2) \<and>
          keepAlive c3 = keepAlive c2 \<and> maxResponseBody c3 = maxResponseBody c2 \<and>
          sawResponseBytes c3 \<and> (s3 = Ok \<longrightarrow> out3\<lparr>rs_body := []\<rparr> = out1 \<and>
            length (rs_body out3) \<le> unat (maxResponseBody c2) \<and>
            (if status_has_body out3 then framed_as out3 (left @ got) (rs_body out3) (pending c3)
             else rs_body out3 = [] \<and> pending c3 = [] \<and> got = []))"
      proof (cases "status_has_body out1")
        case False
        with b have "s3 = Ok" "out3 = out1" "c3 = c2" by simp_all
        with False g saw2 show ?thesis
          by (auto simp: empty_response_def intro!: exI [of _ "[]"] http_response.equality)
      next
        case True
        with b have rb: "readBody ops left out1 start c2 = Some (s3, out3, c3)" by simp
        have o1: "rs_body out1 = []" using g(6) by (simp add: empty_response_def)
        from readBody_facts [OF rb o1 g(4)] obtain got body where
          got: "q (c2\<lparr>pending := pending c3\<rparr>) c3 got"
          "s3 = Ok \<Longrightarrow> out3 = out1\<lparr>rs_body := body\<rparr> \<and> length body \<le> unat (maxResponseBody c2) \<and>
            framed_as out1 (left @ got) body (pending c3)" by blast
        have "out1\<lparr>rs_body := []\<rparr> = out1" using o1 by (intro http_response.equality) simp_all
        with got(2) True quiet_fields [OF got(1)] saw2 show ?thesis
          by (intro exI [of _ got]) auto
      qed
      then obtain got where got: "recvd (conn c3) = recvd (conn c2) @ got"
        "sent (conn c3) = sent (conn c2)" "sawResponseBytes c3"
        "keepAlive c3 = keepAlive c2 \<and> maxResponseBody c3 = maxResponseBody c2"
        "s3 = Ok \<Longrightarrow> out3\<lparr>rs_body := []\<rparr> = out1 \<and>
            length (rs_body out3) \<le> unat (maxResponseBody c2) \<and>
            (if status_has_body out3 then framed_as out3 (left @ got) (rs_body out3) (pending c3)
             else rs_body out3 = [] \<and> pending c3 = [] \<and> got = [])"
        by blast
      have resp: "response_of (pending c @ (g @ got)) out' (pending c')" if "s = Ok"
      proof -
        have "pending c @ (g @ got) = head @ crlf2 @ (left @ got)" using head(1) by simp
        then show ?thesis
          by (rule response_ofI) (use got(5) that res head(2) same in \<open>auto split: if_splits\<close>)
      qed
      have "?P (g @ got)"
        using g same got res resp c1 rk sk True by auto
      then show ?thesis ..
    qed
  qed
qed

lemma ensure_connected_facts:
  assumes "ensure_connected ops True req c = (s, c')"
  shows "recvd (conn c') = recvd (conn c)" "sent (conn c') = sent (conn c)"
    "pending c' = pending c \<or> pending c' = []" "sawResponseBytes c' = sawResponseBytes c"
    "keepAlive c' = keepAlive c" "maxResponseBody c' = maxResponseBody c"
proof -
  obtain u c1 where u: "conn_connected ops c = (u, c1)" by fastforce
  note q1 = quiet_fields [OF quiet_connected [OF u]]
  obtain e k where k: "cn_connect ops (c_str (rq_host req)) (rq_port req) (conn c1) = (e, k)" by fastforce
  note ck = connect_quiet [OF k]
  show "recvd (conn c') = recvd (conn c)" "sent (conn c') = sent (conn c)"
    "pending c' = pending c \<or> pending c' = []" "sawResponseBytes c' = sawResponseBytes c"
    "keepAlive c' = keepAlive c" "maxResponseBody c' = maxResponseBody c"
    using assms q1 ck by (auto simp: ensure_connected_def u k Let_def http_log_def split: if_splits)
qed

lemma sendOnce_facts:
  assumes "sendOnce ops req empty_response c = Some (s, out', c')"
  shows "\<exists>pre got. recvd (conn c') = recvd (conn c) @ got \<and> (pre = pending c \<or> pre = []) \<and>
    (\<not> sawResponseBytes c' \<longrightarrow>
      got = [] \<and> (pending c' = pending c \<or> pending c' = [])) \<and>
    keepAlive c' = keepAlive c \<and> maxResponseBody c' = maxResponseBody c \<and>
    (s = Ok \<longrightarrow> sent (conn c') = sent (conn c) @ serializeRequest req (keepAlive c) \<and>
       response_of (pre @ got) out' (pending c') \<and>
       length (rs_body out') \<le> unat (maxResponseBody c))"
  (is "\<exists>pre got. ?P pre got")
proof -
  obtain t c1 where t: "now c = (t, c1)" by fastforce
  then have c1: "conn c1 = conn c" "pending c1 = pending c" "keepAlive c1 = keepAlive c"
    "maxResponseBody c1 = maxResponseBody c"
    by (auto simp: now_def split: option.splits)
  let ?c1 = "c1\<lparr>sawResponseBytes := False, reusable := False\<rparr>"
  obtain e c2 where e: "ensure_connected ops True req ?c1 = (e, c2)" by fastforce
  note en = ensure_connected_facts [OF e]
  show ?thesis
  proof (cases "e = Ok")
    case False
    with assms t e have "s \<noteq> Ok" "c' = c2" by (auto simp: sendOnce_def)
    with en c1 have "?P [] []" by simp
    then show ?thesis by blast
  next
    case True
    with assms t e have "exchange ops req empty_response t c2 = Some (s, out', c')"
      by (simp add: sendOnce_def)
    from exchange_facts [OF this] obtain got where
      "recvd (conn c') = recvd (conn c2) @ got" "\<not> sawResponseBytes c' \<longrightarrow>
        got = [] \<and> (pending c' = pending c2 \<or> pending c' = [])"
      "keepAlive c' = keepAlive c2 \<and> maxResponseBody c' = maxResponseBody c2"
      "s = Ok \<longrightarrow> sent (conn c') = sent (conn c2) @ serializeRequest req (keepAlive c2) \<and>
         response_of (pending c2 @ got) out' (pending c') \<and>
         length (rs_body out') \<le> unat (maxResponseBody c2)"
      by blast
    with en c1 have "?P (pending c2) got" by auto
    then show ?thesis by blast
  qed
qed

lemma send_facts:
  assumes "send ops req empty_response c = Some (Ok, out', c')"
  shows "\<exists>pre got. recvd (conn c') = recvd (conn c) @ got \<and> (pre = pending c \<or> pre = []) \<and>
    suffix (serializeRequest req (keepAlive c)) (sent (conn c')) \<and>
    response_of (pre @ got) out' (pending c') \<and> length (rs_body out') \<le> unat (maxResponseBody c)"
proof -
  obtain u c0 where u: "conn_connected ops c = (u, c0)" by fastforce
  note q0 = quiet_fields [OF quiet_connected [OF u]]
  obtain s1 out1 c1 where o: "sendOnce ops req empty_response c0 = Some (s1, out1, c1)"
    using assms u by (auto simp: send_def split: option.splits)
  from sendOnce_facts [OF o] obtain pre got where
    once: "recvd (conn c1) = recvd (conn c0) @ got" "pre = pending c0 \<or> pre = []"
    "\<not> sawResponseBytes c1 \<longrightarrow> got = [] \<and> (pending c1 = pending c0 \<or> pending c1 = [])"
    "keepAlive c1 = keepAlive c0 \<and> maxResponseBody c1 = maxResponseBody c0"
    "s1 = Ok \<longrightarrow> sent (conn c1) = sent (conn c0) @ serializeRequest req (keepAlive c0) \<and>
       response_of (pre @ got) out1 (pending c1) \<and>
       length (rs_body out1) \<le> unat (maxResponseBody c0)" by blast
  show ?thesis
  proof (cases "s1 \<noteq> Ok \<and> u \<and> \<not> sawResponseBytes c1 \<and> stale_error s1")
    case False
    with assms u o have "s1 = Ok" "out' = out1" "c' = c1" by (auto simp: send_def)
    with once q0 show ?thesis
      by (intro exI [of _ pre] exI [of _ got]) (auto simp: suffix_def)
  next
    case True
    let ?c2 = "conn_stop ops
      (http_log LvInfo ''http: reused connection was stale, retrying once'' c1)"
    from assms u o True have r: "sendOnce ops req empty_response ?c2 = Some (Ok, out', c')"
      by (simp add: send_def)
    have same: "pending ?c2 = pending c1" "recvd (conn ?c2) = recvd (conn c1)" "keepAlive ?c2 = keepAlive c1"
      "maxResponseBody ?c2 = maxResponseBody c1"
      using stop_quiet by (simp_all add: conn_stop_def http_log_def)
    from True once(3) have none: "recvd (conn ?c2) = recvd (conn c)" using same once(1) q0 by simp
    have "\<exists>pre got. recvd (conn c') = recvd (conn ?c2) @ got \<and> (pre = pending ?c2 \<or> pre = []) \<and>
      suffix (serializeRequest req (keepAlive ?c2)) (sent (conn c')) \<and>
      response_of (pre @ got) out' (pending c') \<and>
      length (rs_body out') \<le> unat (maxResponseBody ?c2)"
      using sendOnce_facts [OF r] by (auto simp: suffix_def)
    moreover have "pending ?c2 = pending c \<or> pending ?c2 = []"
      using once(3) True q0 same(1) by auto
    ultimately show ?thesis
      using same(3,4) none once(4) q0 by auto
  qed
qed

end

end
