(* ===== verification/Fake_Connection.thy ===== *)
theory Fake_Connection
  imports Connection
begin

text \<open>
  The scripted connection the repository tests its transport with, test/fakes/FakeConnection.h.
  It interprets the socket laws; while it neither stalls nor waits for a further request it is a
  peer that delivers what is left of its current response.  \<open>served\<close> is a ghost field, the bytes
  its reads have returned.
\<close>

record fake_connection =
  toSend :: string
  written :: string
  fchunk :: nat
  closeWhenDrained :: bool
  stall :: bool
  connectResult :: status
  responses :: "string list"
  keepAliveServer :: bool
  staleAfterDrain :: bool
  connectCount :: nat
  stopCount :: nat
  failFirstConnects :: nat
  fconnected :: bool
  readPos :: nat
  responseIdx :: nat
  served :: string

definition fake_new :: fake_connection where
  "fake_new =
     \<lparr>toSend = [], written = [], fchunk = 0, closeWhenDrained = True, stall = False,
      connectResult = Ok, responses = [], keepAliveServer = False, staleAfterDrain = False,
      connectCount = 0, stopCount = 0, failFirstConnects = 0, fconnected = False, readPos = 0,
      responseIdx = 0, served = []\<rparr>"

definition fake_connect :: "string \<Rightarrow> u16 \<Rightarrow> fake_connection \<Rightarrow> status \<times> fake_connection" where
  "fake_connect host port f =
     (if connectResult f \<noteq> Ok then (connectResult f, f)
      else if 0 < failFirstConnects f then
        (ConnectFailed, f\<lparr>failFirstConnects := failFirstConnects f - 1\<rparr>)
      else
        (let f1 = f\<lparr>connectCount := connectCount f + 1\<rparr>;
             f2 = (if responses f1 \<noteq> [] then
                     f1\<lparr>toSend := responses f1 !
                          (if responseIdx f1 < length (responses f1) then responseIdx f1
                           else length (responses f1) - 1),
                        responseIdx := responseIdx f1 + 1, readPos := 0\<rparr>
                   else f1)
         in (Ok, f2\<lparr>fconnected := True\<rparr>)))"

definition fake_write :: "string \<Rightarrow> fake_connection \<Rightarrow> int \<times> fake_connection" where
  "fake_write dat f =
     (let f1 = (if keepAliveServer f \<and> responses f \<noteq> [] \<and> length (toSend f) \<le> readPos f \<and>
                   responseIdx f < length (responses f)
                then f\<lparr>toSend := responses f ! responseIdx f, responseIdx := responseIdx f + 1,
                       readPos := 0\<rparr>
                else f)
      in (int (length dat), f1\<lparr>written := written f1 @ dat\<rparr>))"

definition fake_available :: "fake_connection \<Rightarrow> int \<times> fake_connection" where
  "fake_available f = (if stall f then 0 else int (length (toSend f)) - int (readPos f), f)"

definition fake_read :: "nat \<Rightarrow> fake_connection \<Rightarrow> string option \<times> fake_connection" where
  "fake_read len f =
     (if stall f then (Some [], f)
      else if length (toSend f) \<le> readPos f then
        (if staleAfterDrain f then (None, f)
         else if closeWhenDrained f then (None, f\<lparr>fconnected := False\<rparr>)
         else (Some [], f))
      else
        (let remaining = length (toSend f) - readPos f;
             take0 = min len remaining;
             take1 = (if 0 < fchunk f then min take0 (fchunk f) else take0);
             bs = take take1 (drop (readPos f) (toSend f))
         in (Some bs, f\<lparr>readPos := readPos f + take1, served := served f @ bs\<rparr>)))"

definition fake_stop :: "fake_connection \<Rightarrow> fake_connection" where
  "fake_stop f =
     (if fconnected f then f\<lparr>stopCount := stopCount f + 1, fconnected := False\<rparr>
      else f\<lparr>fconnected := False\<rparr>)"

definition fake_ops :: "fake_connection conn_ops" where
  "fake_ops =
     \<lparr>cn_connect = fake_connect, cn_connected = (\<lambda>f. (fconnected f, f)), cn_write = fake_write,
      cn_read = fake_read, cn_available = fake_available, cn_stop = fake_stop\<rparr>"

definition fake_stream :: "fake_connection \<Rightarrow> string" where
  "fake_stream f = drop (readPos f) (toSend f)"

definition fake_up :: "fake_connection \<Rightarrow> bool" where
  "fake_up f \<longleftrightarrow> fconnected f \<and> \<not> stall f \<and> \<not> keepAliveServer f"

lemmas fake_defs = fake_ops_def fake_connect_def fake_write_def fake_available_def fake_read_def
  fake_stop_def Let_def

lemma drop_take_split: "drop n s = take k (drop n s) @ drop (n + k) s"
  by (metis append_take_drop_id drop_drop add.commute)

interpretation fake: connection fake_ops written served
  by unfold_locales (auto simp: fake_defs split: if_splits)

interpretation fake: peer fake_ops written served fake_stream fake_up
proof
  fix f :: fake_connection and len :: nat and dat :: string
  assume up: "fake_up f"
  then show "\<exists>f'. cn_connected fake_ops f = (True, f') \<and> fake_up f' \<and> fake_stream f' = fake_stream f"
    by (simp add: fake_ops_def fake_up_def)
  show "\<exists>f'. cn_write fake_ops dat f = (int (length dat), f') \<and> fake_up f' \<and>
      fake_stream f' = fake_stream f"
    using up by (simp add: fake_defs fake_up_def fake_stream_def)
  assume "fake_stream f \<noteq> []" "0 < len"
  then show "\<exists>bs f'. cn_read fake_ops len f = (Some bs, f') \<and> bs \<noteq> [] \<and> fake_up f' \<and>
      fake_stream f = bs @ fake_stream f'"
    using up by (auto simp: fake_defs fake_up_def fake_stream_def not_le intro: drop_take_split)
qed

end
