(* ===== verification/Http_Peer.thy ===== *)
theory Http_Peer
  imports Http_Exchange Fake_Connection
begin

text \<open>
  The HTTP client against a server that delivers its stream (locale \<open>peer\<close>): an exchange ends, and
  returns the response the server sent, however its bytes are cut into reads.  The lemmas run each
  loop of the client on such a server by induction on what is left to deliver.
\<close>

definition cfg :: "'s http_client \<Rightarrow> u32 \<times> u16 \<times> bool \<times> (nat \<Rightarrow> u32) option" where
  "cfg c = (maxResponseBody c, recvBufferSize c, keepAlive c, hclock c)"

lemma cfg_simps [simp]:
  "cfg (c\<lparr>conn := k\<rparr>) = cfg c" "cfg (c\<lparr>hticks := h\<rparr>) = cfg c"
  "cfg (c\<lparr>sawResponseBytes := b\<rparr>) = cfg c" "cfg (c\<lparr>reusable := b\<rparr>) = cfg c"
  "cfg (c\<lparr>pending := p\<rparr>) = cfg c"
  by (simp_all add: cfg_def)

lemma cfg_eq:
  "cfg a = cfg b \<longleftrightarrow> maxResponseBody a = maxResponseBody b \<and>
     recvBufferSize a = recvBufferSize b \<and> keepAlive a = keepAlive b \<and> hclock a = hclock b"
  by (simp add: cfg_def)

lemma now_obtain:
  obtains t h where "now c = (t, c\<lparr>hticks := h\<rparr>)"
proof (cases "hclock c")
  case None
  then show thesis
    using that [of 0 "hticks c"] by (simp add: now_def)
next
  case (Some f)
  then show thesis
    using that [of "f (hticks c)" "hticks c + 1"] by (simp add: now_def)
qed

text \<open>The decoder only ever adds to its output, and a run that ends well has no error on the way.\<close>

lemma cd_run_grows: "cd_run d xs out = (s, d', out') \<Longrightarrow> prefix out out'"
proof (induction d xs out rule: cd_run.induct)
  case (1 d out)
  then show ?case by simp
next
  case (2 d c cs out)
  show ?case
  proof (cases "cd_step d c")
    case (Inl e)
    with "2.prems" show ?thesis by simp
  next
    case (Inr p)
    obtain e bs where p: "p = (e, bs)" by fastforce
    with Inr "2.prems" have "cd_run e cs (out @ bs) = (s, d', out')" by simp
    from "2.IH" [OF Inr p [symmetric] this] show ?thesis
      by (meson prefixI prefix_order.order_trans)
  qed
qed

context reader
begin

lemma conn_read_up:
  assumes "up (conn c)" "stream (conn c) \<noteq> []" "0 < n"
  obtains bs k where "conn_read ops n c = (Some bs, c\<lparr>conn := k\<rparr>)" "bs \<noteq> []" "length bs \<le> n"
    "up k" "stream (conn c) = bs @ stream k"
proof -
  from up_read [OF assms] obtain bs k where
    k: "cn_read ops n (conn c) = (Some bs, k)" "bs \<noteq> []" "up k" "stream (conn c) = bs @ stream k"
    by blast
  moreover have "length bs \<le> n" using read_some [OF k(1)] by simp
  ultimately show ?thesis using that by (simp add: conn_read_def)
qed

lemma run_length_loop:
  "up (conn c) \<Longrightarrow> recvBufferSize c \<noteq> 0 \<Longrightarrow> body @ stream (conn c) = b @ tail \<Longrightarrow>
     length body \<le> length b \<Longrightarrow>
     \<exists>c'. length_loop ops (length b) body t c = Some (Ok, b, c') \<and> up (conn c') \<and>
       stream (conn c') = tail \<and> cfg c' = cfg c \<and> pending c' = pending c"
proof (induction "length b - length body" arbitrary: body c rule: less_induct)
  case less
  show ?case
  proof (cases "length body < length b")
    case False
    with less.prems(3,4) have "body = b" "stream (conn c) = tail" by simp_all
    with less.prems(1) show ?thesis by (simp add: length_loop.simps [of ops "length b"])
  next
    case True
    let ?n = "min (length b - length body) (unat (recvBufferSize c))"
    have "stream (conn c) \<noteq> []"
    proof
      assume "stream (conn c) = []"
      with less.prems(3) have "length body = length b + length tail" by (metis append_Nil2 length_append)
      with True show False by simp
    qed
    moreover have "0 < ?n" using True less.prems(2) by (simp add: unat_gt_0)
    ultimately obtain bs k where rd: "conn_read ops ?n c = (Some bs, c\<lparr>conn := k\<rparr>)" "bs \<noteq> []"
      "length bs \<le> ?n" "up k" "stream (conn c) = bs @ stream k"
      by (rule conn_read_up [OF less.prems(1)])
    have fit: "length (body @ bs) \<le> length b" using rd(3) True by auto
    have "length b - length (body @ bs) < length b - length body" using rd(2) True by (cases bs) auto
    moreover have "up (conn (c\<lparr>conn := k\<rparr>))" "recvBufferSize (c\<lparr>conn := k\<rparr>) \<noteq> 0"
      "(body @ bs) @ stream (conn (c\<lparr>conn := k\<rparr>)) = b @ tail"
      using rd less.prems by simp_all
    ultimately obtain c' where
      "length_loop ops (length b) (body @ bs) t (c\<lparr>conn := k\<rparr>) = Some (Ok, b, c')" "up (conn c')"
      "stream (conn c') = tail" "cfg c' = cfg c" "pending c' = pending c"
      using less.hyps fit by fastforce
    then show ?thesis
      using True rd(1,2) fit by (simp add: length_loop.simps [of ops "length b" body])
  qed
qed

lemma run_chunked_loop:
  "up (conn c) \<Longrightarrow> recvBufferSize c \<noteq> 0 \<Longrightarrow> cd_inv d \<Longrightarrow>
     cd_run d (stream (conn c)) body = (Ok, d', b) \<Longrightarrow> dstate d' = StDone \<Longrightarrow>
     length b \<le> unat (maxResponseBody c) \<Longrightarrow>
     \<exists>c'. chunked_loop ops d (dstate d = StDone) body t c = Some (Ok, b, c') \<and> up (conn c') \<and>
       cfg c' = cfg c \<and> pending c' = pending c"
proof (induction "length (stream (conn c))" arbitrary: d body c rule: less_induct)
  case less
  from cd_run_grows [OF less.prems(4)] have le: "length body \<le> length b" by (rule prefix_length_le)
  show ?case
  proof (cases "dstate d = StDone")
    case True
    with less.prems(4) have "body = b" by (simp add: cd_run_Done)
    with True less.prems show ?thesis
      by (intro exI [of _ c]) (simp add: chunked_loop.simps [of ops d])
  next
    case False
    then have "stream (conn c) \<noteq> []" using less.prems(4,5) by auto
    moreover have "0 < unat (recvBufferSize c)" using less.prems(2) by (simp add: unat_gt_0)
    ultimately obtain bs k where rd: "conn_read ops (unat (recvBufferSize c)) c = (Some bs, c\<lparr>conn := k\<rparr>)"
      "bs \<noteq> []" "length bs \<le> unat (recvBufferSize c)" "up k" "stream (conn c) = bs @ stream k"
      by (rule conn_read_up [OF less.prems(1)])
    obtain s e body' where r: "cd_run d bs body = (s, e, body')" by (metis prod_cases3)
    with less.prems(4) rd(5) have s: "s = Ok" and rest: "cd_run e (stream k) body' = (Ok, d', b)"
      by (auto simp: cd_run_append split: if_splits)
    have "length (stream k) < length (stream (conn c))" using rd(2,5) by simp
    from less.hyps [of "c\<lparr>conn := k\<rparr>" e body'] this rd(4) rest less.prems(2,5,6)
      cd_run_inv [OF less.prems(3) r] obtain c' where
      "chunked_loop ops e (dstate e = StDone) body' t (c\<lparr>conn := k\<rparr>) = Some (Ok, b, c')"
      "up (conn c')" "cfg c' = cfg c" "pending c' = pending c" by auto
    then show ?thesis
      using False rd(1,2) r s le less.prems(3,6)
      by (simp add: chunked_loop.simps [of ops d] cd_feed_run)
  qed
qed

lemma run_header_loop:
  "up (conn c) \<Longrightarrow> recvBufferSize c \<noteq> 0 \<Longrightarrow> acc @ stream (conn c) = head @ crlf2 @ tail \<Longrightarrow>
     find_idx crlf2 (head @ crlf2 @ tail) = Some (length head) \<Longrightarrow>
     length head + 4 \<le> kMaxHeaderSection \<Longrightarrow>
     parseHeaderBlock (head @ crlf) out = (Ok, out') \<Longrightarrow>
     \<exists>left c'. header_loop ops acc out t c = Some (Ok, left, out', c') \<and> up (conn c') \<and>
       left @ stream (conn c') = tail \<and> cfg c' = cfg c \<and> pending c' = pending c"
proof (induction "length (stream (conn c))" arbitrary: acc c rule: less_induct)
  case less
  show ?case
  proof (cases "str_find acc crlf2 0")
    case (Some e)
    note sp = head_split [OF Some]
    from Some have f: "find_idx crlf2 acc = Some e" by (simp add: str_find_def split: if_splits)
    have "find_idx crlf2 (acc @ stream (conn c)) = Some e"
      using f by (rule find_idx_prefix)
    with less.prems(3,4) have e: "e = length head" by simp
    have "e + 4 \<le> length acc" using find_idx_length [OF f] by (simp add: crlf2_def)
    then have hd_eq: "take e acc = head"
      using arg_cong [OF less.prems(3), of "take e"] e by simp
    obtain x where x: "x = substr_from acc (e + 4)" by simp
    with sp(1) hd_eq have "acc = head @ crlf2 @ x" by simp
    with less.prems(3) have "x @ stream (conn c) = tail" by simp
    with x hd_eq have "take e acc = head" "substr_from acc (e + 4) @ stream (conn c) = tail" by simp_all
    with sp(2) less.prems(1,6) Some show ?thesis
      by (simp add: header_loop.simps [of ops acc])
  next
    case None
    have short: "length acc < length head + 4"
    proof (rule ccontr)
      assume "\<not> length acc < length head + 4"
      then obtain r where "acc = head @ crlf2 @ r"
        using less.prems(3) by (auto simp: crlf2_def append_eq_append_conv2 append_eq_Cons_conv
            Cons_eq_append_conv)
      then have "sublist crlf2 acc" by (auto simp: sublist_def)
      then have "find_idx crlf2 acc \<noteq> None" by (simp add: find_idx_None_iff)
      with None show False by (simp add: str_find_def)
    qed
    have "stream (conn c) \<noteq> []"
    proof
      assume "stream (conn c) = []"
      with less.prems(3) have "acc = head @ crlf2 @ tail" by simp
      with short show False by (simp add: crlf2_def)
    qed
    moreover have "0 < unat (recvBufferSize c)" using less.prems(2) by (simp add: unat_gt_0)
    ultimately obtain bs k where rd: "conn_read ops (unat (recvBufferSize c)) c = (Some bs, c\<lparr>conn := k\<rparr>)"
      "bs \<noteq> []" "length bs \<le> unat (recvBufferSize c)" "up k" "stream (conn c) = bs @ stream k"
      by (rule conn_read_up [OF less.prems(1)])
    let ?c = "c\<lparr>conn := k, sawResponseBytes := True\<rparr>"
    have "length (stream k) < length (stream (conn c))" using rd(2,5) by simp
    from less.hyps [of ?c "acc @ bs"] this rd(4,5) less.prems(2-6) obtain left c' where
      "header_loop ops (acc @ bs) out t ?c = Some (Ok, left, out', c')" "up (conn c')"
      "left @ stream (conn c') = tail" "cfg c' = cfg c" "pending c' = pending c"
      by auto
    then show ?thesis
      using None short less.prems(5) rd(1,2) by (simp add: header_loop.simps [of ops acc])
  qed
qed

lemma run_readHeaders:
  assumes "up (conn c)" "recvBufferSize c \<noteq> 0" "pending c @ stream (conn c) = head @ crlf2 @ tail"
    "find_idx crlf2 (head @ crlf2 @ tail) = Some (length head)"
    "length head + 4 \<le> kMaxHeaderSection" "parseHeaderBlock (head @ crlf) out = (Ok, out')"
  shows "\<exists>left c'. readHeaders ops out t c = Some (Ok, left, out', c') \<and> up (conn c') \<and>
    left @ stream (conn c') = tail \<and> cfg c' = cfg c \<and> pending c' = []"
proof (cases "pending c = []")
  case True
  with assms run_header_loop [of "c\<lparr>pending := []\<rparr>" "[]" head tail out out' t] show ?thesis
    by (simp add: readHeaders_def Let_def)
next
  case False
  with assms run_header_loop [of "c\<lparr>pending := [], sawResponseBytes := True\<rparr>" "pending c" head tail out out' t]
  show ?thesis by (simp add: readHeaders_def Let_def)
qed

lemma run_readBody_length:
  assumes "up (conn c)" "recvBufferSize c \<noteq> 0" "\<not> is_chunked out" "pending c = []"
    and cl: "response_header out ''Content-Length'' = Some cl"
    and want: "unat (parse_content_length 0 cl) = length b" "length b \<le> unat (maxResponseBody c)"
    and bytes: "initial @ stream (conn c) = b @ tail"
  shows "\<exists>c'. readBody ops initial out t c = Some (Ok, out\<lparr>rs_body := b\<rparr>, c') \<and> up (conn c') \<and>
    pending c' @ stream (conn c') = tail \<and> cfg c' = cfg c"
proof -
  let ?c = "if length b < length initial then c\<lparr>pending := drop (length b) initial\<rparr> else c"
  have eq: "readBody ops initial out t c =
      with_body out (length_loop ops (length b) (take (length b) initial) t ?c)"
    using assms(3) cl want by (simp add: readBody_def Let_def word_less_nat_alt substr_from_def)
  show ?thesis
  proof (cases "length b < length initial")
    case True
    have "take (length b) initial = b"
      using arg_cong [OF bytes, of "take (length b)"] True by simp
    moreover have "drop (length b) initial @ stream (conn c) = tail"
      using arg_cong [OF bytes, of "drop (length b)"] True by simp
    ultimately show ?thesis
      unfolding eq using True assms(1) by (simp add: length_loop.simps [of ops "length b"] with_body_def)
  next
    case False
    then have "take (length b) initial = initial" by simp
    moreover from run_length_loop [OF assms(1,2) bytes, of t] False obtain c' where
      "length_loop ops (length b) initial t c = Some (Ok, b, c')" "up (conn c')"
      "stream (conn c') = tail" "cfg c' = cfg c" "pending c' = pending c" by auto
    ultimately show ?thesis unfolding eq using False assms(4) by (simp add: with_body_def)
  qed
qed

lemma run_readBody_chunked:
  assumes "up (conn c)" "recvBufferSize c \<noteq> 0" "is_chunked out" "rs_body out = []"
    and run: "cd_run cd_reset (initial @ stream (conn c)) [] = (Ok, d', b)" "dstate d' = StDone"
    and fits: "length b \<le> unat (maxResponseBody c)"
  shows "\<exists>c'. readBody ops initial out t c = Some (Ok, out\<lparr>rs_body := b\<rparr>, c') \<and> up (conn c') \<and>
    pending c' = pending c \<and> cfg c' = cfg c"
proof -
  obtain s e body where r: "cd_run cd_reset initial [] = (s, e, body)" by (metis prod_cases3)
  with run(1) have s: "s = Ok" and rest: "cd_run e (stream (conn c)) body = (Ok, d', b)"
    by (auto simp: cd_run_append split: if_splits)
  have "cd_inv e" using cd_run_inv [OF _ r] by simp
  from run_chunked_loop [OF assms(1,2) this rest run(2) fits, of t] show ?thesis
    using assms(3,4) r s by (auto simp: readBody_def cd_feed_run with_body_def)
qed

lemma run_finish:
  assumes "up (conn c)" "response_header out ''Connection'' = None"
    and "response_header out ''Content-Length'' \<noteq> None \<or> is_chunked out"
  shows "up (conn (finish_keep_alive ops out hb c)) \<and>
    stream (conn (finish_keep_alive ops out hb c)) = stream (conn c) \<and>
    pending (finish_keep_alive ops out hb c) = pending c \<and> cfg (finish_keep_alive ops out hb c) = cfg c"
proof -
  from up_connected [OF assms(1)] obtain k where
    k: "cn_connected ops (conn c) = (True, k)" "up k" "stream k = stream (conn c)" by blast
  with assms(2,3) show ?thesis
    by (auto simp: finish_keep_alive_def Let_def conn_connected_def)
qed

text \<open>One exchange, given that the request is written and what the body reader does.\<close>

lemma exchange_written:
  assumes w: "writeAll ops (serializeRequest req (keepAlive c0)) 0 t c0 = Some (Ok, c)"
    and cfg0: "cfg c = cfg c0"
    and up: "up (conn c)" and rb: "recvBufferSize c \<noteq> 0"
    and bytes: "pending c @ stream (conn c) = head @ crlf2 @ rest"
    and first: "find_idx crlf2 (head @ crlf2 @ rest) = Some (length head)"
    and small: "length head + 4 \<le> kMaxHeaderSection"
    and head: "parseHeaderBlock (head @ crlf) empty_response = (Ok, out1)"
    and framed: "status_has_body out1" "response_header out1 ''Connection'' = None"
      "response_header out1 ''Content-Length'' \<noteq> None \<or> is_chunked out1"
    and body: "\<And>left c2 t. up (conn c2) \<Longrightarrow> left @ stream (conn c2) = rest \<Longrightarrow> cfg c2 = cfg c \<Longrightarrow>
      pending c2 = [] \<Longrightarrow> \<exists>c'. readBody ops left out1 t c2 = Some (Ok, out1\<lparr>rs_body := b\<rparr>, c') \<and>
        up (conn c') \<and> P (pending c' @ stream (conn c')) \<and> cfg c' = cfg c"
  shows "\<exists>c'. exchange ops req empty_response t c0 = Some (Ok, out1\<lparr>rs_body := b\<rparr>, c') \<and>
    up (conn c') \<and> P (pending c' @ stream (conn c')) \<and> cfg c' = cfg c"
proof -
  from run_readHeaders [OF up rb bytes first small head, of t] obtain left c4 where
    rh: "readHeaders ops empty_response t c = Some (Ok, left, out1, c4)" "up (conn c4)"
    "left @ stream (conn c4) = rest" "cfg c4 = cfg c" "pending c4 = []" by auto
  from body [OF rh(2-5), of t] obtain c5 where
    b: "readBody ops left out1 t c4 = Some (Ok, out1\<lparr>rs_body := b\<rparr>, c5)" "up (conn c5)"
    "P (pending c5 @ stream (conn c5))" "cfg c5 = cfg c" by blast
  let ?c6 = "if keepAlive c5 then finish_keep_alive ops (out1\<lparr>rs_body := b\<rparr>) True c5 else c5"
  have "exchange ops req empty_response t c0 = Some (Ok, out1\<lparr>rs_body := b\<rparr>, ?c6)"
    using w rh(1) b(1) framed(1) by (simp add: exchange_def)
  moreover have "up (conn ?c6) \<and> P (pending ?c6 @ stream (conn ?c6)) \<and> cfg ?c6 = cfg c"
    using run_finish [OF b(2), of "out1\<lparr>rs_body := b\<rparr>" True] framed b by auto
  ultimately show ?thesis by blast
qed

end

context peer
begin

lemma run_writeAll:
  assumes "up (conn c)"
  shows "\<exists>c'. writeAll ops dat 0 t c = Some (Ok, c') \<and> up (conn c') \<and>
    stream (conn c') = stream (conn c) \<and> cfg c' = cfg c \<and> pending c' = pending c"
proof (cases "dat = []")
  case True
  with assms show ?thesis by (simp add: writeAll.simps [of ops "[]"])
next
  case False
  from up_write [OF assms] obtain k where
    k: "cn_write ops dat (conn c) = (int (length dat), k)" "up k" "stream k = stream (conn c)" by blast
  from False k(1) have "writeAll ops dat 0 t c = Some (Ok, c\<lparr>conn := k\<rparr>)"
    by (simp add: writeAll.simps [of ops dat 0] writeAll.simps [of ops dat "length dat"] conn_write_def)
  with k show ?thesis by simp
qed

lemma run_exchange:
  assumes up: "up (conn c)" and rb: "recvBufferSize c \<noteq> 0"
    and bytes: "pending c @ stream (conn c) = head @ crlf2 @ rest"
    and first: "find_idx crlf2 (head @ crlf2 @ rest) = Some (length head)"
    and small: "length head + 4 \<le> kMaxHeaderSection"
    and head: "parseHeaderBlock (head @ crlf) empty_response = (Ok, out1)"
    and framed: "status_has_body out1" "response_header out1 ''Connection'' = None"
      "response_header out1 ''Content-Length'' \<noteq> None \<or> is_chunked out1"
    and body: "\<And>left c2 t. up (conn c2) \<Longrightarrow> left @ stream (conn c2) = rest \<Longrightarrow> cfg c2 = cfg c \<Longrightarrow>
      pending c2 = [] \<Longrightarrow> \<exists>c'. readBody ops left out1 t c2 = Some (Ok, out1\<lparr>rs_body := b\<rparr>, c') \<and>
        up (conn c') \<and> P (pending c' @ stream (conn c')) \<and> cfg c' = cfg c"
  shows "\<exists>c'. exchange ops req empty_response t c = Some (Ok, out1\<lparr>rs_body := b\<rparr>, c') \<and>
    up (conn c') \<and> P (pending c' @ stream (conn c')) \<and> cfg c' = cfg c"
proof -
  from run_writeAll [OF up, of "serializeRequest req (keepAlive c)" t] obtain c3 where
    w: "writeAll ops (serializeRequest req (keepAlive c)) 0 t c = Some (Ok, c3)" "up (conn c3)"
    "stream (conn c3) = stream (conn c)" "cfg c3 = cfg c" "pending c3 = pending c" by auto
  have "recvBufferSize c3 \<noteq> 0" "pending c3 @ stream (conn c3) = head @ crlf2 @ rest"
    using w(3-5) rb bytes by (simp_all add: cfg_eq)
  from exchange_written [OF w(1,4,2) this first small head framed, of b P] body
  show ?thesis unfolding w(4) by blast
qed

text \<open>\<open>send\<close> on an open socket is one exchange.\<close>

lemma open_send:
  assumes up: "up (conn c)"
    and ex: "\<And>t c2. up (conn c2) \<Longrightarrow> pending c2 = pending c \<Longrightarrow> stream (conn c2) = stream (conn c) \<Longrightarrow>
      cfg c2 = cfg c \<Longrightarrow> \<exists>c'. exchange ops req empty_response t c2 = Some (Ok, out, c') \<and> Q c'"
  shows "\<exists>c'. send ops req empty_response c = Some (Ok, out, c') \<and> Q c'"
proof -
  from up_connected [OF up] obtain k0 where
    k0: "cn_connected ops (conn c) = (True, k0)" "up k0" "stream k0 = stream (conn c)" by blast
  obtain t h where t: "now (c\<lparr>conn := k0\<rparr>) = (t, c\<lparr>conn := k0, hticks := h\<rparr>)"
    using now_obtain [of "c\<lparr>conn := k0\<rparr>"] by auto
  from up_connected [OF k0(2)] obtain k1 where
    k1: "cn_connected ops k0 = (True, k1)" "up k1" "stream k1 = stream (conn c)" using k0(3) by auto
  let ?c2 = "c\<lparr>conn := k1, hticks := h, sawResponseBytes := False, reusable := False\<rparr>"
  have "ensure_connected ops True req (c\<lparr>conn := k0, hticks := h, sawResponseBytes := False, reusable := False\<rparr>) =
      (Ok, ?c2)"
    using k1 by (simp add: ensure_connected_def conn_connected_def)
  then have "sendOnce ops req empty_response (c\<lparr>conn := k0\<rparr>) = exchange ops req empty_response t ?c2"
    using t by (simp add: sendOnce_def)
  then have "exchange ops req empty_response t ?c2 = Some (Ok, out, c') \<Longrightarrow>
      send ops req empty_response c = Some (Ok, out, c')" for c'
    using k0 by (simp add: send_def conn_connected_def)
  then show ?thesis
    using ex [of ?c2 t] k1 by auto
qed

lemma run_send:
  assumes up: "up (conn c)" and rb: "recvBufferSize c \<noteq> 0"
    and bytes: "pending c @ stream (conn c) = head @ crlf2 @ rest"
    and first: "find_idx crlf2 (head @ crlf2 @ rest) = Some (length head)"
    and small: "length head + 4 \<le> kMaxHeaderSection"
    and head: "parseHeaderBlock (head @ crlf) empty_response = (Ok, out1)"
    and framed: "status_has_body out1" "response_header out1 ''Connection'' = None"
      "response_header out1 ''Content-Length'' \<noteq> None \<or> is_chunked out1"
    and body: "\<And>left c2 t. up (conn c2) \<Longrightarrow> left @ stream (conn c2) = rest \<Longrightarrow> cfg c2 = cfg c \<Longrightarrow>
      pending c2 = [] \<Longrightarrow> \<exists>c'. readBody ops left out1 t c2 = Some (Ok, out1\<lparr>rs_body := b\<rparr>, c') \<and>
        up (conn c') \<and> P (pending c' @ stream (conn c')) \<and> cfg c' = cfg c"
  shows "\<exists>c'. send ops req empty_response c = Some (Ok, out1\<lparr>rs_body := b\<rparr>, c') \<and>
    up (conn c') \<and> P (pending c' @ stream (conn c')) \<and> cfg c' = cfg c"
proof (rule open_send [OF up])
  fix t c2
  assume c2: "up (conn c2)" "pending c2 = pending c" "stream (conn c2) = stream (conn c)" "cfg c2 = cfg c"
  have "recvBufferSize c2 \<noteq> 0" "pending c2 @ stream (conn c2) = head @ crlf2 @ rest"
    using c2(2-4) rb bytes by (simp_all add: cfg_eq)
  from run_exchange [OF c2(1) this first small head framed, of b P req t]
  show "\<exists>c'. exchange ops req empty_response t c2 = Some (Ok, out1\<lparr>rs_body := b\<rparr>, c') \<and>
      up (conn c') \<and> P (pending c' @ stream (conn c')) \<and> cfg c' = cfg c"
    using body unfolding c2(4) by blast
qed

end

section \<open>Responses on the wire\<close>

lemma parse_content_length_digits:
  "\<forall>c\<in>set s. is_digit c \<Longrightarrow>
     parse_content_length (word_of_nat a) s = word_of_nat (parse_digits a s)"
proof (induction s arbitrary: a)
  case Nil
  then show ?case by simp
next
  case (Cons x s)
  from Cons.IH [of "a * 10 + digit_val x"] Cons.prems show ?case by (simp add: algebra_simps)
qed

lemma parse_content_length_decimal:
  "n < 2 ^ 32 \<Longrightarrow> unat (parse_content_length 0 (toDecimal n)) = n"
  using parse_content_length_digits [OF toDecimal_digits, of 0 n]
  by (simp add: parse_toDecimal unat_of_nat take_bit_nat_eq_self)

definition response_wire :: "nat \<Rightarrow> string \<Rightarrow> header list \<Rightarrow> string \<Rightarrow> string" where
  "response_wire code reason hs body = response_head code reason hs @ crlf @ body"

definition head_ok :: "nat \<Rightarrow> string \<Rightarrow> header list \<Rightarrow> bool" where
  "head_ok code reason hs \<longleftrightarrow>
     200 \<le> code \<and> code < 2 ^ 31 \<and> code \<noteq> 204 \<and> code \<noteq> 304 \<and> reason_ok reason \<and>
     list_all header_ok hs \<and> header_lookup hs ''Connection'' = None \<and>
     length (response_head code reason hs) + 2 \<le> kMaxHeaderSection"

lemma status_line_clean: "reason_ok reason \<Longrightarrow> clean_line (status_line code reason)"
  by (auto simp: status_line_def clean_line_def reason_ok_def clean_digits)

lemma response_wire_facts:
  assumes "head_ok code reason hs"
  shows "\<exists>head. response_wire code reason hs body = head @ crlf2 @ body \<and>
    find_idx crlf2 (head @ crlf2 @ body) = Some (length head) \<and> length head + 4 \<le> kMaxHeaderSection \<and>
    parseHeaderBlock (head @ crlf) empty_response =
      (Ok, \<lparr>rs_status = int code, rs_reason = reason, rs_headers = hs, rs_body = []\<rparr>)"
proof -
  let ?ls = "status_line code reason # map header_line hs"
  let ?w = "wire_lines ?ls"
  have clean: "\<forall>l\<in>set ?ls. clean_line l"
    using assms header_line_clean status_line_clean
    by (auto simp: head_ok_def list_all_iff)
  have w: "?w = response_head code reason hs" by (simp add: response_head_def)
  obtain h where h: "?w = h @ crlf"
  proof -
    have "?w = concat (map (\<lambda>l. l @ crlf) (butlast ?ls)) @ last ?ls @ crlf"
      unfolding wire_lines_def
      by (subst append_butlast_last_id [of ?ls, symmetric]) (simp_all del: append_butlast_last_id)
    then show thesis using that by (metis append_assoc)
  qed
  have two: "h @ crlf2 @ body = ?w @ crlf @ body" "length h + 2 = length ?w"
    by (simp_all add: h crlf_def crlf2_def)
  moreover have "find_idx crlf2 (?w @ crlf @ body) = Some (length h)"
    using find_crlf2_lines [OF clean, of body] two(2) by (simp del: two)
  moreover have "parseHeaderBlock (h @ crlf) empty_response =
      (Ok, \<lparr>rs_status = int code, rs_reason = reason, rs_headers = hs, rs_body = []\<rparr>)"
    using parseHeaderBlock_head [of code reason hs empty_response] assms
    by (simp add: w [symmetric] h [symmetric] head_ok_def empty_response_def list_all_iff)
  moreover have "response_wire code reason hs body = ?w @ crlf @ body"
    by (simp only: response_wire_def w)
  moreover have "length h + 4 \<le> kMaxHeaderSection"
    using assms two(2) by (simp add: head_ok_def w)
  ultimately show ?thesis by (intro exI [of _ h]) (simp only: two(1) simp_thms)
qed

lemma head_ok_status:
  assumes "head_ok code reason hs" "rs_status out = int code" "rs_headers out = hs"
  shows "status_has_body out" "response_header out ''Connection'' = None"
  using assms by (simp_all add: head_ok_def status_has_body_def response_header_def)

context reader
begin

lemma written_length_response:
  assumes w: "writeAll ops (serializeRequest req (keepAlive c0)) 0 t c0 = Some (Ok, c)" "cfg c = cfg c0"
    and open_up: "up (conn c)" "recvBufferSize c \<noteq> 0"
    and head: "head_ok code reason hs" "header_lookup hs ''Transfer-Encoding'' = None"
      "header_lookup hs ''Content-Length'' = Some (toDecimal (length body))"
    and fits: "length body \<le> unat (maxResponseBody c)"
    and bytes: "pending c @ stream (conn c) = response_wire code reason hs body @ tail"
  shows "\<exists>c'. exchange ops req empty_response t c0 =
      Some (Ok, \<lparr>rs_status = int code, rs_reason = reason, rs_headers = hs, rs_body = body\<rparr>, c') \<and>
    up (conn c') \<and> pending c' @ stream (conn c') = tail \<and> cfg c' = cfg c"
proof -
  let ?out = "\<lparr>rs_status = int code, rs_reason = reason, rs_headers = hs, rs_body = []\<rparr>"
  from response_wire_facts [OF head(1), of "body @ tail"] obtain h where
    h: "response_wire code reason hs (body @ tail) = h @ crlf2 @ body @ tail"
    "find_idx crlf2 (h @ crlf2 @ body @ tail) = Some (length h)" "length h + 4 \<le> kMaxHeaderSection"
    "parseHeaderBlock (h @ crlf) empty_response = (Ok, ?out)" by blast
  have wire: "pending c @ stream (conn c) = h @ crlf2 @ body @ tail"
    using bytes h(1) by (simp add: response_wire_def)
  have cl: "response_header ?out ''Content-Length'' = Some (toDecimal (length body))"
    using head(3) by (simp add: response_header_def)
  have nc: "\<not> is_chunked ?out"
    using head(2) by (simp add: is_chunked_def response_header_def)
  have "length body < 2 ^ 32"
    using fits unsigned_less [of "maxResponseBody c", where 'a = nat] by simp
  then have want: "unat (parse_content_length 0 (toDecimal (length body))) = length body"
    by (rule parse_content_length_decimal)
  have framed: "response_header ?out ''Content-Length'' \<noteq> None \<or> is_chunked ?out"
    using cl by simp
  have body: "\<exists>c'. readBody ops left ?out t c2 = Some (Ok, ?out\<lparr>rs_body := body\<rparr>, c') \<and>
      up (conn c') \<and> pending c' @ stream (conn c') = tail \<and> cfg c' = cfg c"
    if "up (conn c2)" "left @ stream (conn c2) = body @ tail" "cfg c2 = cfg c" "pending c2 = []"
    for left c2 t
  proof -
    have "recvBufferSize c2 \<noteq> 0" "length body \<le> unat (maxResponseBody c2)"
      using that(3) open_up(2) fits by (simp_all add: cfg_eq)
    from run_readBody_length [OF that(1) this(1) nc that(4) cl want this(2) that(2), of t]
    show ?thesis unfolding that(3) by blast
  qed
  have hb: "status_has_body ?out" "response_header ?out ''Connection'' = None"
    by (rule head_ok_status [OF head(1)]; simp)+
  have e: "?out\<lparr>rs_body := body\<rparr> = \<lparr>rs_status = int code, rs_reason = reason, rs_headers = hs, rs_body = body\<rparr>"
    by simp
  note r = exchange_written [where P = "\<lambda>x. x = tail" and b = "body", OF w open_up wire h(2-4) hb framed body]
  show ?thesis using r unfolding e by blast
qed

end

context peer
begin

lemma exchange_length_response:
  assumes open_up: "up (conn c)" "recvBufferSize c \<noteq> 0"
    and head: "head_ok code reason hs" "header_lookup hs ''Transfer-Encoding'' = None"
      "header_lookup hs ''Content-Length'' = Some (toDecimal (length body))"
    and fits: "length body \<le> unat (maxResponseBody c)"
    and bytes: "pending c @ stream (conn c) = response_wire code reason hs body @ tail"
  shows "\<exists>c'. exchange ops req empty_response t c =
      Some (Ok, \<lparr>rs_status = int code, rs_reason = reason, rs_headers = hs, rs_body = body\<rparr>, c') \<and>
    up (conn c') \<and> pending c' @ stream (conn c') = tail \<and> cfg c' = cfg c"
proof -
  from run_writeAll [OF open_up(1), of "serializeRequest req (keepAlive c)" t] obtain c3 where
    w: "writeAll ops (serializeRequest req (keepAlive c)) 0 t c = Some (Ok, c3)" "up (conn c3)"
    "stream (conn c3) = stream (conn c)" "cfg c3 = cfg c" "pending c3 = pending c" by auto
  have "recvBufferSize c3 \<noteq> 0" "length body \<le> unat (maxResponseBody c3)"
    "pending c3 @ stream (conn c3) = response_wire code reason hs body @ tail"
    using w(3-5) open_up(2) fits bytes by (simp_all add: cfg_eq)
  from written_length_response [OF w(1,4,2) this(1) head this(2,3)]
  show ?thesis unfolding w(4) .
qed

lemma send_length_response:
  assumes open_up: "up (conn c)" "recvBufferSize c \<noteq> 0"
    and head: "head_ok code reason hs" "header_lookup hs ''Transfer-Encoding'' = None"
      "header_lookup hs ''Content-Length'' = Some (toDecimal (length body))"
    and fits: "length body \<le> unat (maxResponseBody c)"
    and bytes: "pending c @ stream (conn c) = response_wire code reason hs body @ tail"
  shows "\<exists>c'. send ops req empty_response c =
      Some (Ok, \<lparr>rs_status = int code, rs_reason = reason, rs_headers = hs, rs_body = body\<rparr>, c') \<and>
    up (conn c') \<and> pending c' @ stream (conn c') = tail \<and> cfg c' = cfg c"
proof (rule open_send [OF open_up(1)])
  fix t c2
  assume c2: "up (conn c2)" "pending c2 = pending c" "stream (conn c2) = stream (conn c)" "cfg c2 = cfg c"
  then have "recvBufferSize c2 \<noteq> 0" "length body \<le> unat (maxResponseBody c2)"
    "pending c2 @ stream (conn c2) = response_wire code reason hs body @ tail"
    using open_up(2) fits bytes by (simp_all add: cfg_eq)
  from exchange_length_response [OF c2(1) this(1) head this(2,3), of req t]
  show "\<exists>c'. exchange ops req empty_response t c2 =
      Some (Ok, \<lparr>rs_status = int code, rs_reason = reason, rs_headers = hs, rs_body = body\<rparr>, c') \<and>
    up (conn c') \<and> pending c' @ stream (conn c') = tail \<and> cfg c' = cfg c"
    by (simp add: c2(4))
qed

lemma send_chunked_response:
  assumes open_up: "up (conn c)" "recvBufferSize c \<noteq> 0"
    and head: "head_ok code reason hs" "header_lookup hs ''Transfer-Encoding'' = Some ''chunked''"
    and chunks: "\<forall>ep\<in>set cs. valid_chunk ep" "\<forall>t\<in>set ts. valid_trailer t"
    and fits: "length (concat (map snd cs)) \<le> unat (maxResponseBody c)"
    and bytes: "pending c @ stream (conn c) = response_wire code reason hs (chunk_encode cs ts)"
  shows "\<exists>c'. send ops req empty_response c =
      Some (Ok, \<lparr>rs_status = int code, rs_reason = reason, rs_headers = hs,
                 rs_body = concat (map snd cs)\<rparr>, c') \<and> up (conn c')"
proof -
  let ?out = "\<lparr>rs_status = int code, rs_reason = reason, rs_headers = hs, rs_body = []\<rparr>"
  let ?b = "concat (map snd cs)"
  from response_wire_facts [OF head(1), of "chunk_encode cs ts"] obtain h where
    h: "response_wire code reason hs (chunk_encode cs ts) = h @ crlf2 @ chunk_encode cs ts"
    "find_idx crlf2 (h @ crlf2 @ chunk_encode cs ts) = Some (length h)"
    "length h + 4 \<le> kMaxHeaderSection"
    "parseHeaderBlock (h @ crlf) empty_response = (Ok, ?out)" by blast
  have wire: "pending c @ stream (conn c) = h @ crlf2 @ chunk_encode cs ts" using bytes h(1) by simp
  have ch: "is_chunked ?out"
    using head(2) by (simp add: is_chunked_def response_header_def containsCaseInsensitive_def
        asciiLower_def is_upper_def char_code_def)
  have framed: "response_header ?out ''Content-Length'' \<noteq> None \<or> is_chunked ?out"
    using ch by simp
  have run: "cd_run cd_reset (chunk_encode cs ts) [] = (Ok, cd_reset\<lparr>dstate := StDone\<rparr>, ?b)"
    using cd_run_encode [OF chunks] by simp
  have body: "\<exists>c'. readBody ops left ?out t c2 = Some (Ok, ?out\<lparr>rs_body := ?b\<rparr>, c') \<and>
      up (conn c') \<and> True \<and> cfg c' = cfg c"
    if "up (conn c2)" "left @ stream (conn c2) = chunk_encode cs ts" "cfg c2 = cfg c"
      "pending c2 = []" for left c2 t
  proof -
    have "recvBufferSize c2 \<noteq> 0" "length ?b \<le> unat (maxResponseBody c2)"
      using that(3) open_up(2) fits by (simp_all add: cfg_eq)
    moreover have "rs_body ?out = []" "dstate (cd_reset\<lparr>dstate := StDone\<rparr>) = StDone"
      "cd_run cd_reset (left @ stream (conn c2)) [] = (Ok, cd_reset\<lparr>dstate := StDone\<rparr>, ?b)"
      using run that(2) by simp_all
    ultimately show ?thesis
      using run_readBody_chunked [OF that(1) _ ch, of left _ ?b t] unfolding that(3) by blast
  qed
  have hb: "status_has_body ?out" "response_header ?out ''Connection'' = None"
    by (rule head_ok_status [OF head(1)]; simp)+
  have e: "?out\<lparr>rs_body := ?b\<rparr> = \<lparr>rs_status = int code, rs_reason = reason, rs_headers = hs, rs_body = ?b\<rparr>"
    by simp
  note r = run_send [where P = "\<lambda>x. True" and b = "?b", OF open_up wire h(2-4) hb framed body, of req]
  show ?thesis using r unfolding e by blast
qed

end

text \<open>Requests sent one after the other on one client.\<close>

fun send_seq ::
  "'s conn_ops \<Rightarrow> http_request list \<Rightarrow> 's http_client \<Rightarrow> (status \<times> http_response) list option" where
  "send_seq ops [] c = Some []"
| "send_seq ops (r # rs) c =
     (case send ops r empty_response c of
        None \<Rightarrow> None
      | Some (s, out, c') \<Rightarrow> map_option (\<lambda>rest. (s, out) # rest) (send_seq ops rs c'))"

text \<open>A response with its body framed by Content-Length, and its bytes.\<close>

definition length_framed :: "u32 \<Rightarrow> nat \<times> string \<times> header list \<times> string \<Rightarrow> bool" where
  "length_framed limit r = (case r of (code, reason, hs, body) \<Rightarrow>
     head_ok code reason hs \<and> header_lookup hs ''Transfer-Encoding'' = None \<and>
     header_lookup hs ''Content-Length'' = Some (toDecimal (length body)) \<and>
     length body \<le> unat limit)"

definition wire_of :: "nat \<times> string \<times> header list \<times> string \<Rightarrow> string" where
  "wire_of r = (case r of (code, reason, hs, body) \<Rightarrow> response_wire code reason hs body)"

definition received :: "nat \<times> string \<times> header list \<times> string \<Rightarrow> status \<times> http_response" where
  "received r = (case r of (code, reason, hs, body) \<Rightarrow>
     (Ok, \<lparr>rs_status = int code, rs_reason = reason, rs_headers = hs, rs_body = body\<rparr>))"

context peer
begin

lemma send_seq_responses:
  "up (conn c) \<Longrightarrow> recvBufferSize c \<noteq> 0 \<Longrightarrow> list_all (length_framed (maxResponseBody c)) rs \<Longrightarrow>
     length reqs = length rs \<Longrightarrow>
     pending c @ stream (conn c) = concat (map wire_of rs) @ tail \<Longrightarrow>
     send_seq ops reqs c = Some (map received rs)"
proof (induction rs arbitrary: reqs c)
  case Nil
  then show ?case by simp
next
  case (Cons r rs)
  obtain code reason hs body where r: "r = (code, reason, hs, body)" by (cases r)
  from Cons.prems(4) obtain q qs where q: "reqs = q # qs" "length qs = length rs"
    by (cases reqs) simp_all
  from Cons.prems(3) r have ok: "head_ok code reason hs" "header_lookup hs ''Transfer-Encoding'' = None"
    "header_lookup hs ''Content-Length'' = Some (toDecimal (length body))"
    "length body \<le> unat (maxResponseBody c)" by (simp_all add: length_framed_def)
  have "pending c @ stream (conn c) = response_wire code reason hs body @ concat (map wire_of rs) @ tail"
    using Cons.prems(5) by (simp add: r wire_of_def [of "(code, reason, hs, body)"])
  from send_length_response [OF Cons.prems(1,2) ok this, of q] obtain c' where
    s: "send ops q empty_response c = Some (Ok, \<lparr>rs_status = int code, rs_reason = reason,
      rs_headers = hs, rs_body = body\<rparr>, c')" "up (conn c')"
    "pending c' @ stream (conn c') = concat (map wire_of rs) @ tail" "cfg c' = cfg c" by blast
  have "send_seq ops qs c' = Some (map received rs)"
    by (rule Cons.IH [OF s(2) _ _ q(2) s(3)]) (use s(4) Cons.prems(2,3) in \<open>simp_all add: cfg_eq\<close>)
  then show ?case by (simp add: q s(1) r received_def)
qed

end

section \<open>Properties\<close>

text \<open>A fake server with a given script of bytes, on an open socket, for the witnesses.\<close>

definition scripted :: "nat \<Rightarrow> string \<Rightarrow> fake_connection http_client" where
  "scripted piece bytes =
     new_client (fake_new\<lparr>toSend := bytes, fchunk := piece, fconnected := True\<rparr>) None"

lemma scripted_simps [simp]:
  "fake_up (conn (scripted n b))" "fake_stream (conn (scripted n b)) = b"
  "pending (scripted n b) = []" "recvBufferSize (scripted n b) \<noteq> 0"
  "maxResponseBody (scripted n b) = 16384"
  by (simp_all add: scripted_def new_client_def fake_new_def fake_up_def fake_stream_def)

definition ok_head :: "header list" where
  "ok_head = [(''Content-Type'', ''text/plain''), (''Content-Length'', ''5'')]"

lemma decimal_samples: "toDecimal (Suc (Suc (Suc (Suc (Suc 0))))) = ''5''" "toDecimal 5 = ''5''" "toDecimal 200 = ''200''"
  by code_simp+

lemma sample_names:
  "header_lookup ok_head ''Transfer-Encoding'' = None"
  "header_lookup ok_head ''Connection'' = None"
  "header_lookup ok_head ''Content-Length'' = Some ''5''"
  "header_lookup [(''Transfer-Encoding'', ''chunked'')] ''Transfer-Encoding'' = Some ''chunked''"
  "\<not> headerNameEquals ''Transfer-Encoding'' ''Connection''"
  by (simp_all add: ok_head_def headerNameEquals_def asciiLower_def is_upper_def char_code_def)

lemma ok_head_facts:
  "head_ok 200 ''OK'' ok_head"
  "head_ok 200 ''OK'' [(''Transfer-Encoding'', ''chunked'')]"
  "length_framed 16384 (200, ''OK'', ok_head, ''hello'')"
proof -
  have "reason_ok ''OK''" "list_all header_ok ok_head"
    "list_all header_ok [(''Transfer-Encoding'', ''chunked'')]"
    by (simp_all add: reason_ok_def header_ok_def trimmed_def is_blank_def ok_head_def)
  moreover have "length (response_head 200 ''OK'' ok_head) + 2 \<le> kMaxHeaderSection"
    "length (response_head 200 ''OK'' [(''Transfer-Encoding'', ''chunked'')]) + 2 \<le> kMaxHeaderSection"
    by (simp_all add: response_head_def wire_lines_simps status_line_def header_line_def
        decimal_samples kMaxHeaderSection_def ok_head_def crlf_def)
  ultimately show "head_ok 200 ''OK'' ok_head"
    "head_ok 200 ''OK'' [(''Transfer-Encoding'', ''chunked'')]"
    "length_framed 16384 (200, ''OK'', ok_head, ''hello'')"
    by (simp_all add: head_ok_def length_framed_def sample_names decimal_samples)
qed

text \<open>C1: when every response has its body framed by Content-Length (within the body limit, no
  Connection header, not 1xx, 204 or 304), requests sent one after the other over one connection are
  answered by the server's responses in order, each with its status, reason, headers and exact body,
  however the byte stream is cut into reads and also when one read brings the end of one response and
  the beginning of the next; none is lost, truncated or mixed with another.  (After a chunked response
  bytes that came with it are lost: \<open>bytes_after_chunks_dropped\<close>.)\<close>

theorem keep_alive_responses_in_order:
  assumes "peer ops snt rcv stream up"
    and "up (conn c)" "recvBufferSize c \<noteq> 0" "length reqs = length rs"
    and "list_all (length_framed (maxResponseBody c)) rs"
    and "pending c @ stream (conn c) = concat (map wire_of rs) @ tail"
  shows "send_seq ops reqs c = Some (map received rs)"
  using peer.send_seq_responses [OF assms(1,2,3,5,4,6)] .

theorem keep_alive_responses_in_order_witness:
  "send_seq fake_ops [empty_request, empty_request]
     (scripted 3 (concat (map wire_of (replicate 2 (200, ''OK'', ok_head, ''hello''))))) =
   Some (map received (replicate 2 (200, ''OK'', ok_head, ''hello'')))"
  by (rule keep_alive_responses_in_order [OF fake.peer_axioms, where tail = "[]"])
     (simp_all add: ok_head_facts numeral_2_eq_2 del: One_nat_def)

text \<open>C3: a chunked response is returned with the concatenation of its chunks as body, whatever the
  chunk extensions, the trailers and the cuts between reads.\<close>

theorem chunked_response_returned:
  assumes "peer ops snt rcv stream up"
    and "up (conn c)" "recvBufferSize c \<noteq> 0" "head_ok code reason hs"
    and "header_lookup hs ''Transfer-Encoding'' = Some ''chunked''"
    and "\<forall>ep\<in>set cs. valid_chunk ep" "\<forall>t\<in>set ts. valid_trailer t"
    and "length (concat (map snd cs)) \<le> unat (maxResponseBody c)"
    and "pending c @ stream (conn c) = response_wire code reason hs (chunk_encode cs ts)"
  shows "map_option (\<lambda>(s, out, _). (s, out)) (send ops req empty_response c) =
    Some (received (code, reason, hs, concat (map snd cs)))"
  using peer.send_chunked_response [OF assms, of req] by (auto simp: received_def)

theorem chunked_response_returned_witness:
  "map_option (\<lambda>(s, out, _). (s, out)) (send fake_ops empty_request empty_response
     (scripted 2 (response_wire 200 ''OK'' [(''Transfer-Encoding'', ''chunked'')]
        (chunk_encode [('';x=1'', ''hello ''), ([], ''world'')] [])))) =
   Some (received (200, ''OK'', [(''Transfer-Encoding'', ''chunked'')],
     concat (map snd [('';x=1'', ''hello ''), ([], ''world'')])))"
  by (rule chunked_response_returned [OF fake.peer_axioms])
     (simp_all add: ok_head_facts sample_names valid_chunk_def valid_ext_def)

text \<open>C4: whatever the socket does, a successful \<open>send\<close> has written the whole serialized request, and
  the response it reports is the parse of the bytes it received: the head they begin with, and a
  body framed by them within the configured limit.\<close>

theorem send_reports_what_was_received:
  assumes "connection ops snt rcv"
    and "send ops req empty_response c = Some (Ok, out, c')"
  shows "\<exists>pre got. rcv (conn c') = rcv (conn c) @ got \<and> (pre = pending c \<or> pre = []) \<and>
    suffix (serializeRequest req (keepAlive c)) (snt (conn c')) \<and>
    response_of (pre @ got) out (pending c') \<and> length (rs_body out) \<le> unat (maxResponseBody c)"
  by (rule connection.send_facts [OF assms])

theorem send_reports_what_was_received_witness:
  "\<exists>(c' :: fake_connection http_client) got.
     served (conn c') = served (conn (scripted 3 (wire_of (200, ''OK'', ok_head, ''hello'')))) @ got \<and>
     response_of got (snd (received (200, ''OK'', ok_head, ''hello''))) (pending c')"
proof -
  let ?c = "scripted 3 (wire_of (200, ''OK'', ok_head, ''hello''))"
  from fake.send_seq_responses [of ?c "[(200, ''OK'', ok_head, ''hello'')]" "[empty_request]" "[]"]
  obtain c' where "send fake_ops empty_request empty_response ?c =
      Some (Ok, snd (received (200, ''OK'', ok_head, ''hello'')), c')"
    by (auto simp: ok_head_facts received_def split: option.splits)
  from send_reports_what_was_received [OF fake.connection_axioms this] obtain pre got where
    "served (conn c') = served (conn ?c) @ got" "pre = pending ?c \<or> pre = []"
    "response_of (pre @ got) (snd (received (200, ''OK'', ok_head, ''hello''))) (pending c')" by blast
  then have "served (conn c') = served (conn ?c) @ got \<and>
      response_of got (snd (received (200, ''OK'', ok_head, ''hello''))) (pending c')"
    by auto
  then show ?thesis by blast
qed

text \<open>C40: a request is repeated only when the reused connection failed before a single byte of the
  response arrived: once bytes were seen, the outcome of the first attempt is the outcome of \<open>send\<close>.\<close>

theorem no_resend_after_bytes:
  assumes "connection ops snt rcv"
    and "conn_connected ops c = (wasOpen, c0)"
    and "sendOnce ops req empty_response c0 = Some (s, out1, c1)"
    and "rcv (conn c1) \<noteq> rcv (conn c)"
  shows "send ops req empty_response c = Some (s, out1, c1)"
proof -
  have "rcv (conn c0) = rcv (conn c)"
    using quiet_fields [OF connection.quiet_connected [OF assms(1,2)]] by simp
  with connection.sendOnce_facts [OF assms(1,3)] assms(4) have "sawResponseBytes c1" by auto
  with assms(2,3) show ?thesis by (simp add: send_def)
qed

text \<open>A response cut off after its first byte.\<close>

lemma cut_off_attempt:
  "conn_connected fake_ops (scripted 0 ''H'') = (True, scripted 0 ''H'')"
  "map_option (\<lambda>(s, _, c1). (s, served (conn c1)))
     (sendOnce fake_ops empty_request empty_response (scripted 0 ''H'')) =
   Some (HttpMalformed, ''H'')"
   apply (simp add: conn_connected_def fake_ops_def scripted_def new_client_def fake_new_def)
  apply code_simp
  done

theorem no_resend_after_bytes_witness:
  "\<exists>out1 c1. send fake_ops empty_request empty_response (scripted 0 ''H'') =
     Some (HttpMalformed, out1, c1)"
proof -
  from cut_off_attempt(2) obtain out1 c1 where
    o: "sendOnce fake_ops empty_request empty_response (scripted 0 ''H'') =
      Some (HttpMalformed, out1, c1)" "served (conn c1) = ''H''" by auto
  have "served (conn (scripted 0 ''H'')) = []"
    by (simp add: scripted_def new_client_def fake_new_def)
  with o(2) no_resend_after_bytes [OF fake.connection_axioms cut_off_attempt(1) o(1)] show ?thesis
    by auto
qed

text \<open>A chunked response and the beginning of the next one arrive in one read: the bytes past the
  first body are dropped, so the next response is lost.\<close>

theorem bytes_after_chunks_dropped:
  "map_option (\<lambda>(s, out, c). (s, rs_body out, pending c, fake_stream (conn c)))
     (send fake_ops empty_request empty_response
        (scripted 0 (''HTTP/1.1 200 OK'' @ [CR, LF] @ ''Transfer-Encoding: chunked'' @ crlf2 @
           ''2'' @ [CR, LF] @ ''hi'' @ [CR, LF] @ ''0'' @ crlf2 @ ''HTTP/1.1 200 OK''))) =
   Some (Ok, ''hi'', [], [])"
  by code_simp

text \<open>the length of a body is accumulated in 32 bits and skips what is not a digit, so a length of
  2^32 + 1 reads as 1 and passes the limit that is meant to refuse it.\<close>

theorem content_length_wraps:
  "parse_content_length 0 ''4294967297'' = 1 \<and> parse_content_length 0 ''-1,2'' = 12"
  by (simp add: is_digit_def digit_val_def char_code_def)

end
