(* ===== verification/Http_Stream.thy ===== *)
theory Http_Stream
  imports Http_Exchange Fake_Connection
begin

text \<open>
  The streaming variant of the HTTP client, \<open>HttpClient::sendStream\<close>: the body is handed to the
  caller's sink piece by piece.  A sink is a function on a state of its own; it returns \<open>False\<close> to
  stop.  The count of bytes delivered is a \<open>size_t\<close>, 32 bits on the boards.
\<close>

type_synonym 'k sink = "string \<Rightarrow> 'k \<Rightarrow> bool \<times> 'k"

text \<open>\<open>emit\<close>: the result is \<open>None\<close> to go on, or the status \<open>sendStream\<close> returns with.\<close>

definition emit ::
  "'k sink \<Rightarrow> u32 \<Rightarrow> string \<Rightarrow> size_t \<Rightarrow> 'k \<Rightarrow> status option \<times> size_t \<times> 'k" where
  "emit onChunk limit dat tot k =
     (if dat = [] then (None, tot, k)
      else
        (let tot' = tot + word_of_nat (length dat)
         in if limit < tot' then (Some HttpBodyTooLarge, tot', k)
            else (case onChunk dat k of (go, k') \<Rightarrow> (if go then None else Some Ok, tot', k'))))"

partial_function (option) stream_chunked ::
  "'s conn_ops \<Rightarrow> 'k sink \<Rightarrow> chunked_decoder \<Rightarrow> bool \<Rightarrow> size_t \<Rightarrow> 'k \<Rightarrow> u32 \<Rightarrow> 's http_client \<Rightarrow>
     (status \<times> 'k \<times> 's http_client) option"
where
  "stream_chunked ops onChunk d fin tot k startMs c =
     (if fin then Some (Ok, k, c)
      else
        (case conn_read ops (unat (recvBufferSize c)) c of (r, c1) \<Rightarrow>
           (case r of
              None \<Rightarrow> Some (ConnectionClosed, k, c1)
            | Some bs \<Rightarrow>
                if bs \<noteq> [] then
                  (case cd_feed d bs [] fin of (s, d', decoded, fin') \<Rightarrow>
                     if s \<noteq> Ok then Some (s, k, c1)
                     else
                       (case emit onChunk (maxResponseBody c1) decoded tot k of (stop, tot', k') \<Rightarrow>
                          (case stop of
                             Some s \<Rightarrow> Some (s, k', c1)
                           | None \<Rightarrow> stream_chunked ops onChunk d' fin' tot' k' startMs c1)))
                else
                  (case timedOut startMs c1 of (late, c2) \<Rightarrow>
                     if late then Some (Timeout, k, c2)
                     else
                       (case drained ops c2 of (gone, c3) \<Rightarrow>
                          if gone then Some (ConnectionClosed, k, c3)
                          else stream_chunked ops onChunk d fin tot k startMs c3)))))"

partial_function (option) stream_raw ::
  "'s conn_ops \<Rightarrow> 'k sink \<Rightarrow> size_t \<Rightarrow> 'k \<Rightarrow> u32 \<Rightarrow> 's http_client \<Rightarrow>
     (status \<times> 'k \<times> 's http_client) option"
where
  "stream_raw ops onChunk tot k startMs c =
     (case conn_read ops (unat (recvBufferSize c)) c of (r, c1) \<Rightarrow>
        (case r of
           None \<Rightarrow> Some (Ok, k, c1)
         | Some bs \<Rightarrow>
             if bs \<noteq> [] then
               (case emit onChunk (maxResponseBody c1) bs tot k of (stop, tot', k') \<Rightarrow>
                  (case stop of
                     Some s \<Rightarrow> Some (s, k', c1)
                   | None \<Rightarrow> stream_raw ops onChunk tot' k' startMs c1))
             else
               (case drained ops c1 of (gone, c2) \<Rightarrow>
                  if gone then Some (Ok, k, c2)
                  else
                    (case timedOut startMs c2 of (late, c3) \<Rightarrow>
                       if late then Some (Timeout, k, c3)
                       else stream_raw ops onChunk tot k startMs c3))))"

declare stream_chunked.simps [code] stream_raw.simps [code]

lemmas stream_chunked_induct = stream_chunked.raw_induct [rotated, consumes 1, case_names step]
lemmas stream_raw_induct = stream_raw.raw_induct [rotated, consumes 1, case_names step]

text \<open>The part after the response head.\<close>

definition stream_body ::
  "'s conn_ops \<Rightarrow> 'k sink \<Rightarrow> string \<Rightarrow> http_response \<Rightarrow> 'k \<Rightarrow> u32 \<Rightarrow> 's http_client \<Rightarrow>
     (status \<times> 'k \<times> 's http_client) option" where
  "stream_body ops onChunk leftover out k startMs c =
     (if is_chunked out then
        (case cd_feed cd_reset leftover [] False of (s, d, decoded, fin) \<Rightarrow>
           if s \<noteq> Ok then Some (s, k, c)
           else
             (case emit onChunk (maxResponseBody c) decoded 0 k of (stop, tot, k') \<Rightarrow>
                (case stop of
                   Some s \<Rightarrow> Some (s, k', c)
                 | None \<Rightarrow> stream_chunked ops onChunk d fin tot k' startMs c)))
      else
        (case emit onChunk (maxResponseBody c) leftover 0 k of (stop, tot, k') \<Rightarrow>
           (case stop of
              Some s \<Rightarrow> Some (s, k', c)
            | None \<Rightarrow> stream_raw ops onChunk tot k' startMs c)))"

definition sendStream ::
  "'s conn_ops \<Rightarrow> http_request \<Rightarrow> 'k sink \<Rightarrow> http_response \<Rightarrow> 'k \<Rightarrow> 's http_client \<Rightarrow>
     (status \<times> http_response \<times> 'k \<times> 's http_client) option" where
  "sendStream ops req onChunk out k c0 =
     (case now c0 of (start, c1) \<Rightarrow>
        (case ensure_connected ops False req c1 of (s, c2) \<Rightarrow>
           if s \<noteq> Ok then Some (s, out, k, c2)
           else
             (case writeAll ops (serializeRequest req False) 0 start c2 of
                None \<Rightarrow> None
              | Some (s, c3) \<Rightarrow>
                  if s \<noteq> Ok then Some (s, out, k, c3)
                  else
                    (case readHeaders ops out start c3 of
                       None \<Rightarrow> None
                     | Some (s, leftover, out1, c4) \<Rightarrow>
                         if s \<noteq> Ok then Some (s, out1, k, c4)
                         else if \<not> status_has_body out1 then Some (Ok, out1, k, c4)
                         else
                           map_option (\<lambda>(s, k', c5). (s, out1, k', c5))
                             (stream_body ops onChunk leftover out1 k start c4)))))"

section \<open>What the sink receives\<close>

text \<open>A sink that records what it was given, observed by \<open>del\<close>.\<close>

definition records :: "'k sink \<Rightarrow> ('k \<Rightarrow> string) \<Rightarrow> bool" where
  "records onChunk del \<longleftrightarrow> (\<forall>bs k go k'. onChunk bs k = (go, k') \<longrightarrow> del k' = del k @ bs)"

lemma emit_facts:
  assumes "records onChunk del" "emit onChunk limit dat tot k = (stop, tot', k')"
    and "unat tot + length dat < 2 ^ 32"
  shows "(\<exists>x. del k' = del k @ x \<and> prefix x dat \<and> unat tot + length x \<le> max (unat tot) (unat limit)) \<and>
    (stop = None \<longrightarrow> del k' = del k @ dat \<and> unat tot' = unat tot + length dat \<and>
       (dat \<noteq> [] \<longrightarrow> unat tot' \<le> unat limit))"
proof -
  have t: "unat (tot + word_of_nat (length dat)) = unat tot + length dat"
    using assms(3) by (simp add: unat_word_ariths unat_of_nat take_bit_nat_eq_self)
  show ?thesis
    using assms(1,2) t
    by (auto simp: emit_def records_def Let_def word_less_nat_alt not_less
        split: if_splits prod.splits)
qed

text \<open>What the decoder appends depends on its state only.\<close>

lemma cd_step_one: "cd_step d c = Inr (d', bs) \<Longrightarrow> length bs \<le> 1"
  by (auto simp: cd_step.simps split: cd_state.splits if_splits)

lemma cd_run_shift:
  "cd_run d xs out = (case cd_run d xs [] of (s, d', x) \<Rightarrow> (s, d', out @ x))"
proof (induction xs arbitrary: d out)
  case Nil
  then show ?case by simp
next
  case (Cons c cs)
  have "cd_run e cs (out @ bs) = (case cd_run e cs bs of (s, d', x) \<Rightarrow> (s, d', out @ x))" for e bs
    unfolding Cons.IH [of e "out @ bs"] using Cons.IH [of e bs] by (cases "cd_run e cs []") simp
  then show ?case by (simp split: sum.splits prod.splits)
qed

lemma cd_run_length: "cd_run d xs out = (s, d', out') \<Longrightarrow> length out' \<le> length out + length xs"
  by (induction xs arbitrary: d out) (fastforce split: sum.splits prod.splits dest: cd_step_one)+

text \<open>What a stream of \<open>bytes\<close> with the head \<open>out\<close> hands on: nothing for a status without a body, the
  decoded chunks, or else every byte after the head.  A Content-Length is not looked at, as the comment
  in HttpClient.cpp says: a body shorter or longer than it announces is handed on as it came.\<close>

definition streamed_as :: "string \<Rightarrow> http_response \<Rightarrow> string \<Rightarrow> bool" where
  "streamed_as bytes out x \<longleftrightarrow>
     (\<exists>head rest. bytes = head @ crlf2 @ rest \<and>
        parseHeaderBlock (head @ crlf) empty_response = (Ok, out) \<and>
        (if \<not> status_has_body out then x = []
         else if is_chunked out then \<exists>d. cd_feed cd_reset rest [] False = (Ok, d, x, True)
         else x = rest))"

lemma streamed_asI:
  "bytes = head @ crlf2 @ rest \<Longrightarrow> parseHeaderBlock (head @ crlf) empty_response = (Ok, out) \<Longrightarrow>
     (if \<not> status_has_body out then x = []
      else if is_chunked out then \<exists>d. cd_feed cd_reset rest [] False = (Ok, d, x, True)
      else x = rest) \<Longrightarrow> streamed_as bytes out x"
  unfolding streamed_as_def by blast

definition never_stops :: "'k sink \<Rightarrow> bool" where
  "never_stops onChunk \<longleftrightarrow> (\<forall>bs k. fst (onChunk bs k))"

lemma emit_never_stops: "never_stops onChunk \<Longrightarrow> emit onChunk l dat n k = (Some st, n', k') \<Longrightarrow> st = HttpBodyTooLarge"
  by (auto simp: emit_def never_stops_def Let_def split: if_splits prod.splits)
     (metis fst_conv)+

context connection
begin

lemma stream_raw_facts:
  "stream_raw op f n k t c = Some y \<Longrightarrow> op = ops \<longrightarrow> records f del \<longrightarrow>
     (\<exists>got x. q c (snd (snd y)) got \<and>
       (unat n + length got < 2 ^ 32 \<longrightarrow>
          del (fst (snd y)) = del k @ x \<and> prefix x got \<and>
          unat n + length x \<le> max (unat n) (unat (maxResponseBody c)) \<and>
          (fst y = Ok \<and> never_stops f \<longrightarrow> x = got)))"
proof (induct rule: stream_raw_induct)
  case (step rec op f n k t c y)
  show ?case
  proof (intro impI)
    assume op: "op = ops" and rec: "records f del"
    let ?P = "\<lambda>got x. q c (snd (snd y)) got \<and>
       (unat n + length got < 2 ^ 32 \<longrightarrow>
          del (fst (snd y)) = del k @ x \<and> prefix x got \<and>
          unat n + length x \<le> max (unat n) (unat (maxResponseBody c)) \<and>
          (fst y = Ok \<and> never_stops f \<longrightarrow> x = got))"
    obtain r c1 where rd: "conn_read ops (unat (recvBufferSize c)) c = (r, c1)" by fastforce
    note q1 = quiet_read [OF rd]
    obtain gone c2 where g: "drained ops c1 = (gone, c2)" by fastforce
    obtain late c3 where t: "timedOut t c2 = (late, c3)" by fastforce
    from step.hyps(2) have y: "(case r of None \<Rightarrow> Some (Ok, k, c1)
        | Some bs \<Rightarrow> if bs \<noteq> [] then (case emit f (maxResponseBody c1) bs n k of (stop, n', k') \<Rightarrow>
              (case stop of Some s \<Rightarrow> Some (s, k', c1) | None \<Rightarrow> rec op f n' k' t c1))
            else if gone then Some (Ok, k, c2)
            else if late then Some (Timeout, k, c3) else rec op f n k t c3) = Some y"
      unfolding op by (simp only: rd t g prod.case)
    show "\<exists>got x. ?P got x"
    proof (cases r)
      case None
      with y q1(1) have "?P [] []" by auto
      then show ?thesis by blast
    next
      case (Some bs)
      show ?thesis
      proof (cases "bs = []")
        case False
        obtain stop n' k' where e: "emit f (maxResponseBody c1) bs n k = (stop, n', k')"
          by (metis prod_cases3)
        have m: "maxResponseBody c1 = maxResponseBody c" using q1(1) by (rule quiet_fields(4))
        note ef = emit_facts [OF rec e]
        show ?thesis
        proof (cases stop)
          case (Some st)
          with y \<open>r = Some bs\<close> False e have yy: "y = (st, k', c1)" by simp
          from q1(1) \<open>r = Some bs\<close> have "q c c1 bs" by simp
          moreover have "\<exists>x. unat n + length bs < 2 ^ 32 \<longrightarrow>
              del k' = del k @ x \<and> prefix x bs \<and>
              unat n + length x \<le> max (unat n) (unat (maxResponseBody c))"
            using ef m by auto
          moreover have "\<not> (st = Ok \<and> never_stops f)" using emit_never_stops [of f _ bs n k st n' k'] e Some by auto
          ultimately show ?thesis unfolding yy by auto
        next
          case None
          with y \<open>r = Some bs\<close> False e have "rec op f n' k' t c1 = Some y" by simp
          from step.hyps(1) [OF this] op rec obtain got x where
            got: "q c1 (snd (snd y)) got" "unat n' + length got < 2 ^ 32 \<longrightarrow>
              del (fst (snd y)) = del k' @ x \<and> prefix x got \<and>
              unat n' + length x \<le> max (unat n') (unat (maxResponseBody c1)) \<and>
              (fst y = Ok \<and> never_stops f \<longrightarrow> x = got)" by blast
          have qc: "q c (snd (snd y)) (bs @ got)"
            using quiet_trans [OF _ got(1)] q1(1) Some by simp
          have "?P (bs @ got) (bs @ x)"
          proof (intro conjI impI qc)
            assume "unat n + length (bs @ got) < 2 ^ 32"
            with ef None m False got(2) show "del (fst (snd y)) = del k @ bs @ x"
              "prefix (bs @ x) (bs @ got)"
              "unat n + length (bs @ x) \<le> max (unat n) (unat (maxResponseBody c))" by auto
            assume "fst y = Ok \<and> never_stops f"
            with ef None m False got(2) \<open>unat n + length (bs @ got) < 2 ^ 32\<close>
            show "bs @ x = bs @ got" by auto
          qed
          then show ?thesis by blast
        qed
      next
        case True
        with q1(1) Some have qc1: "q c c1 []" by simp
        have qc2: "q c c2 []" by (rule quiet_trans0 [OF qc1 quiet_drained [OF g]])
        have qc3: "q c c3 []" by (rule quiet_trans0 [OF qc2 quiet_timedOut [OF t]])
        show ?thesis
        proof (cases "late \<or> gone")
          case stop: True
          with y Some True qc2 qc3 have "?P [] []" by (auto split: if_splits)
          then show ?thesis by blast
        next
          case go: False
          with y Some True have "rec op f n k t c3 = Some y" by simp
          from step.hyps(1) [OF this] op rec obtain got x where
            got: "q c3 (snd (snd y)) got" "unat n + length got < 2 ^ 32 \<longrightarrow>
              del (fst (snd y)) = del k @ x \<and> prefix x got \<and>
              unat n + length x \<le> max (unat n) (unat (maxResponseBody c3)) \<and>
              (fst y = Ok \<and> never_stops f \<longrightarrow> x = got)" by blast
          with quiet_trans0 [OF qc3 got(1)] quiet_fields(4) [OF qc3] have "?P got x" by simp
          then show ?thesis by blast
        qed
      qed
    qed
  qed
qed

lemma stream_chunked_facts:
  "stream_chunked op f d fin n k t c = Some y \<Longrightarrow>
     op = ops \<longrightarrow> records f del \<longrightarrow> cd_inv d \<longrightarrow> fin = (dstate d = StDone) \<longrightarrow>
     (\<exists>got x. q c (snd (snd y)) got \<and>
       (unat n + length got < 2 ^ 32 \<longrightarrow>
          del (fst (snd y)) = del k @ x \<and>
          unat n + length x \<le> max (unat n) (unat (maxResponseBody c)) \<and>
          (fst y = Ok \<and> never_stops f \<longrightarrow>
             (\<exists>d'. cd_run d got [] = (Ok, d', x) \<and> dstate d' = StDone))))"
proof (induct rule: stream_chunked_induct)
  case (step rec op f d fin n k t c y)
  show ?case
  proof (intro impI)
    assume op: "op = ops" and rec: "records f del" and d: "cd_inv d" and fin: "fin = (dstate d = StDone)"
    let ?P = "\<lambda>got x. q c (snd (snd y)) got \<and>
       (unat n + length got < 2 ^ 32 \<longrightarrow>
          del (fst (snd y)) = del k @ x \<and>
          unat n + length x \<le> max (unat n) (unat (maxResponseBody c)) \<and>
          (fst y = Ok \<and> never_stops f \<longrightarrow>
             (\<exists>d'. cd_run d got [] = (Ok, d', x) \<and> dstate d' = StDone)))"
    show "\<exists>got x. ?P got x"
    proof (cases fin)
      case True
      with step.hyps(2) have "y = (Ok, k, c)" by simp
      with True fin have "?P [] []" by (simp add: quiet_refl)
      then show ?thesis by blast
    next
      case nf: False
      obtain r c1 where rd: "conn_read ops (unat (recvBufferSize c)) c = (r, c1)" by fastforce
      note q1 = quiet_read [OF rd]
      obtain late c2 where t: "timedOut t c1 = (late, c2)" by fastforce
      obtain gone c3 where g: "drained ops c2 = (gone, c3)" by fastforce
      from nf have nf': "fin = False" by simp
      from step.hyps(2) have y: "(case r of None \<Rightarrow> Some (ConnectionClosed, k, c1)
          | Some bs \<Rightarrow> if bs \<noteq> [] then (case cd_feed d bs [] False of (s, d', decoded, fin') \<Rightarrow>
                if s \<noteq> Ok then Some (s, k, c1)
                else (case emit f (maxResponseBody c1) decoded n k of (stop, n', k') \<Rightarrow>
                  (case stop of Some s \<Rightarrow> Some (s, k', c1) | None \<Rightarrow> rec op f d' fin' n' k' t c1)))
              else if late then Some (Timeout, k, c2)
              else if gone then Some (ConnectionClosed, k, c3) else rec op f d False n k t c3) = Some y"
        unfolding op nf' by (simp only: if_False rd t g prod.case)
      show ?thesis
      proof (cases r)
        case None
        with y q1(1) have "?P [] []" by auto
        then show ?thesis by blast
      next
        case (Some bs)
        show ?thesis
        proof (cases "bs = []")
          case False
          obtain s d' dec where run: "cd_run d bs [] = (s, d', dec)" by (metis prod_cases3)
          then have feed: "cd_feed d bs [] False = (s, d', dec, s = Ok \<and> dstate d' = StDone)"
            by (simp add: cd_feed_run [OF d])
          have dl: "length dec \<le> length bs" using cd_run_length [OF run] by simp
          have m: "maxResponseBody c1 = maxResponseBody c" using q1(1) by (rule quiet_fields(4))
          from q1(1) Some have qb: "q c c1 bs" by simp
          show ?thesis
          proof (cases "s = Ok")
            case False
            with y Some \<open>bs \<noteq> []\<close> feed qb have "?P bs []" by auto
            then show ?thesis by blast
          next
            case ok: True
            obtain stop n' k' where e: "emit f (maxResponseBody c1) dec n k = (stop, n', k')"
              by (metis prod_cases3)
            note ef = emit_facts [OF rec e]
            show ?thesis
            proof (cases stop)
              case (Some st)
              with y \<open>r = Some bs\<close> False feed ok e have yy: "y = (st, k', c1)" by simp
              have "\<exists>x. unat n + length bs < 2 ^ 32 \<longrightarrow>
                  del k' = del k @ x \<and> unat n + length x \<le> max (unat n) (unat (maxResponseBody c))"
                using ef m dl by auto
              moreover have "\<not> (st = Ok \<and> never_stops f)"
                using emit_never_stops [of f _ dec n k st n' k'] e Some by auto
              ultimately show ?thesis using qb unfolding yy by auto
            next
              case None
              with y \<open>r = Some bs\<close> False feed ok e
              have "rec op f d' (dstate d' = StDone) n' k' t c1 = Some y" by simp
              from step.hyps(1) [OF this] op rec cd_run_inv [OF d run] obtain got x where
                got: "q c1 (snd (snd y)) got" "unat n' + length got < 2 ^ 32 \<longrightarrow>
                  del (fst (snd y)) = del k' @ x \<and>
                  unat n' + length x \<le> max (unat n') (unat (maxResponseBody c1)) \<and>
                  (fst y = Ok \<and> never_stops f \<longrightarrow>
                    (\<exists>e. cd_run d' got [] = (Ok, e, x) \<and> dstate e = StDone))" by blast
              have qc: "q c (snd (snd y)) (bs @ got)"
                using quiet_trans [OF qb got(1)] .
              have "?P (bs @ got) (dec @ x)"
              proof (intro conjI impI qc)
                assume len: "unat n + length (bs @ got) < 2 ^ 32"
                with ef None dl have n': "unat n' = unat n + length dec" "del k' = del k @ dec"
                  and le: "dec \<noteq> [] \<longrightarrow> unat n' \<le> unat (maxResponseBody c)" using m by auto
                with len dl have "unat n' + length got < 2 ^ 32" by simp
                with got(2) have g2: "del (fst (snd y)) = del k' @ x"
                  "unat n' + length x \<le> max (unat n') (unat (maxResponseBody c1))"
                  "fst y = Ok \<and> never_stops f \<longrightarrow>
                    (\<exists>e. cd_run d' got [] = (Ok, e, x) \<and> dstate e = StDone)" by blast+
                show "del (fst (snd y)) = del k @ dec @ x" using g2(1) n' by simp
                show "unat n + length (dec @ x) \<le> max (unat n) (unat (maxResponseBody c))"
                  using g2(2) n'(1) le m by auto
                assume "fst y = Ok \<and> never_stops f"
                with g2(3) obtain e where "cd_run d' got [] = (Ok, e, x)" "dstate e = StDone" by blast
                then show "\<exists>e. cd_run d (bs @ got) [] = (Ok, e, dec @ x) \<and> dstate e = StDone"
                  using run ok cd_run_shift [of d' got dec] by (simp add: cd_run_append)
              qed
              then show ?thesis by blast
            qed
          qed
        next
          case True
          with q1(1) Some have qc1: "q c c1 []" by simp
          have qc2: "q c c2 []" by (rule quiet_trans0 [OF qc1 quiet_timedOut [OF t]])
          have qc3: "q c c3 []" by (rule quiet_trans0 [OF qc2 quiet_drained [OF g]])
          show ?thesis
          proof (cases "late \<or> gone")
            case stop: True
            with y Some True qc2 qc3 have "?P [] []" by (auto split: if_splits)
            then show ?thesis by blast
          next
            case go: False
            with y Some True have "rec op f d False n k t c3 = Some y" by simp
            from step.hyps(1) [OF this] op rec d fin nf' obtain got x where
              got: "q c3 (snd (snd y)) got" "unat n + length got < 2 ^ 32 \<longrightarrow>
                del (fst (snd y)) = del k @ x \<and>
                unat n + length x \<le> max (unat n) (unat (maxResponseBody c3)) \<and>
                (fst y = Ok \<and> never_stops f \<longrightarrow>
                  (\<exists>d'. cd_run d got [] = (Ok, d', x) \<and> dstate d' = StDone))" by blast
            with quiet_trans0 [OF qc3 got(1)] quiet_fields(4) [OF qc3] have "?P got x" by simp
            then show ?thesis by blast
          qed
        qed
      qed
    qed
  qed
qed

lemma stream_body_facts:
  assumes sb: "stream_body ops f left out k t c = Some (s, k', c')" and rec: "records f del"
  shows "\<exists>got x. q c c' got \<and>
    (length (left @ got) < 2 ^ 32 \<longrightarrow> del k' = del k @ x \<and> length x \<le> unat (maxResponseBody c) \<and>
       (s = Ok \<and> never_stops f \<longrightarrow>
          (if is_chunked out then \<exists>d. cd_feed cd_reset (left @ got) [] False = (Ok, d, x, True)
           else x = left @ got)))"
    (is "\<exists>got x. ?P got x")
proof (cases "is_chunked out")
  case ch: True
  obtain s1 d dec where run: "cd_run cd_reset left [] = (s1, d, dec)" by (metis prod_cases3)
  have feed: "cd_feed cd_reset left [] False = (s1, d, dec, s1 = Ok \<and> dstate d = StDone)"
    by (simp add: cd_feed_run run)
  have dl: "length dec \<le> length left" using cd_run_length [OF run] by simp
  have inv: "cd_inv d" using cd_run_inv [OF _ run] by simp
  show ?thesis
  proof (cases "s1 = Ok")
    case False
    with sb ch feed have "s = s1" "k' = k" "c' = c" by (simp_all add: stream_body_def)
    with False have "?P [] []" by (simp add: quiet_refl)
    then show ?thesis by blast
  next
    case ok: True
    obtain stop n' k1 where e: "emit f (maxResponseBody c) dec 0 k = (stop, n', k1)"
      by (metis prod_cases3)
    note ef = emit_facts [OF rec e]
    show ?thesis
    proof (cases stop)
      case (Some st)
      with sb ch feed ok e have eq: "s = st" "k' = k1" "c' = c" by (simp_all add: stream_body_def)
      have "\<not> (st = Ok \<and> never_stops f)"
        using emit_never_stops [of f _ dec 0 k st n' k1] e Some by auto
      moreover have "\<exists>x. length left < 2 ^ 32 \<longrightarrow> del k1 = del k @ x \<and>
          length x \<le> unat (maxResponseBody c)" using ef dl by auto
      ultimately obtain x where "?P [] x" unfolding eq using quiet_refl by auto
      then show ?thesis by blast
    next
      case None
      with sb ch feed ok e
      have sc: "stream_chunked ops f d (dstate d = StDone) n' k1 t c = Some (s, k', c')"
        by (simp add: stream_body_def)
      obtain got x where
        got: "q c c' got" "unat n' + length got < 2 ^ 32 \<longrightarrow>
          del k' = del k1 @ x \<and> unat n' + length x \<le> max (unat n') (unat (maxResponseBody c)) \<and>
          (s = Ok \<and> never_stops f \<longrightarrow>
            (\<exists>d'. cd_run d got [] = (Ok, d', x) \<and> dstate d' = StDone))"
        using stream_chunked_facts [OF sc, of del] rec inv unfolding fst_conv snd_conv by blast
      have "?P got (dec @ x)"
      proof (intro conjI impI got(1))
        assume len: "length (left @ got) < 2 ^ 32"
        with ef None dl have n': "unat n' = length dec" "del k1 = del k @ dec"
          and le: "dec \<noteq> [] \<longrightarrow> unat n' \<le> unat (maxResponseBody c)" by auto
        with got(2) len dl have g: "del k' = del k1 @ x"
          "unat n' + length x \<le> max (unat n') (unat (maxResponseBody c))"
          "s = Ok \<and> never_stops f \<longrightarrow> (\<exists>d'. cd_run d got [] = (Ok, d', x) \<and> dstate d' = StDone)"
          by simp_all
        show "del k' = del k @ dec @ x" using g(1) n' by simp
        show "length (dec @ x) \<le> unat (maxResponseBody c)" using g(2) n'(1) le by auto
        assume "s = Ok \<and> never_stops f"
        with g(3) obtain e where "cd_run d got [] = (Ok, e, x)" "dstate e = StDone" by blast
        then show "if is_chunked out
          then \<exists>d. cd_feed cd_reset (left @ got) [] False = (Ok, d, dec @ x, True)
          else dec @ x = left @ got"
          using ch run ok cd_run_shift [of d got dec] by (simp add: cd_feed_run cd_run_append)
      qed
      then show ?thesis by blast
    qed
  qed
next
  case raw: False
  obtain stop n' k1 where e: "emit f (maxResponseBody c) left 0 k = (stop, n', k1)"
    by (metis prod_cases3)
  note ef = emit_facts [OF rec e]
  show ?thesis
  proof (cases stop)
    case (Some st)
    with sb raw e have eq: "s = st" "k' = k1" "c' = c" by (simp_all add: stream_body_def)
    have "\<not> (st = Ok \<and> never_stops f)"
      using emit_never_stops [of f _ left 0 k st n' k1] e Some by auto
    moreover have "\<exists>x. length left < 2 ^ 32 \<longrightarrow> del k1 = del k @ x \<and>
        length x \<le> unat (maxResponseBody c)" using ef by auto
    ultimately obtain x where "?P [] x" unfolding eq using quiet_refl by auto
    then show ?thesis by blast
  next
    case None
    with sb raw e have sr: "stream_raw ops f n' k1 t c = Some (s, k', c')"
      by (simp add: stream_body_def)
    obtain got x where
      got: "q c c' got" "unat n' + length got < 2 ^ 32 \<longrightarrow>
        del k' = del k1 @ x \<and> prefix x got \<and>
        unat n' + length x \<le> max (unat n') (unat (maxResponseBody c)) \<and>
        (s = Ok \<and> never_stops f \<longrightarrow> x = got)"
      using stream_raw_facts [OF sr, of del] rec unfolding fst_conv snd_conv by blast
    have "?P got (left @ x)" using ef None got raw by (cases "left = []") auto
    then show ?thesis by blast
  qed
qed

lemma ensure_connected_stream:
  assumes "ensure_connected ops False req c = (s, c')"
  shows "recvd (conn c') = recvd (conn c)" "sent (conn c') = sent (conn c)" "pending c' = pending c"
    "maxResponseBody c' = maxResponseBody c"
proof -
  obtain u c1 where u: "conn_connected ops c = (u, c1)" by fastforce
  note q1 = quiet_fields [OF quiet_connected [OF u]]
  obtain e k where k: "cn_connect ops (c_str (rq_host req)) (rq_port req) (conn c1) = (e, k)" by fastforce
  note ck = connect_quiet [OF k]
  show "recvd (conn c') = recvd (conn c)" "sent (conn c') = sent (conn c)" "pending c' = pending c"
    "maxResponseBody c' = maxResponseBody c"
    using assms q1 ck by (auto simp: ensure_connected_def u k Let_def http_log_def split: if_splits)
qed

lemma now_fields:
  assumes "now c = (t, c')"
  shows "conn c' = conn c" "pending c' = pending c" "maxResponseBody c' = maxResponseBody c"
  using assms by (auto simp: now_def split: option.splits)

lemma sendStream_facts:
  assumes ss: "sendStream ops req f empty_response k c = Some (s, out, k', c')" and rec: "records f del"
  shows "\<exists>got x. recvd (conn c') = recvd (conn c) @ got \<and>
    (length (pending c @ got) < 2 ^ 32 \<longrightarrow>
       del k' = del k @ x \<and> length x \<le> unat (maxResponseBody c) \<and>
       (s = Ok \<and> never_stops f \<longrightarrow>
          sent (conn c') = sent (conn c) @ serializeRequest req False \<and>
          streamed_as (pending c @ got) out x))"
    (is "\<exists>got x. ?P got x")
proof -
  obtain t c1 where n: "now c = (t, c1)" by fastforce
  obtain s2 c2 where e: "ensure_connected ops False req c1 = (s2, c2)" by fastforce
  note c2 = ensure_connected_stream [OF e]
  note c1 = now_fields [OF n]
  show ?thesis
  proof (cases "s2 = Ok")
    case False
    with ss n e have "s = s2" "k' = k" "c' = c2" by (simp_all add: sendStream_def)
    with False c1 c2 have "?P [] []" by simp
    then show ?thesis by blast
  next
    case s2: True
    obtain s3 c3 where w: "writeAll ops (serializeRequest req False) 0 t c2 = Some (s3, c3)"
      using ss n e s2 by (auto simp: sendStream_def split: option.splits)
    from writeAll_facts [OF w] obtain ks h where c3: "c3 = c2\<lparr>conn := ks, hticks := h\<rparr>"
      "recvd ks = recvd (conn c2)" "s3 = Ok \<Longrightarrow> sent ks = sent (conn c2) @ serializeRequest req False"
      by auto
    show ?thesis
    proof (cases "s3 = Ok")
      case False
      with ss n e s2 w have "s = s3" "k' = k" "c' = c3" by (simp_all add: sendStream_def)
      with False c1 c2 c3 have "?P [] []" by simp
      then show ?thesis by blast
    next
      case s3: True
      obtain s4 left out1 c4 where r: "readHeaders ops empty_response t c3 = Some (s4, left, out1, c4)"
        using ss n e s2 w s3 by (auto simp: sendStream_def split: option.splits)
      from readHeaders_facts [OF r] obtain g where g: "recvd (conn c4) = recvd (conn c3) @ g"
        "sent (conn c4) = sent (conn c3)" "maxResponseBody c4 = maxResponseBody c3"
        "s4 = Ok \<longrightarrow> (\<exists>head. pending c3 @ g = head @ crlf2 @ left \<and>
           parseHeaderBlock (head @ crlf) empty_response = (Ok, out1))" by blast
      show ?thesis
      proof (cases "s4 = Ok \<and> status_has_body out1")
        case False
        with ss n e s2 w s3 r have o: "s = s4" "out = out1" "k' = k" "c' = c4"
          by (auto simp: sendStream_def split: if_splits)
        have "recvd (conn c4) = recvd (conn c) @ g"
          "sent (conn c4) = sent (conn c) @ serializeRequest req False" "pending c3 = pending c"
          using g(1,2) c3(3) [OF s3] c3(1,2) c1 c2 by simp_all
        with g(4) False have "?P g []" unfolding o by (auto intro: streamed_asI)
        then show ?thesis by blast
      next
        case s4: True
        obtain s5 k5 c5 where b: "stream_body ops f left out1 k t c4 = Some (s5, k5, c5)"
          using ss n e s2 w s3 r s4 by (auto simp: sendStream_def)
        with ss n e s2 w s3 r s4 have o: "s = s5" "out = out1" "k' = k5" "c' = c5"
          by (auto simp: sendStream_def)
        from stream_body_facts [OF b rec] obtain got x where
          got: "q c4 c5 got" "length (left @ got) < 2 ^ 32 \<longrightarrow>
            del k5 = del k @ x \<and> length x \<le> unat (maxResponseBody c4) \<and>
            (s5 = Ok \<and> never_stops f \<longrightarrow>
              (if is_chunked out1 then \<exists>d. cd_feed cd_reset (left @ got) [] False = (Ok, d, x, True)
               else x = left @ got))" by blast
        from g(4) s4 obtain head where h: "pending c3 @ g = head @ crlf2 @ left"
          "parseHeaderBlock (head @ crlf) empty_response = (Ok, out1)" by blast
        have p: "pending c @ g @ got = head @ crlf2 @ left @ got"
        proof -
          have "pending c3 = pending c" using c3(1) c2 c1 by simp
          with h(1) show ?thesis by (metis append_assoc)
        qed
        have len: "length (left @ got) \<le> length (pending c @ g @ got)"
          unfolding p by simp
        have "recvd (conn c') = recvd (conn c) @ g @ got"
          "sent (conn c') = sent (conn c) @ serializeRequest req False"
          "maxResponseBody c4 = maxResponseBody c"
          unfolding o using quiet_fields(10,11) [OF got(1)] g(1-3) c3 c2 c1 s3 by simp_all
        with got(2) s4 len have "?P (g @ got) x"
          unfolding o by (auto intro!: streamed_asI [OF p h(2)])
        then show ?thesis by blast
      qed
    qed
  qed
qed

end

section \<open>Properties\<close>

text \<open>A sink that keeps everything, and a client whose server sends \<open>bytes\<close> once connected.\<close>

definition keep_all :: "string sink" where
  "keep_all bs k = (True, k @ bs)"

lemma keep_all_facts: "records keep_all id" "never_stops keep_all"
  by (simp_all add: records_def never_stops_def keep_all_def)

definition plain_stream :: "string \<Rightarrow> string \<Rightarrow> fake_connection http_client" where
  "plain_stream left bytes =
     (new_client (fake_new\<lparr>toSend := bytes\<rparr>) None)\<lparr>pending := left\<rparr>"

definition plain_response :: "string \<Rightarrow> string" where
  "plain_response body = ''HTTP/1.1 200 OK'' @ crlf2 @ body"

lemma plain_stream_run:
  "map_option (\<lambda>(s, out, k, c). (s, k, served (conn c)))
     (sendStream fake_ops empty_request keep_all empty_response []
        (plain_stream [] (plain_response ''hi''))) = Some (Ok, ''hi'', plain_response ''hi'')"
  "map_option (\<lambda>(s, out, k, c). (s, k))
     (sendStream fake_ops empty_request keep_all empty_response []
        (plain_stream (plain_response ''old'') (plain_response ''new''))) =
   Some (Ok, ''old'' @ plain_response ''new'')"
  by code_simp+

text \<open>C37: on a client that holds no bytes of an earlier connection, whatever the socket does, the sink of
  a stream is given at most \<open>maxResponseBody\<close> bytes (a stream is below 4 GiB); when the stream ends with
  \<open>Ok\<close> and the sink never asked to stop, the whole request was written and the received bytes are a head
  followed by exactly what the sink was given: the chunks that decode to it up to the last one, or,
  without chunked encoding, every byte until the peer closed.  Content-Length is not enforced, so an
  unchunked body that was cut short or runs over is not noticed.\<close>

theorem stream_delivers_body:
  assumes "connection ops snt rcv" "records f del"
    and "sendStream ops req f empty_response k c = Some (s, out, k', c')"
    and "rcv (conn c') = rcv (conn c) @ got" "length got < 2 ^ 32" "pending c = []"
  shows "\<exists>x. del k' = del k @ x \<and> length x \<le> unat (maxResponseBody c) \<and>
    (s = Ok \<and> never_stops f \<longrightarrow>
       snt (conn c') = snt (conn c) @ serializeRequest req False \<and> streamed_as got out x)"
proof -
  from connection.sendStream_facts [OF assms(1,3,2)] obtain g x where
    g: "rcv (conn c') = rcv (conn c) @ g"
    "length (pending c @ g) < 2 ^ 32 \<longrightarrow> del k' = del k @ x \<and> length x \<le> unat (maxResponseBody c) \<and>
       (s = Ok \<and> never_stops f \<longrightarrow>
          snt (conn c') = snt (conn c) @ serializeRequest req False \<and>
          streamed_as (pending c @ g) out x)" by blast
  with assms(4) have "g = got" by simp
  with g(2) assms(5,6) show ?thesis by auto
qed

theorem stream_delivers_body_witness:
  "\<exists>out. streamed_as (plain_response ''hi'') out ''hi''"
proof -
  let ?c = "plain_stream [] (plain_response ''hi'')"
  from plain_stream_run(1) obtain out c' where
    r: "sendStream fake_ops empty_request keep_all empty_response [] ?c = Some (Ok, out, ''hi'', c')"
    "served (conn c') = plain_response ''hi''" by auto
  have p: "served (conn ?c) = []" "pending ?c = []"
    by (simp_all add: plain_stream_def new_client_def fake_new_def)
  have "length (plain_response ''hi'') < 2 ^ 32"
    by (simp add: plain_response_def crlf2_def)
  from stream_delivers_body [OF fake.connection_axioms keep_all_facts(1) r(1) _ this p(2)] r(2) p(1)
    keep_all_facts(2) show ?thesis by auto
qed

text \<open>\<open>sendStream\<close> keeps the bytes left over from an earlier connection when it opens a new one: the
  caller is given the old response, with the new one as its body.\<close>

theorem stream_reads_stale_bytes:
  "map_option (\<lambda>(s, out, k, c). (s, k))
     (sendStream fake_ops empty_request keep_all empty_response []
        (plain_stream (plain_response ''old'') (plain_response ''new''))) =
   Some (Ok, ''old'' @ plain_response ''new'')"
  by (rule plain_stream_run(2))

text \<open>A body shorter than its Content-Length, cut off by the peer, is reported as complete.\<close>

theorem cut_stream_ends_ok:
  "map_option (\<lambda>(s, out, k, c). (s, rs_headers out, k))
     (sendStream fake_ops empty_request keep_all empty_response []
        (plain_stream [] (''HTTP/1.1 200 OK'' @ [CR, LF] @ ''Content-Length: 9'' @ crlf2 @ ''hi''))) =
   Some (Ok, [(''Content-Length'', ''9'')], ''hi'')"
  by code_simp

end
