(* ===== verification/Tool_Types.thy ===== *)
theory Tool_Types
  imports Edge_Prelude
begin

text \<open>
  The value types of tool calling, tools/ToolTypes.h, and the builder of field lists,
  tools/FieldSpec.h.  \<open>ToolParam\<close> is a tree: the children of an object parameter, or of the
  objects in an array parameter, are parameters again.
\<close>

datatype param_type = TString | TNumber | TInteger | TBoolean | TObject | TArray

definition paramTypeName :: "param_type \<Rightarrow> string" where
  "paramTypeName t =
     (case t of TString \<Rightarrow> ''string'' | TNumber \<Rightarrow> ''number'' | TInteger \<Rightarrow> ''integer''
      | TBoolean \<Rightarrow> ''boolean'' | TObject \<Rightarrow> ''object'' | TArray \<Rightarrow> ''array'')"

datatype tool_param =
  ToolParam (tp_name: string) (tp_description: string) (tp_type: param_type) (tp_required: bool)
    (tp_enum: "string list") (tp_children: "tool_param list") (tp_item: param_type)
    (tp_hasItems: bool)

lemma size_children [termination_simp]: "size_list size (tp_children p) < size p"
  by (cases p) simp

lemma size_children_Suc [termination_simp]:
  "size_list size (tp_children p) < Suc (size p + n)"
  using size_children [of p] by linarith

record tool_call =
  tc_id :: string
  tc_name :: string
  tc_arguments :: string

record tool_result =
  tr_content :: string
  tr_isError :: bool

definition tool_ok :: "string \<Rightarrow> tool_result" where
  "tool_ok s = \<lparr>tr_content = s, tr_isError = False\<rparr>"

definition tool_error :: "string \<Rightarrow> tool_result" where
  "tool_error s = \<lparr>tr_content = s, tr_isError = True\<rparr>"

record agent_turn =
  at_text :: string
  at_calls :: "tool_call list"
  at_finish :: string
  at_input :: u32
  at_output :: u32

definition wantsTools :: "agent_turn \<Rightarrow> bool" where
  "wantsTools t \<longleftrightarrow> at_calls t \<noteq> []"

section \<open>FieldSpec\<close>

text \<open>A \<open>FieldSpec\<close> is its list of fields; each method appends one.\<close>

type_synonym field_spec = "tool_param list"

definition plain_param :: "string \<Rightarrow> param_type \<Rightarrow> string \<Rightarrow> bool \<Rightarrow> tool_param" where
  "plain_param name ty description req = ToolParam name description ty req [] [] TString False"

definition enum_param :: "string \<Rightarrow> string \<Rightarrow> string list \<Rightarrow> bool \<Rightarrow> tool_param" where
  "enum_param name description allowed req =
     ToolParam name description TString req allowed [] TString False"

definition object_param :: "string \<Rightarrow> string \<Rightarrow> field_spec \<Rightarrow> bool \<Rightarrow> tool_param" where
  "object_param name description shape req =
     ToolParam name description TObject req [] shape TString False"

definition array_param :: "string \<Rightarrow> string \<Rightarrow> param_type \<Rightarrow> bool \<Rightarrow> tool_param" where
  "array_param name description item req =
     ToolParam name description TArray req [] [] item True"

definition object_array_param :: "string \<Rightarrow> string \<Rightarrow> field_spec \<Rightarrow> bool \<Rightarrow> tool_param" where
  "object_array_param name description shape req =
     ToolParam name description TArray req [] shape TObject True"

definition field :: "string \<Rightarrow> param_type \<Rightarrow> string \<Rightarrow> bool \<Rightarrow> field_spec \<Rightarrow> field_spec" where
  "field name ty description req fs = fs @ [plain_param name ty description req]"

definition enumField :: "string \<Rightarrow> string \<Rightarrow> string list \<Rightarrow> bool \<Rightarrow> field_spec \<Rightarrow> field_spec" where
  "enumField name description allowed req fs = fs @ [enum_param name description allowed req]"

definition objectField :: "string \<Rightarrow> string \<Rightarrow> field_spec \<Rightarrow> bool \<Rightarrow> field_spec \<Rightarrow> field_spec" where
  "objectField name description shape req fs = fs @ [object_param name description shape req]"

definition arrayField :: "string \<Rightarrow> string \<Rightarrow> param_type \<Rightarrow> bool \<Rightarrow> field_spec \<Rightarrow> field_spec" where
  "arrayField name description item req fs = fs @ [array_param name description item req]"

definition objectArrayField ::
  "string \<Rightarrow> string \<Rightarrow> field_spec \<Rightarrow> bool \<Rightarrow> field_spec \<Rightarrow> field_spec" where
  "objectArrayField name description shape req fs =
     fs @ [object_array_param name description shape req]"

lemmas field_defs = field_def enumField_def objectField_def arrayField_def objectArrayField_def
lemmas param_defs = plain_param_def enum_param_def object_param_def array_param_def
  object_array_param_def

end
