(* ===== verification/Json.thy ===== *)
theory Json
  imports Edge_Prelude
begin

text \<open>
  JSON values as the code sees them through ArduinoJson.  Parsing and printing are that library's
  and stay parameters of the definitions that use them; what the sources do with a document in
  memory (type tests, member lookup, building objects) is modelled on this type.  A member that is
  absent and one that is null look alike to the code (\<open>isNull\<close>).  Numbers with a fraction or an
  exponent keep their text.
\<close>

datatype json =
    JNull
  | JBool bool
  | JInt int
  | JFlt string
  | JStr string
  | JArr "json list"
  | JObj "(string \<times> json) list"

fun obj_get :: "json \<Rightarrow> string \<Rightarrow> json" where
  "obj_get (JObj kvs) k = (case map_of kvs k of None \<Rightarrow> JNull | Some v \<Rightarrow> v)"
| "obj_get _ k = JNull"

fun arr_items :: "json \<Rightarrow> json list" where
  "arr_items (JArr xs) = xs"
| "arr_items _ = []"

fun is_str :: "json \<Rightarrow> bool" where
  "is_str (JStr _) = True" | "is_str _ = False"

text \<open>\<open>is<long>\<close>: a \<open>long\<close> has 32 bits on the boards.\<close>

fun is_long :: "json \<Rightarrow> bool" where
  "is_long (JInt i) \<longleftrightarrow> - (2 ^ 31) \<le> i \<and> i < 2 ^ 31" | "is_long _ = False"

fun is_number :: "json \<Rightarrow> bool" where
  "is_number (JInt _) = True" | "is_number (JFlt _) = True" | "is_number _ = False"

fun is_bool :: "json \<Rightarrow> bool" where
  "is_bool (JBool _) = True" | "is_bool _ = False"

fun is_obj :: "json \<Rightarrow> bool" where
  "is_obj (JObj _) = True" | "is_obj _ = False"

fun is_arr :: "json \<Rightarrow> bool" where
  "is_arr (JArr _) = True" | "is_arr _ = False"

text \<open>\<open>as<const char*>()\<close> with a default for values that are not strings; a C string ends at its
  first NUL.\<close>

fun as_cstr :: "string \<Rightarrow> json \<Rightarrow> string" where
  "as_cstr def (JStr s) = c_str s" | "as_cstr def _ = def"

text \<open>\<open>const char* p = v\<close>: null unless the value is a string.\<close>

fun cstr_of :: "json \<Rightarrow> string option" where
  "cstr_of (JStr s) = Some (c_str s)" | "cstr_of _ = None"

text \<open>\<open>o[k] = v\<close>: an existing member is replaced in place, a new one goes to the end.\<close>

fun put :: "string \<Rightarrow> 'v \<Rightarrow> (string \<times> 'v) list \<Rightarrow> (string \<times> 'v) list" where
  "put k v [] = [(k, v)]"
| "put k v (p # ps) = (if fst p = k then (k, v) # ps else p # put k v ps)"

lemma map_of_put [simp]: "map_of (put k v ps) = (map_of ps)(k \<mapsto> v)"
  by (induction ps) (auto simp: fun_eq_iff)

lemma put_new [simp]: "k \<notin> fst ` set ps \<Longrightarrow> put k v ps = ps @ [(k, v)]"
  by (induction ps) auto

lemma fst_set_put [simp]: "fst ` set (put k v ps) = insert k (fst ` set ps)"
  by (induction ps) auto

lemma distinct_put: "distinct (map fst ps) \<Longrightarrow> distinct (map fst (put k v ps))"
  by (induction ps) (auto simp flip: set_map, auto)

lemma obj_get_JObj: "obj_get (JObj kvs) k = (case map_of kvs k of None \<Rightarrow> JNull | Some v \<Rightarrow> v)"
  by simp

end
