(* ===== verification/Schema_Util.thy ===== *)
theory Schema_Util
  imports Tool_Types Json Core_Errors
begin

text \<open>
  The JSON Schema writer and validator over field lists, tools/SchemaUtil.{h,cpp}.  An object under
  construction is its member list.  Beside the code stands an evaluator of the schema fragment the
  writer uses, with the meaning JSON Schema gives its keywords.  Validation is shown to be acceptance,
  by the schema written for the same fields, of the object without its undeclared and null members,
  which the validator passes over at every level.
\<close>

section \<open>The writer\<close>

function writeParamSchema ::
    "bool \<Rightarrow> tool_param \<Rightarrow> (string \<times> json) list \<Rightarrow> (string \<times> json) list"
and writeObjectSchema ::
    "bool \<Rightarrow> tool_param list \<Rightarrow> (string \<times> json) list \<Rightarrow> (string \<times> json) list"
and write_properties ::
    "bool \<Rightarrow> tool_param list \<Rightarrow> (string \<times> json) list \<Rightarrow> (string \<times> json) list"
where
  "writeParamSchema closed (ToolParam name description ty req enum children item hasItems) po =
     (let po1 = put ''type'' (JStr (paramTypeName ty)) po;
          po2 = (if description \<noteq> [] then put ''description'' (JStr description) po1 else po1);
          po3 = (if enum \<noteq> [] then put ''enum'' (JArr (map JStr enum)) po2 else po2)
      in if ty = TObject \<and> children \<noteq> [] then writeObjectSchema closed children po3
         else if ty = TArray \<and> hasItems then
           put ''items''
             (JObj (if item = TObject \<and> children \<noteq> [] then writeObjectSchema closed children []
                    else put ''type'' (JStr (paramTypeName item)) [])) po3
         else po3)"
| "writeObjectSchema closed flds out =
     (let out1 = put ''type'' (JStr ''object'') out;
          out2 = put ''properties'' (JObj (write_properties closed flds [])) out1;
          out3 = (if \<exists>p\<in>set flds. tp_required p
                  then put ''required'' (JArr (map (JStr \<circ> tp_name) (filter tp_required flds))) out2
                  else out2)
      in if closed then put ''additionalProperties'' (JBool False) out3 else out3)"
| "write_properties closed [] props = props"
| "write_properties closed (p # ps) props =
     write_properties closed ps (put (tp_name p) (JObj (writeParamSchema closed p [])) props)"
  by pat_completeness auto
termination
  by (relation "measure (\<lambda>a. case a of Inl (_, p, _) \<Rightarrow> 2 * size p
        | Inr (Inl (_, ps, _)) \<Rightarrow> 2 * size_list size ps + 1
        | Inr (Inr (_, ps, _)) \<Rightarrow> 2 * size_list size ps)") auto

fun allFieldsRequired :: "tool_param list \<Rightarrow> bool" where
  "allFieldsRequired [] = True"
| "allFieldsRequired (p # ps) =
     (if \<not> tp_required p then False
      else if tp_children p \<noteq> [] \<and> \<not> allFieldsRequired (tp_children p) then False
      else allFieldsRequired ps)"

section \<open>The validator\<close>

definition typeMatches :: "param_type \<Rightarrow> json \<Rightarrow> bool" where
  "typeMatches ty v =
     (case ty of TString \<Rightarrow> is_str v | TInteger \<Rightarrow> is_long v | TNumber \<Rightarrow> is_number v
      | TBoolean \<Rightarrow> is_bool v | TObject \<Rightarrow> is_obj v | TArray \<Rightarrow> is_arr v)"

fun validateValue :: "tool_param \<Rightarrow> json \<Rightarrow> bool"
and validateFields :: "tool_param list \<Rightarrow> json \<Rightarrow> bool"
where
  "validateValue (ToolParam name description ty req enum children item hasItems) v =
     (if \<not> typeMatches ty v then False
      else if ty = TString \<and> enum \<noteq> [] \<and> as_cstr [] v \<notin> set enum then False
      else if ty = TObject \<and> children \<noteq> [] then validateFields children v
      else if ty = TArray \<and> hasItems then
        list_all (\<lambda>x. typeMatches item x \<and>
          (item = TObject \<and> children \<noteq> [] \<longrightarrow> validateFields children x)) (arr_items v)
      else True)"
| "validateFields [] v = True"
| "validateFields (p # ps) v =
     ((let w = obj_get v (tp_name p)
       in if w = JNull then \<not> tp_required p else validateValue p w) \<and>
      validateFields ps v)"

text \<open>\<open>parse\<close> stands for \<open>deserializeJson\<close>, \<open>None\<close> for its errors.  An empty text is not parsed: the
  document stays null.\<close>

definition validateObject :: "(string \<Rightarrow> json option) \<Rightarrow> tool_param list \<Rightarrow> string \<Rightarrow> status" where
  "validateObject parse flds txt =
     (if txt \<noteq> [] \<and> parse txt = None then SchemaValidationFailed
      else
        (let doc = (if txt \<noteq> [] then the (parse txt) else JNull)
         in if \<not> validateFields flds doc then SchemaValidationFailed else Ok))"

section \<open>The meaning of the written schemas\<close>

text \<open>The member of an object with a key, null or not.\<close>

fun member :: "json \<Rightarrow> string \<Rightarrow> json option" where
  "member (JObj kvs) k = map_of kvs k"
| "member _ k = None"

fun member_keys :: "json \<Rightarrow> string set" where
  "member_keys (JObj kvs) = fst ` set kvs"
| "member_keys _ = {}"

text \<open>
  An evaluator for the keywords \<open>type\<close>, \<open>enum\<close>, \<open>properties\<close>, \<open>required\<close>, \<open>items\<close> and
  \<open>additionalProperties\<close> (only \<open>false\<close> is written).  As in JSON Schema a null member is present, and
  null has none of the types written.  A number counts as an integer if it is written as one.
\<close>

definition schema_type :: "string \<Rightarrow> json \<Rightarrow> bool" where
  "schema_type t v =
     (if t = ''string'' then is_str v else if t = ''number'' then is_number v
      else if t = ''integer'' then (case v of JInt _ \<Rightarrow> True | _ \<Rightarrow> False)
      else if t = ''boolean'' then is_bool v else if t = ''object'' then is_obj v
      else if t = ''array'' then is_arr v else False)"

text \<open>\<open>additionalProperties: false\<close>: every member of an object is among the sibling \<open>properties\<close>.\<close>

definition no_additional :: "(string \<times> json) list \<Rightarrow> json \<Rightarrow> bool" where
  "no_additional s v \<longleftrightarrow>
     (map_of s ''additionalProperties'' = Some (JBool False) \<longrightarrow>
        member_keys v \<subseteq> (case map_of s ''properties'' of None \<Rightarrow> {} | Some ps \<Rightarrow> member_keys ps))"

function (sequential) accepts :: "json \<Rightarrow> json \<Rightarrow> bool"
and all_keywords :: "(string \<times> json) list \<Rightarrow> json \<Rightarrow> bool"
and all_properties :: "(string \<times> json) list \<Rightarrow> json \<Rightarrow> bool"
where
  "accepts (JObj s) v \<longleftrightarrow> no_additional s v \<and> all_keywords s v"
| "accepts s v = True"
| "all_keywords [] v = True"
| "all_keywords ((k, x) # s) v =
     ((if k = ''type'' then (case x of JStr t \<Rightarrow> schema_type t v | _ \<Rightarrow> True)
       else if k = ''enum'' then v \<in> set (arr_items x)
       else if k = ''required'' then
         is_obj v \<longrightarrow> list_all (\<lambda>r. case r of JStr n \<Rightarrow> member v n \<noteq> None | _ \<Rightarrow> True) (arr_items x)
       else if k = ''properties'' then
         (case x of JObj ps \<Rightarrow> is_obj v \<longrightarrow> all_properties ps v | _ \<Rightarrow> True)
       else if k = ''items'' then is_arr v \<longrightarrow> list_all (accepts x) (arr_items v)
       else True) \<and> all_keywords s v)"
| "all_properties [] v = True"
| "all_properties ((k, x) # ps) v =
     ((case member v k of None \<Rightarrow> True | Some w \<Rightarrow> accepts x w) \<and> all_properties ps v)"
  by pat_completeness auto
termination
  by (relation "measure (\<lambda>a. case a of Inl (s, _) \<Rightarrow> 2 * size s
        | Inr (Inl (s, _)) \<Rightarrow> 2 * size_list (size_prod (\<lambda>_. 0) size) s + 1
        | Inr (Inr (s, _)) \<Rightarrow> 2 * size_list (size_prod (\<lambda>_. 0) size) s + 1)") auto

lemma all_keywords_append [simp]: "all_keywords (a @ b) v = (all_keywords a v \<and> all_keywords b v)"
  by (induction a) auto

lemma all_properties_iff:
  "all_properties ps v \<longleftrightarrow> (\<forall>(k, x)\<in>set ps. \<forall>w. member v k = Some w \<longrightarrow> accepts x w)"
  by (induction ps) (auto split: option.splits)

text \<open>The object without what the validator does not look at: undeclared members and null ones, at
  every level the field list describes.\<close>

fun prune_obj :: "(string \<Rightarrow> json \<Rightarrow> json option) \<Rightarrow> json \<Rightarrow> json" where
  "prune_obj f (JObj kvs) = JObj (List.map_filter (\<lambda>(k, w). map_option (Pair k) (f k w)) kvs)"
| "prune_obj f v = v"

fun prune_value :: "tool_param \<Rightarrow> json \<Rightarrow> json"
and prune_member :: "tool_param list \<Rightarrow> string \<Rightarrow> json \<Rightarrow> json option"
where
  "prune_value (ToolParam name description ty req enum children item hasItems) v =
     (if ty = TObject \<and> children \<noteq> [] then prune_obj (\<lambda>k w. prune_member children k w) v
      else if ty = TArray \<and> hasItems \<and> item = TObject \<and> children \<noteq> [] then
        (case v of
           JArr xs \<Rightarrow> JArr (map (prune_obj (\<lambda>k w. prune_member children k w)) xs)
         | _ \<Rightarrow> v)
      else v)"
| "prune_member [] k w = None"
| "prune_member (p # ps) k w =
     (if tp_name p = k then (if w = JNull then None else Some (prune_value p w))
      else prune_member ps k w)"

definition prune :: "tool_param list \<Rightarrow> json \<Rightarrow> json" where
  "prune ps = prune_obj (prune_member ps)"

text \<open>Field lists that describe a schema: distinct names at every level, enumerations on strings.\<close>

fun spec_ok :: "tool_param list \<Rightarrow> bool" where
  "spec_ok [] = True"
| "spec_ok (p # ps) \<longleftrightarrow>
     tp_name p \<notin> set (map tp_name ps) \<and> (tp_enum p \<noteq> [] \<longrightarrow> tp_type p = TString) \<and>
     spec_ok (tp_children p) \<and> spec_ok ps"

text \<open>Values on which C strings and 32-bit integers lose nothing, and no key is repeated (ArduinoJson's
  reader keeps one member per key).\<close>

fun clean_json :: "json \<Rightarrow> bool" where
  "clean_json (JStr s) \<longleftrightarrow> (\<forall>c\<in>set s. char_code c \<noteq> 0)"
| "clean_json (JInt i) \<longleftrightarrow> is_long (JInt i)"
| "clean_json (JArr xs) \<longleftrightarrow> (\<forall>x\<in>set xs. clean_json x)"
| "clean_json (JObj kvs) \<longleftrightarrow> distinct (map fst kvs) \<and> (\<forall>p\<in>set kvs. clean_json (snd p))"
| "clean_json _ = True"

lemma obj_get_member: "obj_get v k = (case member v k of None \<Rightarrow> JNull | Some w \<Rightarrow> w)"
  by (cases v) simp_all

lemma clean_member: "clean_json v \<Longrightarrow> member v k = Some w \<Longrightarrow> clean_json w"
  by (cases v) (auto dest: map_of_SomeD)

lemma clean_obj_get: "clean_json v \<Longrightarrow> clean_json (obj_get v k)"
  by (auto simp: obj_get_member clean_member split: option.split)

lemma clean_arr_items: "clean_json v \<Longrightarrow> x \<in> set (arr_items v) \<Longrightarrow> clean_json x"
  by (cases v) auto

lemma member_prune:
  assumes "clean_json v"
  shows "member (prune_obj f v) k = (case member v k of None \<Rightarrow> None | Some w \<Rightarrow> f k w)"
proof (cases v)
  case (JObj kvs)
  have "map_of (List.map_filter (\<lambda>(k, w). map_option (Pair k) (f k w)) kvs) k =
      (case map_of kvs k of None \<Rightarrow> None | Some w \<Rightarrow> f k w)" if "distinct (map fst kvs)"
    using that
  proof (induction kvs)
    case (Cons e kvs)
    have "fst ` set (List.map_filter (\<lambda>(k, w). map_option (Pair k) (f k w)) kvs) \<subseteq> fst ` set kvs"
      by (induction kvs) (auto simp: map_filter_simps split: option.splits)
    with Cons.prems have "map_of (List.map_filter (\<lambda>(k, w). map_option (Pair k) (f k w)) kvs) (fst e) = None"
      by (auto simp: map_of_eq_None_iff)
    with Cons show ?case by (cases e) (auto simp: map_filter_simps split: option.splits)
  qed (simp add: map_filter_simps)
  with assms JObj show ?thesis by simp
qed simp_all

lemma prune_kinds [simp]:
  "is_obj (prune_obj f v) = is_obj v" "is_arr (prune_obj f v) = is_arr v"
  by (cases v; simp)+

lemma keys_member: "member_keys v = {k. member v k \<noteq> None}"
  by (cases v) (auto simp: dom_map_of_conv_image_fst [symmetric])

lemma prune_member_at:
  "spec_ok ps \<Longrightarrow> p \<in> set ps \<Longrightarrow>
     prune_member ps (tp_name p) w = (if w = JNull then None else Some (prune_value p w))"
  by (induction ps) (auto simp: image_iff)

lemma prune_member_declared: "prune_member ps k w \<noteq> None \<Longrightarrow> k \<in> tp_name ` set ps"
  by (induction ps) (auto split: if_splits)

lemma typeMatches_schema:
  "clean_json v \<Longrightarrow> schema_type (paramTypeName ty) v = typeMatches ty v"
  by (cases ty; cases v) (auto simp: schema_type_def paramTypeName_def typeMatches_def)

lemma prune_value_kind:
  "prune_value p v = v \<or> is_obj v \<and> is_obj (prune_value p v) \<or> is_arr v \<and> is_arr (prune_value p v)"
  by (cases p; cases v) auto

lemma typeMatches_pruned:
  assumes "clean_json v"
  shows "schema_type (paramTypeName ty) (prune_value p v) = typeMatches ty v"
    "schema_type (paramTypeName ty) (prune_obj f v) = typeMatches ty v"
proof -
  have obj: "schema_type (paramTypeName ty) w = (ty = TObject)" if "is_obj w" for w
    using that by (cases ty; cases w) (auto simp: schema_type_def paramTypeName_def)
  have arr: "schema_type (paramTypeName ty) w = (ty = TArray)" if "is_arr w" for w
    using that by (cases ty; cases w) (auto simp: schema_type_def paramTypeName_def)
  show "schema_type (paramTypeName ty) (prune_value p v) = typeMatches ty v"
    using prune_value_kind [of p v] typeMatches_schema [OF assms, of ty] obj arr by metis
  show "schema_type (paramTypeName ty) (prune_obj f v) = typeMatches ty v"
    using typeMatches_schema [OF assms, of ty] obj [of v] obj [of "prune_obj f v"]
    by (cases v) simp_all
qed

lemma schema_type_JNull: "\<not> schema_type (paramTypeName ty) JNull"
  by (cases ty) (simp_all add: schema_type_def paramTypeName_def)

lemma enum_schema:
  assumes "clean_json v" "is_str v"
  shows "v \<in> set (map JStr enum) \<longleftrightarrow> as_cstr [] v \<in> set enum"
  using assms by (cases v) (auto simp: c_str_def takeWhile_eq_all_conv [THEN iffD2])

lemma typeMatches_TString: "typeMatches TString v = is_str v"
  "typeMatches TObject v = is_obj v" "typeMatches TArray v = is_arr v"
  by (simp_all add: typeMatches_def)

text \<open>The written properties, in closed form.\<close>

lemma write_properties_append:
  "spec_ok ps \<Longrightarrow> set (map tp_name ps) \<inter> fst ` set props = {} \<Longrightarrow>
     write_properties closed ps props =
       props @ map (\<lambda>p. (tp_name p, JObj (writeParamSchema closed p []))) ps"
  by (induction ps arbitrary: props) auto

text \<open>The object schema over a member list that already has the type.\<close>

definition object_members :: "bool \<Rightarrow> tool_param list \<Rightarrow> (string \<times> json) list" where
  "object_members closed ps =
     (''properties'', JObj (write_properties closed ps [])) #
     (if \<exists>p\<in>set ps. tp_required p
      then [(''required'', JArr (map (JStr \<circ> tp_name) (filter tp_required ps)))] else []) @
     (if closed then [(''additionalProperties'', JBool False)] else [])"

lemma put_same: "map_of ps k = Some v \<Longrightarrow> put k v ps = ps"
  by (induction ps) (auto split: if_splits)

lemma writeObjectSchema_members:
  "writeObjectSchema closed ps [] = (''type'', JStr ''object'') # object_members closed ps"
  by (simp add: object_members_def Let_def)

lemma writeObjectSchema_over:
  assumes "map_of out ''type'' = Some (JStr ''object'')"
    and "fst ` set out \<subseteq> {''type'', ''description'', ''enum''}"
  shows "writeObjectSchema closed ps out = out @ object_members closed ps"
proof -
  have "''properties'' \<notin> fst ` set out" "''required'' \<notin> fst ` set out"
    "''additionalProperties'' \<notin> fst ` set out" using assms(2) by auto
  then show ?thesis by (simp add: object_members_def Let_def put_same [OF assms(1)])
qed

lemma validateFields_iff:
  "validateFields ps v = (\<forall>p\<in>set ps. if obj_get v (tp_name p) = JNull then \<not> tp_required p
      else validateValue p (obj_get v (tp_name p)))"
  by (induction ps) (auto simp: Let_def)

lemma object_members_eq:
  "spec_ok ps \<Longrightarrow> object_members closed ps =
     (''properties'', JObj (map (\<lambda>p. (tp_name p, JObj (writeParamSchema closed p []))) ps)) #
     (if \<exists>p\<in>set ps. tp_required p
      then [(''required'', JArr (map (JStr \<circ> tp_name) (filter tp_required ps)))] else []) @
     (if closed then [(''additionalProperties'', JBool False)] else [])"
  using write_properties_append [of ps "[]" closed] by (simp add: object_members_def)

lemma object_accepts:
  assumes "is_obj v" "spec_ok ps"
  shows "all_keywords (object_members closed ps) v \<longleftrightarrow>
    (\<forall>p\<in>set ps. (\<forall>w. member v (tp_name p) = Some w \<longrightarrow> accepts (JObj (writeParamSchema closed p [])) w) \<and>
      (tp_required p \<longrightarrow> member v (tp_name p) \<noteq> None))"
  using assms(1) by (auto simp: object_members_eq [OF assms(2)] all_properties_iff list_all_iff)

lemma object_additional:
  assumes "spec_ok ps" "map_of pre ''additionalProperties'' = None" "map_of pre ''properties'' = None"
  shows "no_additional (pre @ object_members closed ps) v \<longleftrightarrow>
    (closed \<longrightarrow> member_keys v \<subseteq> tp_name ` set ps)"
  using assms(2,3) by (auto simp: no_additional_def object_members_eq [OF assms(1)] map_add_def image_image)

text \<open>An object's members, pruned, are accepted exactly when the validator accepts the object.\<close>

lemma accepts_members:
  assumes v: "is_obj v" "clean_json v" and ps: "spec_ok ps"
    and "\<And>p. p \<in> set ps \<Longrightarrow> obj_get v (tp_name p) \<noteq> JNull \<Longrightarrow>
      accepts (JObj (writeParamSchema closed p [])) (prune_value p (obj_get v (tp_name p))) =
        validateValue p (obj_get v (tp_name p))"
  shows "all_keywords (object_members closed ps) (prune ps v) = validateFields ps v"
proof -
  have m: "member (prune ps v) (tp_name p) =
      (if obj_get v (tp_name p) = JNull then None else Some (prune_value p (obj_get v (tp_name p))))"
    if "p \<in> set ps" for p
    using that prune_member_at [OF ps that]
    by (simp add: prune_def member_prune [OF v(2)] obj_get_member split: option.split)
  have "is_obj (prune ps v)" using v(1) by (simp add: prune_def)
  from object_accepts [OF this ps] show ?thesis
    unfolding validateFields_iff using m assms(4) by auto
qed

lemma prune_no_additional: "clean_json v \<Longrightarrow> member_keys (prune ps v) \<subseteq> tp_name ` set ps"
  using prune_member_declared [of ps]
  by (auto simp: keys_member prune_def member_prune split: option.splits)

definition base_members :: "tool_param \<Rightarrow> (string \<times> json) list" where
  "base_members p =
     (''type'', JStr (paramTypeName (tp_type p))) #
     (if tp_description p \<noteq> [] then [(''description'', JStr (tp_description p))] else []) @
     (if tp_enum p \<noteq> [] then [(''enum'', JArr (map JStr (tp_enum p)))] else [])"

definition shape_members :: "bool \<Rightarrow> tool_param \<Rightarrow> (string \<times> json) list" where
  "shape_members closed p =
     (if tp_type p = TObject \<and> tp_children p \<noteq> [] then object_members closed (tp_children p)
      else if tp_type p = TArray \<and> tp_hasItems p then
        [(''items'',
          JObj ((''type'', JStr (paramTypeName (tp_item p))) #
            (if tp_item p = TObject \<and> tp_children p \<noteq> [] then object_members closed (tp_children p)
             else [])))]
      else [])"

lemma writeParamSchema_base:
  "writeParamSchema closed p [] =
     (if tp_type p = TObject \<and> tp_children p \<noteq> []
      then writeObjectSchema closed (tp_children p) (base_members p)
      else if tp_type p = TArray \<and> tp_hasItems p then
        put ''items''
          (JObj (if tp_item p = TObject \<and> tp_children p \<noteq> []
                 then writeObjectSchema closed (tp_children p) []
                 else [(''type'', JStr (paramTypeName (tp_item p)))])) (base_members p)
      else base_members p)"
proof (cases p)
  case (ToolParam name description ty req enum children item hasItems)
  have "(let po1 = put ''type'' (JStr (paramTypeName ty)) [];
          po2 = (if description \<noteq> [] then put ''description'' (JStr description) po1 else po1)
      in (if enum \<noteq> [] then put ''enum'' (JArr (map JStr enum)) po2 else po2)) = base_members p"
    by (simp add: base_members_def ToolParam)
  then show ?thesis
    unfolding ToolParam writeParamSchema.simps Let_def by (simp del: writeObjectSchema.simps)
qed

lemma writeParamSchema_members:
  "writeParamSchema closed p [] = base_members p @ shape_members closed p"
proof (cases "tp_type p = TObject")
  case True
  then have "writeObjectSchema closed (tp_children p) (base_members p) =
      base_members p @ object_members closed (tp_children p)"
    by (intro writeObjectSchema_over) (auto simp: base_members_def paramTypeName_def)
  with True show ?thesis by (simp add: writeParamSchema_base shape_members_def)
next
  case False
  have "''items'' \<notin> fst ` set (base_members p)" by (auto simp: base_members_def)
  with False show ?thesis
    by (simp add: writeParamSchema_base shape_members_def writeObjectSchema_members paramTypeName_def
        del: writeObjectSchema.simps)
qed

lemma base_accepts:
  assumes "clean_json v" "tp_enum p \<noteq> [] \<longrightarrow> tp_type p = TString"
  shows "all_keywords (base_members p) (prune_value p v) =
    (typeMatches (tp_type p) v \<and> (tp_enum p \<noteq> [] \<longrightarrow> as_cstr [] v \<in> set (tp_enum p)))"
proof -
  have "prune_value p v = v" if "tp_type p = TString"
    using that by (cases p) simp
  with enum_schema [OF assms(1), of "tp_enum p"] assms(2) show ?thesis
    by (auto simp: base_members_def typeMatches_pruned [OF assms(1)] typeMatches_TString)
qed

lemma base_keys:
  "map_of (base_members p) ''additionalProperties'' = None" "map_of (base_members p) ''properties'' = None"
  by (simp_all add: base_members_def)

lemma shape_additional:
  "spec_ok (tp_children p) \<Longrightarrow> no_additional (base_members p @ shape_members closed p) v \<longleftrightarrow>
     (tp_type p = TObject \<and> tp_children p \<noteq> [] \<and> closed \<longrightarrow> member_keys v \<subseteq> tp_name ` set (tp_children p))"
  using object_additional [of "tp_children p" "base_members p" closed v] base_keys [of p]
  by (auto simp: shape_members_def no_additional_def map_add_def)

text \<open>What the schema of an array's items says.\<close>

definition item_members :: "bool \<Rightarrow> tool_param \<Rightarrow> (string \<times> json) list" where
  "item_members closed p =
     (''type'', JStr (paramTypeName (tp_item p))) #
     (if tp_item p = TObject \<and> tp_children p \<noteq> [] then object_members closed (tp_children p) else [])"

lemma item_additional:
  "spec_ok (tp_children p) \<Longrightarrow> no_additional (item_members closed p) v \<longleftrightarrow>
     (tp_item p = TObject \<and> tp_children p \<noteq> [] \<and> closed \<longrightarrow> member_keys v \<subseteq> tp_name ` set (tp_children p))"
  using object_additional [of "tp_children p" "[(''type'', JStr (paramTypeName (tp_item p)))]" closed v]
  by (auto simp: item_members_def no_additional_def)

lemma accepts_param:
  "spec_ok [p] \<Longrightarrow> clean_json v \<Longrightarrow>
     accepts (JObj (writeParamSchema closed p [])) (prune_value p v) = validateValue p v"
  "spec_ok ps \<Longrightarrow> clean_json v \<Longrightarrow> p \<in> set ps \<Longrightarrow> obj_get v (tp_name p) \<noteq> JNull \<Longrightarrow>
     accepts (JObj (writeParamSchema closed p [])) (prune_value p (obj_get v (tp_name p))) =
       validateValue p (obj_get v (tp_name p))"
proof (induction p v and ps v arbitrary: and p rule: validateValue_validateFields.induct)
  case (1 name description ty req enum children item hasItems v)
  let ?p = "ToolParam name description ty req enum children item hasItems"
  let ?v = "prune_value ?p v"
  from 1 have ok: "spec_ok children" "enum \<noteq> [] \<longrightarrow> ty = TString" by simp_all
  have b: "all_keywords (base_members ?p) ?v =
      (typeMatches ty v \<and> (enum \<noteq> [] \<longrightarrow> as_cstr [] v \<in> set enum))"
    using base_accepts [of v ?p] 1 ok(2) by simp
  have a: "no_additional (base_members ?p @ shape_members closed ?p) ?v"
    using shape_additional [of ?p closed ?v] ok(1) prune_no_additional [OF 1(4), of children]
    by (auto simp: prune_def)
  show ?case
  proof (cases "typeMatches ty v \<and> (enum \<noteq> [] \<longrightarrow> as_cstr [] v \<in> set enum)")
    case False
    with b ok(2) show ?thesis by (auto simp: writeParamSchema_members)
  next
    case True
    have "all_keywords (shape_members closed ?p) ?v =
        (if ty = TObject \<and> children \<noteq> [] then validateFields children v
         else if ty = TArray \<and> hasItems then
           list_all (\<lambda>x. typeMatches item x \<and>
             (item = TObject \<and> children \<noteq> [] \<longrightarrow> validateFields children x)) (arr_items v)
         else True)"
    proof (cases "ty = TObject \<and> children \<noteq> []")
      case obj: True
      have "all_keywords (object_members closed children) (prune children v) = validateFields children v"
        using True obj ok 1 by (intro accepts_members) (auto simp: typeMatches_TString)
      with obj show ?thesis by (simp add: shape_members_def prune_def)
    next
      case nobj: False
      show ?thesis
      proof (cases "ty = TArray \<and> hasItems")
        case False
        with nobj have "shape_members closed ?p = []" by (auto simp: shape_members_def)
        with nobj False show ?thesis by auto
      next
        case arr: True
        then obtain xs where xs: "v = JArr xs" using True by (cases v) (simp_all add: typeMatches_def)
        have item: "accepts (JObj (item_members closed ?p))
              (if item = TObject \<and> children \<noteq> [] then prune children x else x) \<longleftrightarrow>
            typeMatches item x \<and> (item = TObject \<and> children \<noteq> [] \<longrightarrow> validateFields children x)"
          if x: "x \<in> set xs" for x
        proof (cases "item = TObject \<and> children \<noteq> []")
          case False
          have "clean_json x" using 1(4) x xs by simp
          then show ?thesis
            using False item_additional [of ?p closed x] ok(1)
            by (auto simp: item_members_def typeMatches_schema)
        next
          case io: True
          have cx: "clean_json x" using 1(4) x xs by simp
          have t: "schema_type (paramTypeName item) (prune children x) = typeMatches item x"
            using typeMatches_pruned(2) [OF cx] by (simp add: prune_def)
          have n: "no_additional (item_members closed ?p) (prune children x)"
            using item_additional [of ?p closed "prune children x"] ok(1) prune_no_additional [OF cx] by auto
          show ?thesis
          proof (cases "typeMatches item x")
            case False
            with t io show ?thesis by (simp add: item_members_def)
          next
            case tm: True
            have "all_keywords (object_members closed children) (prune children x) = validateFields children x"
              using True nobj arr ok x xs io tm cx 1(2) by (intro accepts_members) (auto simp: typeMatches_TString)
            with t n io tm show ?thesis by (simp add: item_members_def)
          qed
        qed
        have "arr_items ?v = map (\<lambda>x. if item = TObject \<and> children \<noteq> [] then prune children x else x) xs"
          using nobj arr xs by (auto simp: prune_def)
        moreover have "is_arr ?v" using nobj arr xs by auto
        ultimately show ?thesis
          using nobj arr item by (auto simp: shape_members_def item_members_def list_all_iff xs)
      qed
    qed
    with True b a ok(2) show ?thesis by (auto simp: writeParamSchema_members)
  qed
next
  case (2 v)
  then show ?case by simp
next
  case (3 p ps v q)
  then show ?case using clean_obj_get by (cases "q = p") auto
qed

lemma accepts_fields:
  assumes "spec_ok ps" "clean_json v" "is_obj v"
  shows "accepts (JObj (writeObjectSchema closed ps [])) (prune ps v) = validateFields ps v"
proof -
  have "no_additional ([(''type'', JStr ''object'')] @ object_members closed ps) (prune ps v)"
    using object_additional [OF assms(1), of "[(''type'', JStr ''object'')]"] prune_no_additional [OF assms(2)]
    by auto
  moreover have "is_obj (prune ps v)" using assms(3) by (simp add: prune_def)
  ultimately show ?thesis
    using accepts_members [OF assms(3,2,1), of closed] accepts_param(2) [OF assms(1,2)]
    by (simp add: writeObjectSchema_members schema_type_def del: writeObjectSchema.simps)
qed

lemma validateFields_optional:
  "\<not> is_obj v \<Longrightarrow> validateFields ps v = (\<forall>p\<in>set ps. \<not> tp_required p)"
  by (induction ps) (cases v; auto)+

section \<open>Properties\<close>

text \<open>What a strict schema accepts as it is has no undeclared and no null members.\<close>

lemma prune_obj_same:
  assumes "clean_json v" "is_obj v" "\<And>k w. member v k = Some w \<Longrightarrow> f k w = Some w"
  shows "prune_obj f v = v"
proof -
  obtain kvs where v: "v = JObj kvs" using assms(2) by (cases v) simp_all
  have "f k w = Some w" if "(k, w) \<in> set kvs" for k w
    using assms(1,3) that by (simp add: v)
  then have "List.map_filter (\<lambda>(k, w). map_option (Pair k) (f k w)) kvs = kvs"
    by (induction kvs) (auto simp: map_filter_simps)
  then show ?thesis by (simp add: v)
qed

lemma accepted_members_kept:
  assumes "clean_json v" "is_obj v" "spec_ok ps" "member_keys v \<subseteq> tp_name ` set ps"
    and "all_keywords (object_members True ps) v"
    and "\<And>p w. p \<in> set ps \<Longrightarrow> member v (tp_name p) = Some w \<Longrightarrow>
      accepts (JObj (writeParamSchema True p [])) w \<Longrightarrow> prune_value p w = w"
  shows "prune ps v = v"
  unfolding prune_def
proof (rule prune_obj_same [OF assms(1,2)])
  fix k w
  assume m: "member v k = Some w"
  then obtain p where p: "p \<in> set ps" "k = tp_name p" using assms(4) by (auto simp: keys_member)
  have acc: "accepts (JObj (writeParamSchema True p [])) w"
    using assms(5) object_accepts [OF assms(2,3)] p m by blast
  then have "w \<noteq> JNull"
    using schema_type_JNull [of "tp_type p"] by (auto simp: writeParamSchema_members base_members_def)
  with prune_member_at [OF assms(3) p(1)] assms(6) [OF p(1) _ acc] m show "prune_member ps k w = Some w"
    by (simp add: p(2))
qed

lemma spec_ok_one: "spec_ok ps \<Longrightarrow> p \<in> set ps \<Longrightarrow> spec_ok [p]"
  by (induction ps) auto

lemma accepted_kept:
  "spec_ok [p] \<Longrightarrow> clean_json v \<Longrightarrow> accepts (JObj (writeParamSchema True p [])) v \<Longrightarrow> prune_value p v = v"
proof (induction p arbitrary: v)
  case (ToolParam name description ty req enum children item hasItems)
  let ?p = "ToolParam name description ty req enum children item hasItems"
  from ToolParam.prems(1) have ok: "spec_ok children" by simp
  have t: "typeMatches ty v" "no_additional (base_members ?p @ shape_members True ?p) v"
    "all_keywords (shape_members True ?p) v"
    using ToolParam.prems(3) typeMatches_schema [OF ToolParam.prems(2), of ty]
    by (auto simp: writeParamSchema_members base_members_def)
  have kept: "prune children x = x"
    if "clean_json x" "is_obj x" "member_keys x \<subseteq> tp_name ` set children"
      "all_keywords (object_members True children) x" for x
    using accepted_members_kept [OF that(1,2) ok that(3,4)] ToolParam.IH spec_ok_one [OF ok]
      clean_member [OF that(1)] by blast
  show ?case
  proof (cases "ty = TObject \<and> children \<noteq> []")
    case obj: True
    then have "prune children v = v"
      using kept [OF ToolParam.prems(2)] t shape_additional [of ?p True v] ok
      by (simp add: typeMatches_TString shape_members_def)
    with obj show ?thesis by (simp add: prune_def)
  next
    case nobj: False
    show ?thesis
    proof (cases "ty = TArray \<and> hasItems \<and> item = TObject \<and> children \<noteq> []")
      case False
      with nobj show ?thesis by auto
    next
      case arr: True
      then obtain xs where xs: "v = JArr xs" using t(1) by (cases v) (simp_all add: typeMatches_def)
      have "prune children x = x" if x: "x \<in> set xs" for x
      proof (rule kept)
        show cx: "clean_json x" using ToolParam.prems(2) x xs by simp
        have "accepts (JObj (item_members True ?p)) x"
          using t(3) arr x by (auto simp: shape_members_def item_members_def xs list_all_iff)
        then show "is_obj x" "member_keys x \<subseteq> tp_name ` set children"
          "all_keywords (object_members True children) x"
          using arr item_additional [of ?p True x] ok typeMatches_schema [OF cx, of item]
          by (auto simp: item_members_def typeMatches_TString)
      qed
      with arr xs show ?thesis by (auto simp: prune_def intro!: map_idI)
    qed
  qed
qed

lemma strict_kept:
  assumes "spec_ok ps" "clean_json v" "is_obj v" "accepts (JObj (writeObjectSchema True ps [])) v"
  shows "prune ps v = v"
proof (rule accepted_members_kept [OF assms(2,3,1)])
  have a: "no_additional ([(''type'', JStr ''object'')] @ object_members True ps) v"
    "all_keywords (object_members True ps) v"
    using assms(4) by (simp_all add: writeObjectSchema_members del: writeObjectSchema.simps)
  then show "member_keys v \<subseteq> tp_name ` set ps" "all_keywords (object_members True ps) v"
    using object_additional [OF assms(1), of "[(''type'', JStr ''object'')]" True v] by simp_all
  show "prune_value p w = w" if "p \<in> set ps" "member v (tp_name p) = Some w"
    "accepts (JObj (writeParamSchema True p [])) w" for p w
    using accepted_kept [OF spec_ok_one [OF assms(1) that(1)] clean_member [OF assms(2) that(2)] that(3)] .
qed

text \<open>C38: an argument text that parses to an object is accepted by the validator exactly when the
  object, without its undeclared and null members (at every level the fields describe), satisfies the
  JSON Schema written for the same fields; and the object as it is satisfies the strict schema, with
  \<open>additionalProperties: false\<close>, exactly when it is accepted and has no such members.\<close>

theorem validate_iff_schema:
  assumes "spec_ok ps" "txt \<noteq> []" "parse txt = Some v" "clean_json v" "is_obj v"
  shows "(validateObject parse ps txt = Ok \<longleftrightarrow>
      accepts (JObj (writeObjectSchema closed ps [])) (prune ps v)) \<and>
    (accepts (JObj (writeObjectSchema True ps [])) v \<longleftrightarrow>
      validateObject parse ps txt = Ok \<and> prune ps v = v)"
proof -
  have v: "validateObject parse ps txt = Ok \<longleftrightarrow> validateFields ps v"
    using assms(2,3) by (simp add: validateObject_def)
  note f = accepts_fields [OF assms(1,4,5)]
  show ?thesis
    unfolding v f [symmetric, of True]
    using f [of closed] f [of True] strict_kept [OF assms(1,4,5)] by (auto simp del: accepts.simps)
qed

theorem validate_iff_schema_witness:
  "let ps = [plain_param ''n'' TInteger [] True,
             object_array_param ''xs'' ''all'' [enum_param ''u'' [] [''C'', ''F''] True] False];
       v = JObj [(''n'', JInt 3), (''xs'', JArr [JObj [(''u'', JStr ''K''), (''z'', JNull)]])]
   in (validateObject (\<lambda>_. Some v) ps ''t'' = Ok \<longleftrightarrow>
         accepts (JObj (writeObjectSchema False ps [])) (prune ps v)) \<and>
      (accepts (JObj (writeObjectSchema True ps [])) v \<longleftrightarrow>
         validateObject (\<lambda>_. Some v) ps ''t'' = Ok \<and> prune ps v = v)"
  unfolding Let_def by (rule validate_iff_schema) (simp_all add: param_defs char_code_def)

text \<open>The difference is real: an object with an undeclared member passes validation and violates the
  strict schema that is published for the tool.\<close>

theorem undeclared_member_passes:
  "let ps = [plain_param ''n'' TInteger [] True]; v = JObj [(''n'', JInt 3), (''m'', JInt 4)]
   in validateObject (\<lambda>_. Some v) ps ''t'' = Ok \<and> \<not> accepts (JObj (writeObjectSchema True ps [])) v"
  by (simp add: Let_def param_defs validateObject_def typeMatches_def no_additional_def)

text \<open>what is not an object is refused only when some field is required: without a required field,
  an array, a string or a number passes as the arguments of a tool.\<close>

theorem non_object_arguments:
  assumes "txt \<noteq> []" "parse txt = Some v" "\<not> is_obj v"
  shows "validateObject parse ps txt = Ok \<longleftrightarrow> (\<forall>p\<in>set ps. \<not> tp_required p)"
  using assms validateFields_optional [OF assms(3)] by (simp add: validateObject_def)

theorem non_object_arguments_witness:
  "validateObject (\<lambda>_. Some (JArr [])) [plain_param ''n'' TInteger [] False] ''[]'' = Ok \<longleftrightarrow>
     (\<forall>p\<in>set [plain_param ''n'' TInteger [] False]. \<not> tp_required p)"
  by (rule non_object_arguments [where v = "JArr []"]) simp_all

end
