(* ===== verification/Registry.thy ===== *)
theory Registry
  imports Edge_Prelude
begin

text \<open>
  The three registries of the library (tools, prompts and resources) share one shape: a vector of
  entries searched by a string key, where registering a known key redefines its entry in place.
  Locale \<open>registry\<close> holds what that shape gives, over the entry's key and the entry a registration
  creates; each registry interprets it.
\<close>

fun reg_index :: "('a \<Rightarrow> string) \<Rightarrow> 'a list \<Rightarrow> string \<Rightarrow> nat option" where
  "reg_index key [] n = None"
| "reg_index key (t # ts) n = (if key t = n then Some 0 else map_option Suc (reg_index key ts n))"

definition reg_find :: "('a \<Rightarrow> string) \<Rightarrow> 'a list \<Rightarrow> string \<Rightarrow> 'a option" where
  "reg_find key ts n = find (\<lambda>t. key t = n) ts"

text \<open>Registration returns the registry and the index its builder edits.\<close>

definition reg_add :: "('a \<Rightarrow> string) \<Rightarrow> string \<Rightarrow> 'a \<Rightarrow> 'a list \<Rightarrow> 'a list \<times> nat" where
  "reg_add key n x ts =
     (case reg_index key ts n of Some i \<Rightarrow> (ts[i := x], i) | None \<Rightarrow> (ts @ [x], length ts))"

definition reg_edit :: "nat \<Rightarrow> ('a \<Rightarrow> 'a) \<Rightarrow> 'a list \<Rightarrow> 'a list" where
  "reg_edit i f ts = ts[i := f (ts ! i)]"

lemma reg_find_None: "reg_find key ts n = None \<longleftrightarrow> n \<notin> key ` set ts"
  by (auto simp: reg_find_def find_None_iff)

lemma reg_find_Some: "reg_find key ts n = Some t \<Longrightarrow> t \<in> set ts \<and> key t = n"
  by (auto simp: reg_find_def find_Some_iff)

lemma reg_find_distinct:
  "distinct (map key ts) \<Longrightarrow> t \<in> set ts \<Longrightarrow> reg_find key ts (key t) = Some t"
  by (induction ts) (auto simp: reg_find_def)

lemma reg_index_None: "reg_index key ts n = None \<longleftrightarrow> n \<notin> key ` set ts"
  by (induction ts) auto

lemma reg_index_Some:
  "reg_index key ts n = Some i \<Longrightarrow> i < length ts \<and> key (ts ! i) = n \<and> (\<forall>j<i. key (ts ! j) \<noteq> n)"
  by (induction ts arbitrary: i) (auto simp: nth_Cons split: if_splits nat.splits)

lemma reg_find_index: "reg_find key ts n = map_option (\<lambda>i. ts ! i) (reg_index key ts n)"
  by (induction ts) (auto simp: reg_find_def option.map_comp comp_def)

lemma reg_index_distinct:
  assumes "distinct (map key ts)" "i < length ts" "key (ts ! i) = n"
  shows "reg_index key ts n = Some i"
proof (cases "reg_index key ts n")
  case None
  with assms show ?thesis by (metis imageI nth_mem reg_index_None)
next
  case (Some j)
  with assms reg_index_Some [OF Some] show ?thesis by (metis distinct_conv_nth length_map nth_map)
qed

lemma reg_find_last:
  "reg_find key (ts @ [t]) n =
     (if key t = n \<and> n \<notin> key ` set ts then Some t else reg_find key ts n)"
  by (induction ts) (auto simp: reg_find_def)

text \<open>Editing an entry without renaming it.\<close>

lemma reg_edit_keys: "(\<And>t. key (f t) = key t) \<Longrightarrow> map key (reg_edit i f ts) = map key ts"
  by (induction ts arbitrary: i) (auto simp: reg_edit_def split: nat.splits)

lemma reg_index_keys: "map key ts = map key ts' \<Longrightarrow> reg_index key ts n = reg_index key ts' n"
proof (induction ts arbitrary: ts')
  case Nil
  then show ?case by simp
next
  case (Cons t ts)
  then show ?case by (cases ts') auto
qed

lemma reg_find_edit:
  assumes "\<And>t. key (f t) = key t" "distinct (map key ts)" "i < length ts"
  shows "reg_find key (reg_edit i f ts) n =
    (if n = key (ts ! i) then Some (f (ts ! i)) else reg_find key ts n)"
proof -
  have idx: "reg_index key (reg_edit i f ts) n = reg_index key ts n"
    by (rule reg_index_keys, rule reg_edit_keys, rule assms(1))
  show ?thesis
  proof (cases "n = key (ts ! i)")
    case True
    with idx reg_index_distinct [OF assms(2,3), of n] assms(3) show ?thesis
      by (simp add: reg_find_index reg_edit_def)
  next
    case False
    have "(reg_edit i f ts) ! j = ts ! j" if "reg_index key ts n = Some j" for j
    proof -
      have "i \<noteq> j" using reg_index_Some [OF that] False by auto
      then show ?thesis by (simp add: reg_edit_def)
    qed
    with idx False show ?thesis by (cases "reg_index key ts n") (auto simp: reg_find_index)
  qed
qed

locale registry =
  fixes key :: "'a \<Rightarrow> string" and fresh :: "string \<Rightarrow> string \<Rightarrow> 'a"
  assumes key_fresh: "key (fresh n d) = n"
begin

lemma add_facts:
  assumes "reg_add key n (fresh n d) ts = (ts', i)" "distinct (map key ts)"
  shows "distinct (map key ts') \<and> i < length ts' \<and> ts' ! i = fresh n d \<and>
    reg_find key ts' m = (if m = n then Some (fresh n d) else reg_find key ts m) \<and>
    set (map key ts') = insert n (set (map key ts))"
proof (cases "reg_index key ts n")
  case None
  with assms show ?thesis by (auto simp: reg_add_def reg_index_None key_fresh reg_find_last)
next
  case (Some j)
  note j = reg_index_Some [OF Some]
  with Some assms have eq: "ts' = ts[j := fresh n d]" "i = j" by (auto simp: reg_add_def)
  have keys: "map key ts' = map key ts"
    unfolding eq(1) using j key_fresh by (metis list_update_id map_update nth_map)
  have "reg_index key ts' m = reg_index key ts m" by (rule reg_index_keys [OF keys])
  moreover have "i \<noteq> k" if "reg_index key ts m = Some k" "m \<noteq> n" for k
    using reg_index_Some [OF that(1)] j eq(2) that(2) by auto
  ultimately have "reg_find key ts' m = (if m = n then Some (fresh n d) else reg_find key ts m)"
    using Some j eq by (cases "reg_index key ts m") (auto simp: reg_find_index)
  moreover have "n \<in> set (map key ts)" using j by auto
  moreover have "i < length ts'" "ts' ! i = fresh n d" using eq j by simp_all
  ultimately show ?thesis using assms(2) keys by (auto simp del: set_map)
qed

lemma add_then_edit:
  assumes "reg_add key n (fresh n d) ts = (ts', i)" "distinct (map key ts)"
    and "\<And>t. key (f t) = key t"
  shows "distinct (map key (reg_edit i f ts'))"
    "reg_find key (reg_edit i f ts') m =
       (if m = n then Some (f (fresh n d)) else reg_find key ts m)"
proof -
  note a = add_facts [OF assms(1,2), of m]
  have "map key (reg_edit i f ts') = map key ts'" by (rule reg_edit_keys) (rule assms(3))
  with a show "distinct (map key (reg_edit i f ts'))" by simp
  have "reg_find key (reg_edit i f ts') m =
      (if m = key (ts' ! i) then Some (f (ts' ! i)) else reg_find key ts' m)"
    using a by (intro reg_find_edit assms(3)) simp_all
  with a key_fresh show "reg_find key (reg_edit i f ts') m =
       (if m = n then Some (f (fresh n d)) else reg_find key ts m)" by simp
qed

end

end
