(* ===== verification/Tool_Registry.thy ===== *)
theory Tool_Registry
  imports Schema_Util Registry
begin

text \<open>
  Tool arguments, tools and their registry: tools/ToolCallArgs.{h,cpp}, tools/Tool.h and
  tools/ToolRegistry.{h,cpp}.  A handler is the sketch's own function; it may change the world
  \<open>'w\<close> it runs in.  Conversions of a value to a number or a boolean are ArduinoJson's and are
  arguments of the getters.
\<close>

section \<open>ToolCallArgs\<close>

record tool_call_args =
  ca_doc :: json
  ca_ok :: bool

definition toolCallArgs :: "(string \<Rightarrow> json option) \<Rightarrow> string \<Rightarrow> tool_call_args" where
  "toolCallArgs parse txt =
     (if txt = [] then \<lparr>ca_doc = JNull, ca_ok = False\<rparr>
      else
        (case parse txt of
           None \<Rightarrow> \<lparr>ca_doc = JNull, ca_ok = False\<rparr>
         | Some v \<Rightarrow> \<lparr>ca_doc = v, ca_ok = is_obj v\<rparr>))"

definition args_has :: "tool_call_args \<Rightarrow> string \<Rightarrow> bool" where
  "args_has a key \<longleftrightarrow> ca_ok a \<and> obj_get (ca_doc a) key \<noteq> JNull"

definition getString :: "tool_call_args \<Rightarrow> string \<Rightarrow> string \<Rightarrow> string" where
  "getString a key def = (if \<not> ca_ok a then def else as_cstr def (obj_get (ca_doc a) key))"

definition getInt :: "(json \<Rightarrow> int) \<Rightarrow> tool_call_args \<Rightarrow> string \<Rightarrow> int \<Rightarrow> int" where
  "getInt as_long a key def =
     (if \<not> ca_ok a \<or> obj_get (ca_doc a) key = JNull then def else as_long (obj_get (ca_doc a) key))"

definition getNumber :: "(json \<Rightarrow> 'n) \<Rightarrow> tool_call_args \<Rightarrow> string \<Rightarrow> 'n \<Rightarrow> 'n" where
  "getNumber as_double a key def =
     (if \<not> ca_ok a \<or> obj_get (ca_doc a) key = JNull then def else as_double (obj_get (ca_doc a) key))"

definition getBool :: "(json \<Rightarrow> bool) \<Rightarrow> tool_call_args \<Rightarrow> string \<Rightarrow> bool \<Rightarrow> bool" where
  "getBool as_bool a key def =
     (if \<not> ca_ok a \<or> obj_get (ca_doc a) key = JNull then def else as_bool (obj_get (ca_doc a) key))"

section \<open>Tools and the registry\<close>

type_synonym 'w tool_handler = "tool_call_args \<Rightarrow> 'w \<Rightarrow> tool_result \<times> 'w"

record 'w tool =
  tl_name :: string
  tl_description :: string
  tl_params :: "tool_param list"
  tl_mutating :: bool
  tl_writeAllowed :: bool
  tl_handler :: "'w tool_handler option"

definition new_tool :: "string \<Rightarrow> string \<Rightarrow> 'w tool" where
  "new_tool name description =
     \<lparr>tl_name = name, tl_description = description, tl_params = [], tl_mutating = False,
      tl_writeAllowed = False, tl_handler = None\<rparr>"

definition hasHandler :: "'w tool \<Rightarrow> bool" where
  "hasHandler t \<longleftrightarrow> tl_handler t \<noteq> None"

definition writeToolSchema :: "'w tool \<Rightarrow> (string \<times> json) list \<Rightarrow> (string \<times> json) list" where
  "writeToolSchema t out = writeObjectSchema True (tl_params t) out"

type_synonym 'w tool_registry = "'w tool list"

text \<open>\<open>addTool\<close> returns the registry and the builder's index; a builder edits the tool at its index.\<close>

definition addTool :: "string \<Rightarrow> string \<Rightarrow> 'w tool_registry \<Rightarrow> 'w tool_registry \<times> nat" where
  "addTool name description ts = reg_add tl_name name (new_tool name description) ts"

definition edit_tool :: "nat \<Rightarrow> ('w tool \<Rightarrow> 'w tool) \<Rightarrow> 'w tool_registry \<Rightarrow> 'w tool_registry" where
  "edit_tool i f ts = reg_edit i f ts"

definition push_param :: "tool_param \<Rightarrow> 'w tool \<Rightarrow> 'w tool" where
  "push_param p t = t\<lparr>tl_params := tl_params t @ [p]\<rparr>"

definition param :: "nat \<Rightarrow> string \<Rightarrow> param_type \<Rightarrow> string \<Rightarrow> bool \<Rightarrow> 'w tool_registry \<Rightarrow> 'w tool_registry"
where
  "param i name ty description req = edit_tool i (push_param (plain_param name ty description req))"

definition paramEnum ::
  "nat \<Rightarrow> string \<Rightarrow> string \<Rightarrow> string list \<Rightarrow> bool \<Rightarrow> 'w tool_registry \<Rightarrow> 'w tool_registry" where
  "paramEnum i name description allowed req =
     edit_tool i (push_param (enum_param name description allowed req))"

definition paramObject ::
  "nat \<Rightarrow> string \<Rightarrow> string \<Rightarrow> field_spec \<Rightarrow> bool \<Rightarrow> 'w tool_registry \<Rightarrow> 'w tool_registry" where
  "paramObject i name description shape req =
     edit_tool i (push_param (object_param name description shape req))"

definition paramArray ::
  "nat \<Rightarrow> string \<Rightarrow> string \<Rightarrow> param_type \<Rightarrow> bool \<Rightarrow> 'w tool_registry \<Rightarrow> 'w tool_registry" where
  "paramArray i name description item req =
     edit_tool i (push_param (array_param name description item req))"

definition paramObjectArray ::
  "nat \<Rightarrow> string \<Rightarrow> string \<Rightarrow> field_spec \<Rightarrow> bool \<Rightarrow> 'w tool_registry \<Rightarrow> 'w tool_registry" where
  "paramObjectArray i name description shape req =
     edit_tool i (push_param (object_array_param name description shape req))"

definition tool_mutating :: "nat \<Rightarrow> bool \<Rightarrow> 'w tool_registry \<Rightarrow> 'w tool_registry" where
  "tool_mutating i b = edit_tool i (\<lambda>t. t\<lparr>tl_mutating := b\<rparr>)"

definition tool_allowWrite :: "nat \<Rightarrow> bool \<Rightarrow> 'w tool_registry \<Rightarrow> 'w tool_registry" where
  "tool_allowWrite i b = edit_tool i (\<lambda>t. t\<lparr>tl_writeAllowed := b\<rparr>)"

definition tool_onCall :: "nat \<Rightarrow> 'w tool_handler \<Rightarrow> 'w tool_registry \<Rightarrow> 'w tool_registry" where
  "tool_onCall i h = edit_tool i (\<lambda>t. t\<lparr>tl_handler := Some h\<rparr>)"

definition find_tool :: "'w tool_registry \<Rightarrow> string \<Rightarrow> 'w tool option" where
  "find_tool ts name = reg_find tl_name ts name"

definition has_tool :: "'w tool_registry \<Rightarrow> string \<Rightarrow> bool" where
  "has_tool ts name \<longleftrightarrow> find_tool ts name \<noteq> None"

definition validate_tool :: "(string \<Rightarrow> json option) \<Rightarrow> 'w tool \<Rightarrow> string \<Rightarrow> status" where
  "validate_tool parse t txt = validateObject parse (tl_params t) txt"

definition dispatch ::
  "(string \<Rightarrow> json option) \<Rightarrow> 'w tool_registry \<Rightarrow> string \<Rightarrow> string \<Rightarrow> 'w \<Rightarrow>
     (error + tool_result) \<times> 'w" where
  "dispatch parse ts name txt w =
     (case find_tool ts name of
        None \<Rightarrow> (Inl NotFound, w)
      | Some t \<Rightarrow>
          (case tl_handler t of
             None \<Rightarrow> (Inl InvalidState, w)
           | Some h \<Rightarrow>
               if validate_tool parse t txt \<noteq> Ok then
                 (Inr (tool_error (''invalid arguments for tool '' @ [CHR 0x27] @ name @ [CHR 0x27])), w)
               else
                 (case h (toolCallArgs parse txt) w of (r, w') \<Rightarrow> (Inr r, w'))))"

interpretation tools: registry tl_name new_tool
  by unfold_locales (simp add: new_tool_def)

section \<open>Properties\<close>

text \<open>registering a tool makes exactly that name map to the new tool, leaves every other name as it
  was, and keeps names unique; the builder that is returned edits that tool and no other.\<close>

theorem add_tool_registers:
  assumes "distinct (map tl_name ts)" "addTool name description ts = (ts', i)"
    and "\<And>t. tl_name (f t) = tl_name t"
  shows "distinct (map tl_name (edit_tool i f ts')) \<and>
    find_tool (edit_tool i f ts') n =
      (if n = name then Some (f (new_tool name description)) else find_tool ts n)"
  using tools.add_then_edit [OF assms(2) [unfolded addTool_def] assms(1,3)]
  by (simp add: find_tool_def edit_tool_def)

theorem add_tool_registers_witness:
  "find_tool (param 0 ''x'' TInteger [] True (fst (addTool ''led'' ''b'' [new_tool ''led'' ''a'']))) ''led'' =
     Some (push_param (plain_param ''x'' TInteger [] True) (new_tool ''led'' ''b'' :: unit tool))"
  using add_tool_registers [where ts = "[new_tool ''led'' ''a'' :: unit tool]" and name = "''led''"
      and description = "''b''" and i = 0 and n = "''led''"
      and f = "push_param (plain_param ''x'' TInteger [] True)"]
  by (simp add: addTool_def reg_add_def new_tool_def push_param_def param_def)

text \<open>The arguments a tool's published schema asks for: an object (its undeclared and null members
  apart) that satisfies the strict schema; anything else that parses, and no text at all, only for a
  tool that requires nothing; never a text that does not parse.\<close>

definition arguments_fit :: "(string \<Rightarrow> json option) \<Rightarrow> 'w tool \<Rightarrow> string \<Rightarrow> bool" where
  "arguments_fit parse t txt \<longleftrightarrow>
     (case if txt = [] then Some JNull else parse txt of
        None \<Rightarrow> False
      | Some v \<Rightarrow>
          if is_obj v then accepts (JObj (writeToolSchema t [])) (prune (tl_params t) v)
          else (\<forall>p\<in>set (tl_params t). \<not> tp_required p))"

text \<open>Tools and texts the schema describes: distinct parameter names, and no NUL, no wide integer and
  no repeated key in what is parsed.\<close>

definition plain_arguments :: "(string \<Rightarrow> json option) \<Rightarrow> 'w tool \<Rightarrow> string \<Rightarrow> bool" where
  "plain_arguments parse t txt \<longleftrightarrow>
     spec_ok (tl_params t) \<and> (\<forall>v. parse txt = Some v \<longrightarrow> clean_json v)"

lemma validated_fit:
  assumes "plain_arguments parse t txt"
  shows "validateObject parse (tl_params t) txt = Ok \<longleftrightarrow> arguments_fit parse t txt"
proof (cases "if txt = [] then Some JNull else parse txt")
  case None
  then show ?thesis by (auto simp: arguments_fit_def validateObject_def split: if_splits)
next
  case (Some v)
  have "validateObject parse (tl_params t) txt = Ok \<longleftrightarrow> validateFields (tl_params t) v"
    using Some by (auto simp: validateObject_def split: if_splits)
  moreover have "clean_json v" using assms Some by (auto simp: plain_arguments_def split: if_splits)
  ultimately show ?thesis
    using assms Some accepts_fields [of "tl_params t" v True] validateFields_optional [of v "tl_params t"]
    by (simp add: arguments_fit_def plain_arguments_def writeToolSchema_def
        del: writeObjectSchema.simps accepts.simps)
qed

text \<open>C39: a dispatched call touches the world only by running the handler of the tool of that name, once,
  on arguments that passed validation: they fit the schema published for the tool, undeclared and
  null members apart.  Every other outcome leaves the world as it was: no tool of that name, a tool
  without a handler, or an error result for arguments that do not fit.\<close>

theorem dispatch_runs_validated_only:
  assumes "dispatch parse ts name txt w = (r, w')"
  shows "(\<exists>t h res. find_tool ts name = Some t \<and> tl_handler t = Some h \<and>
      h (toolCallArgs parse txt) w = (res, w') \<and> r = Inr res \<and>
      validateObject parse (tl_params t) txt = Ok \<and>
      (plain_arguments parse t txt \<longrightarrow> arguments_fit parse t txt)) \<or>
    w' = w \<and>
      (case r of
         Inl e \<Rightarrow> e = NotFound \<and> find_tool ts name = None \<or>
           e = InvalidState \<and> (\<exists>t. find_tool ts name = Some t \<and> tl_handler t = None)
       | Inr res \<Rightarrow> tr_isError res \<and>
           (\<exists>t h. find_tool ts name = Some t \<and> tl_handler t = Some h \<and>
              (plain_arguments parse t txt \<longrightarrow> \<not> arguments_fit parse t txt)))"
proof (cases "\<exists>t h. find_tool ts name = Some t \<and> tl_handler t = Some h")
  case False
  with assms show ?thesis by (auto simp: dispatch_def split: option.splits)
next
  case True
  then obtain t h where t: "find_tool ts name = Some t" "tl_handler t = Some h" by blast
  note fit = validated_fit [of parse t "txt"]
  show ?thesis
  proof (cases "validateObject parse (tl_params t) txt = Ok")
    case False
    with assms t fit show ?thesis by (auto simp: dispatch_def validate_tool_def tool_error_def)
  next
    case True
    with assms t fit show ?thesis by (auto simp: dispatch_def validate_tool_def split: prod.splits)
  qed
qed

definition counting_tool :: "nat tool" where
  "counting_tool = (new_tool ''led'' [])\<lparr>tl_params := [plain_param ''x'' TInteger [] True],
     tl_handler := Some (\<lambda>a n. (tool_ok [], n + 1))\<rparr>"

theorem dispatch_runs_validated_only_witness:
  "validateObject (\<lambda>_. Some (JObj [(''x'', JInt 1), (''y'', JNull)])) (tl_params counting_tool) ''{}'' = Ok \<and>
   accepts (JObj (writeToolSchema counting_tool [])) (JObj [(''x'', JInt 1)])"
proof -
  let ?parse = "\<lambda>_. Some (JObj [(''x'', JInt 1), (''y'', JNull)])"
  have t: "find_tool [counting_tool] ''led'' = Some counting_tool"
    by (simp add: find_tool_def reg_find_def counting_tool_def new_tool_def)
  have p: "plain_arguments ?parse counting_tool ''{}''"
    by (simp add: plain_arguments_def counting_tool_def new_tool_def param_defs)
  have "dispatch ?parse [counting_tool] ''led'' ''{}'' 5 = (Inr (tool_ok []), 6)"
    using t by (simp add: dispatch_def counting_tool_def validate_tool_def validateObject_def
        param_defs typeMatches_def)
  from dispatch_runs_validated_only [OF this] t p
  have "validateObject ?parse (tl_params counting_tool) ''{}'' = Ok \<and>
      arguments_fit ?parse counting_tool ''{}''" by auto
  moreover have "prune (tl_params counting_tool) (JObj [(''x'', JInt 1), (''y'', JNull)]) =
      JObj [(''x'', JInt 1)]"
    by (simp add: prune_def counting_tool_def new_tool_def param_defs map_filter_simps)
  ultimately show ?thesis by (simp add: arguments_fit_def del: accepts.simps)
qed

end
