(* ===== verification/Prompt_Registry.thy ===== *)
theory Prompt_Registry
  imports Tool_Registry
begin

text \<open>
  The prompts and the resources an MCP server offers: mcp/PromptRegistry.{h,cpp} and
  mcp/ResourceRegistry.{h,cpp}.  Handlers are the sketch's functions over the world.
\<close>

section \<open>Prompts\<close>

record prompt_arg =
  pa_name :: string
  pa_description :: string
  pa_required :: bool

record 'w prompt =
  pr_name :: string
  pr_description :: string
  pr_args :: "prompt_arg list"
  pr_onGet :: "(tool_call_args \<Rightarrow> 'w \<Rightarrow> (error + string) \<times> 'w) option"

definition new_prompt :: "string \<Rightarrow> string \<Rightarrow> 'w prompt" where
  "new_prompt name description =
     \<lparr>pr_name = name, pr_description = description, pr_args = [], pr_onGet = None\<rparr>"

definition addPrompt :: "string \<Rightarrow> string \<Rightarrow> 'w prompt list \<Rightarrow> 'w prompt list \<times> nat" where
  "addPrompt name description ps = reg_add pr_name name (new_prompt name description) ps"

definition prompt_arg_add :: "nat \<Rightarrow> string \<Rightarrow> string \<Rightarrow> bool \<Rightarrow> 'w prompt list \<Rightarrow> 'w prompt list" where
  "prompt_arg_add i name description req =
     reg_edit i (\<lambda>p. p\<lparr>pr_args := pr_args p @
       [\<lparr>pa_name = name, pa_description = description, pa_required = req\<rparr>]\<rparr>)"

definition prompt_onGet ::
  "nat \<Rightarrow> (tool_call_args \<Rightarrow> 'w \<Rightarrow> (error + string) \<times> 'w) \<Rightarrow> 'w prompt list \<Rightarrow> 'w prompt list" where
  "prompt_onGet i h = reg_edit i (\<lambda>p. p\<lparr>pr_onGet := Some h\<rparr>)"

definition find_prompt :: "'w prompt list \<Rightarrow> string \<Rightarrow> 'w prompt option" where
  "find_prompt ps name = reg_find pr_name ps name"

definition prompt_get ::
  "(string \<Rightarrow> json option) \<Rightarrow> 'w prompt list \<Rightarrow> string \<Rightarrow> string \<Rightarrow> 'w \<Rightarrow> (error + string) \<times> 'w" where
  "prompt_get parse ps name txt w =
     (case find_prompt ps name of
        None \<Rightarrow> (Inl NotFound, w)
      | Some p \<Rightarrow>
          (case pr_onGet p of
             None \<Rightarrow> (Inl InvalidState, w)
           | Some h \<Rightarrow>
               (let args = toolCallArgs parse txt
                in if \<exists>a\<in>set (pr_args p). pa_required a \<and> \<not> args_has args (c_str (pa_name a))
                   then (Inl SchemaValidationFailed, w)
                   else h args w)))"

interpretation prompts: registry pr_name new_prompt
  by unfold_locales (simp add: new_prompt_def)

section \<open>Resources\<close>

record 'w resource =
  rc_uri :: string
  rc_name :: string
  rc_description :: string
  rc_mime :: string
  rc_isBlob :: bool
  rc_onRead :: "(string \<Rightarrow> 'w \<Rightarrow> (error + string) \<times> 'w) option"

definition new_resource :: "string \<Rightarrow> string \<Rightarrow> 'w resource" where
  "new_resource uri name =
     \<lparr>rc_uri = uri, rc_name = name, rc_description = [], rc_mime = ''text/plain'',
      rc_isBlob = False, rc_onRead = None\<rparr>"

definition addResource :: "string \<Rightarrow> string \<Rightarrow> 'w resource list \<Rightarrow> 'w resource list \<times> nat" where
  "addResource uri name rs = reg_add rc_uri uri (new_resource uri name) rs"

definition resource_description :: "nat \<Rightarrow> string \<Rightarrow> 'w resource list \<Rightarrow> 'w resource list" where
  "resource_description i txt = reg_edit i (\<lambda>r. r\<lparr>rc_description := txt\<rparr>)"

definition resource_mimeType :: "nat \<Rightarrow> string \<Rightarrow> 'w resource list \<Rightarrow> 'w resource list" where
  "resource_mimeType i mime = reg_edit i (\<lambda>r. r\<lparr>rc_mime := mime\<rparr>)"

definition resource_blob :: "nat \<Rightarrow> bool \<Rightarrow> 'w resource list \<Rightarrow> 'w resource list" where
  "resource_blob i b = reg_edit i (\<lambda>r. r\<lparr>rc_isBlob := b\<rparr>)"

definition resource_onRead ::
  "nat \<Rightarrow> (string \<Rightarrow> 'w \<Rightarrow> (error + string) \<times> 'w) \<Rightarrow> 'w resource list \<Rightarrow> 'w resource list" where
  "resource_onRead i h = reg_edit i (\<lambda>r. r\<lparr>rc_onRead := Some h\<rparr>)"

definition find_resource :: "'w resource list \<Rightarrow> string \<Rightarrow> 'w resource option" where
  "find_resource rs uri = reg_find rc_uri rs uri"

definition resource_read :: "'w resource list \<Rightarrow> string \<Rightarrow> 'w \<Rightarrow> (error + string) \<times> 'w" where
  "resource_read rs uri w =
     (case find_resource rs uri of
        None \<Rightarrow> (Inl NotFound, w)
      | Some r \<Rightarrow>
          (case rc_onRead r of None \<Rightarrow> (Inl InvalidState, w) | Some h \<Rightarrow> h uri w))"

interpretation resources: registry rc_uri new_resource
  by unfold_locales (simp add: new_resource_def)

end
