(* ===== verification/Mcp_Server.thy ===== *)
theory Mcp_Server
  imports Prompt_Registry Edge_Store
begin

text \<open>
  The MCP server, mcp/McpServer.{h,cpp}: one POST body in, one reply out.  \<open>parse\<close> and \<open>print\<close> stand
  for ArduinoJson's reader and writer, \<open>sops\<close> for the persistence backend of the key-value store.
  Tool, prompt and resource handlers run in a world \<open>'w\<close>; handlers that reach back into the server
  or its store are not modelled.
\<close>

section \<open>State and replies\<close>

record mcp_reply =
  rp_body :: string
  rp_status :: int
  rp_notificationOnly :: bool
  rp_session :: string
  rp_setSession :: bool

definition new_reply :: mcp_reply where
  "new_reply =
     \<lparr>rp_body = [], rp_status = 200, rp_notificationOnly = False, rp_session = [],
      rp_setSession = False\<rparr>"

record ('s, 'w) mcp_server =
  ms_name :: string
  ms_version :: string
  ms_instructions :: string
  ms_protocol :: string
  ms_token :: string
  ms_tools :: "'w tool_registry option"
  ms_resources :: "'w resource list option"
  ms_prompts :: "'w prompt list option"
  ms_store :: "'s edge_store option"
  ms_storeWrites :: bool
  ms_sessions :: u32

definition new_server :: "string \<Rightarrow> string \<Rightarrow> ('s, 'w) mcp_server" where
  "new_server name version =
     \<lparr>ms_name = name, ms_version = version, ms_instructions = [], ms_protocol = ''2025-06-18'',
      ms_token = [], ms_tools = None, ms_resources = None, ms_prompts = None, ms_store = None,
      ms_storeWrites = False, ms_sessions = 0\<rparr>"

definition setInstructions :: "string \<Rightarrow> ('s, 'w) mcp_server \<Rightarrow> ('s, 'w) mcp_server" where [simp]:
  "setInstructions s sv = sv\<lparr>ms_instructions := s\<rparr>"

definition setProtocolVersion :: "string \<Rightarrow> ('s, 'w) mcp_server \<Rightarrow> ('s, 'w) mcp_server" where [simp]:
  "setProtocolVersion s sv = sv\<lparr>ms_protocol := s\<rparr>"

definition setAuthToken :: "string \<Rightarrow> ('s, 'w) mcp_server \<Rightarrow> ('s, 'w) mcp_server" where [simp]:
  "setAuthToken token sv = sv\<lparr>ms_token := token\<rparr>"

definition setToolRegistry :: "'w tool_registry option \<Rightarrow> ('s, 'w) mcp_server \<Rightarrow> ('s, 'w) mcp_server" where [simp]:
  "setToolRegistry tools sv = sv\<lparr>ms_tools := tools\<rparr>"

definition setResourceRegistry :: "'w resource list option \<Rightarrow> ('s, 'w) mcp_server \<Rightarrow> ('s, 'w) mcp_server" where [simp]:
  "setResourceRegistry resources sv = sv\<lparr>ms_resources := resources\<rparr>"

definition setPromptRegistry :: "'w prompt list option \<Rightarrow> ('s, 'w) mcp_server \<Rightarrow> ('s, 'w) mcp_server" where [simp]:
  "setPromptRegistry prompts sv = sv\<lparr>ms_prompts := prompts\<rparr>"

definition setStore ::
  "'s edge_store option \<Rightarrow> bool \<Rightarrow> ('s, 'w) mcp_server \<Rightarrow> ('s, 'w) mcp_server" where
  "setStore st allowWrites sv = sv\<lparr>ms_store := st, ms_storeWrites := allowWrites\<rparr>"

type_synonym members = "(string \<times> json) list"

section \<open>Authorization\<close>

text \<open>\<open>diff |= a[i] ^ b[i]\<close> over the whole length.\<close>

definition constantTimeEquals :: "string \<Rightarrow> string \<Rightarrow> bool" where
  "constantTimeEquals a b =
     (if length a \<noteq> length b then False
      else fold (\<lambda>(x, y) diff. or diff (xor (word_of_nat (char_code x)) (word_of_nat (char_code y))))
             (zip a b) (0 :: 8 word) = 0)"

definition authRequired :: "('s, 'w) mcp_server \<Rightarrow> bool" where
  "authRequired sv \<longleftrightarrow> ms_token sv \<noteq> []"

definition checkAuth :: "('s, 'w) mcp_server \<Rightarrow> string \<Rightarrow> bool" where
  "checkAuth sv hdr =
     (if \<not> authRequired sv then True else constantTimeEquals hdr (''Bearer '' @ ms_token sv))"

section \<open>Building responses\<close>

definition kParseError :: int where "kParseError = -32700"
definition kInvalidRequest :: int where "kInvalidRequest = -32600"
definition kMethodNotFound :: int where "kMethodNotFound = -32601"
definition kInvalidParams :: int where "kInvalidParams = -32602"
definition kResourceNotFound :: int where "kResourceNotFound = -32002"
definition kUnauthorized :: int where "kUnauthorized = -32001"

definition writeError :: "json \<Rightarrow> int \<Rightarrow> string \<Rightarrow> members \<Rightarrow> members" where
  "writeError i code msg out =
     put ''error'' (JObj [(''code'', JInt code), (''message'', JStr msg)])
       (put ''id'' i (put ''jsonrpc'' (JStr ''2.0'') out))"

definition writeToolResult :: "string \<Rightarrow> bool \<Rightarrow> members \<Rightarrow> members" where
  "writeToolResult txt isErr out =
     put ''result''
       (JObj [(''content'', JArr [JObj [(''type'', JStr ''text''), (''text'', JStr txt)]]),
              (''isError'', JBool isErr)]) out"

definition kv_annotations :: "bool \<Rightarrow> json" where
  "kv_annotations destructive =
     JObj [(''readOnlyHint'', JBool False), (''destructiveHint'', JBool destructive)]"

definition string_type :: json where
  "string_type = JObj [(''type'', JStr ''string'')]"

definition addKvTools :: "json list \<Rightarrow> json list" where
  "addKvTools arr = arr @
     [JObj [(''name'', JStr ''kv_set''),
            (''description'', JStr ''Store a value in the device key-value store''),
            (''inputSchema'', JObj [(''type'', JStr ''object''),
               (''properties'', JObj [(''key'', string_type), (''value'', string_type)]),
               (''required'', JArr [JStr ''key'', JStr ''value''])]),
            (''annotations'', kv_annotations False)],
      JObj [(''name'', JStr ''kv_delete''),
            (''description'', JStr ''Delete a value from the device key-value store''),
            (''inputSchema'', JObj [(''type'', JStr ''object''),
               (''properties'', JObj [(''key'', string_type)]),
               (''required'', JArr [JStr ''key''])]),
            (''annotations'', kv_annotations True)]]"

section \<open>The methods\<close>

text \<open>Each method writes into \<open>out\<close>, which already holds \<open>jsonrpc\<close> and \<open>id\<close>.\<close>

definition result_of :: "members \<Rightarrow> members \<Rightarrow> members" where
  "result_of r out = put ''result'' (JObj r) out"

definition mcp_initialize ::
  "('s, 'w) mcp_server \<Rightarrow> json \<Rightarrow> members \<Rightarrow> mcp_reply \<Rightarrow>
     members \<times> ('s, 'w) mcp_server \<times> mcp_reply" where
  "mcp_initialize sv params out rep =
     (let pv = (case cstr_of (obj_get params ''protocolVersion'') of
                  Some p \<Rightarrow> if p \<noteq> [] then p else ms_protocol sv
                | None \<Rightarrow> ms_protocol sv);
          caps = (if ms_tools sv \<noteq> None \<or> ms_store sv \<noteq> None then [(''tools'', JObj [])] else []) @
                 (if ms_resources sv \<noteq> None \<or> ms_store sv \<noteq> None
                  then [(''resources'', JObj [])] else []) @
                 (if ms_prompts sv \<noteq> None then [(''prompts'', JObj [])] else []);
          info = [(''name'', JStr (ms_name sv)), (''version'', JStr (ms_version sv))];
          r = [(''protocolVersion'', JStr pv), (''capabilities'', JObj caps), (''serverInfo'', JObj info)] @
              (if ms_instructions sv \<noteq> [] then [(''instructions'', JStr (ms_instructions sv))] else []);
          sv' = sv\<lparr>ms_sessions := ms_sessions sv + 1\<rparr>
      in (result_of r out, sv',
          rep\<lparr>rp_session := ''edgellm-'' @ toDecimal (unat (ms_sessions sv')), rp_setSession := True\<rparr>))"

definition write_disabled :: "'w tool \<Rightarrow> bool" where
  "write_disabled t \<longleftrightarrow> tl_mutating t \<and> \<not> tl_writeAllowed t"

definition tool_entry :: "'w tool \<Rightarrow> json" where
  "tool_entry t =
     JObj [(''name'', JStr (tl_name t)), (''description'', JStr (tl_description t)),
           (''inputSchema'', JObj (writeToolSchema t [])),
           (''annotations'', JObj [(''readOnlyHint'', JBool (\<not> tl_mutating t)),
                                   (''destructiveHint'', JBool (tl_mutating t))])]"

definition listed_tools :: "('s, 'w) mcp_server \<Rightarrow> json list" where
  "listed_tools sv =
     (let arr = (case ms_tools sv of
                   None \<Rightarrow> []
                 | Some ts \<Rightarrow> map tool_entry (filter (\<lambda>t. \<not> write_disabled t) ts))
      in if ms_store sv \<noteq> None \<and> ms_storeWrites sv then addKvTools arr else arr)"

definition mcp_tools_list :: "('s, 'w) mcp_server \<Rightarrow> members \<Rightarrow> members" where
  "mcp_tools_list sv out = result_of [(''tools'', JArr (listed_tools sv))] out"

text \<open>\<open>serializeJson(params["arguments"], argsJson)\<close> replaces the default text.\<close>

definition arguments_text :: "(json \<Rightarrow> string) \<Rightarrow> json \<Rightarrow> string" where
  "arguments_text print params =
     (if obj_get params ''arguments'' \<noteq> JNull then print (obj_get params ''arguments'') else ''{}'')"

definition kv_call ::
  "'s secret_ops \<Rightarrow> tool_call_args \<Rightarrow> string \<Rightarrow> json \<Rightarrow> 's edge_store \<Rightarrow> members \<Rightarrow>
     members \<times> 's edge_store" where
  "kv_call sops a toolName i st out =
     (if toolName = ''kv_set'' then
        (if \<not> args_has a ''key'' \<or> \<not> args_has a ''value'' then
           (writeError i kInvalidParams ''kv_set requires key and value'' out, st)
         else
           (case edge_set sops (getString a ''key'' []) (getString a ''value'' []) st of
              (s, st') \<Rightarrow>
                (writeToolResult (if s = Ok then ''stored'' else errorString s) (s \<noteq> Ok) out, st')))
      else
        (if \<not> args_has a ''key'' then (writeError i kInvalidParams ''kv_delete requires key'' out, st)
         else
           (case edge_remove sops (getString a ''key'' []) st of
              (_, st') \<Rightarrow> (writeToolResult ''deleted'' False out, st'))))"

definition mcp_tools_call ::
  "(string \<Rightarrow> json option) \<Rightarrow> (json \<Rightarrow> string) \<Rightarrow> 's secret_ops \<Rightarrow> json \<Rightarrow> json \<Rightarrow>
     ('s, 'w) mcp_server \<Rightarrow> 'w \<Rightarrow> members \<Rightarrow> members \<times> ('s, 'w) mcp_server \<times> 'w" where
  "mcp_tools_call parse print sops params i sv w out =
     (case cstr_of (obj_get params ''name'') of
        None \<Rightarrow> (writeError i kInvalidParams ''Missing tool name'' out, sv, w)
      | Some toolName \<Rightarrow>
          (let argsJson = arguments_text print params
           in case (if ms_storeWrites sv \<and> (toolName = ''kv_set'' \<or> toolName = ''kv_delete'')
                    then ms_store sv else None) of
                Some st \<Rightarrow>
                  (case kv_call sops (toolCallArgs parse argsJson) toolName i st out of
                     (out', st') \<Rightarrow> (out', sv\<lparr>ms_store := Some st'\<rparr>, w))
              | None \<Rightarrow>
                  (case ms_tools sv of
                     None \<Rightarrow> (writeError i kInvalidParams ''Unknown tool'' out, sv, w)
                   | Some ts \<Rightarrow>
                       (case find_tool ts toolName of
                          None \<Rightarrow> (writeError i kInvalidParams ''Unknown tool'' out, sv, w)
                        | Some t \<Rightarrow>
                            if write_disabled t then
                              (writeError i kInvalidParams ''Tool is a disabled write operation'' out, sv, w)
                            else
                              (case dispatch parse ts toolName argsJson w of
                                 (Inr r, w') \<Rightarrow>
                                   (writeToolResult (tr_content r) (tr_isError r) out, sv, w')
                               | (Inl e, w') \<Rightarrow>
                                   (writeError i kInvalidParams (errorString e) out, sv, w'))))))"

definition resource_entry :: "'w resource \<Rightarrow> json" where
  "resource_entry r =
     JObj ([(''uri'', JStr (rc_uri r)), (''name'', JStr (rc_name r))] @
           (if rc_description r \<noteq> [] then [(''description'', JStr (rc_description r))] else []) @
           [(''mimeType'', JStr (rc_mime r))])"

definition kv_entry :: "string \<Rightarrow> json" where
  "kv_entry key =
     JObj [(''uri'', JStr (''kv://'' @ key)), (''name'', JStr key), (''mimeType'', JStr ''text/plain'')]"

definition mcp_resources_list ::
  "('s, 'w) mcp_server \<Rightarrow> members \<Rightarrow> members \<times> ('s, 'w) mcp_server" where
  "mcp_resources_list sv out =
     (let arr = (case ms_resources sv of None \<Rightarrow> [] | Some rs \<Rightarrow> map resource_entry rs)
      in case ms_store sv of
           None \<Rightarrow> (result_of [(''resources'', JArr arr)] out, sv)
         | Some st \<Rightarrow>
             (case edge_keys st of
                (ks, st') \<Rightarrow>
                  (result_of [(''resources'', JArr (arr @ map kv_entry ks))] out,
                   sv\<lparr>ms_store := Some st'\<rparr>)))"

definition mcp_templates_list :: "('s, 'w) mcp_server \<Rightarrow> members \<Rightarrow> members" where
  "mcp_templates_list sv out =
     result_of [(''resourceTemplates'', JArr
       (if ms_store sv \<noteq> None
        then [JObj [(''uriTemplate'', JStr ''kv://{key}''), (''name'', JStr ''Key-value entry''),
                    (''mimeType'', JStr ''text/plain'')]]
        else []))] out"

text \<open>\<open>isOk()\<close> and \<open>value()\<close> of a handler's result: a failure with code \<open>Ok\<close> counts as a success
  with an empty value.\<close>

fun ok_value :: "string result \<Rightarrow> string option" where
  "ok_value (Inr v) = Some v"
| "ok_value (Inl e) = (if e = Ok then Some [] else None)"

text \<open>The lookup of \<open>resources/read\<close>: content, MIME type and whether it is a blob.\<close>

definition read_uri ::
  "('s, 'w) mcp_server \<Rightarrow> string \<Rightarrow> 'w \<Rightarrow>
     (string \<times> string \<times> bool) option \<times> ('s, 'w) mcp_server \<times> 'w" where
  "read_uri sv u w =
     (case (if prefix ''kv://'' u then ms_store sv else None) of
        Some st \<Rightarrow>
          (case edge_get (substr_from u 5) st of
             (r, st') \<Rightarrow>
               (map_option (\<lambda>v. (v, ''text/plain'', False)) (ok_value r),
                sv\<lparr>ms_store := Some st'\<rparr>, w))
      | None \<Rightarrow>
          (case ms_resources sv of
             None \<Rightarrow> (None, sv, w)
           | Some rs \<Rightarrow>
               (case find_resource rs u of
                  None \<Rightarrow> (None, sv, w)
                | Some res \<Rightarrow>
                    (case resource_read rs u w of
                       (r, w') \<Rightarrow>
                         (map_option (\<lambda>v. (v, rc_mime res, rc_isBlob res)) (ok_value r),
                          sv, w')))))"

definition mcp_resources_read ::
  "json \<Rightarrow> json \<Rightarrow> ('s, 'w) mcp_server \<Rightarrow> 'w \<Rightarrow> members \<Rightarrow>
     members \<times> ('s, 'w) mcp_server \<times> 'w" where
  "mcp_resources_read params i sv w out =
     (case cstr_of (obj_get params ''uri'') of
        None \<Rightarrow> (writeError i kInvalidParams ''Missing uri'' out, sv, w)
      | Some u \<Rightarrow>
          (case read_uri sv u w of
             (None, sv', w') \<Rightarrow> (writeError i kResourceNotFound ''Resource not found'' out, sv', w')
           | (Some (content, mime, isBlob), sv', w') \<Rightarrow>
               (result_of [(''contents'', JArr [JObj
                  [(''uri'', JStr u), (''mimeType'', JStr mime),
                   (if isBlob then ''blob'' else ''text'', JStr content)]])] out, sv', w')))"

definition prompt_entry :: "'w prompt \<Rightarrow> json" where
  "prompt_entry p =
     JObj ([(''name'', JStr (pr_name p)), (''description'', JStr (pr_description p))] @
           (if pr_args p \<noteq> []
            then [(''arguments'', JArr (map (\<lambda>a. JObj
                    [(''name'', JStr (pa_name a)), (''description'', JStr (pa_description a)),
                     (''required'', JBool (pa_required a))]) (pr_args p)))]
            else []))"

definition mcp_prompts_list :: "('s, 'w) mcp_server \<Rightarrow> members \<Rightarrow> members" where
  "mcp_prompts_list sv out =
     result_of [(''prompts'', JArr (case ms_prompts sv of None \<Rightarrow> [] | Some ps \<Rightarrow> map prompt_entry ps))] out"

definition mcp_prompts_get ::
  "(string \<Rightarrow> json option) \<Rightarrow> (json \<Rightarrow> string) \<Rightarrow> json \<Rightarrow> json \<Rightarrow> ('s, 'w) mcp_server \<Rightarrow> 'w \<Rightarrow>
     members \<Rightarrow> members \<times> 'w" where
  "mcp_prompts_get parse print params i sv w out =
     (case (cstr_of (obj_get params ''name''), ms_prompts sv) of
        (Some name, Some ps) \<Rightarrow>
          (case prompt_get parse ps name (arguments_text print params) w of
             (r, w') \<Rightarrow>
               (case ok_value r of
                  None \<Rightarrow>
                    (writeError i kInvalidParams
                       (if result_error r = NotFound then ''Unknown prompt''
                        else ''Invalid prompt arguments'') out, w')
                | Some txt \<Rightarrow>
                    (result_of [(''messages'', JArr [JObj
                       [(''role'', JStr ''user''),
                        (''content'', JObj [(''type'', JStr ''text''), (''text'', JStr txt)])]])] out, w')))
      | _ \<Rightarrow> (writeError i kInvalidParams ''Unknown prompt'' out, w))"

section \<open>Requests\<close>

text \<open>\<open>processOne\<close>: the response, or \<open>None\<close> for a notification.\<close>

definition processOne ::
  "(string \<Rightarrow> json option) \<Rightarrow> (json \<Rightarrow> string) \<Rightarrow> 's secret_ops \<Rightarrow> json \<Rightarrow>
     ('s, 'w) mcp_server \<Rightarrow> 'w \<Rightarrow> mcp_reply \<Rightarrow>
     members option \<times> ('s, 'w) mcp_server \<times> 'w \<times> mcp_reply" where
  "processOne parse print sops req sv w rep =
     (let i = obj_get req ''id''
      in case cstr_of (obj_get req ''method'') of
           None \<Rightarrow>
             if i = JNull then (None, sv, w, rep)
             else (Some (writeError i kInvalidRequest ''Invalid Request'' []), sv, w, rep)
         | Some m \<Rightarrow>
             (let params = obj_get req ''params'';
                  out = [(''jsonrpc'', JStr ''2.0''), (''id'', i)]
              in if prefix ''notifications/'' m then (None, sv, w, rep)
                 else if i = JNull then (None, sv, w, rep)
                 else if m = ''initialize'' then
                   (case mcp_initialize sv params out rep of
                      (out', sv', rep') \<Rightarrow> (Some out', sv', w, rep'))
                 else if m = ''ping'' then (Some (result_of [] out), sv, w, rep)
                 else if m = ''tools/list'' then (Some (mcp_tools_list sv out), sv, w, rep)
                 else if m = ''tools/call'' then
                   (case mcp_tools_call parse print sops params i sv w out of
                      (out', sv', w') \<Rightarrow> (Some out', sv', w', rep))
                 else if m = ''resources/list'' then
                   (case mcp_resources_list sv out of (out', sv') \<Rightarrow> (Some out', sv', w, rep))
                 else if m = ''resources/templates/list'' then
                   (Some (mcp_templates_list sv out), sv, w, rep)
                 else if m = ''resources/read'' then
                   (case mcp_resources_read params i sv w out of
                      (out', sv', w') \<Rightarrow> (Some out', sv', w', rep))
                 else if m = ''prompts/list'' then (Some (mcp_prompts_list sv out), sv, w, rep)
                 else if m = ''prompts/get'' then
                   (case mcp_prompts_get parse print params i sv w out of
                      (out', w') \<Rightarrow> (Some out', sv, w', rep))
                 else (Some (writeError i kMethodNotFound ''Method not found'' out), sv, w, rep)))"

fun processAll ::
  "(string \<Rightarrow> json option) \<Rightarrow> (json \<Rightarrow> string) \<Rightarrow> 's secret_ops \<Rightarrow> json list \<Rightarrow>
     ('s, 'w) mcp_server \<Rightarrow> 'w \<Rightarrow> mcp_reply \<Rightarrow>
     json list \<times> ('s, 'w) mcp_server \<times> 'w \<times> mcp_reply" where
  "processAll parse print sops [] sv w rep = ([], sv, w, rep)"
| "processAll parse print sops (req # reqs) sv w rep =
     (case processOne parse print sops req sv w rep of
        (out, sv1, w1, rep1) \<Rightarrow>
          (case processAll parse print sops reqs sv1 w1 rep1 of
             (outs, sv2, w2, rep2) \<Rightarrow>
               ((case out of None \<Rightarrow> outs | Some mem \<Rightarrow> JObj mem # outs), sv2, w2, rep2)))"

definition error_reply :: "(json \<Rightarrow> string) \<Rightarrow> int \<Rightarrow> string \<Rightarrow> int \<Rightarrow> mcp_reply" where
  "error_reply print code msg status =
     new_reply\<lparr>rp_body := print (JObj (writeError JNull code msg [])), rp_status := status\<rparr>"

text \<open>A batch: the replies of its requests, in order, without the notifications.\<close>

definition post_batch ::
  "(string \<Rightarrow> json option) \<Rightarrow> (json \<Rightarrow> string) \<Rightarrow> 's secret_ops \<Rightarrow> json list \<Rightarrow>
     ('s, 'w) mcp_server \<Rightarrow> 'w \<Rightarrow> mcp_reply \<times> ('s, 'w) mcp_server \<times> 'w" where
  "post_batch parse print sops reqs sv w =
     (if reqs = [] then (error_reply print kInvalidRequest ''Invalid Request'' 400, sv, w)
      else
        (case processAll parse print sops reqs sv w new_reply of
           (outs, sv', w', rep) \<Rightarrow>
             if outs = [] then (rep\<lparr>rp_notificationOnly := True, rp_status := 202\<rparr>, sv', w')
             else (rep\<lparr>rp_body := print (JArr outs)\<rparr>, sv', w')))"

definition post_single ::
  "(string \<Rightarrow> json option) \<Rightarrow> (json \<Rightarrow> string) \<Rightarrow> 's secret_ops \<Rightarrow> json \<Rightarrow>
     ('s, 'w) mcp_server \<Rightarrow> 'w \<Rightarrow> mcp_reply \<times> ('s, 'w) mcp_server \<times> 'w" where
  "post_single parse print sops req sv w =
     (case processOne parse print sops req sv w new_reply of
        (None, sv', w', rep) \<Rightarrow> (rep\<lparr>rp_notificationOnly := True, rp_status := 202\<rparr>, sv', w')
      | (Some out, sv', w', rep) \<Rightarrow> (rep\<lparr>rp_body := print (JObj out)\<rparr>, sv', w'))"

definition handlePost ::
  "(string \<Rightarrow> json option) \<Rightarrow> (json \<Rightarrow> string) \<Rightarrow> 's secret_ops \<Rightarrow> string \<Rightarrow> bool \<Rightarrow>
     ('s, 'w) mcp_server \<Rightarrow> 'w \<Rightarrow> mcp_reply \<times> ('s, 'w) mcp_server \<times> 'w" where
  "handlePost parse print sops body authorized sv w =
     (if authRequired sv \<and> \<not> authorized then
        (error_reply print kUnauthorized ''Unauthorized'' 401, sv, w)
      else
        (case parse body of
           None \<Rightarrow> (error_reply print kParseError ''Parse error'' 400, sv, w)
         | Some (JArr reqs) \<Rightarrow> post_batch parse print sops reqs sv w
         | Some req \<Rightarrow> post_single parse print sops req sv w))"

lemmas handlePost_eq = handlePost_def [unfolded post_batch_def post_single_def]

end
