(* ===== verification/Mcp_Safety.thy ===== *)
theory Mcp_Safety
  imports Mcp_Server
begin

text \<open>
  What the MCP server promises: the shape of its replies, authorization, the deny-by-default rule for
  tools that write, agreement of \<open>tools/list\<close> with \<open>tools/call\<close>, and the key-value store through it.
\<close>

section \<open>Authorization\<close>

lemma xor_byte_eq_0: "xor a b = 0 \<longleftrightarrow> a = (b :: 8 word)"
proof
  assume "xor a b = 0"
  then have "xor (xor a b) b = xor 0 b" by simp
  then show "a = b" by (simp add: xor.assoc)
qed simp

lemma or_eq_0: "or a b = 0 \<longleftrightarrow> a = 0 \<and> b = (0 :: 8 word)"
  by (simp add: bit_eq_iff bit_simps) blast

lemma byte_of_char: "(word_of_nat (char_code x) :: 8 word) = word_of_nat (char_code y) \<longleftrightarrow> x = y"
proof -
  have "char_code c < 256" for c by (simp add: char_code_def)
  then have "unat (word_of_nat (char_code c) :: 8 word) = char_code c" for c
    by (simp add: unat_of_nat take_bit_nat_eq_self)
  then have "(word_of_nat (char_code x) :: 8 word) = word_of_nat (char_code y) \<Longrightarrow> char_code x = char_code y"
    by metis
  then show ?thesis by (auto simp: char_code_def)
qed

lemma fold_diff_0:
  "fold (\<lambda>(x, y) diff. or diff (xor (word_of_nat (char_code x)) (word_of_nat (char_code y))))
     ps (d :: 8 word) = 0 \<longleftrightarrow> d = 0 \<and> (\<forall>(x, y)\<in>set ps. x = y)"
  by (induction ps arbitrary: d) (auto simp: or_eq_0 xor_byte_eq_0 byte_of_char)

lemma constantTimeEquals_eq: "constantTimeEquals a b \<longleftrightarrow> a = b"
proof (cases "length a = length b")
  case True
  then show ?thesis
    by (auto simp: constantTimeEquals_def fold_diff_0 list_eq_iff_nth_eq in_set_zip Ball_def)
next
  case False
  then show ?thesis by (auto simp: constantTimeEquals_def)
qed

lemma checkAuth_iff: "checkAuth sv hdr \<longleftrightarrow> ms_token sv = [] \<or> hdr = ''Bearer '' @ ms_token sv"
  by (simp add: checkAuth_def authRequired_def constantTimeEquals_eq)

section \<open>The shape of responses\<close>

definition error_object :: "json \<Rightarrow> bool" where
  "error_object e \<longleftrightarrow> (\<exists>code msg. e = JObj [(''code'', JInt code), (''message'', JStr msg)])"

text \<open>A JSON-RPC response to the request with the given id: version, id, and one of result and error.\<close>

definition rpc_response :: "json \<Rightarrow> members \<Rightarrow> bool" where
  "rpc_response i mem \<longleftrightarrow>
     (\<exists>k v. mem = [(''jsonrpc'', JStr ''2.0''), (''id'', i), (k, v)] \<and>
        (k = ''result'' \<and> is_obj v \<or> k = ''error'' \<and> error_object v))"

abbreviation rpc_start :: "json \<Rightarrow> members" where
  "rpc_start i \<equiv> [(''jsonrpc'', JStr ''2.0''), (''id'', i)]"

lemma rpc_response_intros [simp]:
  "rpc_response i (writeError i code msg (rpc_start i))"
  "rpc_response i (writeError i code msg [])"
  "rpc_response i (writeToolResult txt b (rpc_start i))"
  "rpc_response i (result_of r (rpc_start i))"
  by (simp_all add: rpc_response_def writeError_def writeToolResult_def result_of_def error_object_def)

named_theorems mcp_methods

lemmas [mcp_methods] = mcp_initialize_def mcp_tools_list_def mcp_tools_call_def kv_call_def
  mcp_resources_list_def mcp_templates_list_def mcp_resources_read_def mcp_prompts_list_def
  mcp_prompts_get_def Let_def

lemma kv_call_response: "kv_call sops a n i st (rpc_start i) = (out, st') \<Longrightarrow> rpc_response i out"
  by (auto simp: kv_call_def split: if_splits prod.splits)

lemma tools_call_response:
  "mcp_tools_call parse print sops params i sv w (rpc_start i) = (out, sv', w') \<Longrightarrow> rpc_response i out"
  by (auto simp: mcp_tools_call_def Let_def dest: kv_call_response
      split: option.splits if_splits prod.splits sum.splits)

lemma resources_read_response:
  "mcp_resources_read params i sv w (rpc_start i) = (out, sv', w') \<Longrightarrow> rpc_response i out"
  by (auto simp: mcp_resources_read_def split: option.splits prod.splits)

lemma prompts_get_response:
  "mcp_prompts_get parse print params i sv w (rpc_start i) = (out, w') \<Longrightarrow> rpc_response i out"
  by (auto simp: mcp_prompts_get_def split: option.splits prod.splits)

lemma resources_list_response:
  "mcp_resources_list sv (rpc_start i) = (out, sv') \<Longrightarrow> rpc_response i out"
  by (auto simp: mcp_resources_list_def Let_def split: option.splits prod.splits)

lemma initialize_response:
  "mcp_initialize sv params (rpc_start i) rep = (out, sv', rep') \<Longrightarrow>
     rpc_response i out \<and> rp_body rep' = rp_body rep \<and> rp_status rep' = rp_status rep \<and>
     rp_notificationOnly rep' = rp_notificationOnly rep"
  by (auto simp: mcp_initialize_def Let_def)

text \<open>What one request does to the reply under construction.\<close>

definition same_envelope :: "mcp_reply \<Rightarrow> mcp_reply \<Rightarrow> bool" where
  "same_envelope a b \<longleftrightarrow> rp_body a = rp_body b \<and> rp_status a = rp_status b \<and>
     rp_notificationOnly a = rp_notificationOnly b"

lemma processOne_shape:
  assumes "processOne parse print sops req sv w rep = (out, sv', w', rep')"
  shows "same_envelope rep' rep \<and>
    (case out of None \<Rightarrow> sv' = sv \<and> w' = w \<and> rep' = rep
     | Some mem \<Rightarrow> obj_get req ''id'' \<noteq> JNull \<and> rpc_response (obj_get req ''id'') mem)"
proof (cases "cstr_of (obj_get req ''method'')")
  case None
  with assms show ?thesis by (auto simp: processOne_def same_envelope_def Let_def split: if_splits)
next
  case (Some m)
  show ?thesis
  proof (cases "prefix ''notifications/'' m \<or> obj_get req ''id'' = JNull")
    case True
    with Some assms show ?thesis
      by (auto simp: processOne_def same_envelope_def Let_def split: if_splits)
  next
    case False
    with Some assms show ?thesis
      unfolding processOne_def Let_def same_envelope_def
      by (auto simp: mcp_tools_list_def mcp_templates_list_def mcp_prompts_list_def
          dest: initialize_response tools_call_response resources_read_response prompts_get_response
            resources_list_response split: if_splits prod.splits)
  qed
qed

lemma processAll_shape:
  "processAll parse print sops reqs sv w rep = (outs, sv', w', rep') \<Longrightarrow>
     same_envelope rep' rep \<and>
     (\<forall>o'\<in>set outs. \<exists>req\<in>set reqs. \<exists>mem. o' = JObj mem \<and> obj_get req ''id'' \<noteq> JNull \<and>
        rpc_response (obj_get req ''id'') mem)"
proof (induction reqs arbitrary: sv w rep outs sv' w' rep')
  case Nil
  then show ?case by (simp add: same_envelope_def)
next
  case (Cons req reqs)
  obtain out sv1 w1 rep1 where one: "processOne parse print sops req sv w rep = (out, sv1, w1, rep1)"
    by (metis prod_cases4)
  obtain outs2 sv2 w2 rep2 where
    all: "processAll parse print sops reqs sv1 w1 rep1 = (outs2, sv2, w2, rep2)"
    by (metis prod_cases4)
  from Cons.prems one all have "outs = (case out of None \<Rightarrow> outs2 | Some mem \<Rightarrow> JObj mem # outs2)"
    "rep' = rep2" by simp_all
  with processOne_shape [OF one] Cons.IH [OF all] show ?case
    by (auto simp: same_envelope_def split: option.splits)
qed

section \<open>Tools that write are off unless allowed\<close>

text \<open>
  What is left of a server when its disabled write tools are replaced by stubs: only their names
  and the fact that they are disabled remain.
\<close>

definition stub_tool :: "'w tool \<Rightarrow> 'w tool" where
  "stub_tool t = (if write_disabled t then (new_tool (tl_name t) [])\<lparr>tl_mutating := True\<rparr> else t)"

definition stub_disabled :: "('s, 'w) mcp_server \<Rightarrow> ('s, 'w) mcp_server" where
  "stub_disabled sv = sv\<lparr>ms_tools := map_option (map stub_tool) (ms_tools sv)\<rparr>"

lemma stub_tool_simps [simp]:
  "tl_name (stub_tool t) = tl_name t" "write_disabled (stub_tool t) = write_disabled t"
  "\<not> write_disabled t \<Longrightarrow> stub_tool t = t"
  by (auto simp: stub_tool_def new_tool_def write_disabled_def)

lemma find_stub: "find_tool (map stub_tool ts) n = map_option stub_tool (find_tool ts n)"
  by (induction ts) (auto simp: find_tool_def reg_find_def)

lemma stub_fields [simp]:
  "ms_name (stub_disabled sv) = ms_name sv" "ms_version (stub_disabled sv) = ms_version sv"
  "ms_instructions (stub_disabled sv) = ms_instructions sv"
  "ms_protocol (stub_disabled sv) = ms_protocol sv" "ms_token (stub_disabled sv) = ms_token sv"
  "ms_resources (stub_disabled sv) = ms_resources sv" "ms_prompts (stub_disabled sv) = ms_prompts sv"
  "ms_store (stub_disabled sv) = ms_store sv" "ms_storeWrites (stub_disabled sv) = ms_storeWrites sv"
  "ms_sessions (stub_disabled sv) = ms_sessions sv"
  "ms_tools (stub_disabled sv) = map_option (map stub_tool) (ms_tools sv)"
  "stub_disabled sv\<lparr>ms_store := st\<rparr> = stub_disabled (sv\<lparr>ms_store := st\<rparr>)"
  "stub_disabled sv\<lparr>ms_sessions := n\<rparr> = stub_disabled (sv\<lparr>ms_sessions := n\<rparr>)"
  by (simp_all add: stub_disabled_def)

lemma filter_stub:
  "filter (\<lambda>t. \<not> write_disabled t) (map stub_tool ts) = filter (\<lambda>t. \<not> write_disabled t) ts"
  by (induction ts) auto

lemma listed_tools_stub: "listed_tools (stub_disabled sv) = listed_tools sv"
  by (cases "ms_tools sv") (simp_all add: listed_tools_def Let_def filter_stub)

lemma dispatch_stub:
  assumes "find_tool ts n = Some t" "\<not> write_disabled t"
  shows "dispatch parse (map stub_tool ts) n txt w = dispatch parse ts n txt w"
  using assms by (simp add: dispatch_def find_stub)

lemma tools_call_stub:
  "mcp_tools_call parse print sops params i (stub_disabled sv) w out =
     (case mcp_tools_call parse print sops params i sv w out of
        (out', sv', w') \<Rightarrow> (out', stub_disabled sv', w'))"
  by (auto simp: mcp_tools_call_def Let_def find_stub dispatch_stub
      split: option.splits prod.splits sum.splits)

lemma initialize_stub:
  "mcp_initialize (stub_disabled sv) params out rep =
     (case mcp_initialize sv params out rep of (out', sv', rep') \<Rightarrow> (out', stub_disabled sv', rep'))"
  unfolding mcp_initialize_def stub_fields by (simp add: Let_def)

lemma resources_list_stub:
  "mcp_resources_list (stub_disabled sv) out =
     (case mcp_resources_list sv out of (out', sv') \<Rightarrow> (out', stub_disabled sv'))"
  by (auto simp: mcp_resources_list_def Let_def split: option.splits prod.splits)

lemma resources_read_stub:
  "mcp_resources_read params i (stub_disabled sv) w out =
     (case mcp_resources_read params i sv w out of
        (out', sv', w') \<Rightarrow> (out', stub_disabled sv', w'))"
proof -
  have "read_uri (stub_disabled sv) u w =
      (case read_uri sv u w of (r, sv', w') \<Rightarrow> (r, stub_disabled sv', w'))" for u
    by (auto simp: read_uri_def split: option.splits prod.splits)
  then show ?thesis by (auto simp: mcp_resources_read_def split: option.splits prod.splits)
qed

lemma read_only_stub:
  "mcp_tools_list (stub_disabled sv) out = mcp_tools_list sv out"
  "mcp_templates_list (stub_disabled sv) out = mcp_templates_list sv out"
  "mcp_prompts_list (stub_disabled sv) out = mcp_prompts_list sv out"
  "mcp_prompts_get parse print params i (stub_disabled sv) w out =
     mcp_prompts_get parse print params i sv w out"
  by (simp_all add: mcp_tools_list_def listed_tools_stub mcp_templates_list_def mcp_prompts_list_def
      mcp_prompts_get_def)

lemmas stub_methods = initialize_stub resources_list_stub resources_read_stub read_only_stub
  tools_call_stub

lemma processOne_stub:
  "processOne parse print sops req (stub_disabled sv) w rep =
     (case processOne parse print sops req sv w rep of
        (out, sv', w', rep') \<Rightarrow> (out, stub_disabled sv', w', rep'))"
proof -
  let ?i = "obj_get req ''id''" and ?params = "obj_get req ''params''"
  obtain o1 s1 r1 where 1: "mcp_initialize sv ?params (rpc_start ?i) rep = (o1, s1, r1)"
    by (metis prod_cases3)
  obtain o2 s2 w2 where 2: "mcp_tools_call parse print sops ?params ?i sv w (rpc_start ?i) = (o2, s2, w2)"
    by (metis prod_cases3)
  obtain o3 s3 where 3: "mcp_resources_list sv (rpc_start ?i) = (o3, s3)" by fastforce
  obtain o4 s4 w4 where 4: "mcp_resources_read ?params ?i sv w (rpc_start ?i) = (o4, s4, w4)"
    by (metis prod_cases3)
  obtain o5 w5 where 5: "mcp_prompts_get parse print ?params ?i sv w (rpc_start ?i) = (o5, w5)"
    by fastforce
  show ?thesis
    unfolding processOne_def Let_def stub_methods 1 2 3 4 5 prod.case
    by (cases "cstr_of (obj_get req ''method'')") simp_all
qed

lemma processAll_stub:
  "processAll parse print sops reqs (stub_disabled sv) w rep =
     (case processAll parse print sops reqs sv w rep of
        (outs, sv', w', rep') \<Rightarrow> (outs, stub_disabled sv', w', rep'))"
  by (induction reqs arbitrary: sv w rep) (simp_all add: processOne_stub split: prod.splits)

lemma handlePost_stub:
  "handlePost parse print sops body authorized (stub_disabled sv) w =
     (case handlePost parse print sops body authorized sv w of
        (rep, sv', w') \<Rightarrow> (rep, stub_disabled sv', w'))"
  unfolding handlePost_eq authRequired_def
  by (simp add: processOne_stub processAll_stub split: option.splits json.splits prod.splits)

section \<open>What is listed can be called\<close>

definition refused :: "json \<Rightarrow> members \<Rightarrow> bool" where
  "refused i out \<longleftrightarrow>
     out = writeError i kInvalidParams ''Unknown tool'' (rpc_start i) \<or>
     out = writeError i kInvalidParams ''Tool is a disabled write operation'' (rpc_start i)"

lemma refused_simps [simp]:
  "refused i (writeError i kInvalidParams msg (rpc_start i)) \<longleftrightarrow>
     msg = ''Unknown tool'' \<or> msg = ''Tool is a disabled write operation''"
  "\<not> refused i (writeToolResult txt b (rpc_start i))"
  by (auto simp: refused_def writeError_def writeToolResult_def)

lemma errorString_not_refusal:
  "errorString e \<noteq> ''Unknown tool''" "errorString e \<noteq> ''Tool is a disabled write operation''"
  by (cases e; simp)+

lemma kv_call_not_refused: "\<not> refused i (fst (kv_call sops a n i st (rpc_start i)))"
  by (simp add: kv_call_def split: prod.split)

definition listed_names :: "('s, 'w) mcp_server \<Rightarrow> string list" where
  "listed_names sv = map (\<lambda>e. as_cstr [] (obj_get e ''name'')) (listed_tools sv)"

definition unique_tools :: "('s, 'w) mcp_server \<Rightarrow> bool" where
  "unique_tools sv \<longleftrightarrow> (case ms_tools sv of None \<Rightarrow> True
     | Some ts \<Rightarrow> distinct (map tl_name ts) \<and> (\<forall>t\<in>set ts. c_str (tl_name t) = tl_name t))"

lemma kv_names: "c_str ''kv_set'' = ''kv_set''" "c_str ''kv_delete'' = ''kv_delete''"
  by (simp_all add: c_str_def char_code_def)

lemma listed_names_iff:
  assumes "unique_tools sv"
  shows "n \<in> set (listed_names sv) \<longleftrightarrow>
    ms_store sv \<noteq> None \<and> ms_storeWrites sv \<and> (n = ''kv_set'' \<or> n = ''kv_delete'') \<or>
    (\<exists>ts t. ms_tools sv = Some ts \<and> find_tool ts n = Some t \<and> \<not> write_disabled t)"
proof -
  define arr where "arr = (case ms_tools sv of None \<Rightarrow> []
    | Some ts \<Rightarrow> map tool_entry (filter (\<lambda>t. \<not> write_disabled t) ts))"
  have "n \<in> (\<lambda>e. as_cstr [] (obj_get e ''name'')) ` set arr \<longleftrightarrow>
      (\<exists>ts t. ms_tools sv = Some ts \<and> find_tool ts n = Some t \<and> \<not> write_disabled t)"
  proof (cases "ms_tools sv")
    case None
    then show ?thesis by (simp add: arr_def)
  next
    case (Some ts)
    with assms have d: "distinct (map tl_name ts)" "\<forall>t\<in>set ts. c_str (tl_name t) = tl_name t"
      by (simp_all add: unique_tools_def)
    have "n \<in> (\<lambda>e. as_cstr [] (obj_get e ''name'')) ` set arr \<longleftrightarrow>
        (\<exists>t\<in>set ts. \<not> write_disabled t \<and> n = tl_name t)"
      using Some d(2) by (auto simp: arr_def tool_entry_def image_iff)
    also have "\<dots> \<longleftrightarrow> (\<exists>t. find_tool ts n = Some t \<and> \<not> write_disabled t)"
      using reg_find_distinct [OF d(1)] reg_find_Some by (fastforce simp: find_tool_def)
    finally show ?thesis using Some by simp
  qed
  then show ?thesis
    by (auto simp: listed_names_def listed_tools_def addKvTools_def kv_names Let_def arr_def)
qed

lemma tools_call_refused:
  assumes "cstr_of (obj_get params ''name'') = Some n"
  shows "refused i (fst (mcp_tools_call parse print sops params i sv w (rpc_start i))) \<longleftrightarrow>
    \<not> (ms_store sv \<noteq> None \<and> ms_storeWrites sv \<and> (n = ''kv_set'' \<or> n = ''kv_delete'') \<or>
       (\<exists>ts t. ms_tools sv = Some ts \<and> find_tool ts n = Some t \<and> \<not> write_disabled t))"
proof (cases "ms_store sv \<noteq> None \<and> ms_storeWrites sv \<and> (n = ''kv_set'' \<or> n = ''kv_delete'')")
  case True
  then obtain st where st: "(if ms_storeWrites sv \<and> (n = ''kv_set'' \<or> n = ''kv_delete'')
      then ms_store sv else None) = Some st" by auto
  with True assms show ?thesis
    using kv_call_not_refused [of i sops "toolCallArgs parse (arguments_text print params)" n st]
    by (simp only: mcp_tools_call_def Let_def option.case st) (simp add: case_prod_unfold)
next
  case False
  then have st: "(if ms_storeWrites sv \<and> (n = ''kv_set'' \<or> n = ''kv_delete'')
      then ms_store sv else None) = None" by auto
  with False assms show ?thesis
    unfolding mcp_tools_call_def Let_def
    by (simp only: assms option.case st)
       (auto simp: errorString_not_refusal split: option.splits prod.splits sum.splits)
qed

section \<open>The store behind the server\<close>

definition store_holds :: "('s edge_store \<Rightarrow> bool) \<Rightarrow> ('s, 'w) mcp_server \<Rightarrow> bool" where
  "store_holds P sv \<longleftrightarrow> (case ms_store sv of None \<Rightarrow> True | Some st \<Rightarrow> P st)"

text \<open>The server uses its store through four operations: what they keep, every POST keeps.\<close>

locale store_kept =
  fixes sops :: "'s secret_ops" and P :: "'s edge_store \<Rightarrow> bool"
  assumes kept_set: "P st \<Longrightarrow> edge_set sops k v st = (s, st') \<Longrightarrow> P st'"
    and kept_remove: "P st \<Longrightarrow> edge_remove sops k st = (s, st') \<Longrightarrow> P st'"
    and kept_get: "P st \<Longrightarrow> edge_get k st = (r, st') \<Longrightarrow> P st'"
    and kept_ticks: "P st \<Longrightarrow> P (st\<lparr>ticks := t\<rparr>)"
begin

lemma expired_kept: "expiredNow k st = (b, st') \<Longrightarrow> P st \<Longrightarrow> P st'"
  by (auto simp: expiredNow_def kept_ticks split: option.splits)

lemma live_keys_kept: "live_keys ks st = (out, st') \<Longrightarrow> P st \<Longrightarrow> P st'"
  by (induction ks arbitrary: st out) (auto split: prod.splits dest: expired_kept)

lemma edge_keys_kept: "edge_keys st = (ks, st') \<Longrightarrow> P st \<Longrightarrow> P st'"
  unfolding edge_keys_def by (rule live_keys_kept)

lemma kv_call_kept: "kv_call sops a n i st out = (out', st') \<Longrightarrow> P st \<Longrightarrow> P st'"
  by (auto simp: kv_call_def split: if_splits prod.splits dest: kept_set kept_remove)

lemma tools_call_kept:
  "mcp_tools_call parse print sops params i sv w out = (out', sv', w') \<Longrightarrow> store_holds P sv \<Longrightarrow>
     store_holds P sv'"
  by (auto simp: mcp_tools_call_def Let_def store_holds_def dest: kv_call_kept
      split: option.splits if_splits prod.splits sum.splits)

lemma read_uri_kept: "read_uri sv u w = (r, sv', w') \<Longrightarrow> store_holds P sv \<Longrightarrow> store_holds P sv'"
  by (auto simp: read_uri_def store_holds_def dest: kept_get
      split: option.splits if_splits prod.splits)

lemma other_methods_kept:
  "mcp_initialize sv params out rep = (out', sv', rep') \<Longrightarrow> store_holds P sv \<Longrightarrow> store_holds P sv'"
  "mcp_resources_list sv out = (out', sv') \<Longrightarrow> store_holds P sv \<Longrightarrow> store_holds P sv'"
  "mcp_resources_read params i sv w out = (out', sv', w') \<Longrightarrow> store_holds P sv \<Longrightarrow> store_holds P sv'"
  by (auto simp: mcp_initialize_def mcp_resources_list_def mcp_resources_read_def Let_def store_holds_def
      dest: edge_keys_kept read_uri_kept [unfolded store_holds_def] split: option.splits prod.splits)

lemma processOne_kept:
  "processOne parse print sops req sv w rep = (out, sv', w', rep') \<Longrightarrow> store_holds P sv \<Longrightarrow>
     store_holds P sv'"
  unfolding processOne_def Let_def
  by (auto dest: tools_call_kept other_methods_kept split: option.splits if_splits prod.splits)

lemma processAll_kept:
  "processAll parse print sops reqs sv w rep = (outs, sv', w', rep') \<Longrightarrow> store_holds P sv \<Longrightarrow>
     store_holds P sv'"
  by (induction reqs arbitrary: sv w rep outs sv' w' rep')
     (auto split: prod.splits dest: processOne_kept)

lemma handlePost_kept:
  "handlePost parse print sops body authorized sv w = (rep, sv', w') \<Longrightarrow> store_holds P sv \<Longrightarrow>
     store_holds P sv'"
  unfolding handlePost_eq
  by (auto dest: processOne_kept processAll_kept split: if_splits option.splits json.splits prod.splits)

end

lemma edge_ops_inv:
  "edge_inv st \<Longrightarrow> edge_set sops k v st = (s, st') \<Longrightarrow> edge_inv st'"
  "edge_inv st \<Longrightarrow> edge_remove sops k st = (s, st') \<Longrightarrow> edge_inv st'"
  "edge_inv st \<Longrightarrow> edge_get k st = (r, st') \<Longrightarrow> edge_inv st'"
  using edge_set_inv [of st sops k v] edge_remove_inv [of st sops k] edge_get_inv [of st k] by simp_all

interpretation bounded: store_kept sops edge_inv for sops
  by unfold_locales (auto dest: edge_ops_inv)

text \<open>A sequence of POSTs, each a body and whether the front end accepted its token.\<close>

definition post_step ::
  "(string \<Rightarrow> json option) \<Rightarrow> (json \<Rightarrow> string) \<Rightarrow> 's secret_ops \<Rightarrow> string \<times> bool \<Rightarrow>
     ('s, 'w) mcp_server \<times> 'w \<Rightarrow> ('s, 'w) mcp_server \<times> 'w" where
  "post_step parse print sops post st =
     snd (handlePost parse print sops (fst post) (snd post) (fst st) (snd st))"

context store_kept
begin

lemma posts_kept:
  "store_holds P sv \<Longrightarrow> store_holds P (fst (fold (post_step parse print sops) posts (sv, w)))"
proof (induction posts arbitrary: sv w)
  case (Cons post posts)
  obtain rep sv1 w1 where "handlePost parse print sops (fst post) (snd post) sv w = (rep, sv1, w1)"
    by (metis prod_cases3)
  with handlePost_kept [OF this Cons.prems] Cons.IH [of sv1 w1] show ?case
    by (simp add: post_step_def)
qed simp

end

text \<open>A value that was stored durably is what a read returns.\<close>

lemma edge_set_durable:
  assumes "edge_inv st" "edge_set sops k v st = (Ok, st')"
  shows "edge_inv st'" "durable st' k = Some v"
proof -
  show "edge_inv st'" by (rule edge_ops_inv(1) [OF assms])
  obtain s st1 where v: "validateAndStore k v (evictExpired st) = (s, st1)" by fastforce
  with assms(2) have s: "s = Ok" by (auto simp: edge_set_def Let_def split: option.splits prod.splits if_splits)
  from validateAndStore_cases [OF evictExpired_facts(1) [OF assms(1)] v] s
  have st1: "st1 = (evictExpired st)\<lparr>edata := smap_insert k v (edata (evictExpired st))\<rparr>"
    "edge_inv st1" by auto
  have "smap_ok (edata st1)" "smap_ok (expiry st1)" using st1(2) by (simp_all add: edge_inv_def)
  then have "durable (st1\<lparr>expiry := smap_erase k (expiry st1)\<rparr>) k = Some v"
    using st1 evictExpired_facts(1) [OF assms(1)]
    by (simp add: durable_def map_simps edge_inv_def)
  with assms(2) v s show "durable st' k = Some v"
    by (auto simp: edge_set_def Let_def durable_def split: option.splits prod.splits if_splits)
qed

lemma edge_get_durable:
  assumes "edge_inv st" "durable st k = Some v"
  shows "fst (edge_get k st) = Inr v"
proof -
  have "durable (evictExpired st) k = Some v" using evictExpired_facts(4) [OF assms(1)] assms(2) by simp
  then have "smap_find (edata (evictExpired st)) k = Some v" by (simp add: durable_def split: if_splits)
  then show ?thesis by (simp add: edge_get_def Let_def)
qed

section \<open>Properties\<close>

definition well_formed_reply :: "(json \<Rightarrow> string) \<Rightarrow> mcp_reply \<Rightarrow> bool" where
  "well_formed_reply print rep \<longleftrightarrow>
     (if rp_notificationOnly rep then rp_body rep = [] \<and> rp_status rep = 202
      else rp_status rep \<in> {200, 400, 401} \<and>
        (\<exists>v. rp_body rep = print v \<and>
           ((\<exists>i mem. v = JObj mem \<and> rpc_response i mem) \<or>
            (\<exists>vs. v = JArr vs \<and> vs \<noteq> [] \<and>
               (\<forall>x\<in>set vs. \<exists>i mem. i \<noteq> JNull \<and> x = JObj mem \<and> rpc_response i mem)))))"

lemma error_reply_well_formed:
  "status \<in> {200, 400, 401} \<Longrightarrow> well_formed_reply print (error_reply print code msg status)"
proof -
  assume "status \<in> {200, 400, 401}"
  moreover have "\<exists>i mem. JObj (writeError JNull code msg []) = JObj mem \<and> rpc_response i mem"
    using rpc_response_intros(2) by blast
  ultimately show ?thesis
    unfolding well_formed_reply_def error_reply_def new_reply_def by auto
qed

lemma single_reply_well_formed:
  assumes "processOne parse print sops req sv w new_reply = (out, sv', w', rep)"
  shows "well_formed_reply print (case out of
      None \<Rightarrow> rep\<lparr>rp_notificationOnly := True, rp_status := 202\<rparr>
    | Some mem \<Rightarrow> rep\<lparr>rp_body := print (JObj mem)\<rparr>)"
  using processOne_shape [OF assms]
  by (auto simp: well_formed_reply_def same_envelope_def new_reply_def split: option.splits)

lemma batch_reply_well_formed:
  assumes "processAll parse print sops reqs sv w new_reply = (outs, sv', w', rep)"
  shows "well_formed_reply print
    (if outs = [] then rep\<lparr>rp_notificationOnly := True, rp_status := 202\<rparr>
     else rep\<lparr>rp_body := print (JArr outs)\<rparr>)"
proof -
  note sh = processAll_shape [OF assms]
  have "\<exists>i mem. i \<noteq> JNull \<and> x = JObj mem \<and> rpc_response i mem" if "x \<in> set outs" for x
    using sh that by blast
  with sh show ?thesis by (auto simp: well_formed_reply_def same_envelope_def new_reply_def)
qed

text \<open>C25: every POST body gets a well-formed answer: either no body and status 202, or the text of a
  JSON-RPC response, or of a non-empty batch of them, where each response has the version, an id and
  exactly one of a result object and an error object with code and message.\<close>

theorem mcp_replies_well_formed:
  "well_formed_reply print (fst (handlePost parse print sops body authorized sv w))"
proof (cases "authRequired sv \<and> \<not> authorized")
  case True
  then show ?thesis by (simp add: handlePost_eq error_reply_well_formed)
next
  case False
  show ?thesis
  proof (cases "parse body")
    case None
    with False show ?thesis by (auto simp: handlePost_eq error_reply_well_formed)
  next
    case (Some req)
    obtain out sv1 w1 rep1 where one: "processOne parse print sops req sv w new_reply = (out, sv1, w1, rep1)"
      by (metis prod_cases4)
    show ?thesis
    proof (cases "\<exists>reqs. req = JArr reqs")
      case True
      then obtain reqs where r: "req = JArr reqs" by blast
      obtain outs sv2 w2 rep2 where
        all: "processAll parse print sops reqs sv w new_reply = (outs, sv2, w2, rep2)"
        by (metis prod_cases4)
      from False Some r all batch_reply_well_formed [OF all] show ?thesis
        by (auto simp: handlePost_eq error_reply_well_formed)
    next
      case single: False
      with False Some one single_reply_well_formed [OF one] show ?thesis
        by (cases req; cases out) (auto simp: handlePost_eq)
    qed
  qed
qed

text \<open>C22: with a token set, a request is answered 401 and changes neither the server nor the world unless
  its Authorization header is exactly \<open>Bearer\<close>, a space and the token; with that header, or with no
  token set, it is processed.\<close>

theorem only_the_token_opens:
  "handlePost parse print sops body (checkAuth sv hdr) sv w =
     (if ms_token sv = [] \<or> hdr = ''Bearer '' @ ms_token sv
      then handlePost parse print sops body True sv w
      else (error_reply print kUnauthorized ''Unauthorized'' 401, sv, w))"
  by (auto simp: checkAuth_iff handlePost_eq authRequired_def)

text \<open>C23: a tool that changes state and was not explicitly allowed is off: no request, single or in a
  batch, can run its handler or see anything of it but its name.  Replacing all such tools by empty
  stubs changes no reply and no effect.\<close>

theorem disabled_writes_unobservable:
  "handlePost parse print sops body authorized (stub_disabled sv) w =
     (case handlePost parse print sops body authorized sv w of
        (rep, sv', w') \<Rightarrow> (rep, stub_disabled sv', w'))"
  by (rule handlePost_stub)

text \<open>\<open>tools/list\<close> and \<open>tools/call\<close> agree: a name is listed exactly when a call to it is not refused
  as unknown or disabled.\<close>

theorem listed_iff_callable:
  assumes "unique_tools sv" "cstr_of (obj_get params ''name'') = Some n"
  shows "n \<in> set (listed_names sv) \<longleftrightarrow>
    \<not> refused i (fst (mcp_tools_call parse print sops params i sv w (rpc_start i)))"
  unfolding listed_names_iff [OF assms(1)] tools_call_refused [OF assms(2)] not_not ..

definition sample_server :: "(unit, nat) mcp_server" where
  "sample_server = (new_server ''dev'' ''1'')\<lparr>ms_tools := Some [counting_tool],
     ms_store := Some (edge_new 4 16 16), ms_storeWrites := True\<rparr>"

theorem listed_iff_callable_witness:
  "\<forall>sops. ''led'' \<in> set (listed_names sample_server) \<longleftrightarrow>
     \<not> refused (JInt 1) (fst (mcp_tools_call (\<lambda>_. None) (\<lambda>_. []) sops
         (JObj [(''name'', JStr ''led'')]) (JInt 1) sample_server 0 (rpc_start (JInt 1))))"
proof (intro allI, rule listed_iff_callable)
  have "c_str ''led'' = ''led''" by (simp add: c_str_def char_code_def)
  then show "unique_tools sample_server" "cstr_of (obj_get (JObj [(''name'', JStr ''led'')]) ''name'') = Some ''led''"
    by (simp_all add: unique_tools_def sample_server_def new_server_def counting_tool_def new_tool_def)
qed

text \<open>The two requests of a host that stores a value and reads it back.\<close>

definition call_request :: "json \<Rightarrow> string \<Rightarrow> json \<Rightarrow> json" where
  "call_request i name args =
     JObj [(''id'', i), (''method'', JStr ''tools/call''),
           (''params'', JObj [(''name'', JStr name), (''arguments'', args)])]"

definition read_request :: "json \<Rightarrow> string \<Rightarrow> json" where
  "read_request i uri =
     JObj [(''id'', i), (''method'', JStr ''resources/read''), (''params'', JObj [(''uri'', JStr uri)])]"

definition kv_args :: "string \<Rightarrow> string \<Rightarrow> json" where
  "kv_args k v = JObj [(''key'', JStr k), (''value'', JStr v)]"

lemma kv_method_names:
  "c_str ''tools/call'' = ''tools/call''" "c_str ''resources/read'' = ''resources/read''"
  by (simp_all add: c_str_def char_code_def)

lemma post_kv_set:
  assumes store: "ms_store sv = Some st" "ms_storeWrites sv" "i \<noteq> JNull"
    and body: "parse b = Some (call_request i ''kv_set'' (kv_args k v))"
    and rt: "parse (print (kv_args k v)) = Some (kv_args k v)" "print (kv_args k v) \<noteq> []"
    and clean: "c_str k = k" "c_str v = v"
    and ok: "edge_set sops k v st = (Ok, st')"
  shows "handlePost parse print sops b True sv w =
    (new_reply\<lparr>rp_body := print (JObj (writeToolResult ''stored'' False (rpc_start i)))\<rparr>,
     sv\<lparr>ms_store := Some st'\<rparr>, w)"
proof -
  have args: "toolCallArgs parse (print (kv_args k v)) = \<lparr>ca_doc = kv_args k v, ca_ok = True\<rparr>"
    using rt by (simp add: toolCallArgs_def kv_args_def)
  have "processOne parse print sops (call_request i ''kv_set'' (kv_args k v)) sv w new_reply =
      (Some (writeToolResult ''stored'' False (rpc_start i)), sv\<lparr>ms_store := Some st'\<rparr>, w, new_reply)"
    using store clean ok args
    by (simp add: processOne_def call_request_def Let_def kv_method_names kv_names mcp_tools_call_def
        arguments_text_def kv_call_def args_has_def getString_def)
       (simp add: kv_args_def)
  with body show ?thesis by (simp add: handlePost_eq call_request_def)
qed

lemma post_kv_read:
  assumes "ms_store sv = Some st" "i \<noteq> JNull" "edge_get k st = (Inr v, st2)"
    and "parse b = Some (read_request i (''kv://'' @ k))" "c_str k = k"
  shows "handlePost parse print sops b True sv w =
    (new_reply\<lparr>rp_body := print (JObj (result_of [(''contents'', JArr [JObj [(''uri'', JStr (''kv://'' @ k)),
        (''mimeType'', JStr ''text/plain''), (''text'', JStr v)]])] (rpc_start i)))\<rparr>,
     sv\<lparr>ms_store := Some st2\<rparr>, w)"
proof -
  have uri: "c_str (''kv://'' @ k) = ''kv://'' @ k"
    using assms(5) by (simp add: c_str_def char_code_def)
  have "read_uri sv (''kv://'' @ k) w = (Some (v, ''text/plain'', False), sv\<lparr>ms_store := Some st2\<rparr>, w)"
    using assms(1,3) by (simp add: read_uri_def substr_from_def)
  then have "processOne parse print sops (read_request i (''kv://'' @ k)) sv w new_reply =
      (Some (result_of [(''contents'', JArr [JObj [(''uri'', JStr (''kv://'' @ k)),
        (''mimeType'', JStr ''text/plain''), (''text'', JStr v)]])] (rpc_start i)),
       sv\<lparr>ms_store := Some st2\<rparr>, w, new_reply)"
    using assms(2) uri
    by (simp add: processOne_def read_request_def Let_def kv_method_names mcp_resources_read_def)
  with assms(4) show ?thesis
    by (simp add: handlePost_eq read_request_def)
qed

text \<open>what a host stores with \<open>kv_set\<close> is what it reads back under the key's URI: after the POST that
  stores a value was answered \<open>stored\<close>, a POST that reads the URI is answered with that value.\<close>

theorem kv_set_then_read:
  assumes "store_holds edge_inv sv" "ms_store sv = Some st" "ms_storeWrites sv" "i \<noteq> JNull"
    and "parse b1 = Some (call_request i ''kv_set'' (kv_args k v))"
    and "parse b2 = Some (read_request i (''kv://'' @ k))"
    and "parse (print (kv_args k v)) = Some (kv_args k v)" "print (kv_args k v) \<noteq> []"
    and "c_str k = k" "c_str v = v" "edge_set sops k v st = (Ok, st')"
    and "handlePost parse print sops b1 True sv w = (rep1, sv1, w1)"
  shows "rp_body rep1 = print (JObj (writeToolResult ''stored'' False (rpc_start i))) \<and>
    rp_body (fst (handlePost parse print sops b2 True sv1 w1)) =
      print (JObj (result_of [(''contents'', JArr [JObj [(''uri'', JStr (''kv://'' @ k)),
        (''mimeType'', JStr ''text/plain''), (''text'', JStr v)]])] (rpc_start i)))"
proof -
  note p = post_kv_set [where parse = parse and print = print and sops = sops and w = w,
      OF assms(2-5,7-11)]
  have "edge_inv st" using assms(1,2) by (simp add: store_holds_def)
  from edge_get_durable [OF edge_set_durable [OF this assms(11)]]
  obtain st2 where g: "edge_get k st' = (Inr v, st2)" by (metis prod.collapse)
  have "ms_store sv1 = Some st'"
    using p assms(12) by auto
  from post_kv_read [where parse = parse and print = print and sops = sops and w = w1,
      OF this assms(4) g assms(6,9)] p assms(12)
  show ?thesis
    by auto
qed

definition kv_server :: "(unit, nat) mcp_server" where
  "kv_server = setStore (Some (edge_new 4 16 16)) True (new_server ''dev'' ''1'')"

definition kv_parse :: "string \<Rightarrow> json option" where
  "kv_parse b = Some (if b = ''1'' then call_request (JInt 1) ''kv_set'' (kv_args ''mode'' ''eco'')
     else if b = ''2'' then read_request (JInt 1) (''kv://'' @ ''mode'') else kv_args ''mode'' ''eco'')"

theorem kv_set_then_read_witness:
  "\<forall>sops. rp_body (fst (handlePost kv_parse (\<lambda>_. ''x'') sops ''2'' True
      (fst (snd (handlePost kv_parse (\<lambda>_. ''x'') sops ''1'' True kv_server 0))) 0)) = ''x''" (is "\<forall>sops. ?P sops")
proof
  fix sops :: "unit secret_ops"
  let ?st = "edge_new 4 16 16 :: unit edge_store"
  have st: "ms_store kv_server = Some ?st" "ms_storeWrites kv_server" "store_holds edge_inv kv_server"
    by (simp_all add: kv_server_def setStore_def store_holds_def edge_new_def edge_inv_def)
  have set: "edge_set sops ''mode'' ''eco'' ?st = (Ok, ?st\<lparr>edata := [(''mode'', ''eco'')]\<rparr>)"
    by (simp add: edge_set_def edge_new_def evictExpired_def validateAndStore_def notify_def
        kManifestKey_def smap_erase_def)
  have clean: "c_str ''mode'' = ''mode''" "c_str ''eco'' = ''eco''"
    by (simp_all add: c_str_def char_code_def)
  obtain rep1 sv1 w1 where p: "handlePost kv_parse (\<lambda>_. ''x'') sops ''1'' True kv_server 0 = (rep1, sv1, w1)"
    by (metis prod_cases3)
  have parse: "kv_parse ''1'' = Some (call_request (JInt 1) ''kv_set'' (kv_args ''mode'' ''eco''))"
    "kv_parse ''2'' = Some (read_request (JInt 1) (''kv://'' @ ''mode''))"
    "kv_parse ((\<lambda>_. ''x'') (kv_args ''mode'' ''eco'')) = Some (kv_args ''mode'' ''eco'')"
    by (simp_all add: kv_parse_def)
  have "w1 = 0" using post_kv_set [where parse = kv_parse and print = "\<lambda>_. ''x''" and sops = sops
      and w = "0 :: nat", OF st(1,2) _ parse(1,3) _ clean set] p by simp
  with kv_set_then_read [where parse = kv_parse and print = "\<lambda>_. ''x''", OF st(3,1,2) _ parse _ clean set p]
    p show "?P sops" by simp
qed

text \<open>\<open>kv_set\<close> stores the empty string for a value that is not a string, and answers \<open>stored\<close>.\<close>

lemma kv_set_ignores_type:
  "kv_call sops \<lparr>ca_doc = JObj [(''key'', JStr k), (''value'', JInt n)], ca_ok = True\<rparr> ''kv_set'' i st out =
   kv_call sops \<lparr>ca_doc = JObj [(''key'', JStr k), (''value'', JStr [])], ca_ok = True\<rparr> ''kv_set'' i st out"
  by (simp add: kv_call_def args_has_def getString_def c_str_def)

text \<open>A registered tool called \<open>kv_set\<close> is listed beside the built-in one.\<close>

lemma kv_names_listed_twice:
  "\<not> distinct (listed_names (sample_server\<lparr>ms_tools := Some [new_tool ''kv_set'' []]\<rparr>))"
  by (simp add: listed_names_def listed_tools_def sample_server_def new_server_def write_disabled_def
      new_tool_def tool_entry_def addKvTools_def Let_def del: writeObjectSchema.simps)

end
