(* ===== verification/Mcp_Durable.thy ===== *)
theory Mcp_Durable
  imports Mcp_Safety Edge_Durable
begin

text \<open>
  The MCP server (mcp/McpServer.cpp) with its store (mcp/EdgeStore.cpp) over a secret store
  (hal/ISecretStore.h): what hosts write survives a restart of the device, if no write to the
  backend failed.  As in \<open>Edge_Durable\<close>, a mark on the backend remembers a failed write; the server
  over the marked backend gives the same replies and reaches the same states but for the mark.
\<close>

section \<open>Any sequence of POSTs\<close>

definition kept_limits :: "nat \<Rightarrow> 's edge_store \<Rightarrow> bool" where
  "kept_limits mk st \<longleftrightarrow> edge_inv st \<and> maxKeys st = mk"

lemma validateAndStore_limits: "validateAndStore k v st = (s, st1) \<Longrightarrow> maxKeys st1 = maxKeys st"
  by (auto simp: validateAndStore_def split: if_splits)

lemma evict_limits: "edge_inv st \<Longrightarrow> maxKeys (evictExpired st) = maxKeys st"
  using evictExpired_facts(2) by (auto simp: same_config_def)

lemma edge_ops_limits:
  "edge_inv st \<Longrightarrow> edge_set sops k v st = (s, st') \<Longrightarrow> maxKeys st' = maxKeys st"
  "edge_inv st \<Longrightarrow> edge_remove sops k st = (s, st') \<Longrightarrow> maxKeys st' = maxKeys st"
  "edge_inv st \<Longrightarrow> edge_get k st = (r, st') \<Longrightarrow> maxKeys st' = maxKeys st"
  using evict_limits [of st]
  by (auto simp: edge_set_def edge_remove_def edge_get_def Let_def dest: validateAndStore_limits
      split: if_splits option.splits prod.splits)

text \<open>The server keeps the link between RAM and backend through every POST.\<close>

sublocale watched_store \<subseteq> hosted: store_kept ops "\<lambda>st. persisted view inv spoilt st \<and> kept_limits mk st" for mk
proof unfold_locales
  fix st st' :: "'a edge_store" and k v s
  assume st: "persisted view inv spoilt st \<and> kept_limits mk st"
  show "edge_set ops k v st = (s, st') \<Longrightarrow> persisted view inv spoilt st' \<and> kept_limits mk st'"
    using st edge_set_persisted [of st k v] edge_ops_limits(1) [of st ops k v s st']
      edge_ops_inv(1) [of st ops k v s st'] by (simp add: kept_limits_def)
  show "edge_remove ops k st = (s, st') \<Longrightarrow> persisted view inv spoilt st' \<and> kept_limits mk st'"
    using st edge_remove_persisted [of st k] edge_ops_limits(2) [of st ops k s st']
      edge_ops_inv(2) [of st ops k s st'] by (simp add: kept_limits_def)
next
  fix st st' :: "'a edge_store" and k r
  assume st: "persisted view inv spoilt st \<and> kept_limits mk st" "edge_get k st = (r, st')"
  have "st' = evictExpired st"
    using st(2) by (auto simp: edge_get_def Let_def split: option.splits)
  then show "persisted view inv spoilt st' \<and> kept_limits mk st'"
    using st persisted_evict [of st] edge_ops_limits(3) [of st k r st'] edge_ops_inv(3) [of st k r st']
    by (simp add: kept_limits_def)
next
  fix st :: "'a edge_store" and t
  show "persisted view inv spoilt st \<and> kept_limits mk st \<Longrightarrow>
      persisted view inv spoilt (st\<lparr>ticks := t\<rparr>) \<and> kept_limits mk (st\<lparr>ticks := t\<rparr>)"
    by (simp add: persisted_def kept_limits_def synced_with_def durable_entries_def manifest_def)
qed

context watched_store
begin

lemmas hosted_store = hosted.store_kept_axioms

end

section \<open>The server over a marked backend\<close>

definition map_server :: "('a \<Rightarrow> 'b) \<Rightarrow> ('a, 'w) mcp_server \<Rightarrow> ('b, 'w) mcp_server" where
  "map_server f sv =
     \<lparr>ms_name = ms_name sv, ms_version = ms_version sv, ms_instructions = ms_instructions sv,
      ms_protocol = ms_protocol sv, ms_token = ms_token sv, ms_tools = ms_tools sv,
      ms_resources = ms_resources sv, ms_prompts = ms_prompts sv,
      ms_store = map_option (map_backend f) (ms_store sv), ms_storeWrites = ms_storeWrites sv,
      ms_sessions = ms_sessions sv\<rparr>"

lemma map_server_simps [simp]:
  "ms_name (map_server f sv) = ms_name sv" "ms_version (map_server f sv) = ms_version sv"
  "ms_instructions (map_server f sv) = ms_instructions sv"
  "ms_protocol (map_server f sv) = ms_protocol sv" "ms_token (map_server f sv) = ms_token sv"
  "ms_tools (map_server f sv) = ms_tools sv" "ms_resources (map_server f sv) = ms_resources sv"
  "ms_prompts (map_server f sv) = ms_prompts sv"
  "ms_store (map_server f sv) = map_option (map_backend f) (ms_store sv)"
  "ms_storeWrites (map_server f sv) = ms_storeWrites sv"
  "ms_sessions (map_server f sv) = ms_sessions sv"
  "map_server f (sv\<lparr>ms_store := st\<rparr>) = (map_server f sv)\<lparr>ms_store := map_option (map_backend f) st\<rparr>"
  "map_server f (sv\<lparr>ms_sessions := n\<rparr>) = (map_server f sv)\<lparr>ms_sessions := n\<rparr>"
  by (simp_all add: map_server_def)

lemma map_live_keys:
  "live_keys ks (map_backend f st) = map_prod id (map_backend f) (live_keys ks st)"
  by (induction ks arbitrary: st) (auto simp: map_expired [symmetric] split: prod.splits)

lemma map_edge_keys: "edge_keys (map_backend f st) = map_prod id (map_backend f) (edge_keys st)"
  by (simp add: edge_keys_def map_live_keys)

lemma map_kv_call:
  "kv_call ops a n i (map_backend fst st) out = map_prod id (map_backend fst) (kv_call (tracked ops) a n i st out)"
  by (simp add: kv_call_def map_edge_set [symmetric] map_edge_remove [symmetric] split: prod.split)

lemma map_tools_call:
  "mcp_tools_call parse print ops params i (map_server fst sv) w out =
     map_prod id (map_prod (map_server fst) id) (mcp_tools_call parse print (tracked ops) params i sv w out)"
  by (auto simp: mcp_tools_call_def Let_def map_kv_call split: option.split prod.split sum.split)

lemma map_initialize:
  "mcp_initialize (map_server f sv) params out rep =
     map_prod id (map_prod (map_server f) id) (mcp_initialize sv params out rep)"
  by (simp add: mcp_initialize_def Let_def split: option.split)

lemma map_lists:
  "mcp_tools_list (map_server f sv) out = mcp_tools_list sv out"
  "mcp_templates_list (map_server f sv) out = mcp_templates_list sv out"
  "mcp_prompts_list (map_server f sv) out = mcp_prompts_list sv out"
  "mcp_prompts_get parse print params i (map_server f sv) w out = mcp_prompts_get parse print params i sv w out"
  by (simp_all add: mcp_tools_list_def listed_tools_def mcp_templates_list_def mcp_prompts_list_def
      mcp_prompts_get_def)

lemma map_resources_list:
  "mcp_resources_list (map_server f sv) out = map_prod id (map_server f) (mcp_resources_list sv out)"
  by (simp add: mcp_resources_list_def Let_def map_edge_keys split: option.split prod.split)

lemma map_read_uri:
  "read_uri (map_server f sv) u w = map_prod id (map_prod (map_server f) id) (read_uri sv u w)"
  by (auto simp: read_uri_def map_edge_get [symmetric] split: option.split prod.split)

lemma map_resources_read:
  "mcp_resources_read params i (map_server f sv) w out =
     map_prod id (map_prod (map_server f) id) (mcp_resources_read params i sv w out)"
  by (simp add: mcp_resources_read_def map_read_uri split: option.split prod.split)

lemma map_processOne:
  "processOne parse print ops req (map_server fst sv) w rep =
     map_prod id (map_prod (map_server fst) id) (processOne parse print (tracked ops) req sv w rep)"
  by (simp add: processOne_def Let_def map_tools_call map_initialize map_lists map_resources_list
      map_resources_read split: option.split prod.split)

lemma map_processAll:
  "processAll parse print ops reqs (map_server fst sv) w rep =
     map_prod id (map_prod (map_server fst) id) (processAll parse print (tracked ops) reqs sv w rep)"
  by (induction reqs arbitrary: sv w rep) (simp_all add: map_processOne split: prod.split)

text \<open>A POST is answered the same, and what it leaves is the same but for the mark.\<close>

lemma map_handlePost:
  "handlePost parse print ops body auth (map_server fst sv) w =
     map_prod id (map_prod (map_server fst) id) (handlePost parse print (tracked ops) body auth sv w)"
  by (auto simp: handlePost_eq authRequired_def map_processOne map_processAll
      split: option.split json.split prod.split)

lemma map_posts:
  "fold (post_step parse print ops) posts (map_server fst sv, w) =
     map_prod (map_server fst) id (fold (post_step parse print (tracked ops)) posts (sv, w))"
proof (induction posts arbitrary: sv w)
  case (Cons post posts)
  obtain rep sv1 w1 where "handlePost parse print (tracked ops) (fst post) (snd post) sv w = (rep, sv1, w1)"
    by (metis prod_cases3)
  with Cons.IH [of sv1 w1] show ?case
    by (simp add: post_step_def map_handlePost)
qed simp

section \<open>The restart\<close>

lemma setPersistence_expiry: "expiry (setPersistence ops be st) = expiry st"
proof -
  have "expiry (fold (load_one ops b) ks st) = expiry st" for b ks st
    by (induction ks arbitrary: st) (simp_all add: load_one_def split: sum.split)
  then show ?thesis
    by (simp add: setPersistence_def Let_def split: option.split sum.split)
qed

lemma reloaded_get:
  assumes "smap_find (edata (setPersistence ops (Some b) (edge_new mk mv ml))) k = Some v"
  shows "\<exists>st. edge_get k (setClock c (setPersistence ops (Some b) (edge_new mk mv ml))) = (Inr v, st)"
proof -
  let ?st = "setClock c (setPersistence ops (Some b) (edge_new mk mv ml))"
  have "expiry ?st = []"
    using setPersistence_expiry [of ops "Some b" "edge_new mk mv ml"] by (simp add: setClock_def edge_new_def)
  then have "evictExpired ?st = ?st"
    by (simp add: evictExpired_def split: option.split)
  then show ?thesis
    using assms by (simp add: edge_get_def Let_def setClock_def)
qed

text \<open>No write to the backend failed while the server answered these POSTs.\<close>

definition posts_succeed ::
  "(string \<Rightarrow> json option) \<Rightarrow> (json \<Rightarrow> string) \<Rightarrow> 's secret_ops \<Rightarrow> (string \<times> bool) list \<Rightarrow>
     ('s, 'w) mcp_server \<Rightarrow> 'w \<Rightarrow> bool" where
  "posts_succeed parse print ops posts sv w \<longleftrightarrow>
     (case ms_store (fst (fold (post_step parse print (tracked ops)) posts
              (map_server (\<lambda>b. (b, False)) sv, w))) of
        None \<Rightarrow> True
      | Some st \<Rightarrow> (case backend st of None \<Rightarrow> True | Some b \<Rightarrow> \<not> snd b))"

lemma untrack_server: "map_server fst (map_server (\<lambda>b. (b, False)) sv) = sv"
proof -
  have "map_backend fst (map_backend (\<lambda>b. (b, False)) st) = st" for st :: "'a edge_store"
    using untrack [of st] by (simp add: track_def)
  then have "map_option (map_backend fst) (map_option (map_backend (\<lambda>b. (b, False))) x) = x" for x :: "'a edge_store option"
    by (cases x) simp_all
  then show ?thesis by (simp add: map_server_def)
qed

context secret_store
begin

text \<open>After any POSTs to a server over a fresh backend that failed no write, the backend holds what
  the store needs to be loaded.\<close>

lemma host_history:
  assumes "inv b" "view b kManifestKey = None"
    and "ms_store sv = Some (setClock c (setPersistence ops (Some b) (edge_new mk mv ml)))"
    and "fold (post_step parse print ops) posts (sv, w) = (sv1, w1)" "ms_store sv1 = Some st"
    and "posts_succeed parse print ops posts sv w"
  shows "\<exists>b1. backend st = Some b1 \<and> maxKeys st = mk \<and>
    (\<forall>b2. inv b2 \<longrightarrow> view b2 = view b1 \<longrightarrow>
      smap_find (edata (setPersistence ops (Some b2) (edge_new mk mv ml))) = durable st)"
proof -
  let ?sv = "map_server (\<lambda>b. (b, False)) sv"
  let ?t = "fst (fold (post_step parse print (tracked ops)) posts (?sv, w))"
  have sv1: "sv1 = map_server fst ?t"
    using map_posts [of parse print ops posts ?sv w] assms(4)
    by (cases "fold (post_step parse print (tracked ops)) posts (?sv, w)") (simp add: untrack_server)
  with assms(5) obtain tst where tst: "ms_store ?t = Some tst" "st = map_backend fst tst" by auto
  let ?st = "setClock c (setPersistence (tracked ops) (Some (b, False)) (edge_new mk mv ml))"
  have start: "ms_store ?sv = Some ?st"
    using assms(1,2) by (simp add: assms(3) setPersistence_def get_eq setClock_def edge_new_def map_backend_def)
  have "persisted (\<lambda>b. view (fst b)) (\<lambda>b. inv (fst b)) snd ?st"
    using assms(1,2) by (intro watched_store.persisted_fresh [OF tracked_watched]) simp_all
  moreover have "maxKeys ?st = mk"
    using assms(1,2) by (simp add: setPersistence_def get_eq setClock_def edge_new_def)
  ultimately have "persisted (\<lambda>b. view (fst b)) (\<lambda>b. inv (fst b)) snd ?st \<and> kept_limits mk ?st"
    by (simp add: kept_limits_def persisted_def)
  then have "store_holds (\<lambda>st. persisted (\<lambda>b. view (fst b)) (\<lambda>b. inv (fst b)) snd st \<and> kept_limits mk st) ?sv"
    by (simp only: store_holds_def start option.case)
  from store_kept.posts_kept [OF watched_store.hosted_store [OF tracked_watched] this, of parse print posts w]
  have p: "persisted (\<lambda>b. view (fst b)) (\<lambda>b. inv (fst b)) snd tst" "kept_limits mk tst"
    by (simp_all only: store_holds_def tst(1) option.case)
  then obtain b1 where b1: "backend tst = Some (b1, False)"
    using assms(6) tst(1) by (auto simp: persisted_def posts_succeed_def)
  have "edge_inv tst" "maxKeys tst = mk" using p(2) by (simp_all add: kept_limits_def)
  with tracked_reload [OF p(1) b1, of _ mv ml] durable_entries_facts(2) [of tst] b1
  show ?thesis by (auto simp: tst(2) durable_def fun_eq_iff)
qed

end

section \<open>Properties\<close>

text \<open>C24: what a host stores survives a restart of the device, on any backend that meets the
  contract of the secret store and failed no write since it was fresh.  Hosts have sent any sequence of
  POSTs, authorized or not, and then one that stores a value with \<open>kv_set\<close> and is answered \<open>stored\<close>.
  When the device starts again with a new store over the backend (in any state that stands for the same
  map), a POST that reads the key's URI is answered with that value.  (When a manifest write fails, the
  host is told \<open>stored\<close> and the value is not loaded again: \<open>lost_manifest_write\<close>.)\<close>

theorem host_write_survives_restart:
  assumes "secret_store ops view good" "good b" "view b kManifestKey = None"
    and "ms_store sv = Some (setClock c (setPersistence ops (Some b) (edge_new mk mv ml)))"
    and "fold (post_step parse print ops) posts (sv, w) = (sv1, w1)"
    and "ms_store sv1 = Some st" "ms_storeWrites sv1" "i \<noteq> JNull"
    and "parse b1 = Some (call_request i ''kv_set'' (kv_args k v))"
    and "parse b2 = Some (read_request i (''kv://'' @ k))"
    and "parse (print (kv_args k v)) = Some (kv_args k v)" "print (kv_args k v) \<noteq> []"
    and "c_str k = k" "c_str v = v" "edge_set ops k v st = (Ok, st1)"
    and "posts_succeed parse print ops (posts @ [(b1, True)]) sv w"
  shows "\<exists>sv2 w2 bk. handlePost parse print ops b1 True sv1 w1 =
      (new_reply\<lparr>rp_body := print (JObj (writeToolResult ''stored'' False (rpc_start i)))\<rparr>, sv2, w2) \<and>
    ms_store sv2 = Some st1 \<and> backend st1 = Some bk \<and>
    (\<forall>bk' new c' w'. good bk' \<longrightarrow> view bk' = view bk \<longrightarrow>
       rp_body (fst (handlePost parse print ops b2 True
         (setStore (Some (setClock c' (setPersistence ops (Some bk') (edge_new mk mv ml)))) True new) w')) =
       print (JObj (result_of [(''contents'', JArr [JObj [(''uri'', JStr (''kv://'' @ k)),
         (''mimeType'', JStr ''text/plain''), (''text'', JStr v)]])] (rpc_start i))))"
proof -
  obtain sv2 w2 where post: "handlePost parse print ops b1 True sv1 w1 =
      (new_reply\<lparr>rp_body := print (JObj (writeToolResult ''stored'' False (rpc_start i)))\<rparr>, sv2, w2)"
    "ms_store sv2 = Some st1"
    using post_kv_set [where parse = parse and print = print and sops = ops and w = w1,
      OF assms(6-9,11-15)] by auto
  have "fold (post_step parse print ops) (posts @ [(b1, True)]) (sv, w) = (sv2, w2)"
    using assms(5) post(1) by (simp add: post_step_def)
  from secret_store.host_history [OF assms(1-4) this post(2) assms(16)] obtain bk where
    bk: "backend st1 = Some bk" and load: "\<And>b2. good b2 \<Longrightarrow> view b2 = view bk \<Longrightarrow>
      smap_find (edata (setPersistence ops (Some b2) (edge_new mk mv ml))) = durable st1"
    by blast
  have "store_holds edge_inv sv"
    using watched_store.persisted_fresh [OF secret_store.tracked_watched [OF assms(1)]]
      assms(2,3) by (simp add: store_holds_def assms(4) setPersistence_def secret_store.get_eq [OF assms(1)]
        setClock_def edge_new_def edge_inv_def)
  then have "edge_inv st"
    using bounded.posts_kept [of sv parse print ops posts w] assms(5,6) by (simp add: store_holds_def)
  then have d: "durable st1 k = Some v"
    by (rule edge_set_durable(2) [OF _ assms(15)])
  have "rp_body (fst (handlePost parse print ops b2 True
       (setStore (Some (setClock c' (setPersistence ops (Some bk') (edge_new mk mv ml)))) True new) w')) =
     print (JObj (result_of [(''contents'', JArr [JObj [(''uri'', JStr (''kv://'' @ k)),
       (''mimeType'', JStr ''text/plain''), (''text'', JStr v)]])] (rpc_start i)))"
    if "good bk'" "view bk' = view bk" for bk' new c' w'
  proof -
    note again = load [OF that]
    obtain st2 where g: "edge_get k (setClock c' (setPersistence ops (Some bk') (edge_new mk mv ml))) = (Inr v, st2)"
      using reloaded_get [of ops bk' mk mv ml k v c'] again d by auto
    show ?thesis
      using post_kv_read [where parse = parse and print = print and sops = ops and w = w'
          and sv = "setStore (Some (setClock c' (setPersistence ops (Some bk') (edge_new mk mv ml)))) True new",
          OF _ assms(8) g assms(10,13)]
      by (simp add: setStore_def)
  qed
  note again = this
  show ?thesis
    by (intro exI conjI allI impI) (rule post, rule post, rule bk, rule again)
qed

text \<open>The server of a device with a 64-byte EEPROM.\<close>

definition chip_server :: "((u8 list \<times> u8 list) eeprom_store, nat) mcp_server" where
  "chip_server = setStore (Some (blank_edge buffered_dev True (chip 64))) True (new_server ''dev'' ''1'')"

definition chip_parse :: "string \<Rightarrow> json option" where
  "chip_parse b = Some (if b = ''1'' then call_request (JInt 1) ''kv_set'' (kv_args ''a'' ''1'')
     else if b = ''2'' then read_request (JInt 1) (''kv://'' @ ''a'') else kv_args ''a'' ''1'')"

theorem host_write_survives_restart_witness:
  "\<exists>st1 bk. backend (st1 :: (u8 list \<times> u8 list) eeprom_store edge_store) = Some bk \<and>
     (\<forall>bk' new c' w'. eeprom_inv buffered_dev bk' \<longrightarrow> eeprom_view buffered_dev bk' = eeprom_view buffered_dev bk \<longrightarrow>
       rp_body (fst (handlePost chip_parse (\<lambda>_. ''x'') (eeprom_secret_store buffered_dev True) ''2'' True
         (setStore (Some (setClock c' (setPersistence (eeprom_secret_store buffered_dev True) (Some bk')
           (edge_new 4 16 16)))) True (new :: ((u8 list \<times> u8 list) eeprom_store, nat) mcp_server)) w')) = ''x'')"
proof -
  let ?ops = "eeprom_secret_store buffered_dev True" and ?st = "blank_edge buffered_dev True (chip 64)"
  have chip: "chip_holds buffered_dev 64 [] (chip 64)"
    by (rule chip_blank) (simp add: kHeaderSize_def)
  then have b: "eeprom_inv buffered_dev (chip 64)" "eeprom_view buffered_dev (chip 64) kManifestKey = None"
    by (simp_all add: chip_holds_def eeprom_inv_def view_synced eeprom_entries_def)
  obtain b2 where tset: "edge_set (tracked ?ops) ''a'' ''1'' (track ?st) = (Ok, small_edge [(''a'', ''1'')] (b2, False))"
    by (rule first_value_tracked [OF buffered_dev_laws chip]) simp_all
  define tst where "tst = small_edge [(''a'', ''1'')] (b2, False)"
  note tset = tset [folded tst_def]
  have set: "edge_set ?ops ''a'' ''1'' ?st = (Ok, map_backend fst tst)"
    using map_edge_set [of ?ops "''a''" "''1''" "track ?st"] tset by (simp add: untrack)
  have sv: "ms_store chip_server = Some ?st" "ms_storeWrites chip_server"
    by (simp_all add: chip_server_def setStore_def)
  have parse: "chip_parse ''1'' = Some (call_request (JInt 1) ''kv_set'' (kv_args ''a'' ''1''))"
    "chip_parse ''2'' = Some (read_request (JInt 1) (''kv://'' @ ''a''))"
    "chip_parse ((\<lambda>_. ''x'') (kv_args ''a'' ''1'')) = Some (kv_args ''a'' ''1'')"
    by (simp_all add: chip_parse_def)
  have chars: "c_str ''a'' = ''a''" "c_str ''1'' = ''1''"
    by (simp_all add: c_str_def char_code_def)
  have "ms_store (map_server (\<lambda>b. (b, False)) chip_server) = Some (track ?st)"
    "ms_storeWrites (map_server (\<lambda>b. (b, False)) chip_server)"
    by (simp_all add: sv track_def)
  note post = post_kv_set [where parse = chip_parse and print = "\<lambda>_. ''x''" and w = "0 :: nat",
      OF this _ parse(1,3) _ chars tset]
  have ok: "posts_succeed chip_parse (\<lambda>_. ''x'') ?ops ([] @ [(''1'', True)]) chip_server (0 :: nat)"
    by (simp add: posts_succeed_def post_step_def post tst_def)
  have "fold (post_step chip_parse (\<lambda>_. ''x'') ?ops) [] (chip_server, 0) = (chip_server, 0 :: nat)"
    by simp
  note survives = host_write_survives_restart [where print = "\<lambda>_. ''x''" and parse = chip_parse,
      OF eeprom_is_secret_store [OF buffered_dev_laws] b sv(1) [unfolded blank_edge_def] this
        sv [unfolded blank_edge_def] _ parse _ chars set [unfolded blank_edge_def] ok]
  have "\<exists>sv2 w2 bk. handlePost chip_parse (\<lambda>_. ''x'') ?ops ''1'' True chip_server 0 =
      (new_reply\<lparr>rp_body := ''x''\<rparr>, sv2, w2) \<and>
    ms_store sv2 = Some (map_backend fst tst) \<and> backend (map_backend fst tst) = Some bk \<and>
    (\<forall>bk' (new :: ((u8 list \<times> u8 list) eeprom_store, nat) mcp_server) c' w'.
       eeprom_inv buffered_dev bk' \<longrightarrow> eeprom_view buffered_dev bk' = eeprom_view buffered_dev bk \<longrightarrow>
       rp_body (fst (handlePost chip_parse (\<lambda>_. ''x'') ?ops ''2'' True
         (setStore (Some (setClock c' (setPersistence ?ops (Some bk') (edge_new 4 16 16)))) True new) w')) = ''x'')"
    by (rule survives) simp_all
  then show ?thesis by blast
qed

end
