(* ===== verification/Mcp_Http.thy ===== *)
theory Mcp_Http
  imports Mcp_Safety Http_Types
begin

text \<open>
  The HTTP front end of the MCP server, mcp/McpHttpServer.{h,cpp}.  The client socket and the clock
  are Arduino's; they are a record of operations on a socket state.  Waiting loops are partial
  functions.  \<open>atol\<close> saturates at the ends of a 32-bit \<open>long\<close>, as the boards' C libraries do.
\<close>

section \<open>The socket\<close>

record 'c client_ops =
  cl_millis :: "'c \<Rightarrow> u32 \<times> 'c"
  cl_read :: "'c \<Rightarrow> int \<times> 'c"
  cl_connected :: "'c \<Rightarrow> bool \<times> 'c"
  cl_available :: "'c \<Rightarrow> int \<times> 'c"
  cl_delay :: "u32 \<Rightarrow> 'c \<Rightarrow> 'c"
  cl_print :: "string \<Rightarrow> 'c \<Rightarrow> 'c"
  cl_stop :: "'c \<Rightarrow> 'c"

record mcp_http =
  mh_path :: string
  mh_maxBody :: u32
  mh_readTimeout :: u32
  mh_authFailDelay :: u32

definition new_http :: "string \<Rightarrow> mcp_http" where
  "new_http path =
     \<lparr>mh_path = path, mh_maxBody = 16384, mh_readTimeout = 5000, mh_authFailDelay = 500\<rparr>"

definition setMaxBodyBytes :: "u32 \<Rightarrow> mcp_http \<Rightarrow> mcp_http" where [simp]:
  "setMaxBodyBytes bytes h = h\<lparr>mh_maxBody := bytes\<rparr>"

definition setReadTimeoutMs :: "u32 \<Rightarrow> mcp_http \<Rightarrow> mcp_http" where [simp]:
  "setReadTimeoutMs ms h = h\<lparr>mh_readTimeout := ms\<rparr>"

definition setAuthFailDelayMs :: "u32 \<Rightarrow> mcp_http \<Rightarrow> mcp_http" where [simp]:
  "setAuthFailDelayMs ms h = h\<lparr>mh_authFailDelay := ms\<rparr>"

definition kMaxLineLen :: nat where
  "kMaxLineLen = 2048"

definition statusText :: "int \<Rightarrow> string" where
  "statusText s =
     (if s = 200 then ''OK'' else if s = 202 then ''Accepted'' else if s = 400 then ''Bad Request''
      else if s = 401 then ''Unauthorized'' else if s = 404 then ''Not Found''
      else if s = 405 then ''Method Not Allowed'' else if s = 413 then ''Payload Too Large''
      else ''Error'')"

text \<open>\<open>want\<close> is in lower case.\<close>

fun headerIs :: "string \<Rightarrow> string \<Rightarrow> bool" where
  "headerIs name [] \<longleftrightarrow> name = []"
| "headerIs [] (w # ws) \<longleftrightarrow> False"
| "headerIs (n # ns) (w # ws) \<longleftrightarrow> asciiLower n = w \<and> headerIs ns ws"

text \<open>\<open>!client.connected() && client.available() == 0\<close>.\<close>

definition client_gone :: "'c client_ops \<Rightarrow> 'c \<Rightarrow> bool \<times> 'c" where
  "client_gone cops s =
     (case cl_connected cops s of (up, s1) \<Rightarrow>
        if up then (False, s1) else (case cl_available cops s1 of (n, s2) \<Rightarrow> (n = 0, s2)))"

definition drop_cr :: "string \<Rightarrow> string" where
  "drop_cr l = (if l \<noteq> [] \<and> last l = CR then butlast l else l)"

partial_function (option) readLine ::
  "'c client_ops \<Rightarrow> string \<Rightarrow> u32 \<Rightarrow> u32 \<Rightarrow> 'c \<Rightarrow> (bool \<times> string \<times> 'c) option"
where
  "readLine cops out start timeoutMs s =
     (case cl_millis cops s of (t, s1) \<Rightarrow>
        if timeoutMs < t - start then Some (False, out, s1)
        else
          (case cl_read cops s1 of (c, s2) \<Rightarrow>
             if c < 0 then
               (case client_gone cops s2 of (gone, s3) \<Rightarrow>
                  if gone then Some (False, out, s3)
                  else readLine cops out start timeoutMs (cl_delay cops 1 s3))
             else if c = 10 then Some (True, drop_cr out, s2)
             else
               (let out' = out @ [char_of (nat c)]
                in if kMaxLineLen < length out' then Some (False, out', s2)
                   else readLine cops out' start timeoutMs s2)))"

definition sendResponse ::
  "'c client_ops \<Rightarrow> int \<Rightarrow> string \<Rightarrow> string \<Rightarrow> bool \<Rightarrow> 'c \<Rightarrow> 'c" where
  "sendResponse cops status body session withSession s =
     (let p = cl_print cops;
          s1 = p (''HTTP/1.1 '' @ toDecimal (nat status) @ '' '' @ statusText status @ crlf) s;
          s2 = p (''Content-Type: application/json'' @ crlf) s1;
          s3 = p (''Content-Length: '' @ toDecimal (length body) @ crlf) s2;
          s4 = (if withSession then p (''Mcp-Session-Id: '' @ c_str session @ crlf) s3 else s3);
          s5 = p crlf (p (''Connection: close'' @ crlf) s4)
      in if body \<noteq> [] then p (c_str body) s5 else s5)"

text \<open>C's \<open>isspace\<close>.\<close>

definition c_space :: "char \<Rightarrow> bool" where
  "c_space c \<longleftrightarrow> c = CHR '' '' \<or> 9 \<le> char_code c \<and> char_code c \<le> 13"

definition atol :: "string \<Rightarrow> int" where
  "atol s =
     (let t = dropWhile c_space s;
          neg = (t \<noteq> [] \<and> hd t = CHR ''-'');
          t' = (if t \<noteq> [] \<and> (hd t = CHR ''-'' \<or> hd t = CHR ''+'') then tl t else t);
          n = int (parse_digits 0 (takeWhile is_digit t'))
      in max (- (2 ^ 31)) (min (2 ^ 31 - 1) (if neg then - n else n)))"

text \<open>The header loop: Content-Length and Authorization.\<close>

definition scan_header :: "string \<Rightarrow> int \<times> string \<Rightarrow> int \<times> string" where
  "scan_header line acc =
     (case acc of (contentLength, auth) \<Rightarrow>
        (case str_find_char line (CHR '':'') 0 of
           None \<Rightarrow> (contentLength, auth)
         | Some colon \<Rightarrow>
             (let name = substr line 0 colon;
                  value = dropWhile (\<lambda>c. c = CHR '' '' \<or> c = CHR 0x09) (substr_from line (colon + 1))
              in if headerIs name ''content-length'' then (atol (c_str value), auth)
                 else if headerIs name ''authorization'' then (contentLength, value)
                 else (contentLength, auth))))"

partial_function (option) read_headers ::
  "'c client_ops \<Rightarrow> u32 \<Rightarrow> u32 \<Rightarrow> int \<times> string \<Rightarrow> 'c \<Rightarrow> ((int \<times> string) option \<times> 'c) option"
where
  "read_headers cops start timeoutMs acc s =
     Option.bind (readLine cops [] start timeoutMs s) (\<lambda>(ok, line, s1).
       if \<not> ok then Some (None, s1)
       else if line = [] then Some (Some acc, s1)
       else read_headers cops start timeoutMs (scan_header line acc) s1)"

partial_function (option) read_body ::
  "'c client_ops \<Rightarrow> int \<Rightarrow> string \<Rightarrow> u32 \<Rightarrow> u32 \<Rightarrow> 'c \<Rightarrow> (string \<times> 'c) option"
where
  "read_body cops want body bodyStart timeoutMs s =
     (if int (length body) < want then
        (case cl_millis cops s of (t, s1) \<Rightarrow>
           if timeoutMs < t - bodyStart then Some (body, s1)
           else
             (case cl_read cops s1 of (c, s2) \<Rightarrow>
                if c < 0 then
                  (case client_gone cops s2 of (gone, s3) \<Rightarrow>
                     if gone then Some (body, s3)
                     else read_body cops want body bodyStart timeoutMs (cl_delay cops 1 s3))
                else read_body cops want (body @ [char_of (nat c)]) bodyStart timeoutMs s2))
      else Some (body, s))"

declare readLine.simps [code] read_headers.simps [code] read_body.simps [code]

text \<open>The request line: method and path without its query.\<close>

definition parse_request_line :: "string \<Rightarrow> (string \<times> string) option" where
  "parse_request_line line =
     (case str_find_char line (CHR '' '') 0 of
        None \<Rightarrow> None
      | Some sp1 \<Rightarrow>
          (case str_find_char line (CHR '' '') (sp1 + 1) of
             None \<Rightarrow> None
           | Some sp2 \<Rightarrow>
               (let path = substr line (sp1 + 1) (sp2 - sp1 - 1)
                in Some (substr line 0 sp1,
                     case str_find_char path (CHR ''?'') 0 of
                       None \<Rightarrow> path | Some q \<Rightarrow> substr path 0 q))))"

definition error_body :: "string \<Rightarrow> string" where
  "error_body msg = ''{'' @ [CHR 0x22] @ ''error'' @ [CHR 0x22] @ '':'' @ [CHR 0x22] @ msg @ [CHR 0x22] @ ''}''"

text \<open>What \<open>handle\<close> does with a parsed request.\<close>

definition route ::
  "(string \<Rightarrow> json option) \<Rightarrow> (json \<Rightarrow> string) \<Rightarrow> 's secret_ops \<Rightarrow> 'c client_ops \<Rightarrow> mcp_http \<Rightarrow>
     string \<Rightarrow> string \<Rightarrow> string \<Rightarrow> string \<Rightarrow> ('s, 'w) mcp_server \<Rightarrow> 'w \<Rightarrow> 'c \<Rightarrow>
     ('s, 'w) mcp_server \<times> 'w \<times> 'c" where
  "route parse print sops cops h method path auth body sv w s =
     (if method = ''POST'' \<and> path = mh_path h then
        (case handlePost parse print sops body (checkAuth sv auth) sv w of (rep, sv', w') \<Rightarrow>
           (let s1 = (if rp_status rep = 401 \<and> 0 < mh_authFailDelay h
                      then cl_delay cops (mh_authFailDelay h) s else s)
            in (sv', w', sendResponse cops (rp_status rep) (rp_body rep) (rp_session rep)
                  (rp_setSession rep) s1)))
      else if method = ''GET'' \<and> path = mh_path h then
        (sv, w, sendResponse cops 405 (error_body ''SSE stream not supported'') [] False s)
      else (sv, w, sendResponse cops 404 (error_body ''not found'') [] False s))"

text \<open>\<open>handle\<close>, on the client that \<open>server_.available()\<close> returned.\<close>

definition mcp_handle ::
  "(string \<Rightarrow> json option) \<Rightarrow> (json \<Rightarrow> string) \<Rightarrow> 's secret_ops \<Rightarrow> 'c client_ops \<Rightarrow> mcp_http \<Rightarrow>
     ('s, 'w) mcp_server \<Rightarrow> 'w \<Rightarrow> 'c \<Rightarrow> (('s, 'w) mcp_server \<times> 'w \<times> 'c) option" where
  "mcp_handle parse print sops cops h sv w s0 =
     (case cl_millis cops s0 of (start, s1) \<Rightarrow>
        (case readLine cops [] start (mh_readTimeout h) s1 of
           None \<Rightarrow> None
         | Some (ok, line, s2) \<Rightarrow>
             if \<not> ok then Some (sv, w, cl_stop cops s2)
             else
               (case parse_request_line line of
                  None \<Rightarrow>
                    Some (sv, w, cl_stop cops
                      (sendResponse cops 400 (error_body ''bad request line'') [] False s2))
                | Some (method, path) \<Rightarrow>
                    (case read_headers cops start (mh_readTimeout h) (0, []) s2 of
                       None \<Rightarrow> None
                     | Some (None, s3) \<Rightarrow> Some (sv, w, cl_stop cops s3)
                     | Some (Some (contentLength, auth), s3) \<Rightarrow>
                         if contentLength < 0 \<or> int (unat (mh_maxBody h)) < contentLength then
                           Some (sv, w, cl_stop cops
                             (sendResponse cops 413 (error_body ''body too large'') [] False s3))
                         else
                           (case cl_millis cops s3 of (bodyStart, s4) \<Rightarrow>
                              (case read_body cops contentLength [] bodyStart (mh_readTimeout h) s4 of
                                 None \<Rightarrow> None
                               | Some (body, s5) \<Rightarrow>
                                   (case route parse print sops cops h method path auth body sv w s5 of
                                      (sv', w', s6) \<Rightarrow> Some (sv', w', cl_stop cops s6))))))))"

section \<open>Advertising\<close>

text \<open>\<open>advertise\<close>: the calls made to the core's mDNS responder, where it has one.\<close>

datatype mdns_call = AddService string string u16 | AddServiceTxt string string string string

definition advertise ::
  "bool \<Rightarrow> (string \<Rightarrow> bool) \<Rightarrow> u16 \<Rightarrow> mcp_http \<Rightarrow> string option \<Rightarrow> bool \<times> mdns_call list" where
  "advertise has_mdns mdns_begin port h hostname =
     (if has_mdns then
        (case hostname of
           None \<Rightarrow> (False, [])
         | Some name \<Rightarrow>
             if c_str name = [] then (False, [])
             else if \<not> mdns_begin (c_str name) then (False, [])
             else (True, [AddService ''mcp'' ''tcp'' port,
                          AddServiceTxt ''mcp'' ''tcp'' ''path'' (c_str (mh_path h))]))
      else (False, []))"

end
