(* ===== verification/Mcp_Http_Wire.thy ===== *)
theory Mcp_Http_Wire
  imports Mcp_Http
begin

text \<open>
  What the HTTP front end does with the bytes of a request: on a socket that has the request at
  hand it reads back the method, path, Authorization header and body a client serialized, and
  whatever the socket does, only a processed POST changes the server.
\<close>

section \<open>A socket with its input at hand\<close>

text \<open>\<open>inb\<close> is what is still to read and \<open>outb\<close> what was printed; the clock stands at \<open>t\<close>.\<close>

definition prompt_client :: "'c client_ops \<Rightarrow> ('c \<Rightarrow> string) \<Rightarrow> ('c \<Rightarrow> string) \<Rightarrow> u32 \<Rightarrow> bool" where
  "prompt_client cops inb outb t \<longleftrightarrow>
     (\<forall>s. \<exists>s'. cl_millis cops s = (t, s') \<and> inb s' = inb s \<and> outb s' = outb s) \<and>
     (\<forall>s c cs. inb s = c # cs \<longrightarrow>
        (\<exists>s'. cl_read cops s = (int (char_code c), s') \<and> inb s' = cs \<and> outb s' = outb s)) \<and>
     (\<forall>s x. inb (cl_print cops x s) = inb s \<and> outb (cl_print cops x s) = outb s @ x) \<and>
     (\<forall>s d. inb (cl_delay cops d s) = inb s \<and> outb (cl_delay cops d s) = outb s) \<and>
     (\<forall>s. outb (cl_stop cops s) = outb s)"

lemma promptD:
  assumes "prompt_client cops inb outb t"
  shows "\<exists>s'. cl_millis cops s = (t, s') \<and> inb s' = inb s \<and> outb s' = outb s"
    "inb s = c # cs \<Longrightarrow> \<exists>s'. cl_read cops s = (int (char_code c), s') \<and> inb s' = cs \<and> outb s' = outb s"
    "inb (cl_print cops x s) = inb s" "outb (cl_print cops x s) = outb s @ x"
    "inb (cl_delay cops d s) = inb s" "outb (cl_delay cops d s) = outb s"
    "outb (cl_stop cops s) = outb s"
  using assms unfolding prompt_client_def by blast+

lemma char_code_LF: "char_code c = 10 \<longleftrightarrow> c = LF"
proof -
  have "char_of (10 :: nat) = LF" by code_simp
  moreover have "char_code LF = 10" by (simp add: char_code_def)
  ultimately show ?thesis by (metis char_of_code)
qed

lemma readLine_next:
  assumes "prompt_client cops inb outb t" "inb s = c # cs"
  shows "\<exists>s'. inb s' = cs \<and> outb s' = outb s \<and>
    readLine cops out t T s =
      (if c = LF then Some (True, drop_cr out, s')
       else if kMaxLineLen < length (out @ [c]) then Some (False, out @ [c], s')
       else readLine cops (out @ [c]) t T s')"
proof -
  from promptD(1) [OF assms(1)] obtain s1 where
    1: "cl_millis cops s = (t, s1)" "inb s1 = inb s" "outb s1 = outb s" by blast
  from promptD(2) [OF assms(1), of s1] 1(2) assms(2) obtain s2 where
    2: "cl_read cops s1 = (int (char_code c), s2)" "inb s2 = cs" "outb s2 = outb s1" by auto
  have "readLine cops out t T s =
      (if c = LF then Some (True, drop_cr out, s2)
       else if kMaxLineLen < length (out @ [c]) then Some (False, out @ [c], s2)
       else readLine cops (out @ [c]) t T s2)"
    using 1(1) 2(1) char_code_LF [of c] by (subst readLine.simps) (simp add: Let_def)
  with 1 2 show ?thesis by (intro exI [of _ s2]) simp
qed

lemma readLine_prompt:
  "prompt_client cops inb outb t \<Longrightarrow> inb s = l @ crlf @ rest \<Longrightarrow> LF \<notin> set l \<Longrightarrow>
     length (out @ l) < kMaxLineLen \<Longrightarrow>
     \<exists>s'. readLine cops out t T s = Some (True, out @ l, s') \<and> inb s' = rest \<and> outb s' = outb s"
proof (induction l arbitrary: out s)
  case Nil
  then have i: "inb s = CR # LF # rest" by (simp add: crlf_def)
  from readLine_next [OF Nil.prems(1) i, where out = out and T = T] obtain s1 where
    1: "inb s1 = LF # rest" "outb s1 = outb s"
    "readLine cops out t T s = readLine cops (out @ [CR]) t T s1"
    using Nil.prems(4) by (auto split: if_splits)
  from readLine_next [OF Nil.prems(1) 1(1), where out = "out @ [CR]" and T = T] obtain s2 where
    "inb s2 = rest" "outb s2 = outb s1"
    "readLine cops (out @ [CR]) t T s1 = Some (True, drop_cr (out @ [CR]), s2)"
    by (auto split: if_splits)
  with 1 show ?case by (simp add: drop_cr_def)
next
  case (Cons c l)
  from readLine_next [OF Cons.prems(1), of s c "l @ crlf @ rest" out T] Cons.prems(2) obtain s1 where
    1: "inb s1 = l @ crlf @ rest" "outb s1 = outb s"
    "readLine cops out t T s = readLine cops (out @ [c]) t T s1"
    using Cons.prems(3,4) by (fastforce split: if_splits)
  from Cons.IH [OF Cons.prems(1) 1(1), of "out @ [c]"] Cons.prems(3,4) 1 show ?case by simp
qed

lemma read_headers_prompt:
  "prompt_client cops inb outb t \<Longrightarrow> inb s = wire_lines ls @ crlf @ rest \<Longrightarrow>
     \<forall>l\<in>set ls. clean_line l \<and> length l < kMaxLineLen \<Longrightarrow>
     \<exists>s'. read_headers cops t T acc s = Some (Some (fold scan_header ls acc), s') \<and> inb s' = rest \<and>
       outb s' = outb s"
proof (induction ls arbitrary: acc s)
  case Nil
  from readLine_prompt [OF Nil.prems(1), of s "[]" rest "[]" T] Nil.prems(2)
  show ?case by (auto simp: read_headers.simps [of cops] wire_lines_simps kMaxLineLen_def)
next
  case (Cons l ls)
  have "inb s = l @ crlf @ wire_lines ls @ crlf @ rest" using Cons.prems(2) by (simp add: wire_lines_simps)
  from readLine_prompt [OF Cons.prems(1) this, of "[]" T] Cons.prems(3) obtain s1 where
    1: "readLine cops [] t T s = Some (True, l, s1)" "inb s1 = wire_lines ls @ crlf @ rest"
    "outb s1 = outb s" by (auto simp: clean_line_def)
  from Cons.IH [OF Cons.prems(1) 1(2), of "scan_header l acc"] Cons.prems(3) 1 show ?case
    by (subst read_headers.simps) (auto simp: clean_line_def)
qed

lemma read_body_prompt:
  "prompt_client cops inb outb t \<Longrightarrow> inb s = b @ rest \<Longrightarrow> want = int (length (body @ b)) \<Longrightarrow>
     \<exists>s'. read_body cops want body t T s = Some (body @ b, s') \<and> inb s' = rest \<and> outb s' = outb s"
proof (induction b arbitrary: body s)
  case Nil
  then show ?case by (subst read_body.simps) simp
next
  case (Cons c b)
  from promptD(1) [OF Cons.prems(1)] obtain s1 where
    1: "cl_millis cops s = (t, s1)" "inb s1 = inb s" "outb s1 = outb s" by blast
  from promptD(2) [OF Cons.prems(1), of s1 c "b @ rest"] 1(2) Cons.prems(2) obtain s2 where
    2: "cl_read cops s1 = (int (char_code c), s2)" "inb s2 = b @ rest" "outb s2 = outb s1" by auto
  from Cons.IH [OF Cons.prems(1) 2(2), of "body @ [c]"] Cons.prems(3) obtain s3 where
    "read_body cops want (body @ [c]) t T s2 = Some ((body @ [c]) @ b, s3)" "inb s3 = rest"
    "outb s3 = outb s2" by auto
  with 1 2 Cons.prems(3) show ?case by (subst read_body.simps) simp
qed

section \<open>The header lines a client writes\<close>

lemma scan_header_line:
  assumes "CHR '':'' \<notin> set n" "v = [] \<or> hd v \<noteq> CHR '' '' \<and> hd v \<noteq> CHR 0x09"
  shows "scan_header (n @ '': '' @ v) (cl, auth) =
    (if headerIs n ''content-length'' then (atol (c_str v), auth)
     else if headerIs n ''authorization'' then (cl, v) else (cl, auth))"
proof -
  have "dropWhile (\<lambda>c. c = CHR '' '' \<or> c = CHR 0x09) (CHR '' '' # v) = v"
    using assms(2) by (cases v) auto
  then show ?thesis
    using find_char_idx_append [OF assms(1), of "CHR '' '' # v"]
    by (simp add: scan_header_def str_find_char_def substr_def substr_from_def)
qed

lemma c_str_digits: "c_str (toDecimal n) = toDecimal n"
  using toDecimal_digits [of n] unfolding c_str_def
  by (intro takeWhile_eq_all_conv [THEN iffD2]) (auto simp: is_digit_def)

lemma atol_toDecimal:
  assumes "n < 2 ^ 31"
  shows "atol (toDecimal n) = int n"
proof -
  obtain x xs where d: "toDecimal n = x # xs" by (cases "toDecimal n") simp_all
  have x: "is_digit x" using toDecimal_digits [of n] d by simp
  have "\<not> c_space x" "x \<noteq> CHR ''-''" "x \<noteq> CHR ''+''"
    using x by (auto simp: is_digit_def c_space_def char_code_def)
  then have "dropWhile c_space (toDecimal n) = toDecimal n"
    "hd (toDecimal n) \<noteq> CHR ''-''" "hd (toDecimal n) \<noteq> CHR ''+''" by (simp_all add: d)
  moreover have "parse_digits 0 (takeWhile is_digit (toDecimal n)) = n"
    using takeWhile_eq_all_conv [THEN iffD2, OF toDecimal_digits [of n]] parse_toDecimal [of n]
    by (simp only:)
  ultimately show ?thesis using assms by (simp add: atol_def parse_toDecimal)
qed

section \<open>A client's request, read back\<close>

definition blank_start :: "string \<Rightarrow> bool" where
  "blank_start v \<longleftrightarrow> v \<noteq> [] \<and> (hd v = CHR '' '' \<or> hd v = CHR 0x09)"

text \<open>A POST of \<open>body\<close> to \<open>path\<close> with a bearer token, as a client of this library builds it.\<close>

definition bearer_post :: "string \<Rightarrow> string \<Rightarrow> string \<Rightarrow> string \<Rightarrow> http_request" where
  "bearer_post host path token body =
     empty_request\<lparr>rq_method := ''POST'', rq_host := host, rq_path := path,
       rq_headers := [(''Authorization'', ''Bearer '' @ token)], rq_body := body\<rparr>"

definition plain :: "string \<Rightarrow> bool" where
  "plain s \<longleftrightarrow> CR \<notin> set s \<and> LF \<notin> set s"

lemma strip_plain: "plain s \<Longrightarrow> stripCRLF s = s"
  by (simp add: plain_def stripCRLF_def)

definition post_lines :: "string \<Rightarrow> string \<Rightarrow> string \<Rightarrow> string \<Rightarrow> bool \<Rightarrow> string list" where
  "post_lines host path token body ka =
     [''Host: '' @ host, ''Authorization: Bearer '' @ token,
      ''Content-Length: '' @ toDecimal (length body),
      if ka then ''Connection: keep-alive'' else ''Connection: close'']"

lemma bearer_lines:
  assumes "plain host" "plain path" "plain token" "path \<noteq> []" "body \<noteq> []"
  shows "request_lines (bearer_post host path token body) ka =
    (''POST '' @ path @ '' HTTP/1.1'') # post_lines host path token body ka"
proof -
  have no: "\<not> hasHeader (bearer_post host path token body) n"
    if "\<not> headerNameEquals ''Authorization'' n" for n
    using that by (simp add: hasHeader_def bearer_post_def request_header_def)
  have "\<not> headerNameEquals ''Authorization'' n"
    if "n \<in> {''Host'', ''Content-Length'', ''Transfer-Encoding'', ''Connection''}" for n
    using that by (auto simp: headerNameEquals_def)
  then have "\<not> hasHeader (bearer_post host path token body) n"
    if "n \<in> {''Host'', ''Content-Length'', ''Transfer-Encoding'', ''Connection''}" for n
    using that no by blast
  moreover have "stripCRLF ''POST'' = ''POST''" "stripCRLF ''Authorization'' = ''Authorization''"
    "stripCRLF (''Bearer '' @ token) = ''Bearer '' @ token"
    using assms(3) by (auto intro!: strip_plain simp: plain_def)
  ultimately show ?thesis
    using assms by (simp add: request_lines_def length_line_def post_lines_def strip_plain)
       (simp add: bearer_post_def strip_plain)
qed

lemma scan_post_lines:
  assumes "plain host" "\<not> blank_start host" "length body < 2 ^ 31"
  shows "fold scan_header (post_lines host path token body ka) (0, []) =
    (int (length body), ''Bearer '' @ token)"
proof -
  have low: "headerIs ''Authorization'' ''authorization''" "\<not> headerIs ''Authorization'' ''content-length''"
    "headerIs ''Content-Length'' ''content-length''" "\<not> headerIs ''Host'' ''content-length''"
    "\<not> headerIs ''Host'' ''authorization''" "\<not> headerIs ''Connection'' ''content-length''"
    "\<not> headerIs ''Connection'' ''authorization''"
    by code_simp+
  have host: "scan_header (''Host: '' @ host) acc = acc" for acc
    using scan_header_line [of "''Host''" host "fst acc" "snd acc"] assms(2)
    by (simp add: blank_start_def low del: headerIs.simps)
  have auth: "scan_header (''Authorization: Bearer '' @ token) (n, a) = (n, ''Bearer '' @ token)" for n a
    using scan_header_line [of "''Authorization''" "''Bearer '' @ token" n a] by (simp add: low del: headerIs.simps)
  have dig: "toDecimal n = [] \<or> hd (toDecimal n) \<noteq> CHR '' '' \<and> hd (toDecimal n) \<noteq> CHR 0x09" for n
  proof -
    have "is_digit (hd (toDecimal n))" using toDecimal_digits [of n] by (simp add: hd_in_set)
    then show ?thesis by (auto simp: is_digit_def char_code_def)
  qed
  have len: "scan_header (''Content-Length: '' @ toDecimal (length body)) (n, a) = (int (length body), a)"
    for n a
    using scan_header_line [of "''Content-Length''" "toDecimal (length body)" n a] dig
      atol_toDecimal [OF assms(3)] by (simp add: low c_str_digits del: headerIs.simps)
  have conn: "scan_header (if ka then ''Connection: keep-alive'' else ''Connection: close'') acc = acc"
    for acc
    using scan_header_line [of "''Connection''" "''keep-alive''" "fst acc" "snd acc"]
      scan_header_line [of "''Connection''" "''close''" "fst acc" "snd acc"] by (simp add: low del: headerIs.simps)
  show ?thesis
    unfolding post_lines_def fold.simps comp_def id_def host auth len conn ..
qed

lemma parse_post_line:
  assumes "CHR '' '' \<notin> set path" "CHR ''?'' \<notin> set path"
  shows "parse_request_line (''POST '' @ path @ '' HTTP/1.1'') = Some (''POST'', path)"
proof -
  have "str_find_char (''POST '' @ path @ '' HTTP/1.1'') (CHR '' '') 0 = Some 4"
    by (simp add: str_find_char_def)
  moreover have "str_find_char (''POST '' @ path @ '' HTTP/1.1'') (CHR '' '') 5 = Some (5 + length path)"
    using find_char_idx_append [OF assms(1), of "''HTTP/1.1''"] by (simp add: str_find_char_def)
  moreover have "str_find_char path (CHR ''?'') 0 = None"
    using assms(2) by (simp add: str_find_char_def find_char_idx_None)
  ultimately show ?thesis by (simp add: parse_request_line_def substr_def)
qed

section \<open>The text of an answer\<close>

definition answer_headers :: "string \<Rightarrow> string \<Rightarrow> bool \<Rightarrow> header list" where
  "answer_headers body session withSession =
     [(''Content-Type'', ''application/json''), (''Content-Length'', toDecimal (length body))] @
     (if withSession then [(''Mcp-Session-Id'', c_str session)] else []) @
     [(''Connection'', ''close'')]"

definition answer_text :: "int \<Rightarrow> string \<Rightarrow> string \<Rightarrow> bool \<Rightarrow> string" where
  "answer_text status body session withSession =
     response_head (nat status) (statusText status) (answer_headers body session withSession) @
     crlf @ c_str body"

lemma sendResponse_text:
  assumes "prompt_client cops inb outb t"
  shows "outb (sendResponse cops status body session withSession s) =
    outb s @ answer_text status body session withSession"
proof -
  have "c_str [] = []" by (simp add: c_str_def)
  then show ?thesis
    using promptD(4) [OF assms]
    by (simp add: sendResponse_def answer_text_def Let_def response_head_def answer_headers_def
        status_line_def header_line_def wire_lines_simps)
qed

lemma handle_bearer_post:
  assumes p: "prompt_client cops inb outb t"
    and parts: "plain host" "plain path" "plain token" "path \<noteq> []" "body \<noteq> []" "\<not> blank_start host"
    and path: "CHR '' '' \<notin> set path" "CHR ''?'' \<notin> set path" "path = mh_path h"
    and size: "length body \<le> unat (mh_maxBody h)" "length body < 2 ^ 31"
      "\<forall>l\<in>set (request_lines (bearer_post host path token body) ka). length l < kMaxLineLen"
    and inp: "inb s = serializeRequest (bearer_post host path token body) ka @ rest"
    and reply: "handlePost parse print sops body (checkAuth sv (''Bearer '' @ token)) sv w = (rep, sv', w')"
  shows "\<exists>s'. mcp_handle parse print sops cops h sv w s = Some (sv', w', s') \<and>
    outb s' = outb s @ answer_text (rp_status rep) (rp_body rep) (rp_session rep) (rp_setSession rep)"
proof -
  let ?rl = "''POST '' @ path @ '' HTTP/1.1''" and ?ls = "post_lines host path token body ka"
  note lines = bearer_lines [OF parts(1-5), of ka]
  have b: "rq_body (bearer_post host path token body) = body" by (simp add: bearer_post_def)
  have wire: "inb s = ?rl @ crlf @ wire_lines ?ls @ crlf @ body @ rest"
    using inp unfolding serializeRequest_lines lines b by (simp add: wire_lines_simps)
  have clean: "\<forall>l\<in>set (?rl # ?ls). clean_line l \<and> length l < kMaxLineLen"
    using request_lines_clean [of "bearer_post host path token body" ka] size(3) lines by simp
  from promptD(1) [OF p] obtain s1 where
    1: "cl_millis cops s = (t, s1)" "inb s1 = inb s" "outb s1 = outb s" by blast
  from readLine_prompt [OF p, of s1 ?rl "wire_lines ?ls @ crlf @ body @ rest" "[]" "mh_readTimeout h"]
    1(2) wire clean obtain s2 where
    2: "readLine cops [] t (mh_readTimeout h) s1 = Some (True, ?rl, s2)"
    "inb s2 = wire_lines ?ls @ crlf @ body @ rest" "outb s2 = outb s1"
    by (auto simp: clean_line_def)
  from read_headers_prompt [OF p 2(2), of "mh_readTimeout h" "(0, [])"] clean
    scan_post_lines [OF parts(1,6) size(2), of path token ka] obtain s3 where
    3: "read_headers cops t (mh_readTimeout h) (0, []) s2 =
      Some (Some (int (length body), ''Bearer '' @ token), s3)" "inb s3 = body @ rest" "outb s3 = outb s2"
    by auto
  from promptD(1) [OF p] obtain s4 where
    4: "cl_millis cops s3 = (t, s4)" "inb s4 = inb s3" "outb s4 = outb s3" by blast
  from read_body_prompt [OF p, of s4 body rest "int (length body)" "[]" "mh_readTimeout h"] 3(2) 4(2)
  obtain s5 where
    5: "read_body cops (int (length body)) [] t (mh_readTimeout h) s4 = Some (body, s5)"
    "outb s5 = outb s4" by auto
  let ?s6 = "if rp_status rep = 401 \<and> 0 < mh_authFailDelay h then cl_delay cops (mh_authFailDelay h) s5 else s5"
  let ?s7 = "sendResponse cops (rp_status rep) (rp_body rep) (rp_session rep) (rp_setSession rep) ?s6"
  have "route parse print sops cops h ''POST'' path (''Bearer '' @ token) body sv w s5 = (sv', w', ?s7)"
    using reply path(3) by (simp add: route_def Let_def)
  moreover have "int (length body) \<le> int (unat (mh_maxBody h))" by (simp only: of_nat_le_iff size(1))
  ultimately have "mcp_handle parse print sops cops h sv w s = Some (sv', w', cl_stop cops ?s7)"
    using 1(1) 2(1) 3(1) 4(1) 5(1) parse_post_line [OF path(1,2)]
    by (simp add: mcp_handle_def)
  moreover have "outb ?s6 = outb s" using promptD(6) [OF p] 1 2 3 4 5 by simp
  then have "outb ?s7 = outb s @ answer_text (rp_status rep) (rp_body rep) (rp_session rep)
      (rp_setSession rep)"
    by (simp only: sendResponse_text [OF p])
  ultimately show ?thesis using promptD(7) [OF p] by auto
qed

section \<open>Whatever the socket does\<close>

lemmas read_body_induct = read_body.raw_induct [rotated, consumes 1, case_names step]

lemma read_body_bound:
  "read_body op want body t T s = Some y \<Longrightarrow> op = cops \<longrightarrow>
     length (fst y) \<le> max (length body) (nat want)"
proof (induct rule: read_body_induct)
  case (step rec op want body t T s y)
  show ?case
  proof
    assume op: "op = cops"
    obtain u s1 where 1: "cl_millis op s = (u, s1)" by fastforce
    obtain c s2 where 2: "cl_read op s1 = (c, s2)" by fastforce
    obtain g s3 where 3: "client_gone op s2 = (g, s3)" by fastforce
    note y = step.hyps(2) [unfolded 1 2 3 prod.case]
    show "length (fst y) \<le> max (length body) (nat want)"
    proof (cases "int (length body) < want \<and> \<not> T < u - t")
      case False
      with y show ?thesis by (auto split: if_splits)
    next
      case True
      show ?thesis
      proof (cases "c < 0")
        case neg: True
        with True y step.hyps(1) [of op want body t T] op show ?thesis
          by (fastforce split: if_splits)
      next
        case False
        with True y have "rec op want (body @ [char_of (nat c)]) t T s2 = Some y" by simp
        from step.hyps(1) [OF this] op True show ?thesis by auto
      qed
    qed
  qed
qed

lemma route_changes:
  "route parse print sops cops h method path auth body sv w s = (sv', w', s') \<Longrightarrow>
     sv' = sv \<and> w' = w \<or> method = ''POST'' \<and> path = mh_path h \<and>
       (\<exists>rep. handlePost parse print sops body (checkAuth sv auth) sv w = (rep, sv', w'))"
  by (auto simp: route_def Let_def split: if_splits prod.splits)

lemma unauthorized_changes:
  "handlePost parse print sops body (checkAuth sv auth) sv w = (rep, sv', w') \<Longrightarrow>
     sv' = sv \<and> w' = w \<or> ms_token sv = [] \<or> auth = ''Bearer '' @ ms_token sv"
  by (auto simp: handlePost_eq authRequired_def checkAuth_iff split: if_splits)

lemma first_space:
  assumes "str_find_char s x pos = Some k" "pos \<le> length s"
  shows "pos \<le> k" "s = take pos s @ substr s pos (k - pos) @ x # drop (Suc k) s" "x \<notin> set (substr s pos (k - pos))"
proof -
  obtain j where j: "find_char_idx x (drop pos s) = Some j" and k: "k = pos + j"
    using assms(1) by (auto simp: str_find_char_def)
  note split = find_char_idx_split [OF j]
  have "s = take pos s @ drop pos s" by simp
  also have "drop pos s = take j (drop pos s) @ x # drop (Suc j) (drop pos s)" using split by blast
  finally show "s = take pos s @ substr s pos (k - pos) @ x # drop (Suc k) s"
    by (simp add: k substr_def add.commute)
  show "pos \<le> k" by (simp add: k)
  show "x \<notin> set (substr s pos (k - pos))" using split by (simp add: k substr_def)
qed

text \<open>A request line that is accepted is the method, a space, the path, an optional query and what
  follows the next space.\<close>

lemma request_line_parts:
  assumes "parse_request_line line = Some (m, p)"
  shows "\<exists>query version. line = m @ '' '' @ p @ query @ '' '' @ version \<and>
    (query = [] \<or> hd query = CHR ''?'') \<and> CHR '' '' \<notin> set (m @ p @ query)"
proof -
  obtain sp1 sp2 where sp1: "str_find_char line (CHR '' '') 0 = Some sp1"
    and sp2: "str_find_char line (CHR '' '') (sp1 + 1) = Some sp2"
    using assms by (auto simp: parse_request_line_def split: option.splits)
  let ?target = "substr line (sp1 + 1) (sp2 - sp1 - 1)"
  have "Some (substr line 0 sp1, case str_find_char ?target (CHR ''?'') 0 of
      None \<Rightarrow> ?target | Some q \<Rightarrow> substr ?target 0 q) = Some (m, p)"
    using assms by (simp only: parse_request_line_def sp1 sp2 Let_def option.case)
  then have m: "m = substr line 0 sp1" and p: "p = (case str_find_char ?target (CHR ''?'') 0 of
      None \<Rightarrow> ?target | Some q \<Rightarrow> substr ?target 0 q)"
    by simp_all
  note a = first_space [OF sp1]
  have len: "sp1 + 1 \<le> length line"
    using sp1 by (auto simp: str_find_char_def find_char_idx_Some)
  note b = first_space [OF sp2 len]
  have "take (sp1 + 1) line = m @ '' ''"
  proof -
    have "length m = sp1" using len by (simp add: m substr_def)
    moreover have "line = m @ CHR '' '' # drop (Suc sp1) line" using a(2) by (simp add: m)
    then have "take (sp1 + 1) line = take (sp1 + 1) (m @ CHR '' '' # drop (Suc sp1) line)" by simp
    ultimately show ?thesis by simp
  qed
  with b(2) have line: "line = m @ '' '' @ ?target @ '' '' @ drop (Suc sp2) line" by simp
  have nosp: "CHR '' '' \<notin> set m" "CHR '' '' \<notin> set ?target" using a(3) b(3) m by simp_all
  show ?thesis
  proof (cases "str_find_char ?target (CHR ''?'') 0")
    case None
    with p line nosp show ?thesis by (intro exI [of _ "[]"] exI [of _ "drop (Suc sp2) line"]) simp
  next
    case (Some q)
    note c = first_space [OF Some]
    have t: "?target = p @ CHR ''?'' # drop (Suc q) ?target" using c(2) p Some by simp
    then have "set ?target = set p \<union> set (CHR ''?'' # drop (Suc q) ?target)"
      by (metis set_append)
    with nosp have "CHR '' '' \<notin> set p" "CHR '' '' \<notin> set (CHR ''?'' # drop (Suc q) ?target)" by blast+
    with nosp(1) have "CHR '' '' \<notin> set (m @ p @ (CHR ''?'' # drop (Suc q) ?target))" by auto
    moreover have "line = m @ '' '' @ p @ (CHR ''?'' # drop (Suc q) ?target) @ '' '' @ drop (Suc sp2) line"
      using line t by (metis append.assoc)
    ultimately show ?thesis
      by (intro exI [of _ "CHR ''?'' # drop (Suc q) ?target"] exI [of _ "drop (Suc sp2) line"]) simp
  qed
qed

section \<open>Properties\<close>

text \<open>A client socket with all its input buffered: what is left to read and what was printed.\<close>

definition buffered_ops :: "(string \<times> string) client_ops" where
  "buffered_ops =
     \<lparr>cl_millis = (\<lambda>s. (0, s)),
      cl_read = (\<lambda>(i, q). case i of [] \<Rightarrow> (-1, (i, q)) | c # cs \<Rightarrow> (int (char_code c), (cs, q))),
      cl_connected = (\<lambda>s. (True, s)), cl_available = (\<lambda>(i, q). (int (length i), (i, q))),
      cl_delay = (\<lambda>_ s. s), cl_print = (\<lambda>x (i, q). (i, q @ x)), cl_stop = id\<rparr>"

lemma buffered_prompt: "prompt_client buffered_ops fst snd 0"
  by (auto simp: prompt_client_def buffered_ops_def)

text \<open>C17: the front end and the library's own HTTP client agree on the wire: a POST that the client
  serializes to the endpoint's path, with a bearer token and a body within the limit, is handed to
  the MCP server with exactly that token and body, and the answer is printed as a response head
  with the reply's status and length, followed by the reply.\<close>

theorem bearer_post_is_handled:
  assumes "prompt_client cops inb outb t"
    and "plain host" "plain path" "plain token" "path \<noteq> []" "body \<noteq> []" "\<not> blank_start host"
    and "CHR '' '' \<notin> set path" "CHR ''?'' \<notin> set path" "path = mh_path h"
    and "length body \<le> unat (mh_maxBody h)" "length body < 2 ^ 31"
    and "\<forall>l\<in>set (request_lines (bearer_post host path token body) ka). length l < kMaxLineLen"
    and "inb s = serializeRequest (bearer_post host path token body) ka @ rest"
    and "handlePost parse print sops body (checkAuth sv (''Bearer '' @ token)) sv w = (rep, sv', w')"
  shows "\<exists>s'. mcp_handle parse print sops cops h sv w s = Some (sv', w', s') \<and>
    outb s' = outb s @ answer_text (rp_status rep) (rp_body rep) (rp_session rep) (rp_setSession rep)"
  by (rule handle_bearer_post [OF assms])

definition ping_parse :: "string \<Rightarrow> json option" where
  "ping_parse _ = Some (JObj [(''id'', JInt 1), (''method'', JStr ''ping'')])"

definition token_server :: "(unit, nat) mcp_server" where
  "token_server = (new_server ''dev'' ''1'')\<lparr>ms_token := ''t0k''\<rparr>"

lemma sample_post:
  "\<forall>l\<in>set (request_lines (bearer_post ''d'' ''/mcp'' ''t0k'' ''{}'') False). length l < kMaxLineLen"
  "length ''{}'' \<le> unat (mh_maxBody (new_http ''/mcp''))"
proof -
  have l: "request_lines (bearer_post ''d'' ''/mcp'' ''t0k'' ''{}'') False =
      (''POST '' @ ''/mcp'' @ '' HTTP/1.1'') # post_lines ''d'' ''/mcp'' ''t0k'' ''{}'' False"
    by (rule bearer_lines) (simp_all add: plain_def)
  have "length (toDecimal 2) = 1" by code_simp
  then show "\<forall>l\<in>set (request_lines (bearer_post ''d'' ''/mcp'' ''t0k'' ''{}'') False). length l < kMaxLineLen"
    unfolding l by (simp add: post_lines_def kMaxLineLen_def numeral_2_eq_2)
  show "length ''{}'' \<le> unat (mh_maxBody (new_http ''/mcp''))" by (simp add: new_http_def)
qed

theorem bearer_post_is_handled_witness:
  "\<forall>sops. \<exists>s'. mcp_handle ping_parse (\<lambda>_. ''r'') sops buffered_ops (new_http ''/mcp'') token_server 0
      (serializeRequest (bearer_post ''d'' ''/mcp'' ''t0k'' ''{}'') False, []) = Some (token_server, 0, s') \<and>
    snd s' = answer_text 200 ''r'' [] False" (is "\<forall>sops. ?P sops")
proof
  fix sops :: "unit secret_ops"
  have c: "c_str ''ping'' = ''ping''" by (simp add: c_str_def char_code_def)
  have reply: "handlePost ping_parse (\<lambda>_. ''r'') sops ''{}'' (checkAuth token_server (''Bearer '' @ ''t0k''))
      token_server 0 = (new_reply\<lparr>rp_body := ''r''\<rparr>, token_server, 0)"
    by (simp add: handlePost_eq ping_parse_def checkAuth_iff token_server_def authRequired_def
        processOne_def Let_def c)
  show "?P sops"
    using bearer_post_is_handled [OF buffered_prompt, where h = "new_http ''/mcp''" and host = "''d''"
        and rest = "[]" and s = "(serializeRequest (bearer_post ''d'' ''/mcp'' ''t0k'' ''{}'') False, [])",
        OF _ _ _ _ _ _ _ _ _ sample_post(2) _ sample_post(1) _ reply]
    by (simp add: plain_def blank_start_def new_http_def new_reply_def)
qed

text \<open>C26: whatever bytes arrive and however the socket and the clock behave, the front end changes the
  server or the world only by handing the server one body, and only when the first line read from the
  client is a POST of the configured path (a query is ignored), the headers after it announce a length
  within the body limit and, when a token is set, carry exactly the right Authorization value, and the
  body is what was read after them.\<close>

theorem http_changes_need_a_valid_post:
  assumes "mcp_handle parse print sops cops h sv w s = Some (sv', w', s')"
  shows "sv' = sv \<and> w' = w \<or>
    (\<exists>start s1 line query version s2 n auth s3 bs s4 body s5 rep.
       cl_millis cops s = (start, s1) \<and>
       readLine cops [] start (mh_readTimeout h) s1 = Some (True, line, s2) \<and>
       line = ''POST '' @ mh_path h @ query @ '' '' @ version \<and> (query = [] \<or> hd query = CHR ''?'') \<and>
       CHR '' '' \<notin> set (mh_path h @ query) \<and>
       read_headers cops start (mh_readTimeout h) (0, []) s2 = Some (Some (n, auth), s3) \<and>
       0 \<le> n \<and> n \<le> int (unat (mh_maxBody h)) \<and>
       (ms_token sv = [] \<or> auth = ''Bearer '' @ ms_token sv) \<and>
       cl_millis cops s3 = (bs, s4) \<and>
       read_body cops n [] bs (mh_readTimeout h) s4 = Some (body, s5) \<and> length body \<le> nat n \<and>
       handlePost parse print sops body (checkAuth sv auth) sv w = (rep, sv', w'))"
proof (cases "sv' = sv \<and> w' = w")
  case True
  then show ?thesis by simp
next
  case same: False
  obtain start s1 where 1: "cl_millis cops s = (start, s1)" by fastforce
  obtain ok line s2 where 2: "readLine cops [] start (mh_readTimeout h) s1 = Some (ok, line, s2)" ok
    using assms 1 same by (auto simp: mcp_handle_def split: option.splits if_splits)
  obtain verb path where 3: "parse_request_line line = Some (verb, path)"
    using assms 1 2 same by (auto simp: mcp_handle_def split: option.splits)
  obtain n auth s3 where
    4: "read_headers cops start (mh_readTimeout h) (0, []) s2 = Some (Some (n, auth), s3)"
    using assms 1 2 3 same by (auto simp: mcp_handle_def split: option.splits)
  obtain bs s4 where 5: "cl_millis cops s3 = (bs, s4)" by fastforce
  have fits: "\<not> (n < 0 \<or> int (unat (mh_maxBody h)) < n)"
    using assms 1 2 3 4 same by (auto simp: mcp_handle_def)
  then obtain body s5 where 6: "read_body cops n [] bs (mh_readTimeout h) s4 = Some (body, s5)"
    using assms 1 2 3 4 5 by (auto simp: mcp_handle_def split: option.splits)
  obtain sv2 w2 s6 where
    7: "route parse print sops cops h verb path auth body sv w s5 = (sv2, w2, s6)"
    by (metis prod_cases3)
  with assms 1 2 3 4 5 6 fits have "sv' = sv2" "w' = w2" by (auto simp: mcp_handle_def)
  with route_changes [OF 7] same obtain rep where
    8: "verb = ''POST''" "path = mh_path h" "handlePost parse print sops body (checkAuth sv auth) sv w = (rep, sv', w')"
    by auto
  from request_line_parts [OF 3 [unfolded 8(1,2)]] obtain query version where
    9: "line = ''POST '' @ mh_path h @ query @ '' '' @ version" "query = [] \<or> hd query = CHR ''?''"
      "CHR '' '' \<notin> set (mh_path h @ query)" by auto
  have "length body \<le> nat n" using read_body_bound [OF 6] by simp
  moreover have "ms_token sv = [] \<or> auth = ''Bearer '' @ ms_token sv"
    using unauthorized_changes [OF 8(3)] same by blast
  moreover have "0 \<le> n" "n \<le> int (unat (mh_maxBody h))" using fits by simp_all
  moreover have "readLine cops [] start (mh_readTimeout h) s1 = Some (True, line, s2)" using 2 by simp
  ultimately show ?thesis
    using 1 4 5 6 8(3) 9 by - (rule disjI2, intro exI conjI; assumption)
qed

definition init_parse :: "string \<Rightarrow> json option" where
  "init_parse _ = Some (JObj [(''id'', JInt 1), (''method'', JStr ''initialize'')])"

theorem http_changes_need_a_valid_post_witness:
  "\<forall>sops. \<exists>line query version body auth rep. line = ''POST /mcp'' @ query @ '' '' @ version \<and>
     (query = [] \<or> hd query = CHR ''?'') \<and> auth = ''Bearer t0k'' \<and>
     handlePost init_parse (\<lambda>_. ''r'') sops body (checkAuth token_server auth) token_server 0 =
       (rep, token_server\<lparr>ms_sessions := 1\<rparr>, 0)" (is "\<forall>sops. ?P sops")
proof
  fix sops :: "unit secret_ops"
  have c: "c_str ''initialize'' = ''initialize''" by (simp add: c_str_def char_code_def)
  let ?s = "(serializeRequest (bearer_post ''d'' ''/mcp'' ''t0k'' ''{}'') False, [])"
  obtain rep where reply: "handlePost init_parse (\<lambda>_. ''r'') sops ''{}''
      (checkAuth token_server (''Bearer '' @ ''t0k'')) token_server 0 =
      (rep, token_server\<lparr>ms_sessions := 1\<rparr>, 0)"
    by (simp add: handlePost_eq init_parse_def checkAuth_iff token_server_def authRequired_def
        new_server_def processOne_def mcp_initialize_def Let_def c)
  obtain s' where "mcp_handle init_parse (\<lambda>_. ''r'') sops buffered_ops (new_http ''/mcp'') token_server 0 ?s =
      Some (token_server\<lparr>ms_sessions := 1\<rparr>, 0, s')"
    using handle_bearer_post [OF buffered_prompt, where h = "new_http ''/mcp''" and host = "''d''"
        and rest = "[]" and s = ?s, OF _ _ _ _ _ _ _ _ _ sample_post(2) _ sample_post(1) _ reply]
    by (auto simp: plain_def blank_start_def new_http_def)
  from http_changes_need_a_valid_post [OF this] show "?P sops"
    by (auto simp: token_server_def new_server_def)
qed

end
