(* ===== verification/Llm_Types.thy ===== *)
theory Llm_Types
  imports Tool_Registry Complex_Main
begin

text \<open>
  The value types of the LLM side: messages (llm/Message.h), options and metadata
  (llm/ChatTypes.h), response schemas (llm/ResponseSchema.h), validated results
  (llm/StructuredResult.h) and the usage meter (llm/UsageMeter.h).  A C++ \<open>float\<close> option is its
  exact rational value.
\<close>

section \<open>Messages\<close>

datatype role = System | User | Assistant | Tool

record message =
  ms_role :: role
  ms_content :: string
  ms_imageBase64 :: string
  ms_imageMime :: string
  ms_toolCalls :: "tool_call list"
  ms_toolCallId :: string
  ms_toolName :: string
  ms_isToolError :: bool

definition new_message :: "role \<Rightarrow> string \<Rightarrow> message" where
  "new_message r c =
     \<lparr>ms_role = r, ms_content = c, ms_imageBase64 = [], ms_imageMime = [], ms_toolCalls = [],
      ms_toolCallId = [], ms_toolName = [], ms_isToolError = False\<rparr>"

definition hasImage :: "message \<Rightarrow> bool" where
  "hasImage m \<longleftrightarrow> ms_imageBase64 m \<noteq> []"

definition user_message :: "string \<Rightarrow> message" where
  "user_message c = new_message User c"

definition assistant_message :: "string \<Rightarrow> message" where
  "assistant_message c = new_message Assistant c"

definition userWithImage :: "string \<Rightarrow> string \<Rightarrow> string \<Rightarrow> message" where
  "userWithImage txt imageBase64 mime =
     (new_message User txt)\<lparr>ms_imageBase64 := imageBase64, ms_imageMime := mime\<rparr>"

definition toolResult :: "tool_call \<Rightarrow> tool_result \<Rightarrow> message" where
  "toolResult call result =
     (new_message Tool (tr_content result))\<lparr>ms_toolCallId := tc_id call, ms_toolName := tc_name call,
        ms_isToolError := tr_isError result\<rparr>"

section \<open>Options, metadata, schema\<close>

record chat_options =
  co_model :: string
  co_system :: string
  co_maxTokens :: u32
  co_temperature :: rat
  co_topP :: rat
  co_stopSequences :: "string list"
  co_extraHeaders :: "(string \<times> string) list"

definition new_options :: chat_options where
  "new_options =
     \<lparr>co_model = [], co_system = [], co_maxTokens = 1024, co_temperature = -1, co_topP = -1,
      co_stopSequences = [], co_extraHeaders = []\<rparr>"

definition hasTemperature :: "chat_options \<Rightarrow> bool" where
  "hasTemperature o1 \<longleftrightarrow> 0 \<le> co_temperature o1"

definition hasTopP :: "chat_options \<Rightarrow> bool" where
  "hasTopP o1 \<longleftrightarrow> 0 \<le> co_topP o1"

record chat_result =
  cr_finish :: string
  cr_input :: u32
  cr_output :: u32

definition new_chat_result :: chat_result where
  "new_chat_result = \<lparr>cr_finish = [], cr_input = 0, cr_output = 0\<rparr>"

definition new_turn :: agent_turn where
  "new_turn = \<lparr>at_text = [], at_calls = [], at_finish = [], at_input = 0, at_output = 0\<rparr>"

record response_schema =
  sc_name :: string
  sc_fields :: field_spec

definition schema_field ::
  "string \<Rightarrow> param_type \<Rightarrow> string \<Rightarrow> bool \<Rightarrow> response_schema \<Rightarrow> response_schema" where
  "schema_field name ty description req sc =
     sc\<lparr>sc_fields := field name ty description req (sc_fields sc)\<rparr>"

definition schema_enumField ::
  "string \<Rightarrow> string \<Rightarrow> string list \<Rightarrow> bool \<Rightarrow> response_schema \<Rightarrow> response_schema" where
  "schema_enumField name description allowed req sc =
     sc\<lparr>sc_fields := enumField name description allowed req (sc_fields sc)\<rparr>"

definition schema_objectField ::
  "string \<Rightarrow> string \<Rightarrow> field_spec \<Rightarrow> bool \<Rightarrow> response_schema \<Rightarrow> response_schema" where
  "schema_objectField name description shape req sc =
     sc\<lparr>sc_fields := objectField name description shape req (sc_fields sc)\<rparr>"

definition schema_arrayField ::
  "string \<Rightarrow> string \<Rightarrow> param_type \<Rightarrow> bool \<Rightarrow> response_schema \<Rightarrow> response_schema" where
  "schema_arrayField name description item req sc =
     sc\<lparr>sc_fields := arrayField name description item req (sc_fields sc)\<rparr>"

definition schema_objectArrayField ::
  "string \<Rightarrow> string \<Rightarrow> field_spec \<Rightarrow> bool \<Rightarrow> response_schema \<Rightarrow> response_schema" where
  "schema_objectArrayField name description shape req sc =
     sc\<lparr>sc_fields := objectArrayField name description shape req (sc_fields sc)\<rparr>"

definition strictCompatible :: "response_schema \<Rightarrow> bool" where
  "strictCompatible sc = allFieldsRequired (sc_fields sc)"

definition writeSchema ::
  "response_schema \<Rightarrow> bool \<Rightarrow> (string \<times> json) list \<Rightarrow> (string \<times> json) list" where
  "writeSchema sc addProps out = writeObjectSchema addProps (sc_fields sc) out"

definition schema_validate :: "(string \<Rightarrow> json option) \<Rightarrow> response_schema \<Rightarrow> string \<Rightarrow> status" where
  "schema_validate parse sc txt = validateObject parse (sc_fields sc) txt"

text \<open>A result keeps the validated text and its parsed document.\<close>

record structured_result =
  sr_json :: string
  sr_args :: tool_call_args

definition structuredResult :: "(string \<Rightarrow> json option) \<Rightarrow> string \<Rightarrow> structured_result" where
  "structuredResult parse txt = \<lparr>sr_json = txt, sr_args = toolCallArgs parse txt\<rparr>"

definition sr_has :: "structured_result \<Rightarrow> string \<Rightarrow> bool" where
  "sr_has r key = args_has (sr_args r) key"

definition sr_getString :: "structured_result \<Rightarrow> string \<Rightarrow> string \<Rightarrow> string" where
  "sr_getString r key def = getString (sr_args r) key def"

section \<open>The usage meter\<close>

record usage_meter =
  um_maxRequests :: u32
  um_maxTotalTokens :: u32
  um_requests :: u32
  um_inputTokens :: u32
  um_outputTokens :: u32

definition new_meter :: usage_meter where
  "new_meter =
     \<lparr>um_maxRequests = 0, um_maxTotalTokens = 0, um_requests = 0, um_inputTokens = 0,
      um_outputTokens = 0\<rparr>"

definition setMaxRequests :: "u32 \<Rightarrow> usage_meter \<Rightarrow> usage_meter" where
  "setMaxRequests n u = u\<lparr>um_maxRequests := n\<rparr>"

definition setMaxTotalTokens :: "u32 \<Rightarrow> usage_meter \<Rightarrow> usage_meter" where
  "setMaxTotalTokens n u = u\<lparr>um_maxTotalTokens := n\<rparr>"

definition allowRequest :: "usage_meter \<Rightarrow> bool" where
  "allowRequest u \<longleftrightarrow>
     (if um_maxRequests u \<noteq> 0 \<and> um_maxRequests u \<le> um_requests u then False
      else if um_maxTotalTokens u \<noteq> 0 \<and> um_maxTotalTokens u \<le> um_inputTokens u + um_outputTokens u
      then False else True)"

definition recordRequest :: "usage_meter \<Rightarrow> usage_meter" where
  "recordRequest u = u\<lparr>um_requests := um_requests u + 1\<rparr>"

definition recordTokens :: "u32 \<Rightarrow> u32 \<Rightarrow> usage_meter \<Rightarrow> usage_meter" where
  "recordTokens input output u =
     u\<lparr>um_inputTokens := um_inputTokens u + input, um_outputTokens := um_outputTokens u + output\<rparr>"

definition totalTokens :: "usage_meter \<Rightarrow> u32" where
  "totalTokens u = um_inputTokens u + um_outputTokens u"

definition meter_reset :: "usage_meter \<Rightarrow> usage_meter" where
  "meter_reset u = u\<lparr>um_requests := 0, um_inputTokens := 0, um_outputTokens := 0\<rparr>"

text \<open>The token total is a 32-bit sum: past 2^32 it starts over and the cap is open again.\<close>

lemma token_total_wraps:
  "\<not> allowRequest (recordTokens 0 0x80000000 (setMaxTotalTokens 1000 new_meter)) \<and>
   allowRequest (recordTokens 0x80000000 0x80000000 (setMaxTotalTokens 1000 new_meter))"
  by (simp add: allowRequest_def recordTokens_def setMaxTotalTokens_def new_meter_def)

end
