(* ===== verification/Conversation.thy ===== *)
theory Conversation
  imports Llm_Types "HOL-Library.Sublist"
begin

text \<open>
  The bounded conversation history, llm/Conversation.{h,cpp}: messages are appended and the oldest
  ones dropped while the estimated size is over the budget.
\<close>

definition kPerMessageOverhead :: size_t where
  "kPerMessageOverhead = 16"

record conversation =
  cv_system :: string
  cv_messages :: "message list"
  cv_budget :: size_t

definition new_conversation :: "size_t \<Rightarrow> conversation" where
  "new_conversation budgetBytes = \<lparr>cv_system = [], cv_messages = [], cv_budget = budgetBytes\<rparr>"

fun approx_from :: "size_t \<Rightarrow> message list \<Rightarrow> size_t" where
  "approx_from n [] = n"
| "approx_from n (m # ms) =
     approx_from (n + (word_of_nat (length (ms_content m)) + kPerMessageOverhead)) ms"

definition approxBytes :: "message list \<Rightarrow> size_t" where
  "approxBytes ms = approx_from 0 ms"

fun trim_messages :: "size_t \<Rightarrow> message list \<Rightarrow> message list" where
  "trim_messages b [] = []"
| "trim_messages b (m # ms) =
     (if 1 < length (m # ms) \<and> b < approxBytes (m # ms) then trim_messages b ms else m # ms)"

definition conv_trim :: "conversation \<Rightarrow> conversation" where
  "conv_trim c = c\<lparr>cv_messages := trim_messages (cv_budget c) (cv_messages c)\<rparr>"

definition conv_add :: "message \<Rightarrow> conversation \<Rightarrow> conversation" where
  "conv_add m c = conv_trim (c\<lparr>cv_messages := cv_messages c @ [m]\<rparr>)"

definition addUser :: "string \<Rightarrow> conversation \<Rightarrow> conversation" where
  "addUser s c = conv_add (user_message s) c"

definition addAssistant :: "string \<Rightarrow> conversation \<Rightarrow> conversation" where
  "addAssistant s c = conv_add (assistant_message s) c"

definition setBudget :: "size_t \<Rightarrow> conversation \<Rightarrow> conversation" where
  "setBudget b c = conv_trim (c\<lparr>cv_budget := b\<rparr>)"

definition setSystem :: "string \<Rightarrow> conversation \<Rightarrow> conversation" where
  "setSystem s c = c\<lparr>cv_system := s\<rparr>"

definition conv_clear :: "conversation \<Rightarrow> conversation" where
  "conv_clear c = c\<lparr>cv_messages := []\<rparr>"

section \<open>Sequences of operations\<close>

datatype conv_op = Add message | Budget size_t | Sys string | Clear

fun conv_step :: "conv_op \<Rightarrow> conversation \<Rightarrow> conversation" where
  "conv_step (Add m) c = conv_add m c"
| "conv_step (Budget b) c = setBudget b c"
| "conv_step (Sys s) c = setSystem s c"
| "conv_step Clear c = conv_clear c"

definition conv_run :: "conv_op list \<Rightarrow> conversation \<Rightarrow> conversation" where
  "conv_run xs c = fold conv_step xs c"

text \<open>The specification: the messages added since the last \<open>clear\<close>.\<close>

fun hist_step :: "conv_op \<Rightarrow> message list \<Rightarrow> message list" where
  "hist_step (Add m) h = h @ [m]"
| "hist_step Clear h = []"
| "hist_step _ h = h"

lemma trim_suffix: "suffix (trim_messages b ms) ms"
  by (induction ms) (auto intro: suffix_ConsI)

lemma trim_nonempty: "trim_messages b ms = [] \<longleftrightarrow> ms = []"
  by (induction ms) auto

lemma trim_bounded: "length (trim_messages b ms) \<le> 1 \<or> approxBytes (trim_messages b ms) \<le> b"
  by (induction ms) (auto simp: not_less)

lemma trim_id: "length ms \<le> 1 \<or> approxBytes ms \<le> b \<Longrightarrow> trim_messages b ms = ms"
  by (cases ms) (auto simp: not_less)

definition conv_inv :: "message list \<Rightarrow> conversation \<Rightarrow> bool" where
  "conv_inv h c \<longleftrightarrow>
     suffix (cv_messages c) h \<and> (cv_messages c = [] \<longleftrightarrow> h = []) \<and>
     (length (cv_messages c) \<le> 1 \<or> approxBytes (cv_messages c) \<le> cv_budget c)"

lemma conv_inv_trim:
  "suffix ms h \<Longrightarrow> ms = [] \<longleftrightarrow> h = [] \<Longrightarrow> conv_inv h (conv_trim (c\<lparr>cv_messages := ms\<rparr>))"
  using trim_suffix [of "cv_budget c" ms] trim_bounded [of "cv_budget c" ms]
  by (auto simp: conv_inv_def conv_trim_def trim_nonempty intro: suffix_order.trans)

lemma conv_inv_step: "conv_inv h c \<Longrightarrow> conv_inv (hist_step x h) (conv_step x c)"
proof (cases x)
  case (Add m)
  assume "conv_inv h c"
  then show ?thesis
    unfolding Add conv_step.simps hist_step.simps conv_add_def
    by (intro conv_inv_trim) (auto simp: conv_inv_def suffix_def)
next
  case (Budget b)
  assume i: "conv_inv h c"
  have "conv_inv h (conv_trim ((c\<lparr>cv_budget := b\<rparr>)\<lparr>cv_messages := cv_messages c\<rparr>))"
    by (rule conv_inv_trim) (use i in \<open>auto simp: conv_inv_def\<close>)
  then show ?thesis
    unfolding Budget conv_step.simps hist_step.simps setBudget_def by simp
qed (auto simp: conv_inv_def setSystem_def conv_clear_def)

lemma conv_inv_run: "conv_inv h c \<Longrightarrow> conv_inv (fold hist_step xs h) (conv_run xs c)"
  unfolding conv_run_def by (induction xs arbitrary: h c) (auto intro: conv_inv_step)

text \<open>The trim drops no message it could keep: every longer suffix is over the budget.\<close>

lemma trim_least:
  "trim_messages b ms = drop k ms \<Longrightarrow> k \<le> length ms \<Longrightarrow> j < k \<Longrightarrow>
     b < approxBytes (drop j ms)"
proof (induction ms arbitrary: k j)
  case (Cons m ms)
  obtain k' where k: "k = Suc k'"
    using Cons.prems(3) by (cases k) auto
  have cond: "1 < length (m # ms) \<and> b < approxBytes (m # ms)"
  proof (rule ccontr)
    assume "\<not> ?thesis"
    then have "m # ms = drop k' ms"
      using Cons.prems(1) k by (simp split: if_splits)
    then have "length (m # ms) = length (drop k' ms)"
      by simp
    then show False
      by simp
  qed
  show ?case
  proof (cases j)
    case 0
    then show ?thesis
      using cond by simp
  next
    case (Suc j')
    then show ?thesis
      using Cons.IH [of k' j'] Cons.prems cond k by simp
  qed
qed simp

text \<open>C27: after any sequence of operations on a new conversation, the retained messages are the
  most recent ones of those added since the last \<open>clear\<close>, in order, the last one included; they are
  within the budget unless only one is left; and adding a message drops no message that fits.\<close>

theorem conversation_keeps_recent:
  "conv_inv (fold hist_step xs []) (conv_run xs (new_conversation b)) \<and>
   (\<exists>k. cv_messages (conv_add m (conv_run xs (new_conversation b))) =
        drop k (cv_messages (conv_run xs (new_conversation b)) @ [m]) \<and>
      list_all (\<lambda>j. cv_budget (conv_run xs (new_conversation b)) <
        approxBytes (drop j (cv_messages (conv_run xs (new_conversation b)) @ [m]))) [0..<k])"
proof -
  let ?c = "conv_run xs (new_conversation b)"
  let ?ms = "cv_messages ?c @ [m]"
  obtain p where p: "?ms = p @ trim_messages (cv_budget ?c) ?ms"
    using trim_suffix by (auto simp: suffix_def)
  then have d: "trim_messages (cv_budget ?c) ?ms = drop (length p) ?ms"
    by (metis append_eq_conv_conj)
  have "length p \<le> length ?ms"
    by (subst p) simp
  then have "list_all (\<lambda>j. cv_budget ?c < approxBytes (drop j ?ms)) [0..<length p]"
    using trim_least [OF d] by (simp add: list_all_iff)
  moreover have "conv_inv (fold hist_step xs []) ?c"
    by (rule conv_inv_run) (simp add: conv_inv_def new_conversation_def)
  moreover have "cv_messages (conv_add m ?c) = drop (length p) ?ms"
    using d by (simp add: conv_add_def conv_trim_def)
  ultimately show ?thesis
    by blast
qed

end
