(* ===== verification/Llm_Client.thy ===== *)
theory Llm_Client
  imports Conversation Http_Client
begin

text \<open>
  The LLM client, llm/LLMClient.{h,cpp}: requests with retries and a spend guard, structured
  generation with validation, and the agent loop.  The provider is a record of its virtual
  operations (llm/Provider.h).  A request's \<open>HttpClient\<close> borrows the connection, the logger and the
  clock, so while it lives they are fields of its record, and \<open>release\<close> hands them back.
\<close>

section \<open>The provider interface\<close>

text \<open>Out parameters are passed in and returned.\<close>

record 'w provider =
  pv_name :: string
  pv_secure :: bool
  pv_buildStructured ::
    "message list \<Rightarrow> chat_options \<Rightarrow> response_schema \<Rightarrow> http_request \<Rightarrow> status \<times> http_request"
  pv_parseStructured :: "http_response \<Rightarrow> string \<Rightarrow> chat_result \<Rightarrow> status \<times> string \<times> chat_result"
  pv_supportsTools :: bool
  pv_buildTool ::
    "message list \<Rightarrow> chat_options \<Rightarrow> 'w tool_registry \<Rightarrow> http_request \<Rightarrow> status \<times> http_request"
  pv_parseTool :: "http_response \<Rightarrow> agent_turn \<Rightarrow> status \<times> agent_turn"

text \<open>The defaults of the tool operations.\<close>

definition no_tools :: "'w provider \<Rightarrow> 'w provider" where
  "no_tools p =
     p\<lparr>pv_supportsTools := False, pv_buildTool := \<lambda>_ _ _ out. (NotImplemented, out),
       pv_parseTool := \<lambda>_ out. (NotImplemented, out)\<rparr>"

section \<open>The client\<close>

record retry_policy =
  rp_maxRetries :: u8
  rp_initialBackoffMs :: u32
  rp_maxBackoffMs :: u32
  rp_respectRetryAfter :: bool
  rp_jitter :: bool

definition default_policy :: retry_policy where
  "default_policy =
     \<lparr>rp_maxRetries = 2, rp_initialBackoffMs = 500, rp_maxBackoffMs = 8000,
      rp_respectRetryAfter = True, rp_jitter = True\<rparr>"

record client_metrics =
  mt_requests :: u32
  mt_retries :: u32
  mt_transportErrors :: u32
  mt_httpErrors :: u32
  mt_schemaRetries :: u32
  mt_inputTokens :: u32
  mt_outputTokens :: u32
  mt_lastLatencyMs :: u32
  mt_totalLatencyMs :: u32

definition new_metrics :: client_metrics where
  "new_metrics =
     \<lparr>mt_requests = 0, mt_retries = 0, mt_transportErrors = 0, mt_httpErrors = 0, mt_schemaRetries = 0,
      mt_inputTokens = 0, mt_outputTokens = 0, mt_lastLatencyMs = 0, mt_totalLatencyMs = 0\<rparr>"

text \<open>\<open>lc_delays\<close> is the delay function: \<open>None\<close> when unset, else the waits it was called with.\<close>

record 's llm_client =
  lc_conn :: 's
  lc_log :: "(log_level \<times> string) list option"
  lc_options :: chat_options
  lc_maxIterations :: u8
  lc_clock :: "(nat \<Rightarrow> u32) option"
  lc_ticks :: nat
  lc_delays :: "u32 list option"
  lc_retry :: retry_policy
  lc_meter :: "usage_meter option"
  lc_metrics :: client_metrics
  lc_timeoutMs :: u32
  lc_maxResponseBody :: u32
  lc_jitterState :: u32
  lc_structuredRetries :: u8
  lc_persistentConn :: bool

definition new_llm :: "'s \<Rightarrow> (log_level \<times> string) list option \<Rightarrow> 's llm_client" where
  "new_llm s lg =
     \<lparr>lc_conn = s, lc_log = lg, lc_options = new_options, lc_maxIterations = 6, lc_clock = None,
      lc_ticks = 0, lc_delays = None, lc_retry = default_policy, lc_meter = None,
      lc_metrics = new_metrics, lc_timeoutMs = 20000, lc_maxResponseBody = 32768,
      lc_jitterState = 0x6d2b79f5, lc_structuredRetries = 1, lc_persistentConn = False\<rparr>"

definition llm_setClock :: "(nat \<Rightarrow> u32) option \<Rightarrow> 's llm_client \<Rightarrow> 's llm_client" where [simp]:
  "llm_setClock fn lc = lc\<lparr>lc_clock := fn\<rparr>"

definition llm_setTimeout :: "u32 \<Rightarrow> 's llm_client \<Rightarrow> 's llm_client" where [simp]:
  "llm_setTimeout ms lc = lc\<lparr>lc_timeoutMs := ms\<rparr>"

definition llm_setMaxResponseBody :: "u32 \<Rightarrow> 's llm_client \<Rightarrow> 's llm_client" where [simp]:
  "llm_setMaxResponseBody bytes lc = lc\<lparr>lc_maxResponseBody := bytes\<rparr>"

definition setDelayFn :: "u32 list option \<Rightarrow> 's llm_client \<Rightarrow> 's llm_client" where [simp]:
  "setDelayFn fn lc = lc\<lparr>lc_delays := fn\<rparr>"

text \<open>The references a sketch changes in place: the update is its own.\<close>

definition retryPolicy :: "(retry_policy \<Rightarrow> retry_policy) \<Rightarrow> 's llm_client \<Rightarrow> 's llm_client" where [simp]:
  "retryPolicy f lc = lc\<lparr>lc_retry := f (lc_retry lc)\<rparr>"

definition options :: "(chat_options \<Rightarrow> chat_options) \<Rightarrow> 's llm_client \<Rightarrow> 's llm_client" where [simp]:
  "options f lc = lc\<lparr>lc_options := f (lc_options lc)\<rparr>"

definition agentOptions :: "(u8 \<Rightarrow> u8) \<Rightarrow> 's llm_client \<Rightarrow> 's llm_client" where [simp]:
  "agentOptions f lc = lc\<lparr>lc_maxIterations := f (lc_maxIterations lc)\<rparr>"

definition setUsageMeter :: "usage_meter option \<Rightarrow> 's llm_client \<Rightarrow> 's llm_client" where
  "setUsageMeter meter lc = lc\<lparr>lc_meter := meter\<rparr>"

definition resetMetrics :: "'s llm_client \<Rightarrow> 's llm_client" where
  "resetMetrics lc = lc\<lparr>lc_metrics := new_metrics\<rparr>"

definition setStructuredRetries :: "u8 \<Rightarrow> 's llm_client \<Rightarrow> 's llm_client" where
  "setStructuredRetries retries lc = lc\<lparr>lc_structuredRetries := retries\<rparr>"

definition setPersistentConnection :: "bool \<Rightarrow> 's llm_client \<Rightarrow> 's llm_client" where
  "setPersistentConnection persistent lc = lc\<lparr>lc_persistentConn := persistent\<rparr>"

definition llm_log :: "log_level \<Rightarrow> string \<Rightarrow> 's llm_client \<Rightarrow> 's llm_client" where
  "llm_log lv msg lc = lc\<lparr>lc_log := map_option (\<lambda>l. l @ [(lv, msg)]) (lc_log lc)\<rparr>"

definition configure :: "'s llm_client \<Rightarrow> 's http_client \<Rightarrow> 's http_client" where
  "configure lc h =
     setKeepAlive True (http_setMaxResponseBody (lc_maxResponseBody lc)
       (http_setTimeout (lc_timeoutMs lc) (http_setClock (lc_clock lc) h)))"

definition fresh_http :: "'s llm_client \<Rightarrow> 's http_client" where
  "fresh_http lc = configure lc ((new_client (lc_conn lc) (lc_log lc))\<lparr>hticks := lc_ticks lc\<rparr>)"

definition release :: "'s http_client \<Rightarrow> 's llm_client \<Rightarrow> 's llm_client" where
  "release h lc = lc\<lparr>lc_conn := conn h, lc_log := hlog h, lc_ticks := hticks h\<rparr>"

definition finishRequestCycle :: "'s conn_ops \<Rightarrow> 's llm_client \<Rightarrow> 's llm_client" where
  "finishRequestCycle ops lc =
     (if \<not> lc_persistentConn lc then lc\<lparr>lc_conn := cn_stop ops (lc_conn lc)\<rparr> else lc)"

section \<open>Helpers\<close>

text \<open>A \<open>long\<close> in decimal.\<close>

definition itos :: "int \<Rightarrow> string" where
  "itos v = (if v < 0 then ''-'' else []) @ toDecimal (nat \<bar>v\<bar>)"

definition isTransientTransportError :: "error \<Rightarrow> bool" where
  "isTransientTransportError e \<longleftrightarrow>
     (case e of ConnectFailed \<Rightarrow> True | DnsFailed \<Rightarrow> True | TlsHandshakeFailed \<Rightarrow> True
      | Timeout \<Rightarrow> True | ConnectionClosed \<Rightarrow> True | ReadFailed \<Rightarrow> True | WriteFailed \<Rightarrow> True
      | _ \<Rightarrow> False)"

definition isRetryableStatus :: "int \<Rightarrow> bool" where
  "isRetryableStatus status \<longleftrightarrow>
     status = 429 \<or> status = 500 \<or> status = 502 \<or> status = 503 \<or> status = 504"

fun retry_after_seconds :: "u32 \<Rightarrow> string \<Rightarrow> u32 option" where
  "retry_after_seconds seconds [] = Some seconds"
| "retry_after_seconds seconds (c # cs) =
     (if \<not> is_digit c then None
      else if 4000000 < seconds then None
      else retry_after_seconds (seconds * 10 + word_of_nat (digit_val c)) cs)"

definition parseRetryAfterMs :: "string \<Rightarrow> u32" where
  "parseRetryAfterMs value =
     (case retry_after_seconds 0 value of None \<Rightarrow> 0 | Some seconds \<Rightarrow> seconds * 1000)"

definition extractErrorMessage :: "(string \<Rightarrow> json option) \<Rightarrow> string \<Rightarrow> string" where
  "extractErrorMessage parse body =
     (let cut = (if 200 < length body then substr body 0 200 else body)
      in if body = [] then []
         else
           (case parse body of
              None \<Rightarrow> cut
            | Some doc \<Rightarrow>
                (case cstr_of (obj_get (obj_get doc ''error'') ''message'') of
                   Some m \<Rightarrow> m
                 | None \<Rightarrow>
                     (case cstr_of (obj_get doc ''error'') of
                        Some e \<Rightarrow> e
                      | None \<Rightarrow>
                          (case cstr_of (obj_get doc ''message'') of
                             Some t \<Rightarrow> t | None \<Rightarrow> cut)))))"

definition mapStatus :: "int \<Rightarrow> error" where
  "mapStatus httpStatus =
     (if httpStatus = 400 then InvalidArgument
      else if httpStatus = 401 then Unauthorized
      else if httpStatus = 403 then Forbidden
      else if httpStatus = 404 then NotFound
      else if httpStatus = 429 then RateLimited
      else ProviderError)"

section \<open>Waiting\<close>

text \<open>The busy wait; \<open>None\<close> when the clock never gets there.\<close>

partial_function (option) spin :: "u32 \<Rightarrow> u32 \<Rightarrow> 's http_client \<Rightarrow> 's http_client option" where
  "spin start ms h =
     (case now h of (t, h1) \<Rightarrow> if t - start < ms then spin start ms h1 else Some h1)"

declare spin.simps [code]

definition llm_wait ::
  "u32 \<Rightarrow> 's http_client \<Rightarrow> 's llm_client \<Rightarrow> ('s http_client \<times> 's llm_client) option" where
  "llm_wait ms h lc =
     (if ms = 0 then Some (h, lc)
      else
        (case lc_delays lc of
           Some ds \<Rightarrow> Some (h, lc\<lparr>lc_delays := Some (ds @ [ms])\<rparr>)
         | None \<Rightarrow>
             if hclock h = None then Some (h, lc)
             else
               (case now h of (start, h1) \<Rightarrow>
                  (case spin start ms h1 of None \<Rightarrow> None | Some h2 \<Rightarrow> Some (h2, lc)))))"

text \<open>The doubling loop of \<open>backoffFor\<close>, \<open>n\<close> rounds at most.\<close>

fun double_backoff :: "nat \<Rightarrow> u32 \<Rightarrow> u32 \<Rightarrow> u32" where
  "double_backoff 0 cap backoff = backoff"
| "double_backoff (Suc n) cap backoff =
     (if backoff < cap then double_backoff n cap (backoff * 2) else backoff)"

definition server_wait :: "retry_policy \<Rightarrow> http_response \<Rightarrow> bool \<Rightarrow> u32" where
  "server_wait p resp haveResponse =
     (if haveResponse \<and> rp_respectRetryAfter p then
        (case response_header resp ''Retry-After'' of
           None \<Rightarrow> 0 | Some ra \<Rightarrow> parseRetryAfterMs ra)
      else 0)"

definition backoffFor ::
  "u8 \<Rightarrow> http_response \<Rightarrow> bool \<Rightarrow> 's llm_client \<Rightarrow> u32 \<times> 's llm_client" where
  "backoffFor attempt resp haveResponse lc =
     (let p = lc_retry lc; ms = server_wait p resp haveResponse
      in if 0 < ms then (if ms < rp_maxBackoffMs p then ms else rp_maxBackoffMs p, lc)
         else
           (let b = double_backoff (unat attempt) (rp_maxBackoffMs p) (rp_initialBackoffMs p);
                backoff = (if rp_maxBackoffMs p < b then rp_maxBackoffMs p else b)
            in if rp_jitter p \<and> 1 < backoff then
                 (let js = lc_jitterState lc * 1664525 + 1013904223;
                      half = backoff div 2
                  in (half + js mod (backoff - half + 1), lc\<lparr>lc_jitterState := js\<rparr>))
               else (backoff, lc)))"

section \<open>Sending with retries\<close>

definition meter_allows :: "'s llm_client \<Rightarrow> bool" where
  "meter_allows lc \<longleftrightarrow> (case lc_meter lc of None \<Rightarrow> True | Some u \<Rightarrow> allowRequest u)"

definition upd_metrics :: "(client_metrics \<Rightarrow> client_metrics) \<Rightarrow> 's llm_client \<Rightarrow> 's llm_client" where
  "upd_metrics f lc = lc\<lparr>lc_metrics := f (lc_metrics lc)\<rparr>"

text \<open>After \<open>http.send\<close>: the meter, the request counter and the latency.\<close>

definition count_request ::
  "u32 \<Rightarrow> 's http_client \<Rightarrow> 's llm_client \<Rightarrow> 's http_client \<times> 's llm_client" where
  "count_request sentAt h lc =
     (let lc1 = upd_metrics (\<lambda>m. m\<lparr>mt_requests := mt_requests m + 1\<rparr>)
                  (lc\<lparr>lc_meter := map_option recordRequest (lc_meter lc)\<rparr>)
      in if hclock h \<noteq> None then
           (case now h of (t, h1) \<Rightarrow>
              (h1, upd_metrics (\<lambda>m. m\<lparr>mt_lastLatencyMs := t - sentAt,
                                      mt_totalLatencyMs := mt_totalLatencyMs m + (t - sentAt)\<rparr>) lc1))
         else (h, lc1))"

definition count_http_error :: "'s llm_client \<Rightarrow> 's llm_client" where
  "count_http_error = upd_metrics (\<lambda>m. m\<lparr>mt_httpErrors := mt_httpErrors m + 1\<rparr>)"

definition count_transport_error :: "'s llm_client \<Rightarrow> 's llm_client" where
  "count_transport_error = upd_metrics (\<lambda>m. m\<lparr>mt_transportErrors := mt_transportErrors m + 1\<rparr>)"

definition count_retry :: "'s llm_client \<Rightarrow> 's llm_client" where
  "count_retry = upd_metrics (\<lambda>m. m\<lparr>mt_retries := mt_retries m + 1\<rparr>)"

definition is_retryable :: "status \<Rightarrow> http_response \<Rightarrow> bool" where
  "is_retryable s resp \<longleftrightarrow>
     (if s \<noteq> Ok then isTransientTransportError s else isRetryableStatus (rs_status resp))"

definition retry_message :: "string \<Rightarrow> status \<Rightarrow> http_response \<Rightarrow> u32 \<Rightarrow> string" where
  "retry_message name s resp backoff =
     name @ '' transient failure ('' @
     (if s = Ok then ''http '' @ itos (rs_status resp) else errorString s) @
     ''), retrying in '' @ itos (sint backoff) @ '' ms''"

text \<open>One round of the loop that is not the last: count, back off, log and wait.\<close>

definition back_off ::
  "string \<Rightarrow> u8 \<Rightarrow> status \<Rightarrow> http_response \<Rightarrow> 's http_client \<Rightarrow> 's llm_client \<Rightarrow>
     ('s http_client \<times> 's llm_client) option" where
  "back_off name attempt s resp h lc =
     (case backoffFor attempt resp (s = Ok) (count_retry lc) of (backoff, lc1) \<Rightarrow>
        llm_wait backoff (http_log LvWarn (retry_message name s resp backoff) h) lc1)"

lemma unat_inc: "a < b \<Longrightarrow> unat (a + 1) = Suc (unat a)" for a b :: "'a::len word"
proof -
  assume "a < b"
  then have "1 + a \<noteq> 0"
    by (metis add.commute add_diff_cancel_right' diff_0 not_less word_n1_ge)
  then show ?thesis
    by (metis add.commute unatSuc)
qed

function sendWithRetry ::
  "'s conn_ops \<Rightarrow> string \<Rightarrow> http_request \<Rightarrow> retry_policy \<Rightarrow> u8 \<Rightarrow> http_response \<Rightarrow>
     's http_client \<Rightarrow> 's llm_client \<Rightarrow>
     (status \<times> http_response \<times> 's http_client \<times> 's llm_client) option"
where
  "sendWithRetry ops name req p attempt resp h lc =
     (if \<not> meter_allows lc then
        Some (BudgetExceeded, resp,
          http_log LvWarn ''usage budget exhausted; refusing request'' h, lc)
      else
        (case now h of (sentAt, h1) \<Rightarrow>
           (case send ops req empty_response h1 of
              None \<Rightarrow> None
            | Some (s, resp1, h2) \<Rightarrow>
                (case count_request sentAt h2 lc of (h3, lc1) \<Rightarrow>
                   if s = Ok \<and> \<not> isRetryableStatus (rs_status resp1) then
                     Some (Ok, resp1, h3, if \<not> isSuccess resp1 then count_http_error lc1 else lc1)
                   else if \<not> is_retryable s resp1 \<or> rp_maxRetries p \<le> attempt then
                     Some (s, resp1, h3,
                       if s \<noteq> Ok then count_transport_error lc1 else count_http_error lc1)
                   else
                     (case back_off name attempt s resp1 h3 lc1 of
                        None \<Rightarrow> None
                      | Some (h4, lc2) \<Rightarrow>
                          sendWithRetry ops name req p (attempt + 1) resp1 h4 lc2)))))"
  by pat_completeness auto
termination
  by (relation "measure (\<lambda>(ops, name, req, p, attempt, resp, h, lc). unat (rp_maxRetries p) - unat attempt)")
    (auto simp: not_le unat_inc word_less_nat_alt)

declare sendWithRetry.simps [simp del]

section \<open>Structured generation\<close>

definition with_extra_headers :: "(string \<times> string) list \<Rightarrow> http_request \<Rightarrow> http_request" where
  "with_extra_headers hs req = fold (\<lambda>h r. setHeader r (fst h) (snd h)) hs req"

definition record_usage :: "u32 \<Rightarrow> u32 \<Rightarrow> 's llm_client \<Rightarrow> 's llm_client" where
  "record_usage input output lc =
     (upd_metrics (\<lambda>m. m\<lparr>mt_inputTokens := mt_inputTokens m + input,
                         mt_outputTokens := mt_outputTokens m + output\<rparr>) lc)
       \<lparr>lc_meter := map_option (recordTokens input output) (lc_meter lc)\<rparr>"

definition count_schema_retry :: "'s llm_client \<Rightarrow> 's llm_client" where
  "count_schema_retry = upd_metrics (\<lambda>m. m\<lparr>mt_schemaRetries := mt_schemaRetries m + 1\<rparr>)"

definition http_failure_message :: "(string \<Rightarrow> json option) \<Rightarrow> string \<Rightarrow> http_response \<Rightarrow> string" where
  "http_failure_message parse name resp =
     name @ '' http '' @ itos (rs_status resp) @ '': '' @ extractErrorMessage parse (rs_body resp)"

text \<open>One request of a cycle: a fresh \<open>HttpClient\<close> on the borrowed connection.\<close>

definition round_trip ::
  "'s conn_ops \<Rightarrow> string \<Rightarrow> http_request \<Rightarrow> 's llm_client \<Rightarrow>
     (status \<times> http_response \<times> 's llm_client) option" where
  "round_trip ops name req lc =
     (case sendWithRetry ops name req (lc_retry lc) 0 empty_response (fresh_http lc) lc of
        None \<Rightarrow> None
      | Some (s, resp, h, lc1) \<Rightarrow> Some (s, resp, release h lc1))"

text \<open>The loop of \<open>doGenerate\<close> with \<open>left\<close> attempts to go.\<close>

fun generate_loop ::
  "(string \<Rightarrow> json option) \<Rightarrow> 's conn_ops \<Rightarrow> 'w provider \<Rightarrow> response_schema \<Rightarrow> message list \<Rightarrow>
     chat_options \<Rightarrow> nat \<Rightarrow> error \<Rightarrow> 's llm_client \<Rightarrow>
     (structured_result result \<times> 's llm_client) option"
where
  "generate_loop parse ops pv schema messages opts 0 lastError lc = Some (Inl lastError, lc)"
| "generate_loop parse ops pv schema messages opts (Suc left) lastError lc =
     (case pv_buildStructured pv messages opts schema empty_request of (bs, req0) \<Rightarrow>
        if bs \<noteq> Ok then Some (Inl bs, lc)
        else
          (case round_trip ops (pv_name pv) (with_extra_headers (co_extraHeaders opts) req0) lc of
             None \<Rightarrow> None
           | Some (s, resp, lc1) \<Rightarrow>
               if s \<noteq> Ok then
                 Some (Inl s, llm_log LvWarn (pv_name pv @ '' request failed: '' @ errorString s) lc1)
               else if \<not> isSuccess resp then
                 Some (Inl (mapStatus (rs_status resp)),
                   llm_log LvWarn (http_failure_message parse (pv_name pv) resp) lc1)
               else
                 (case pv_parseStructured pv resp [] new_chat_result of (ps, txt, meta) \<Rightarrow>
                    if ps \<noteq> Ok then
                      generate_loop parse ops pv schema messages opts left ps
                        (if 0 < left then count_schema_retry lc1 else lc1)
                    else
                      (let lc2 = record_usage (cr_input meta) (cr_output meta) lc1
                       in if schema_validate parse schema txt = Ok then
                            Some (Inr (structuredResult parse txt), lc2)
                          else
                            generate_loop parse ops pv schema messages opts left
                              SchemaValidationFailed
                              (llm_log LvWarn
                                 (pv_name pv @ '' output failed schema validation; retrying if attempts remain'')
                                 (if 0 < left then count_schema_retry lc2 else lc2))))))"

definition doGenerate ::
  "(string \<Rightarrow> json option) \<Rightarrow> 's conn_ops \<Rightarrow> 'w provider \<Rightarrow> response_schema \<Rightarrow> message list \<Rightarrow>
     chat_options \<Rightarrow> 's llm_client \<Rightarrow> (structured_result result \<times> 's llm_client) option" where
  "doGenerate parse ops pv schema messages opts lc =
     generate_loop parse ops pv schema messages opts (unat (lc_structuredRetries lc) + 1)
       SchemaValidationFailed lc"

definition finish_cycle ::
  "'s conn_ops \<Rightarrow> ('r \<times> 's llm_client) option \<Rightarrow> ('r \<times> 's llm_client) option" where
  "finish_cycle ops r = map_option (\<lambda>(x, lc). (x, finishRequestCycle ops lc)) r"

definition with_system :: "string \<Rightarrow> chat_options \<Rightarrow> chat_options" where
  "with_system sys opts = (if sys \<noteq> [] then opts\<lparr>co_system := sys\<rparr> else opts)"

definition generate_user ::
  "(string \<Rightarrow> json option) \<Rightarrow> 's conn_ops \<Rightarrow> 'w provider \<Rightarrow> response_schema \<Rightarrow> string \<Rightarrow> string \<Rightarrow>
     's llm_client \<Rightarrow> (structured_result result \<times> 's llm_client) option" where
  "generate_user parse ops pv schema sys user lc =
     finish_cycle ops (doGenerate parse ops pv schema [user_message user]
       (with_system sys (lc_options lc)) lc)"

definition generate_image ::
  "(string \<Rightarrow> json option) \<Rightarrow> 's conn_ops \<Rightarrow> 'w provider \<Rightarrow> response_schema \<Rightarrow> string \<Rightarrow> string \<Rightarrow>
     string \<Rightarrow> string \<Rightarrow> 's llm_client \<Rightarrow> (structured_result result \<times> 's llm_client) option" where
  "generate_image parse ops pv schema sys user imageBase64 imageMime lc =
     finish_cycle ops (doGenerate parse ops pv schema [userWithImage user imageBase64 imageMime]
       (with_system sys (lc_options lc)) lc)"

definition generate ::
  "(string \<Rightarrow> json option) \<Rightarrow> 's conn_ops \<Rightarrow> 'w provider \<Rightarrow> response_schema \<Rightarrow> message list \<Rightarrow>
     's llm_client \<Rightarrow> (structured_result result \<times> 's llm_client) option" where
  "generate parse ops pv schema messages lc =
     finish_cycle ops (doGenerate parse ops pv schema messages (lc_options lc) lc)"

definition generate_convo ::
  "(string \<Rightarrow> json option) \<Rightarrow> 's conn_ops \<Rightarrow> 'w provider \<Rightarrow> response_schema \<Rightarrow> conversation \<Rightarrow>
     's llm_client \<Rightarrow> (structured_result result \<times> conversation \<times> 's llm_client) option" where
  "generate_convo parse ops pv schema convo lc =
     (case finish_cycle ops (doGenerate parse ops pv schema (cv_messages convo)
             (with_system (cv_system convo) (lc_options lc)) lc) of
        None \<Rightarrow> None
      | Some (r, lc1) \<Rightarrow>
          Some (r, (case r of Inr res \<Rightarrow> addAssistant (sr_json res) convo | Inl _ \<Rightarrow> convo), lc1))"

section \<open>The agent loop\<close>

definition flatten_message :: "message \<Rightarrow> message" where
  "flatten_message m =
     (if ms_role m = Tool then
        user_message (''[tool '' @ ms_toolName m @ '' result] '' @ ms_content m)
      else if ms_role m = Assistant \<and> ms_toolCalls m \<noteq> [] then
        assistant_message (if ms_content m = [] then ''(requested tools)'' else ms_content m)
      else m)"

definition flattenForStructured :: "message list \<Rightarrow> message list" where
  "flattenForStructured working = map flatten_message working"

definition failed_dispatch :: "string \<Rightarrow> error \<Rightarrow> tool_result" where
  "failed_dispatch name e =
     tool_error (''tool '' @ [CHR 0x27] @ name @ [CHR 0x27] @ '' failed: '' @ errorString e)"

text \<open>The calls of one turn, in order.\<close>

fun run_calls ::
  "(string \<Rightarrow> json option) \<Rightarrow> 'w tool_registry \<Rightarrow> tool_call list \<Rightarrow> message list \<Rightarrow> 'w \<Rightarrow>
     's llm_client \<Rightarrow> message list \<times> 'w \<times> 's llm_client"
where
  "run_calls parse tools [] working w lc = (working, w, lc)"
| "run_calls parse tools (call # calls) working w lc =
     (case dispatch parse tools (tc_name call) (tc_arguments call) w of (dr, w1) \<Rightarrow>
        (let tr = (case dr of Inr r \<Rightarrow> r | Inl e \<Rightarrow> failed_dispatch (tc_name call) e);
             lc1 = llm_log LvInfo
               (''tool '' @ tc_name call @ (if tr_isError tr then '' -> error'' else '' -> ok'')) lc
         in run_calls parse tools calls (working @ [toolResult call tr]) w1 lc1))"

text \<open>The loop with \<open>left\<close> iterations to go: an error, or \<open>settled\<close> with the transcript.\<close>

fun agent_loop ::
  "(string \<Rightarrow> json option) \<Rightarrow> 's conn_ops \<Rightarrow> 'w provider \<Rightarrow> 'w tool_registry \<Rightarrow> nat \<Rightarrow>
     message list \<Rightarrow> 'w \<Rightarrow> 's llm_client \<Rightarrow>
     ((error + bool \<times> message list) \<times> 'w \<times> 's llm_client) option"
where
  "agent_loop parse ops pv tools 0 working w lc = Some (Inr (False, working), w, lc)"
| "agent_loop parse ops pv tools (Suc left) working w lc =
     (case pv_buildTool pv working (lc_options lc) tools empty_request of (bs, req0) \<Rightarrow>
        if bs \<noteq> Ok then Some (Inl bs, w, lc)
        else
          (case round_trip ops (pv_name pv)
                  (with_extra_headers (co_extraHeaders (lc_options lc)) req0) lc of
             None \<Rightarrow> None
           | Some (s, resp, lc1) \<Rightarrow>
               if s \<noteq> Ok then Some (Inl s, w, lc1)
               else if \<not> isSuccess resp then
                 Some (Inl (mapStatus (rs_status resp)), w,
                   llm_log LvWarn (http_failure_message parse (pv_name pv) resp) lc1)
               else
                 (case pv_parseTool pv resp new_turn of (ps, turn) \<Rightarrow>
                    if ps \<noteq> Ok then Some (Inl ps, w, lc1)
                    else
                      (let lc2 = record_usage (at_input turn) (at_output turn) lc1
                       in if \<not> wantsTools turn then Some (Inr (True, working), w, lc2)
                          else
                            (case run_calls parse tools (at_calls turn)
                                    (working @ [(assistant_message (at_text turn))
                                                  \<lparr>ms_toolCalls := at_calls turn\<rparr>]) w lc2 of
                               (working', w', lc3) \<Rightarrow>
                                 agent_loop parse ops pv tools left working' w' lc3)))))"

definition runImpl ::
  "(string \<Rightarrow> json option) \<Rightarrow> 's conn_ops \<Rightarrow> 'w provider \<Rightarrow> response_schema \<Rightarrow> message list \<Rightarrow>
     'w tool_registry \<Rightarrow> 'w \<Rightarrow> 's llm_client \<Rightarrow>
     (structured_result result \<times> 'w \<times> 's llm_client) option" where
  "runImpl parse ops pv schema messages tools w lc =
     (if \<not> pv_supportsTools pv then
        Some (Inl NotImplemented, w,
          llm_log LvWarn (pv_name pv @ '' does not support tool calling'') lc)
      else
        (case agent_loop parse ops pv tools (unat (lc_maxIterations lc)) messages w lc of
           None \<Rightarrow> None
         | Some (Inl e, w1, lc1) \<Rightarrow> Some (Inl e, w1, lc1)
         | Some (Inr (settled, working), w1, lc1) \<Rightarrow>
             if \<not> settled then
               Some (Inl ToolIterationLimit, w1,
                 llm_log LvWarn ''agent loop reached max iterations'' lc1)
             else
               (case doGenerate parse ops pv schema (flattenForStructured working)
                       (lc_options lc1) lc1 of
                  None \<Rightarrow> None
                | Some (r, lc2) \<Rightarrow> Some (r, w1, lc2))))"

definition llm_run ::
  "(string \<Rightarrow> json option) \<Rightarrow> 's conn_ops \<Rightarrow> 'w provider \<Rightarrow> response_schema \<Rightarrow> message list \<Rightarrow>
     'w tool_registry \<Rightarrow> 'w \<Rightarrow> 's llm_client \<Rightarrow>
     (structured_result result \<times> 'w \<times> 's llm_client) option" where
  "llm_run parse ops pv schema messages tools w lc =
     (case runImpl parse ops pv schema messages tools w lc of
        None \<Rightarrow> None | Some (r, w1, lc1) \<Rightarrow> Some (r, w1, finishRequestCycle ops lc1))"

definition run_prompt ::
  "(string \<Rightarrow> json option) \<Rightarrow> 's conn_ops \<Rightarrow> 'w provider \<Rightarrow> response_schema \<Rightarrow> string \<Rightarrow>
     'w tool_registry \<Rightarrow> 'w \<Rightarrow> 's llm_client \<Rightarrow>
     (structured_result result \<times> 'w \<times> 's llm_client) option" where
  "run_prompt parse ops pv schema prompt tools w lc =
     llm_run parse ops pv schema [user_message prompt] tools w lc"

section \<open>A Retry-After that wraps\<close>

text \<open>4294968 seconds, about 50 days, is read as 704 milliseconds: the guard on the digits admits
  values whose product with 1000 leaves 32 bits.\<close>

lemma retry_after_wraps: "parseRetryAfterMs ''4294968'' = 704"
  by code_simp

end
