(* ===== verification/Llm_Safety.thy ===== *)
theory Llm_Safety
  imports Llm_Client Fake_Connection
begin

text \<open>
  What the LLM client guarantees whatever the provider, the connection and the clock do.  Locale
  \<open>client_relation\<close> lifts a relation between client states from the primitive updates of the client
  to its public calls; each safety property is an interpretation.
\<close>

section \<open>Backoff\<close>

lemma jitter_bounded:
  fixes b js :: u32
  shows "b div 2 + js mod (b - b div 2 + 1) \<le> b"
proof (cases "b = 0")
  case False
  let ?h = "b div 2" and ?n = "b - b div 2 + 1"
  have h: "unat ?h = unat b div 2"
    by (simp add: unat_div)
  have d: "unat (b - ?h) = unat b - unat b div 2"
    using h by (simp add: unat_sub word_le_nat_alt)
  have "unat b < 2 ^ LENGTH(32)"
    by (rule unsigned_less)
  then have lt: "unat b < 2 ^ 32"
    by simp
  have n: "unat ?n = unat b - unat b div 2 + 1"
    using d lt False by (subst unat_plus_if_size) (auto simp: word_size unat_gt_0)
  have "unat (js mod ?n) \<le> unat b - unat b div 2"
    using n mod_less_divisor [of "unat ?n" "unat js"] by (simp add: unat_mod)
  then have "unat (?h + js mod ?n) \<le> unat b"
    using h lt by (subst unat_plus_if_size) (auto simp: word_size)
  then show ?thesis
    by (simp add: word_le_nat_alt)
qed simp

lemma backoff_bounded:
  assumes "backoffFor attempt resp have lc = (ms, lc')"
  shows "ms \<le> rp_maxBackoffMs (lc_retry lc)" "\<exists>j. lc' = lc\<lparr>lc_jitterState := j\<rparr>"
proof -
  define cap where "cap = rp_maxBackoffMs (lc_retry lc)"
  define sw where "sw = server_wait (lc_retry lc) resp have"
  define b0 where "b0 = double_backoff (unat attempt) cap (rp_initialBackoffMs (lc_retry lc))"
  define b where "b = (if cap < b0 then cap else b0)"
  define js where "js = lc_jitterState lc * 1664525 + 1013904223"
  have b: "b \<le> cap"
    by (auto simp: b_def not_less)
  have eq: "backoffFor attempt resp have lc =
      (if 0 < sw then (if sw < cap then sw else cap, lc)
       else if rp_jitter (lc_retry lc) \<and> 1 < b
         then (b div 2 + js mod (b - b div 2 + 1), lc\<lparr>lc_jitterState := js\<rparr>)
       else (b, lc))"
    unfolding backoffFor_def Let_def b_def b0_def cap_def sw_def js_def ..
  have same: "\<exists>j. lc = lc\<lparr>lc_jitterState := j\<rparr>"
    by (rule exI [of _ "lc_jitterState lc"]) simp
  show "ms \<le> rp_maxBackoffMs (lc_retry lc)"
    using assms b jitter_bounded [of b js] unfolding eq cap_def [symmetric]
    by (auto split: if_splits)
  show "\<exists>j. lc' = lc\<lparr>lc_jitterState := j\<rparr>"
    using assms same unfolding eq by (auto split: if_splits)
qed

section \<open>The runs of the retry loop\<close>

text \<open>The four ways a round of \<open>sendWithRetry\<close> goes, as an induction rule.\<close>

lemma sendWithRetry_induct [consumes 1, case_names refused final stop again]:
  assumes run: "sendWithRetry ops name req p attempt resp h lc = Some (s, resp', h', lc')"
    and refused: "\<And>attempt resp lc. \<not> meter_allows lc \<Longrightarrow> P attempt lc BudgetExceeded resp lc"
    and final: "\<And>attempt resp lc sentAt h h' lc1 lc2. meter_allows lc \<Longrightarrow>
      count_request sentAt h lc = (h', lc1) \<Longrightarrow> \<not> isRetryableStatus (rs_status resp) \<Longrightarrow>
      lc2 = lc1 \<or> lc2 = count_http_error lc1 \<Longrightarrow> P attempt lc Ok resp lc2"
    and stop: "\<And>attempt s resp lc sentAt h h' lc1 lc2. meter_allows lc \<Longrightarrow>
      count_request sentAt h lc = (h', lc1) \<Longrightarrow>
      \<not> is_retryable s resp \<or> rp_maxRetries p \<le> attempt \<Longrightarrow>
      s = Ok \<longrightarrow> isRetryableStatus (rs_status resp) \<Longrightarrow>
      lc2 = count_transport_error lc1 \<or> lc2 = count_http_error lc1 \<Longrightarrow> P attempt lc s resp lc2"
    and again: "\<And>attempt lc sentAt h h' lc1 e resp1 h4 lc2 s resp' lc'. meter_allows lc \<Longrightarrow>
      count_request sentAt h lc = (h', lc1) \<Longrightarrow> attempt < rp_maxRetries p \<Longrightarrow>
      back_off name attempt e resp1 h' lc1 = Some (h4, lc2) \<Longrightarrow>
      P (attempt + 1) lc2 s resp' lc' \<Longrightarrow> P attempt lc s resp' lc'"
  shows "P attempt lc s resp' lc'"
  using run
proof (induction "unat (rp_maxRetries p) - unat attempt" arbitrary: attempt resp h lc
    rule: less_induct)
  case less
  note step = sendWithRetry.simps [of ops name req p attempt resp h lc]
  show ?case
  proof (cases "meter_allows lc")
    case False
    then show ?thesis
      using less(2) refused by (simp add: step)
  next
    case True
    obtain sentAt h1 where n: "now h = (sentAt, h1)"
      by fastforce
    obtain e resp1 h2 where d: "send ops req empty_response h1 = Some (e, resp1, h2)"
      using less(2) True n by (cases "send ops req empty_response h1") (auto simp: step)
    obtain h3 lc1 where c: "count_request sentAt h2 lc = (h3, lc1)"
      by fastforce
    consider (final) "e = Ok \<and> \<not> isRetryableStatus (rs_status resp1)"
      | (stop) "\<not> (e = Ok \<and> \<not> isRetryableStatus (rs_status resp1))"
          "\<not> is_retryable e resp1 \<or> rp_maxRetries p \<le> attempt"
      | (again) "\<not> (e = Ok \<and> \<not> isRetryableStatus (rs_status resp1))"
          "is_retryable e resp1" "\<not> rp_maxRetries p \<le> attempt"
      by blast
    then show ?thesis
    proof cases
      case final
      then show ?thesis
        using less(2) True n d c assms(3) [OF True c] by (auto simp: step split: if_splits)
    next
      case stop
      then show ?thesis
        using less(2) True n d c assms(4) [OF True c stop(2)]
        by (simp add: step) (auto split: if_splits)
    next
      case again
      then obtain h4 lc2 where b: "back_off name attempt e resp1 h3 lc1 = Some (h4, lc2)"
        and more: "sendWithRetry ops name req p (attempt + 1) resp1 h4 lc2 = Some (s, resp', h', lc')"
        using less(2) True n d c
        by (cases "back_off name attempt e resp1 h3 lc1") (auto simp: step)
      have "P (attempt + 1) lc2 s resp' lc'"
        by (rule less(1) [OF _ more])
          (use again(3) in \<open>simp add: not_le unat_inc word_less_nat_alt\<close>)
      then show ?thesis
        by (rule assms(5) [OF True c again(3) [unfolded not_le] b])
    qed
  qed
qed

section \<open>Public calls\<close>

inductive client_call ::
  "(string \<Rightarrow> json option) \<Rightarrow> 's conn_ops \<Rightarrow> 'w provider \<Rightarrow> response_schema \<Rightarrow> 's llm_client \<Rightarrow>
     structured_result result \<Rightarrow> 's llm_client \<Rightarrow> bool"
  for parse ops pv
where
  call_user: "generate_user parse ops pv schema sys user lc = Some (r, lc') \<Longrightarrow>
    client_call parse ops pv schema lc r lc'"
| call_image: "generate_image parse ops pv schema sys user img mime lc = Some (r, lc') \<Longrightarrow>
    client_call parse ops pv schema lc r lc'"
| call_messages: "generate parse ops pv schema messages lc = Some (r, lc') \<Longrightarrow>
    client_call parse ops pv schema lc r lc'"
| call_convo: "generate_convo parse ops pv schema convo lc = Some (r, convo', lc') \<Longrightarrow>
    client_call parse ops pv schema lc r lc'"
| call_run: "llm_run parse ops pv schema messages tools w lc = Some (r, w', lc') \<Longrightarrow>
    client_call parse ops pv schema lc r lc'"
| call_prompt: "run_prompt parse ops pv schema prompt tools w lc = Some (r, w', lc') \<Longrightarrow>
    client_call parse ops pv schema lc r lc'"

definition client_step ::
  "(string \<Rightarrow> json option) \<Rightarrow> 's conn_ops \<Rightarrow> 'w provider \<Rightarrow> 's llm_client \<Rightarrow> 's llm_client \<Rightarrow> bool"
where
  "client_step parse ops pv lc lc' \<longleftrightarrow> (\<exists>schema r. client_call parse ops pv schema lc r lc')"

text \<open>What the owner of the client may configure between two calls, the meter and the counters apart.\<close>

inductive config_step :: "'s llm_client \<Rightarrow> 's llm_client \<Rightarrow> bool" where
  set_clock: "config_step lc (llm_setClock fn lc)"
| set_timeout: "config_step lc (llm_setTimeout ms lc)"
| set_max_body: "config_step lc (llm_setMaxResponseBody bytes lc)"
| set_delay: "config_step lc (setDelayFn d lc)"
| set_retry: "config_step lc (retryPolicy f lc)"
| set_options: "config_step lc (options g lc)"
| set_iterations: "config_step lc (agentOptions i lc)"
| set_structured: "config_step lc (setStructuredRetries n lc)"
| set_persistent: "config_step lc (setPersistentConnection p lc)"

definition session_step ::
  "(string \<Rightarrow> json option) \<Rightarrow> 's conn_ops \<Rightarrow> 'w provider \<Rightarrow> 's llm_client \<Rightarrow> 's llm_client \<Rightarrow> bool"
where
  "session_step parse ops pv lc lc' \<longleftrightarrow> client_step parse ops pv lc lc' \<or> config_step lc lc'"

section \<open>Lifting a relation to the calls\<close>

locale client_relation =
  fixes R :: "'s llm_client \<Rightarrow> 's llm_client \<Rightarrow> bool"
  assumes R_refl: "R lc lc"
    and R_trans: "R a b \<Longrightarrow> R b c \<Longrightarrow> R a c"
    and R_request: "meter_allows lc \<Longrightarrow>
      R lc (upd_metrics (\<lambda>m. m\<lparr>mt_requests := mt_requests m + 1\<rparr>)
        (lc\<lparr>lc_meter := map_option recordRequest (lc_meter lc)\<rparr>))"
    and R_tokens: "R lc (lc\<lparr>lc_meter := map_option (recordTokens i k) (lc_meter lc)\<rparr>)"
    and R_metrics: "mt_requests m = mt_requests (lc_metrics lc) \<Longrightarrow> R lc (lc\<lparr>lc_metrics := m\<rparr>)"
    and R_jitter: "R lc (lc\<lparr>lc_jitterState := j\<rparr>)"
    and R_delay: "lc_delays lc = Some ds \<Longrightarrow> ms \<le> rp_maxBackoffMs (lc_retry lc) \<Longrightarrow>
      R lc (lc\<lparr>lc_delays := Some (ds @ [ms])\<rparr>)"
    and R_shared: "R lc (lc\<lparr>lc_conn := s, lc_log := l, lc_ticks := n\<rparr>)"
begin

lemma R_upd_metrics: "(\<And>m. mt_requests (f m) = mt_requests m) \<Longrightarrow> R lc (upd_metrics f lc)"
  unfolding upd_metrics_def by (rule R_metrics)

lemma R_counts:
  "R lc (count_http_error lc)" "R lc (count_transport_error lc)" "R lc (count_retry lc)"
  "R lc (count_schema_retry lc)"
  unfolding count_http_error_def count_transport_error_def count_retry_def count_schema_retry_def
  by (rule R_upd_metrics, simp)+

lemma R_log: "R lc (llm_log lv msg lc)"
  using R_shared [of lc "lc_ticks lc" "map_option (\<lambda>l. l @ [(lv, msg)]) (lc_log lc)" "lc_conn lc"]
  by (simp add: llm_log_def)

lemma R_release: "R lc (release h lc)"
  unfolding release_def by (rule R_shared)

lemma R_finish: "R lc (finishRequestCycle ops lc)"
  using R_shared [of lc "lc_ticks lc" "lc_log lc" "cn_stop ops (lc_conn lc)"] R_refl
  by (simp add: finishRequestCycle_def)

lemma R_count_request:
  assumes "meter_allows lc" "count_request t h lc = (h', lc')"
  shows "R lc lc'"
  using assms
  by (auto simp: count_request_def Let_def split: if_splits prod.splits
      intro: R_request R_trans [OF R_request R_upd_metrics])

lemma R_usage: "R lc (record_usage i k lc)"
proof -
  let ?f = "\<lambda>m. m\<lparr>mt_inputTokens := mt_inputTokens m + i, mt_outputTokens := mt_outputTokens m + k\<rparr>"
  have "record_usage i k lc =
      (upd_metrics ?f lc)\<lparr>lc_meter := map_option (recordTokens i k) (lc_meter (upd_metrics ?f lc))\<rparr>"
    by (simp add: record_usage_def upd_metrics_def)
  then show ?thesis
    using R_trans [OF R_upd_metrics R_tokens, of ?f lc i k] by simp
qed

lemma R_wait:
  assumes "llm_wait ms h lc = Some (h', lc')" "ms \<le> rp_maxBackoffMs (lc_retry lc)"
  shows "R lc lc'"
  using assms R_delay R_refl
  by (auto simp: llm_wait_def split: if_splits option.splits prod.splits)

lemma R_back_off:
  assumes "back_off name attempt s resp h lc = Some (h', lc')"
  shows "R lc lc'"
proof -
  obtain ms lc1 where b: "backoffFor attempt resp (s = Ok) (count_retry lc) = (ms, lc1)"
    by fastforce
  obtain j where j: "lc1 = (count_retry lc)\<lparr>lc_jitterState := j\<rparr>"
    using backoff_bounded(2) [OF b] by blast
  have w: "llm_wait ms (http_log LvWarn (retry_message name s resp ms) h) lc1 = Some (h', lc')"
    using assms b by (simp add: back_off_def)
  have "R lc1 lc'"
    by (rule R_wait [OF w]) (use backoff_bounded(1) [OF b] j in simp)
  moreover have "R lc lc1"
    unfolding j by (rule R_trans [OF R_counts(3) R_jitter])
  ultimately show ?thesis
    by (rule R_trans [rotated])
qed

lemma R_sendWithRetry:
  assumes "sendWithRetry ops name req p attempt resp h lc = Some (s, resp', h', lc')"
  shows "R lc lc'"
  using assms
proof (induction rule: sendWithRetry_induct)
  case (refused attempt resp lc)
  show ?case
    by (rule R_refl)
next
  case (final attempt resp lc sentAt h h' lc1 lc2)
  then show ?case
    using R_trans [OF R_count_request R_counts(1)] R_count_request by blast
next
  case (stop attempt s resp lc sentAt h h' lc1 lc2)
  then show ?case
    using R_trans [OF R_count_request R_counts(1)] R_trans [OF R_count_request R_counts(2)] by blast
next
  case (again attempt lc sentAt h h' lc1 e resp1 h4 lc2 s resp' lc')
  show ?case
    by (rule R_trans [OF R_trans [OF R_count_request [OF again(1,2)] R_back_off [OF again(4)]] again(5)])
qed

lemma R_round_trip: "round_trip ops name req lc = Some (s, resp, lc') \<Longrightarrow> R lc lc'"
  using R_trans [OF R_sendWithRetry R_release]
  by (auto simp: round_trip_def split: option.splits)

lemma R_generate_loop:
  "generate_loop parse ops pv schema messages opts left e lc = Some (r, lc') \<Longrightarrow> R lc lc'"
proof (induction left arbitrary: e lc)
  case 0
  then show ?case
    by (simp add: R_refl)
next
  case (Suc left)
  obtain bs req0 where b: "pv_buildStructured pv messages opts schema empty_request = (bs, req0)"
    by fastforce
  show ?case
  proof (cases "bs = Ok")
    case False
    then show ?thesis
      using Suc.prems b by (simp add: R_refl)
  next
    case True
    obtain s resp lc1 where t: "round_trip ops (pv_name pv)
        (with_extra_headers (co_extraHeaders opts) req0) lc = Some (s, resp, lc1)"
      using Suc.prems b True
      by (cases "round_trip ops (pv_name pv) (with_extra_headers (co_extraHeaders opts) req0) lc") auto
    obtain ps out meta where p: "pv_parseStructured pv resp [] new_chat_result = (ps, out, meta)"
      using prod_cases3 by blast
    let ?lc2 = "record_usage (cr_input meta) (cr_output meta) lc1"
    let ?m = "pv_name pv @ '' output failed schema validation; retrying if attempts remain''"
    have r1: "R lc lc1"
      by (rule R_round_trip [OF t])
    have r2: "R lc ?lc2"
      by (rule R_trans [OF r1 R_usage])
    have r3: "R lc (if 0 < left then count_schema_retry lc1 else lc1)"
      using r1 R_trans [OF r1 R_counts(4)] by simp
    have r4: "R lc (llm_log LvWarn ?m (if 0 < left then count_schema_retry ?lc2 else ?lc2))"
      using R_trans [OF r2 R_log] R_trans [OF R_trans [OF r2 R_counts(4)] R_log] by simp
    show ?thesis
      using Suc.prems b True t p R_trans [OF r1 R_log] r2 R_trans [OF r3 Suc.IH] R_trans [OF r4 Suc.IH]
      by (auto simp: Let_def split: if_splits)
  qed
qed

lemma R_doGenerate:
  "doGenerate parse ops pv schema messages opts lc = Some (r, lc') \<Longrightarrow> R lc lc'"
  unfolding doGenerate_def by (rule R_generate_loop)

lemma R_finish_cycle:
  assumes "finish_cycle ops x = Some (r, lc')" "\<And>r lc1. x = Some (r, lc1) \<Longrightarrow> R lc lc1"
  shows "R lc lc'"
  using assms R_trans [OF _ R_finish] by (cases x) (auto simp: finish_cycle_def)

lemma R_generate: "generate parse ops pv schema messages lc = Some (r, lc') \<Longrightarrow> R lc lc'"
  unfolding generate_def by (erule R_finish_cycle) (rule R_doGenerate)

lemma R_generate_user: "generate_user parse ops pv schema sys txt lc = Some (r, lc') \<Longrightarrow> R lc lc'"
  unfolding generate_user_def by (erule R_finish_cycle) (rule R_doGenerate)

lemma R_generate_image:
  "generate_image parse ops pv schema sys txt img mime lc = Some (r, lc') \<Longrightarrow> R lc lc'"
  unfolding generate_image_def by (erule R_finish_cycle) (rule R_doGenerate)

lemma R_generate_convo:
  assumes "generate_convo parse ops pv schema convo lc = Some (r, convo', lc')"
  shows "R lc lc'"
proof -
  obtain r where "finish_cycle ops (doGenerate parse ops pv schema (cv_messages convo)
      (with_system (cv_system convo) (lc_options lc)) lc) = Some (r, lc')"
    using assms by (auto simp: generate_convo_def split: option.splits)
  then show ?thesis
    by (rule R_finish_cycle) (rule R_doGenerate)
qed

lemma R_run_calls: "run_calls parse tools calls working w lc = (working', w', lc') \<Longrightarrow> R lc lc'"
proof (induction calls arbitrary: working w lc)
  case (Cons call calls)
  obtain dr w1 where d: "dispatch parse tools (tc_name call) (tc_arguments call) w = (dr, w1)"
    by fastforce
  show ?case
    using Cons.prems by (auto simp: d Let_def intro: R_trans [OF R_log Cons.IH])
qed (simp add: R_refl)

lemma R_agent_loop:
  "agent_loop parse ops pv tools left working w lc = Some (r, w', lc') \<Longrightarrow> R lc lc'"
proof (induction left arbitrary: working w lc)
  case 0
  then show ?case
    by (simp add: R_refl)
next
  case (Suc left)
  obtain bs req0 where b: "pv_buildTool pv working (lc_options lc) tools empty_request = (bs, req0)"
    by fastforce
  show ?case
  proof (cases "bs = Ok")
    case False
    then show ?thesis
      using Suc.prems b by (simp add: R_refl)
  next
    case True
    let ?req = "with_extra_headers (co_extraHeaders (lc_options lc)) req0"
    obtain s resp lc1 where t: "round_trip ops (pv_name pv) ?req lc = Some (s, resp, lc1)"
      using Suc.prems b True by (cases "round_trip ops (pv_name pv) ?req lc") auto
    obtain ps turn where p: "pv_parseTool pv resp new_turn = (ps, turn)"
      by fastforce
    let ?lc2 = "record_usage (at_input turn) (at_output turn) lc1"
    let ?a = "(assistant_message (at_text turn))\<lparr>ms_toolCalls := at_calls turn\<rparr>"
    obtain wk w1 lc3 where c: "run_calls parse tools (at_calls turn) (working @ [?a]) w ?lc2 = (wk, w1, lc3)"
      using prod_cases3 by blast
    have r1: "R lc lc1"
      by (rule R_round_trip [OF t])
    have r2: "R lc ?lc2"
      by (rule R_trans [OF r1 R_usage])
    have r3: "R lc lc3"
      by (rule R_trans [OF r2 R_run_calls [OF c]])
    show ?thesis
      using Suc.prems b True t p c r1 R_trans [OF r1 R_log] r2 R_trans [OF r3 Suc.IH]
      by (auto simp: Let_def split: if_splits)
  qed
qed

lemma R_runImpl: "runImpl parse ops pv schema messages tools w lc = Some (r, w', lc') \<Longrightarrow> R lc lc'"
  using R_agent_loop R_trans [OF R_agent_loop R_log] R_trans [OF R_agent_loop R_doGenerate] R_log
  by (auto simp: runImpl_def split: if_splits option.splits sum.splits prod.splits)

lemma R_llm_run:
  assumes "llm_run parse ops pv schema messages tools w lc = Some (r, w', lc')"
  shows "R lc lc'"
  using assms R_trans [OF R_runImpl R_finish] by (auto simp: llm_run_def split: option.splits)

lemma R_call: "client_call parse ops pv schema lc r lc' \<Longrightarrow> R lc lc'"
  by (induction rule: client_call.induct)
    (auto simp: run_prompt_def
      intro: R_generate_user R_generate_image R_generate R_generate_convo R_llm_run)

lemma R_calls: "(client_step parse ops pv)\<^sup>*\<^sup>* lc lc' \<Longrightarrow> R lc lc'"
  by (induction rule: rtranclp_induct) (auto simp: client_step_def intro: R_refl R_trans R_call)

text \<open>A relation the configuration does not break holds along a session.\<close>

lemma R_session:
  assumes "(session_step parse ops pv)\<^sup>*\<^sup>* lc lc'" "\<And>a b. config_step a b \<Longrightarrow> R a b"
  shows "R lc lc'"
  using assms(1)
  by (induction rule: rtranclp_induct)
    (auto simp: session_step_def client_step_def intro: R_refl R_trans R_call assms(2))

end

section \<open>The relations\<close>

text \<open>The configuration stays as it was.\<close>

definition same_config :: "'s llm_client \<Rightarrow> 's llm_client \<Rightarrow> bool" where
  "same_config lc lc' \<longleftrightarrow>
     lc_options lc' = lc_options lc \<and> lc_retry lc' = lc_retry lc \<and>
     lc_maxIterations lc' = lc_maxIterations lc \<and>
     lc_maxResponseBody lc' = lc_maxResponseBody lc \<and>
     lc_structuredRetries lc' = lc_structuredRetries lc \<and> lc_clock lc' = lc_clock lc \<and>
     (lc_delays lc' = None \<longleftrightarrow> lc_delays lc = None)"

definition budget_kept :: "'s llm_client \<Rightarrow> 's llm_client \<Rightarrow> bool" where
  "budget_kept lc lc' \<longleftrightarrow>
     (case lc_meter lc of
        None \<Rightarrow> lc_meter lc' = None
      | Some u \<Rightarrow>
          (\<exists>u'. lc_meter lc' = Some u' \<and> um_maxRequests u' = um_maxRequests u \<and>
             um_maxTotalTokens u' = um_maxTotalTokens u \<and>
             (um_maxRequests u \<noteq> 0 \<and> um_requests u \<le> um_maxRequests u \<longrightarrow>
                um_requests u \<le> um_requests u' \<and> um_requests u' \<le> um_maxRequests u)))"

text \<open>The meter and the metrics count the same requests.\<close>

definition counts_agree :: "'s llm_client \<Rightarrow> 's llm_client \<Rightarrow> bool" where
  "counts_agree lc lc' \<longleftrightarrow>
     (case (lc_meter lc, lc_meter lc') of
        (Some u, Some u') \<Rightarrow>
          um_requests u' - um_requests u =
            mt_requests (lc_metrics lc') - mt_requests (lc_metrics lc)
      | (None, None) \<Rightarrow> True | _ \<Rightarrow> False)"

definition waits_capped :: "'s llm_client \<Rightarrow> 's llm_client \<Rightarrow> bool" where
  "waits_capped lc lc' \<longleftrightarrow>
     lc_retry lc' = lc_retry lc \<and>
     (case lc_delays lc of
        None \<Rightarrow> lc_delays lc' = None
      | Some ds \<Rightarrow>
          (\<exists>ws. lc_delays lc' = Some (ds @ ws) \<and> (\<forall>w\<in>set ws. w \<le> rp_maxBackoffMs (lc_retry lc))))"

lemma inc_le: "a < b \<Longrightarrow> a + 1 \<le> b" "a < b \<Longrightarrow> a \<le> a + 1" for a b :: "'a::len word"
  by (auto simp: word_le_nat_alt word_less_nat_alt unat_inc)

lemmas meter_defs = allowRequest_def recordRequest_def recordTokens_def meter_allows_def

interpretation config: client_relation same_config
  by unfold_locales (auto simp: same_config_def upd_metrics_def)

interpretation budget: client_relation budget_kept
proof
  fix a b c :: "'s llm_client"
  assume "budget_kept a b" "budget_kept b c"
  then show "budget_kept a c"
    by (auto simp: budget_kept_def split: option.splits intro: order.trans)
qed (auto simp: budget_kept_def meter_defs upd_metrics_def not_le intro: inc_le
    split: option.splits if_splits)

lemma diff_chain: "b - a = y - x \<Longrightarrow> c - b = z - y \<Longrightarrow> c - a = z - (x :: 'a::ab_group_add)"
  by (metis diff_add_cancel diff_diff_eq2 add_diff_eq)

interpretation counts: client_relation counts_agree
proof
  fix a b c :: "'s llm_client"
  assume "counts_agree a b" "counts_agree b c"
  then show "counts_agree a c"
    by (auto simp: counts_agree_def split: option.splits intro: diff_chain)
qed (auto simp: counts_agree_def meter_defs upd_metrics_def split: option.splits)

lemma config_keeps_meter:
  "config_step lc lc' \<Longrightarrow> lc_meter lc' = lc_meter lc \<and> lc_metrics lc' = lc_metrics lc"
  by (induction rule: config_step.induct)
    (simp_all add: setStructuredRetries_def setPersistentConnection_def)

lemma config_keeps_budget: "config_step lc lc' \<Longrightarrow> budget_kept lc lc'" "config_step lc lc' \<Longrightarrow> counts_agree lc lc'"
  by (auto dest: config_keeps_meter simp: budget_kept_def counts_agree_def split: option.split)

interpretation waits: client_relation waits_capped
  by unfold_locales (auto simp: waits_capped_def upd_metrics_def split: option.splits)

end
