(* ===== verification/Llm_Properties.thy ===== *)
theory Llm_Properties
  imports Llm_Safety
begin

text \<open>
  Properties of the LLM client: the spend guard, the waits, the number of requests, validated
  results and the agent loop's transcript.  \<open>body_provider\<close> is a small provider the witnesses run
  over the scripted connection.
\<close>

definition body_provider :: "'w provider" where
  "body_provider =
     \<lparr>pv_name = ''body'', pv_secure = False,
      pv_buildStructured = \<lambda>_ _ _ out. (Ok, out\<lparr>rq_host := ''h''\<rparr>),
      pv_parseStructured = \<lambda>resp out meta. (Ok, rs_body resp, meta\<lparr>cr_input := 3\<rparr>),
      pv_supportsTools = True,
      pv_buildTool = \<lambda>_ _ _ out. (Ok, out\<lparr>rq_host := ''h''\<rparr>),
      pv_parseTool = \<lambda>resp out. (Ok, out\<lparr>at_text := rs_body resp\<rparr>)\<rparr>"

definition canned :: "string \<Rightarrow> string" where
  "canned status = ''HTTP/1.1 '' @ status @ crlf @ ''Content-Length: 2'' @ crlf2 @ ''ok''"

definition canned_client :: "string list \<Rightarrow> fake_connection llm_client" where
  "canned_client statuses =
     (new_llm (fake_new\<lparr>responses := map canned statuses\<rparr>) None)
       \<lparr>lc_meter := Some (setMaxRequests 2 new_meter), lc_delays := Some []\<rparr>"

definition empty_schema :: response_schema where
  "empty_schema = \<lparr>sc_name = ''answer'', sc_fields = []\<rparr>"

text \<open>A busy server, then an answer.\<close>

lemma canned_run:
  "map_option (\<lambda>(r, lc). (map_sum id sr_json r, lc_meter lc, lc_delays lc, mt_requests (lc_metrics lc)))
     (generate (\<lambda>_. Some (JObj [])) fake_ops (body_provider :: unit provider) empty_schema []
       (canned_client [''503 Busy'', ''200 OK''])) =
   Some (Inr ''ok'', Some (recordTokens 3 0 ((setMaxRequests 2 new_meter)\<lparr>um_requests := 2\<rparr>)),
     Some [293], 2)"
  by code_simp

lemma map_sum_Inr: "map_sum f g a = Inr y \<longleftrightarrow> (\<exists>x. a = Inr x \<and> g x = y)"
  by (cases a) auto

lemma canned_result:
  obtains r lc' where "generate (\<lambda>_. Some (JObj [])) fake_ops (body_provider :: unit provider)
      empty_schema [] (canned_client [''503 Busy'', ''200 OK'']) = Some (Inr r, lc')"
    "sr_json r = ''ok''" "lc_delays lc' = Some [293]" "mt_requests (lc_metrics lc') = 2"
  using canned_run by (auto simp: map_sum_Inr)

section \<open>The spend guard\<close>

text \<open>C19: whatever the provider and the network do, no sequence of generate and run calls, with
  any change of the client's other settings in between, exceeds a configured request cap: the meter never passes it, and it counts exactly the requests the client
  attempted, retries included.\<close>

theorem request_cap_kept:
  assumes "(session_step parse ops pv)\<^sup>*\<^sup>* lc lc'" "lc_meter lc = Some u"
    "um_maxRequests u \<noteq> 0" "um_requests u \<le> um_maxRequests u"
  shows "\<exists>u'. lc_meter lc' = Some u' \<and> um_maxRequests u' = um_maxRequests u \<and>
    um_requests u \<le> um_requests u' \<and> um_requests u' \<le> um_maxRequests u \<and>
    um_requests u' - um_requests u = mt_requests (lc_metrics lc') - mt_requests (lc_metrics lc)"
  using budget.R_session [OF assms(1) config_keeps_budget(1)]
    counts.R_session [OF assms(1) config_keeps_budget(2)] assms(2-)
  by (auto simp: budget_kept_def counts_agree_def)

lemma canned_client_call:
  "\<exists>lc'. client_step (\<lambda>_. Some (JObj [])) fake_ops (body_provider :: unit provider)
       (canned_client [''503 Busy'', ''200 OK'']) lc' \<and> mt_requests (lc_metrics lc') = 2 \<and>
     lc_delays lc' = Some [293]"
  unfolding client_step_def by (rule canned_result) (blast intro: call_messages)

theorem request_cap_kept_witness:
  "\<exists>lc' u'. (session_step (\<lambda>_. Some (JObj [])) fake_ops (body_provider :: unit provider))\<^sup>*\<^sup>*
       (canned_client [''503 Busy'', ''200 OK'']) (llm_setTimeout 9000 lc') \<and> lc_meter lc' = Some u' \<and>
     um_requests u' = 2 \<and> um_requests u' \<le> 2"
proof -
  let ?lc = "canned_client [''503 Busy'', ''200 OK'']"
  let ?step = "session_step (\<lambda>_. Some (JObj [])) fake_ops (body_provider :: unit provider)"
  obtain lc' where c: "client_step (\<lambda>_. Some (JObj [])) fake_ops (body_provider :: unit provider) ?lc lc'"
    and n: "mt_requests (lc_metrics lc') = 2"
    using canned_client_call by blast
  have m: "lc_meter ?lc = Some (setMaxRequests 2 new_meter)" "mt_requests (lc_metrics ?lc) = 0"
    by (simp_all add: canned_client_def new_llm_def new_metrics_def)
  have "?step ?lc lc'" "?step lc' (llm_setTimeout 9000 lc')"
    using c set_timeout by (auto simp only: session_step_def)
  then have steps: "?step\<^sup>*\<^sup>* ?lc (llm_setTimeout 9000 lc')"
    by (meson converse_rtranclp_into_rtranclp rtranclp.rtrancl_refl)
  show ?thesis
    using request_cap_kept [OF steps m(1)] steps n m(2)
    by (auto simp: setMaxRequests_def new_meter_def)
qed

text \<open>Why a call ends before its first request: the cap, or a reason found before any request is due.\<close>

definition refused_with ::
  "'w provider \<Rightarrow> response_schema \<Rightarrow> 's llm_client \<Rightarrow> error \<Rightarrow> bool" where
  "refused_with pv schema lc e \<longleftrightarrow>
     e = BudgetExceeded \<or>
     e = NotImplemented \<and> \<not> pv_supportsTools pv \<or>
     e = ToolIterationLimit \<and> lc_maxIterations lc = 0 \<or>
     e \<noteq> Ok \<and> (\<exists>messages opts. fst (pv_buildStructured pv messages opts schema empty_request) = e) \<or>
     e \<noteq> Ok \<and> (\<exists>messages opts tools. fst (pv_buildTool pv messages opts tools empty_request) = e)"

definition logs_only :: "'s llm_client \<Rightarrow> 's llm_client \<Rightarrow> bool" where
  "logs_only lc lc1 \<longleftrightarrow> (\<exists>lg. lc1 = lc\<lparr>lc_log := lg\<rparr>)"

lemma logs_only_intros:
  "logs_only lc lc" "logs_only lc lc1 \<Longrightarrow> logs_only lc (llm_log lv msg lc1)"
  "logs_only lc (lc\<lparr>lc_log := lg\<rparr>)"
proof -
  show "logs_only lc lc" unfolding logs_only_def by (rule exI [of _ "lc_log lc"]) simp
  show "logs_only lc lc1 \<Longrightarrow> logs_only lc (llm_log lv msg lc1)"
    by (auto simp: logs_only_def llm_log_def)
  show "logs_only lc (lc\<lparr>lc_log := lg\<rparr>)" by (auto simp: logs_only_def)
qed

lemma round_trip_refused:
  assumes "\<not> meter_allows lc"
  obtains lc1 where "round_trip ops name req lc = Some (BudgetExceeded, empty_response, lc1)" "logs_only lc lc1"
proof -
  have "round_trip ops name req lc = Some (BudgetExceeded, empty_response,
      lc\<lparr>lc_log := map_option (\<lambda>l. l @ [(LvWarn, ''usage budget exhausted; refusing request'')]) (lc_log lc)\<rparr>)"
    using assms by (simp add: round_trip_def release_def sendWithRetry.simps fresh_http_def configure_def
        new_client_def http_log_def)
  then show thesis using logs_only_intros(3) by (rule that)
qed

lemma doGenerate_refused:
  assumes "\<not> meter_allows lc"
  obtains lc1 e where "doGenerate parse ops pv schema messages opts lc = Some (Inl e, lc1)"
    "logs_only lc lc1" "refused_with pv schema lc e"
proof -
  obtain bs req where b: "pv_buildStructured pv messages opts schema empty_request = (bs, req)" by fastforce
  obtain lc1 where t: "round_trip ops (pv_name pv) (with_extra_headers (co_extraHeaders opts) req) lc =
      Some (BudgetExceeded, empty_response, lc1)" "logs_only lc lc1"
    by (rule round_trip_refused [OF assms])
  show thesis
  proof (cases "bs = Ok")
    case True
    with b t show thesis
      by (intro that [of BudgetExceeded, OF _ logs_only_intros(2) [OF t(2)]])
         (simp_all add: doGenerate_def refused_with_def)
  next
    case False
    have "refused_with pv schema lc bs"
      using b False unfolding refused_with_def by (metis fst_conv)
    with b False show thesis
      by (intro that [of bs, OF _ logs_only_intros(1)]) (simp_all add: doGenerate_def)
  qed
qed

lemma runImpl_refused:
  assumes "\<not> meter_allows lc"
  obtains lc1 e where "runImpl parse ops pv schema messages tools w lc = Some (Inl e, w, lc1)"
    "logs_only lc lc1" "refused_with pv schema lc e"
proof (cases "pv_supportsTools pv")
  case False
  then show thesis
    by (intro that [of NotImplemented, OF _ logs_only_intros(2) [OF logs_only_intros(1)]])
       (simp_all add: runImpl_def refused_with_def)
next
  case tools: True
  obtain bs req where b: "pv_buildTool pv messages (lc_options lc) tools empty_request = (bs, req)" by fastforce
  obtain lc1 where t: "round_trip ops (pv_name pv) (with_extra_headers (co_extraHeaders (lc_options lc)) req) lc =
      Some (BudgetExceeded, empty_response, lc1)" "logs_only lc lc1"
    by (rule round_trip_refused [OF assms])
  show thesis
  proof (cases "unat (lc_maxIterations lc)")
    case 0
    then have "lc_maxIterations lc = 0" by (simp add: unat_eq_0)
    with tools show thesis
      by (intro that [of ToolIterationLimit, OF _ logs_only_intros(2) [OF logs_only_intros(1)]])
         (simp_all add: runImpl_def refused_with_def)
  next
    case (Suc n)
    show thesis
    proof (cases "bs = Ok")
      case True
      with tools Suc b t(1) show thesis
        by (intro that [of BudgetExceeded, OF _ t(2)]) (simp_all add: runImpl_def refused_with_def)
    next
      case False
      have "refused_with pv schema lc bs"
        using b False unfolding refused_with_def by (metis fst_conv)
      with tools Suc b False show thesis
        by (intro that [of bs, OF _ logs_only_intros(1)]) (simp_all add: runImpl_def)
    qed
  qed
qed

text \<open>C30: while the meter refuses requests, every public call of the client, structured generation and
  agent runs alike, fails and sends nothing: the connection is only closed at the end of the cycle
  (not even that when it is persistent), the meter, the counters and every other setting stay as they
  are, and only the log may grow.  The error is \<open>BudgetExceeded\<close>, or the reason the call fails for before
  its first request: the provider cannot build it or has no tools, or no iteration is allowed.\<close>

theorem exhausted_budget_sends_nothing:
  assumes "\<not> meter_allows lc" "client_call parse ops pv schema lc r lc'"
  shows "\<exists>lg e. r = Inl e \<and> refused_with pv schema lc e \<and>
    lc' = lc\<lparr>lc_log := lg,
      lc_conn := if lc_persistentConn lc then lc_conn lc else cn_stop ops (lc_conn lc)\<rparr>"
proof -
  have end_cycle: "\<exists>lg. finishRequestCycle ops lc1 = lc\<lparr>lc_log := lg,
      lc_conn := if lc_persistentConn lc then lc_conn lc else cn_stop ops (lc_conn lc)\<rparr>" if "logs_only lc lc1" for lc1
    using that by (auto simp: logs_only_def finishRequestCycle_def)
  have "\<exists>lc1 e. r = Inl e \<and> refused_with pv schema lc e \<and> logs_only lc lc1 \<and> lc' = finishRequestCycle ops lc1"
    using assms(2)
  proof (cases rule: client_call.cases)
    case (call_user sys user)
    obtain lc1 e where "doGenerate parse ops pv schema [user_message user] (with_system sys (lc_options lc)) lc =
        Some (Inl e, lc1)" "logs_only lc lc1" "refused_with pv schema lc e"
      by (rule doGenerate_refused [OF assms(1)])
    with call_user show ?thesis by (auto simp: generate_user_def finish_cycle_def)
  next
    case (call_image sys user img mime)
    obtain lc1 e where "doGenerate parse ops pv schema [userWithImage user img mime] (with_system sys (lc_options lc)) lc =
        Some (Inl e, lc1)" "logs_only lc lc1" "refused_with pv schema lc e"
      by (rule doGenerate_refused [OF assms(1)])
    with call_image show ?thesis by (auto simp: generate_image_def finish_cycle_def)
  next
    case (call_messages messages)
    obtain lc1 e where "doGenerate parse ops pv schema messages (lc_options lc) lc = Some (Inl e, lc1)"
      "logs_only lc lc1" "refused_with pv schema lc e"
      by (rule doGenerate_refused [OF assms(1)])
    with call_messages show ?thesis by (auto simp: generate_def finish_cycle_def)
  next
    case (call_convo convo convo')
    obtain lc1 e where "doGenerate parse ops pv schema (cv_messages convo)
        (with_system (cv_system convo) (lc_options lc)) lc = Some (Inl e, lc1)"
      "logs_only lc lc1" "refused_with pv schema lc e"
      by (rule doGenerate_refused [OF assms(1)])
    with call_convo show ?thesis by (auto simp: generate_convo_def finish_cycle_def)
  next
    case (call_run messages tools w w')
    obtain lc1 e where "runImpl parse ops pv schema messages tools w lc = Some (Inl e, w, lc1)"
      "logs_only lc lc1" "refused_with pv schema lc e"
      by (rule runImpl_refused [OF assms(1)])
    with call_run show ?thesis by (auto simp: llm_run_def)
  next
    case (call_prompt prompt tools w w')
    obtain lc1 e where "runImpl parse ops pv schema [user_message prompt] tools w lc = Some (Inl e, w, lc1)"
      "logs_only lc lc1" "refused_with pv schema lc e"
      by (rule runImpl_refused [OF assms(1)])
    with call_prompt show ?thesis by (auto simp: run_prompt_def llm_run_def)
  qed
  with end_cycle show ?thesis by blast
qed

definition spent_client :: "fake_connection llm_client" where
  "spent_client = (canned_client [])\<lparr>lc_meter := Some ((setMaxRequests 1 new_meter)\<lparr>um_requests := 1\<rparr>)\<rparr>"

theorem exhausted_budget_sends_nothing_witness:
  "\<exists>lc' e lg. client_call (\<lambda>_. None) fake_ops (body_provider :: unit provider) empty_schema spent_client (Inl e) lc' \<and>
     lc' = spent_client\<lparr>lc_log := lg, lc_conn := cn_stop fake_ops (lc_conn spent_client)\<rparr>"
proof -
  have no: "\<not> meter_allows spent_client"
    by (simp add: spent_client_def meter_defs setMaxRequests_def new_meter_def)
  obtain lc1 e where "doGenerate (\<lambda>_. None) fake_ops (body_provider :: unit provider) empty_schema []
      (lc_options spent_client) spent_client = Some (Inl e, lc1)"
    by (rule doGenerate_refused [OF no])
  then have call: "client_call (\<lambda>_. None) fake_ops (body_provider :: unit provider) empty_schema spent_client
      (Inl e) (finishRequestCycle fake_ops lc1)"
    by (intro client_call.call_messages [where messages = "[]"]) (simp add: generate_def finish_cycle_def)
  have "\<not> lc_persistentConn spent_client"
    by (simp add: spent_client_def canned_client_def new_llm_def)
  with exhausted_budget_sends_nothing [OF no call] call show ?thesis by auto
qed

text \<open>every wait between attempts is at most the policy's ceiling, whatever a Retry-After header
  or the doubling says.\<close>

theorem waits_within_ceiling:
  assumes "(client_step parse ops pv)\<^sup>*\<^sup>* lc lc'" "lc_delays lc = Some ds"
  shows "\<exists>ws. lc_delays lc' = Some (ds @ ws) \<and>
    list_all (\<lambda>w. w \<le> rp_maxBackoffMs (lc_retry lc)) ws"
  using waits.R_calls [OF assms(1)] assms(2) by (auto simp: waits_capped_def list_all_iff)

theorem waits_within_ceiling_witness:
  "\<exists>lc' ws. client_step (\<lambda>_. Some (JObj [])) fake_ops (body_provider :: unit provider)
       (canned_client [''503 Busy'', ''200 OK'']) lc' \<and> lc_delays lc' = Some ws \<and> ws = [293] \<and>
     list_all (\<lambda>w. w \<le> 8000) ws"
proof -
  let ?lc = "canned_client [''503 Busy'', ''200 OK'']"
  obtain lc' where c: "client_step (\<lambda>_. Some (JObj [])) fake_ops (body_provider :: unit provider) ?lc lc'"
    and n: "lc_delays lc' = Some [293]"
    using canned_client_call by blast
  have m: "lc_delays ?lc = Some []" "rp_maxBackoffMs (lc_retry ?lc) = 8000"
    by (simp_all add: canned_client_def new_llm_def default_policy_def)
  show ?thesis
    using waits_within_ceiling [OF r_into_rtranclp [of "client_step (\<lambda>_. Some (JObj [])) fake_ops body_provider", OF c] m(1)] c n m(2)
    by auto
qed

section \<open>The number of requests\<close>

definition counted :: "nat \<Rightarrow> 's llm_client \<Rightarrow> 's llm_client \<Rightarrow> bool" where
  "counted n lc lc' \<longleftrightarrow>
     (\<exists>k\<le>n. mt_requests (lc_metrics lc') = mt_requests (lc_metrics lc) + word_of_nat k)"

lemma counted_refl: "mt_requests (lc_metrics lc') = mt_requests (lc_metrics lc) \<Longrightarrow> counted n lc lc'"
  by (auto simp: counted_def intro: exI [of _ 0])

lemma counted_trans: "counted n a b \<Longrightarrow> counted m b c \<Longrightarrow> n + m \<le> k \<Longrightarrow> counted k a c"
  unfolding counted_def
  by (elim exE conjE, rule_tac x = "ka + kaa" in exI) (auto simp: algebra_simps)

lemma counted_eq:
  "mt_requests (lc_metrics c) = mt_requests (lc_metrics b) \<Longrightarrow> counted n a b \<Longrightarrow> counted n a c"
  by (simp add: counted_def)

lemma counted_mono: "counted n a b \<Longrightarrow> n \<le> m \<Longrightarrow> counted m a b"
  unfolding counted_def using order.trans by blast

lemmas client_updates = upd_metrics_def count_http_error_def count_transport_error_def count_retry_def
  count_schema_retry_def record_usage_def llm_log_def release_def finishRequestCycle_def

lemma back_off_requests:
  assumes "back_off name attempt s resp h lc = Some (h', lc')"
  shows "mt_requests (lc_metrics lc') = mt_requests (lc_metrics lc)"
proof -
  obtain ms lc1 where b: "backoffFor attempt resp (s = Ok) (count_retry lc) = (ms, lc1)"
    by fastforce
  then have "llm_wait ms (http_log LvWarn (retry_message name s resp ms) h) lc1 = Some (h', lc')"
    using assms by (simp add: back_off_def)
  then have "lc_metrics lc' = lc_metrics lc1"
    by (auto simp: llm_wait_def split: if_splits option.splits prod.splits)
  then show ?thesis
    using backoff_bounded(2) [OF b] by (auto simp: client_updates)
qed

lemma count_request_counted: "count_request t h lc = (h', lc') \<Longrightarrow> counted 1 lc lc'"
  unfolding counted_def
  by (rule exI [of _ 1])
    (auto simp: count_request_def client_updates Let_def split: if_splits prod.splits)

lemma sendWithRetry_counted:
  assumes "sendWithRetry ops name req p attempt resp h lc = Some (s, resp', h', lc')"
  shows "counted (unat (rp_maxRetries p) - unat attempt + 1) lc lc'"
  using assms
proof (induction rule: sendWithRetry_induct)
  case (refused attempt resp lc)
  show ?case
    by (rule counted_refl) simp
next
  case (final attempt resp lc sentAt h h' lc1 lc2)
  have "counted 1 lc lc2"
    by (rule counted_eq [OF _ count_request_counted [OF final(2)]])
      (use final(4) in \<open>auto simp: client_updates\<close>)
  then show ?case
    by (rule counted_trans [where m = 0, OF _ counted_refl [OF refl]]) simp
next
  case (stop attempt s resp lc sentAt h h' lc1 lc2)
  have "counted 1 lc lc2"
    by (rule counted_eq [OF _ count_request_counted [OF stop(2)]])
      (use stop(5) in \<open>auto simp: client_updates\<close>)
  then show ?case
    by (rule counted_trans [where m = 0, OF _ counted_refl [OF refl]]) simp
next
  case (again attempt lc sentAt h h' lc1 e resp1 h4 lc2 s resp' lc')
  have "counted 1 lc lc2"
    by (rule counted_eq [OF back_off_requests [OF again(4)] count_request_counted [OF again(2)]])
  then show ?case
    by (rule counted_trans [OF _ again(5)]) (use again(3) in \<open>simp add: unat_inc word_less_nat_alt\<close>)
qed

lemma round_trip_counted:
  assumes "round_trip ops name req lc = Some (s, resp, lc')"
  shows "counted (unat (rp_maxRetries (lc_retry lc)) + 1) lc lc'"
proof -
  obtain h lc1 where s: "sendWithRetry ops name req (lc_retry lc) 0 empty_response (fresh_http lc) lc =
      Some (s, resp, h, lc1)" "lc' = release h lc1"
    using assms by (auto simp: round_trip_def split: option.splits)
  have "counted (unat (rp_maxRetries (lc_retry lc)) + 1) lc lc1"
    using sendWithRetry_counted [OF s(1)] by simp
  then show ?thesis
    by (rule counted_eq [rotated]) (simp add: s(2) client_updates)
qed

lemma run_calls_requests:
  "run_calls parse tools calls working w lc = (working', w', lc') \<Longrightarrow>
     mt_requests (lc_metrics lc') = mt_requests (lc_metrics lc)"
proof (induction calls arbitrary: working w lc)
  case (Cons call calls)
  then show ?case
    by (simp add: Let_def case_prod_unfold) (auto simp: llm_log_def dest: Cons.IH)
qed simp

lemma generate_loop_counted:
  "generate_loop parse ops pv schema messages opts left e lc = Some (r, lc') \<Longrightarrow>
     unat (rp_maxRetries (lc_retry lc)) + 1 = n \<Longrightarrow> counted (left * n) lc lc'"
proof (induction left arbitrary: e lc)
  case 0
  then show ?case
    by (simp add: counted_refl)
next
  case (Suc left)
  obtain bs req0 where b: "pv_buildStructured pv messages opts schema empty_request = (bs, req0)"
    by fastforce
  show ?case
  proof (cases "bs = Ok")
    case False
    then show ?thesis
      using Suc.prems b by (simp add: counted_refl)
  next
    case True
    obtain s resp lc1 where t: "round_trip ops (pv_name pv)
        (with_extra_headers (co_extraHeaders opts) req0) lc = Some (s, resp, lc1)"
      using Suc.prems b True
      by (cases "round_trip ops (pv_name pv) (with_extra_headers (co_extraHeaders opts) req0) lc") auto
    obtain ps out meta where p: "pv_parseStructured pv resp [] new_chat_result = (ps, out, meta)"
      using prod_cases3 by blast
    have n: "counted n lc lc1" and r: "lc_retry lc1 = lc_retry lc"
      using round_trip_counted [OF t] Suc.prems(2) config.R_round_trip [OF t]
      by (simp_all add: same_config_def)
    have fin: "counted (n + left * n) lc lc2"
      if "mt_requests (lc_metrics lc2) = mt_requests (lc_metrics lc1)" for lc2
      by (rule counted_trans [OF n counted_refl [OF that], of 0]) simp
    have fin0: "counted n lc lc2"
      if "mt_requests (lc_metrics lc2) = mt_requests (lc_metrics lc1)" for lc2
      by (rule counted_eq [OF that n])
    have more: "counted (n + left * n) lc lc'"
      if "generate_loop parse ops pv schema messages opts left e' lc2 = Some (r, lc')"
        "mt_requests (lc_metrics lc2) = mt_requests (lc_metrics lc1)" "lc_retry lc2 = lc_retry lc1"
      for e' lc2
      by (rule counted_trans [OF counted_eq [OF that(2) n] Suc.IH [OF that(1)]])
        (use Suc.prems(2) r that(3) in simp_all)
    show ?thesis
      using Suc.prems(1) b True t p
      by (auto simp: Let_def client_updates split: if_splits intro: fin more fin0)
  qed
qed

lemma agent_loop_counted:
  "agent_loop parse ops pv tools left working w lc = Some (r, w', lc') \<Longrightarrow>
     unat (rp_maxRetries (lc_retry lc)) + 1 = n \<Longrightarrow> counted (left * n) lc lc'"
proof (induction left arbitrary: working w lc)
  case 0
  then show ?case
    by (simp add: counted_refl)
next
  case (Suc left)
  obtain bs req0 where b: "pv_buildTool pv working (lc_options lc) tools empty_request = (bs, req0)"
    by fastforce
  show ?case
  proof (cases "bs = Ok")
    case False
    then show ?thesis
      using Suc.prems b by (simp add: counted_refl)
  next
    case True
    let ?req = "with_extra_headers (co_extraHeaders (lc_options lc)) req0"
    obtain s resp lc1 where t: "round_trip ops (pv_name pv) ?req lc = Some (s, resp, lc1)"
      using Suc.prems b True by (cases "round_trip ops (pv_name pv) ?req lc") auto
    obtain ps turn where p: "pv_parseTool pv resp new_turn = (ps, turn)"
      by fastforce
    let ?lc2 = "record_usage (at_input turn) (at_output turn) lc1"
    let ?a = "(assistant_message (at_text turn))\<lparr>ms_toolCalls := at_calls turn\<rparr>"
    obtain wk w1 lc3 where c: "run_calls parse tools (at_calls turn) (working @ [?a]) w ?lc2 = (wk, w1, lc3)"
      using prod_cases3 by blast
    have n: "counted n lc lc1" and r: "lc_retry lc3 = lc_retry lc"
      using round_trip_counted [OF t] Suc.prems(2) config.R_round_trip [OF t]
        config.R_run_calls [OF c]
      by (simp_all add: same_config_def client_updates)
    have "mt_requests (lc_metrics lc3) = mt_requests (lc_metrics lc1)"
      using run_calls_requests [OF c] by (simp add: client_updates)
    then have n3: "counted n lc lc3"
      by (rule counted_eq [OF _ n])
    have fin: "counted (n + left * n) lc lc2"
      if "mt_requests (lc_metrics lc2) = mt_requests (lc_metrics lc1)" for lc2
      by (rule counted_trans [OF n counted_refl [OF that], of 0]) simp
    have more: "counted (n + left * n) lc lc'"
      if "agent_loop parse ops pv tools left wk w1 lc3 = Some (r, w', lc')"
      by (rule counted_trans [OF n3 Suc.IH [OF that]]) (use Suc.prems(2) r in simp_all)
    show ?thesis
      using Suc.prems(1) b True t p c more fin
      by (auto simp: Let_def split: if_splits) (auto simp: client_updates intro!: fin)
  qed
qed

definition request_bound :: "'s llm_client \<Rightarrow> nat" where
  "request_bound lc =
     (unat (lc_maxIterations lc) + unat (lc_structuredRetries lc) + 1) *
     (unat (rp_maxRetries (lc_retry lc)) + 1)"

lemma doGenerate_counted:
  "doGenerate parse ops pv schema messages opts lc = Some (r, lc') \<Longrightarrow>
     counted ((unat (lc_structuredRetries lc) + 1) * (unat (rp_maxRetries (lc_retry lc)) + 1)) lc lc'"
  unfolding doGenerate_def by (rule generate_loop_counted) simp_all

lemma doGenerate_bounded:
  assumes "doGenerate parse ops pv schema messages opts lc = Some (r, lc')"
  shows "counted (request_bound lc) lc lc'"
  by (rule counted_mono [OF doGenerate_counted [OF assms]])
    (unfold request_bound_def, rule mult_le_mono1, simp)

lemma finish_cycle_counted:
  assumes "finish_cycle ops x = Some (r, lc')" "\<And>r lc1. x = Some (r, lc1) \<Longrightarrow> counted n lc lc1"
  shows "counted n lc lc'"
  using assms by (cases x) (auto simp: finish_cycle_def client_updates intro: counted_eq [rotated])

lemma counted_finish: "counted n a b \<Longrightarrow> counted n a (finishRequestCycle ops b)"
  by (rule counted_eq) (simp_all add: client_updates)

lemma runImpl_counted:
  assumes "runImpl parse ops pv schema messages tools w lc = Some (r, w', lc')"
  shows "counted (request_bound lc) lc lc'"
proof (cases "pv_supportsTools pv")
  case False
  then show ?thesis
    using assms by (auto simp: runImpl_def client_updates intro: counted_refl)
next
  case True
  let ?n = "unat (rp_maxRetries (lc_retry lc)) + 1"
  obtain x w1 lc1 where l: "agent_loop parse ops pv tools (unat (lc_maxIterations lc)) messages w lc =
      Some (x, w1, lc1)"
    using assms True by (auto simp: runImpl_def split: option.splits)
  have n1: "counted (unat (lc_maxIterations lc) * ?n) lc lc1" and c: "same_config lc lc1"
    using agent_loop_counted [OF l refl] config.R_agent_loop [OF l] by simp_all
  have fin: "counted (request_bound lc) lc lc1"
    by (rule counted_mono [OF n1]) (simp add: request_bound_def algebra_simps)
  have more: "counted (request_bound lc) lc lc2"
    if "doGenerate parse ops pv schema msgs opts lc1 = Some (r2, lc2)" for msgs opts r2 lc2
    by (rule counted_trans [OF n1 doGenerate_counted [OF that]])
      (use c in \<open>simp add: request_bound_def same_config_def algebra_simps\<close>)
  show ?thesis
    using assms True l fin more
    by (auto simp: runImpl_def client_updates split: option.splits sum.splits if_splits prod.splits
        intro: counted_eq [rotated])
qed

lemma client_call_counted: "client_call parse ops pv schema lc r lc' \<Longrightarrow> counted (request_bound lc) lc lc'"
proof (induction rule: client_call.induct)
  case (call_run schema messages tools w lc r w' lc')
  then obtain lc1 where "runImpl parse ops pv schema messages tools w lc = Some (r, w', lc1)"
    "lc' = finishRequestCycle ops lc1"
    by (auto simp: llm_run_def split: option.splits)
  then show ?case
    by (auto intro: counted_finish [OF runImpl_counted])
next
  case (call_prompt schema prompt tools w lc r w' lc')
  then obtain lc1 where "runImpl parse ops pv schema [user_message prompt] tools w lc = Some (r, w', lc1)"
    "lc' = finishRequestCycle ops lc1"
    by (auto simp: run_prompt_def llm_run_def split: option.splits)
  then show ?case
    by (auto intro: counted_finish [OF runImpl_counted])
next
  case (call_convo schema convo lc r convo' lc')
  then have "finish_cycle ops (doGenerate parse ops pv schema (cv_messages convo)
      (with_system (cv_system convo) (lc_options lc)) lc) = Some (r, lc')"
    by (auto simp: generate_convo_def split: option.splits)
  then show ?case
    by (rule finish_cycle_counted) (rule doGenerate_bounded)
qed (auto simp: generate_user_def generate_image_def generate_def
    elim!: finish_cycle_counted intro: doGenerate_bounded)

text \<open>C21: a public call attempts at most (iterations + validation retries + 1) times
  (transport retries + 1) requests, all three taken from the client's configuration, so a model or a
  server that misbehaves cannot make it loop.\<close>

theorem call_requests_bounded:
  assumes "client_call parse ops pv schema lc r lc'"
  shows "\<exists>k \<le> (unat (lc_maxIterations lc) + unat (lc_structuredRetries lc) + 1) *
      (unat (rp_maxRetries (lc_retry lc)) + 1).
    mt_requests (lc_metrics lc') = mt_requests (lc_metrics lc) + word_of_nat k"
  using client_call_counted [OF assms] by (simp add: counted_def request_bound_def)

theorem call_requests_bounded_witness:
  "\<exists>r lc'. client_call (\<lambda>_. Some (JObj [])) fake_ops (body_provider :: unit provider) empty_schema
       (canned_client [''503 Busy'', ''200 OK'']) r lc' \<and>
     (\<exists>k\<le>24. mt_requests (lc_metrics lc') = word_of_nat k) \<and> mt_requests (lc_metrics lc') = 2"
proof -
  let ?lc = "canned_client [''503 Busy'', ''200 OK'']"
  obtain r lc' where c: "client_call (\<lambda>_. Some (JObj [])) fake_ops (body_provider :: unit provider)
      empty_schema ?lc r lc'"
    and n: "mt_requests (lc_metrics lc') = 2"
    by (rule canned_result) (blast intro: call_messages)
  have m: "unat (lc_maxIterations ?lc) = 6" "unat (lc_structuredRetries ?lc) = 1"
    "unat (rp_maxRetries (lc_retry ?lc)) = 2" "mt_requests (lc_metrics ?lc) = 0"
    by (simp_all add: canned_client_def new_llm_def new_metrics_def default_policy_def)
  obtain k where "k \<le> 24" "mt_requests (lc_metrics lc') = word_of_nat k"
    using call_requests_bounded [OF c] m by auto
  then show ?thesis
    using c n by blast
qed

end
