(* ===== verification/Llm_Answers.thy ===== *)
theory Llm_Answers
  imports Llm_Properties
begin

text \<open>
  What a call of the LLM client returns: an answer is text the provider extracted from a 2xx
  response and the schema accepted; and the agent loop, round by round: each turn of the model is the
  provider's reading of the response to the request built from the transcript so far, and every call
  of the turn, no other, is dispatched in order and answered.
\<close>

section \<open>Answers\<close>

definition vetted ::
  "(string \<Rightarrow> json option) \<Rightarrow> 'w provider \<Rightarrow> response_schema \<Rightarrow> structured_result \<Rightarrow> bool" where
  "vetted parse pv schema r \<longleftrightarrow>
     (\<exists>resp meta. isSuccess resp \<and>
        pv_parseStructured pv resp [] new_chat_result = (Ok, sr_json r, meta)) \<and>
     schema_validate parse schema (sr_json r) = Ok \<and> r = structuredResult parse (sr_json r)"

definition answer_ok ::
  "(string \<Rightarrow> json option) \<Rightarrow> 'w provider \<Rightarrow> response_schema \<Rightarrow> structured_result result \<Rightarrow> bool" where
  "answer_ok parse pv schema res \<longleftrightarrow>
     (case res of Inl e \<Rightarrow> e \<noteq> Ok | Inr r \<Rightarrow> vetted parse pv schema r)"

lemma mapStatus_not_Ok [simp]: "mapStatus st \<noteq> Ok"
  by (simp add: mapStatus_def)

lemma generate_loop_answer:
  "generate_loop parse ops pv schema messages opts left e lc = Some (res, lc') \<Longrightarrow> e \<noteq> Ok \<Longrightarrow>
     answer_ok parse pv schema res"
proof (induction left arbitrary: e lc)
  case 0
  then show ?case
    by (auto simp: answer_ok_def)
next
  case (Suc left)
  obtain bs req0 where b: "pv_buildStructured pv messages opts schema empty_request = (bs, req0)"
    by fastforce
  show ?case
  proof (cases "bs = Ok")
    case False
    then show ?thesis
      using Suc.prems b by (auto simp: answer_ok_def)
  next
    case True
    obtain s resp lc1 where t: "round_trip ops (pv_name pv)
        (with_extra_headers (co_extraHeaders opts) req0) lc = Some (s, resp, lc1)"
      using Suc.prems b True
      by (cases "round_trip ops (pv_name pv) (with_extra_headers (co_extraHeaders opts) req0) lc") auto
    obtain ps out meta where p: "pv_parseStructured pv resp [] new_chat_result = (ps, out, meta)"
      using prod_cases3 by blast
    have v: "vetted parse pv schema (structuredResult parse out)"
      if "isSuccess resp" "ps = Ok" "schema_validate parse schema out = Ok"
      using that p by (auto simp: vetted_def structuredResult_def)
    show ?thesis
      using Suc.prems b True t p v Suc.IH
      by (auto simp: Let_def split: if_splits) (auto simp: answer_ok_def split: if_splits)
  qed
qed

lemma doGenerate_answer:
  "doGenerate parse ops pv schema messages opts lc = Some (res, lc') \<Longrightarrow> answer_ok parse pv schema res"
  unfolding doGenerate_def by (erule generate_loop_answer) simp

lemma finish_cycle_Some:
  "finish_cycle ops x = Some (r, lc') \<Longrightarrow> \<exists>lc1. x = Some (r, lc1)"
  by (cases x) (auto simp: finish_cycle_def)

lemma agent_loop_error:
  "agent_loop parse ops pv tools left working w lc = Some (Inl e, w', lc') \<Longrightarrow> e \<noteq> Ok"
proof (induction left arbitrary: working w lc)
  case (Suc left)
  then show ?case
    by (auto simp: Let_def case_prod_unfold split: if_splits option.splits)
qed simp

lemma runImpl_answer:
  "runImpl parse ops pv schema messages tools w lc = Some (res, w', lc') \<Longrightarrow> answer_ok parse pv schema res"
  by (auto simp: runImpl_def split: option.splits sum.splits if_splits prod.splits
      dest: agent_loop_error doGenerate_answer)
    (auto simp: answer_ok_def dest: agent_loop_error)

text \<open>C20: every public call fails with a real error, or returns text the provider extracted from a
  2xx response of this exchange's kind and the schema's validator accepted, with its parsed view.\<close>

theorem answers_are_vetted:
  assumes "client_call parse ops pv schema lc res lc'"
  shows "answer_ok parse pv schema res"
  using assms
proof (induction rule: client_call.induct)
  case (call_convo schema convo lc r convo' lc')
  then obtain lc1 where "doGenerate parse ops pv schema (cv_messages convo)
      (with_system (cv_system convo) (lc_options lc)) lc = Some (r, lc1)"
    by (auto simp: generate_convo_def split: option.splits dest: finish_cycle_Some)
  then show ?case
    by (rule doGenerate_answer)
qed (auto simp: generate_user_def generate_image_def generate_def llm_run_def run_prompt_def
    split: option.splits dest!: finish_cycle_Some intro: doGenerate_answer runImpl_answer)

theorem answers_are_vetted_witness:
  "\<exists>r lc'. client_call (\<lambda>_. Some (JObj [])) fake_ops (body_provider :: unit provider) empty_schema
       (canned_client [''503 Busy'', ''200 OK'']) (Inr r) lc' \<and>
     vetted (\<lambda>_. Some (JObj [])) (body_provider :: unit provider) empty_schema r \<and> sr_json r = ''ok''"
proof -
  let ?lc = "canned_client [''503 Busy'', ''200 OK'']"
  obtain r lc' where c: "client_call (\<lambda>_. Some (JObj [])) fake_ops (body_provider :: unit provider)
      empty_schema ?lc (Inr r) lc'" and j: "sr_json r = ''ok''"
    by (rule canned_result) (blast intro: call_messages)
  have "vetted (\<lambda>_. Some (JObj [])) (body_provider :: unit provider) empty_schema r"
    using answers_are_vetted [OF c] by (simp add: answer_ok_def)
  then show ?thesis
    using c j by blast
qed

text \<open>A conversation gains exactly the answer it got, and nothing on failure.\<close>

lemma convo_gains_answer:
  "generate_convo parse ops pv schema convo lc = Some (res, convo', lc') \<Longrightarrow>
     (case res of Inl e \<Rightarrow> convo' = convo
      | Inr r \<Rightarrow> vetted parse pv schema r \<and> convo' = addAssistant (sr_json r) convo)"
  by (auto simp: generate_convo_def answer_ok_def split: option.splits sum.splits
      dest!: finish_cycle_Some doGenerate_answer)

section \<open>The agent loop\<close>

text \<open>A tool result for a call.\<close>

definition answers :: "tool_call \<Rightarrow> message \<Rightarrow> bool" where
  "answers call m \<longleftrightarrow> ms_role m = Tool \<and> ms_toolCallId m = tc_id call \<and> ms_toolName m = tc_name call"

text \<open>A transcript of \<open>n\<close> rounds on top of the caller's messages: each round is an assistant turn with
  its calls, followed by one result per call, in order.\<close>

inductive transcript :: "message list \<Rightarrow> nat \<Rightarrow> message list \<Rightarrow> bool" for base where
  start: "transcript base 0 base"
| round: "transcript base n ms \<Longrightarrow> ms_role a = Assistant \<Longrightarrow> ms_toolCalls a = calls \<Longrightarrow> calls \<noteq> [] \<Longrightarrow>
    list_all2 answers calls results \<Longrightarrow> transcript base (Suc n) (ms @ a # results)"

text \<open>The answer to a call: a tool message with the call's id and name, and the content and error flag
  of what its dispatch returned, or the error it was refused with.\<close>

definition replies_to :: "tool_call \<Rightarrow> tool_result result \<Rightarrow> message \<Rightarrow> bool" where
  "replies_to call dr m \<longleftrightarrow>
     ms_role m = Tool \<and> ms_toolCallId m = tc_id call \<and> ms_toolName m = tc_name call \<and>
     (case dr of
        Inr r \<Rightarrow> ms_content m = tr_content r \<and> (ms_isToolError m \<longleftrightarrow> tr_isError r)
      | Inl e \<Rightarrow> ms_isToolError m \<and>
          ms_content m = ''tool '' @ [CHR 0x27] @ tc_name call @ [CHR 0x27] @ '' failed: '' @ errorString e)"

text \<open>Running a list of calls: each is dispatched once, in order, in the world the one before left, and
  answered; nothing else happens to the world.\<close>

inductive executed ::
  "(string \<Rightarrow> json option) \<Rightarrow> 'w tool_registry \<Rightarrow> tool_call list \<Rightarrow> 'w \<Rightarrow> message list \<Rightarrow> 'w \<Rightarrow> bool"
  for parse tools
where
  none: "executed parse tools [] w [] w"
| call: "dispatch parse tools (tc_name call) (tc_arguments call) w = (dr, w1) \<Longrightarrow>
    replies_to call dr m \<Longrightarrow> executed parse tools calls w1 ms w2 \<Longrightarrow>
    executed parse tools (call # calls) w (m # ms) w2"

text \<open>The model's turn on a transcript: the request the provider builds from it is sent, answered with a
  2xx response, and the turn is what the provider reads from that response.\<close>

definition model_turn ::
  "'s conn_ops \<Rightarrow> 'w provider \<Rightarrow> 'w tool_registry \<Rightarrow> message list \<Rightarrow> 's llm_client \<Rightarrow> agent_turn \<Rightarrow>
     's llm_client \<Rightarrow> bool" where
  "model_turn ops pv tools ms lc turn lc1 \<longleftrightarrow>
     (\<exists>req resp. pv_buildTool pv ms (lc_options lc) tools empty_request = (Ok, req) \<and>
        round_trip ops (pv_name pv) (with_extra_headers (co_extraHeaders (lc_options lc)) req) lc =
          Some (Ok, resp, lc1) \<and>
        isSuccess resp \<and> pv_parseTool pv resp new_turn = (Ok, turn))"

text \<open>The ways to get no turn, with the error that is reported.\<close>

definition model_fails ::
  "'s conn_ops \<Rightarrow> 'w provider \<Rightarrow> 'w tool_registry \<Rightarrow> message list \<Rightarrow> 's llm_client \<Rightarrow> error \<Rightarrow> bool" where
  "model_fails ops pv tools ms lc e \<longleftrightarrow> e \<noteq> Ok \<and>
     (\<exists>bs req. pv_buildTool pv ms (lc_options lc) tools empty_request = (bs, req) \<and>
        (bs = e \<or>
         bs = Ok \<and>
         (\<exists>s resp lc1.
            round_trip ops (pv_name pv) (with_extra_headers (co_extraHeaders (lc_options lc)) req) lc =
              Some (s, resp, lc1) \<and>
            (s = e \<or>
             s = Ok \<and> \<not> isSuccess resp \<and> e = mapStatus (rs_status resp) \<or>
             s = Ok \<and> isSuccess resp \<and> fst (pv_parseTool pv resp new_turn) = e))))"

text \<open>\<open>n\<close> rounds: a turn that asks for tools, all its calls run, and the transcript extended by the
  turn and the answers.  Between two rounds the client has counted the tokens and written to its log.\<close>

inductive agent_rounds ::
  "(string \<Rightarrow> json option) \<Rightarrow> 's conn_ops \<Rightarrow> 'w provider \<Rightarrow> 'w tool_registry \<Rightarrow>
     message list \<Rightarrow> 'w \<Rightarrow> 's llm_client \<Rightarrow> nat \<Rightarrow> message list \<Rightarrow> 'w \<Rightarrow> 's llm_client \<Rightarrow> bool"
  for parse ops pv tools
where
  start: "agent_rounds parse ops pv tools ms w lc 0 ms w lc"
| round: "model_turn ops pv tools ms lc turn lc1 \<Longrightarrow> at_calls turn \<noteq> [] \<Longrightarrow>
    executed parse tools (at_calls turn) w results w1 \<Longrightarrow>
    ms_role a = Assistant \<Longrightarrow> ms_content a = at_text turn \<Longrightarrow> ms_toolCalls a = at_calls turn \<Longrightarrow>
    lc2 = (record_usage (at_input turn) (at_output turn) lc1)\<lparr>lc_log := lg\<rparr> \<Longrightarrow>
    agent_rounds parse ops pv tools (ms @ a # results) w1 lc2 n ms' w' lc' \<Longrightarrow>
    agent_rounds parse ops pv tools ms w lc (Suc n) ms' w' lc'"

lemma executed_answers: "executed parse tools calls w ms w' \<Longrightarrow> list_all2 answers calls ms"
  by (induction rule: executed.induct) (simp_all add: replies_to_def answers_def)

lemma rounds_transcript:
  "agent_rounds parse ops pv tools ms w lc n ms' w' lc' \<Longrightarrow> transcript base k ms \<Longrightarrow> transcript base (k + n) ms'"
proof (induction arbitrary: k rule: agent_rounds.induct)
  case (round ms lc turn lc1 w results w1 a lc2 lg n ms' w' lc')
  have "transcript base (Suc k) (ms @ a # results)"
    by (rule transcript.round [OF round.prems round.hyps(4,6,2) executed_answers [OF round.hyps(3)]])
  from round.IH [OF this] show ?case by simp
qed simp

lemma run_calls_executed:
  "run_calls parse tools calls working w lc = (working', w', lc') \<Longrightarrow>
     \<exists>results lg. working' = working @ results \<and> executed parse tools calls w results w' \<and>
       lc' = lc\<lparr>lc_log := lg\<rparr>"
proof (induction calls arbitrary: working w lc)
  case Nil
  then show ?case by (auto intro: executed.none exI [of _ "lc_log lc"])
next
  case (Cons call calls)
  obtain dr w1 where d: "dispatch parse tools (tc_name call) (tc_arguments call) w = (dr, w1)"
    by fastforce
  let ?tr = "case dr of Inr r \<Rightarrow> r | Inl e \<Rightarrow> failed_dispatch (tc_name call) e"
  have step: "run_calls parse tools calls (working @ [toolResult call ?tr]) w1
      (llm_log LvInfo (''tool '' @ tc_name call @ (if tr_isError ?tr then '' -> error'' else '' -> ok'')) lc) =
    (working', w', lc')"
    using Cons.prems by (simp add: d Let_def)
  from Cons.IH [OF step] obtain results lg where
    r: "working' = (working @ [toolResult call ?tr]) @ results" "executed parse tools calls w1 results w'"
      "lc' = (llm_log LvInfo (''tool '' @ tc_name call @ (if tr_isError ?tr then '' -> error'' else '' -> ok'')) lc)
        \<lparr>lc_log := lg\<rparr>" by blast
  have "replies_to call dr (toolResult call ?tr)"
    by (simp add: replies_to_def toolResult_def new_message_def failed_dispatch_def tool_error_def
        split: sum.split)
  from executed.call [OF d this r(2)] r(1,3) show ?case
    by (intro exI [of _ "toolResult call ?tr # results"] exI [of _ lg]) (simp add: llm_log_def)
qed

lemma agent_loop_rounds:
  "agent_loop parse ops pv tools left working w lc = Some (out, w', lc') \<Longrightarrow>
     \<exists>n ms lcn. n \<le> left \<and> agent_rounds parse ops pv tools working w lc n ms w' lcn \<and>
     (case out of
        Inl e \<Rightarrow> n < left \<and> model_fails ops pv tools ms lcn e
      | Inr (settled, working') \<Rightarrow> working' = ms \<and>
          (if settled then n < left \<and> (\<exists>turn lc1. model_turn ops pv tools ms lcn turn lc1 \<and> at_calls turn = [])
           else n = left))"
proof (induction left arbitrary: working w lc)
  case 0
  then show ?case
    by (intro exI [of _ 0] exI [of _ working] exI [of _ lc]) (auto simp: agent_rounds.start)
next
  case (Suc left)
  obtain bs req0 where b: "pv_buildTool pv working (lc_options lc) tools empty_request = (bs, req0)"
    by fastforce
  let ?req = "with_extra_headers (co_extraHeaders (lc_options lc)) req0"
  have stop: ?case if "out = Inl e" "w' = w" "model_fails ops pv tools working lc e" for e
    using that by (intro exI [of _ 0] exI [of _ working] exI [of _ lc]) (auto simp: agent_rounds.start)
  show ?case
  proof (cases "bs = Ok")
    case False
    then show ?thesis
      using Suc.prems b by (intro stop [of bs]) (auto simp: model_fails_def)
  next
    case bs: True
    obtain s resp lc1 where t: "round_trip ops (pv_name pv) ?req lc = Some (s, resp, lc1)"
      using Suc.prems(1) b bs by (cases "round_trip ops (pv_name pv) ?req lc") auto
    obtain ps turn where p: "pv_parseTool pv resp new_turn = (ps, turn)" by fastforce
    let ?lc2 = "record_usage (at_input turn) (at_output turn) lc1"
    let ?a = "(assistant_message (at_text turn))\<lparr>ms_toolCalls := at_calls turn\<rparr>"
    show ?thesis
    proof (cases "s = Ok \<and> isSuccess resp \<and> ps = Ok")
      case False
      define e where "e = (if s \<noteq> Ok then s else if \<not> isSuccess resp then mapStatus (rs_status resp) else ps)"
      have "out = Inl e" "w' = w"
        using Suc.prems b bs t p False by (auto simp: e_def Let_def split: if_splits)
      moreover have "model_fails ops pv tools working lc e"
        using b bs t p False by (auto simp: model_fails_def e_def)
      ultimately show ?thesis by (rule stop)
    next
      case True
      have turn: "model_turn ops pv tools working lc turn lc1"
        using b bs t p True by (auto simp: model_turn_def)
      show ?thesis
      proof (cases "wantsTools turn")
        case False
        then have "out = Inr (True, working)" "w' = w"
          using Suc.prems b bs t p True by (auto simp: Let_def)
        then show ?thesis
          using False turn by (intro exI [of _ 0] exI [of _ working] exI [of _ lc])
            (auto simp: wantsTools_def agent_rounds.start)
      next
        case wants: True
        obtain wk w1 lc3 where c: "run_calls parse tools (at_calls turn) (working @ [?a]) w ?lc2 = (wk, w1, lc3)"
          using prod_cases3 by blast
        from run_calls_executed [OF c] obtain results lg where
          r: "wk = working @ ?a # results" "executed parse tools (at_calls turn) w results w1"
            "lc3 = ?lc2\<lparr>lc_log := lg\<rparr>" by auto
        have "agent_loop parse ops pv tools left wk w1 lc3 = Some (out, w', lc')"
          using Suc.prems b bs t p True wants c by (simp add: Let_def)
        from Suc.IH [OF this] obtain n ms lcn where
          n: "n \<le> left" "agent_rounds parse ops pv tools wk w1 lc3 n ms w' lcn" and fin: "case out of
            Inl e \<Rightarrow> n < left \<and> model_fails ops pv tools ms lcn e
          | Inr (settled, working') \<Rightarrow> working' = ms \<and>
              (if settled then n < left \<and> (\<exists>turn lc1. model_turn ops pv tools ms lcn turn lc1 \<and> at_calls turn = [])
               else n = left)" by blast
        have "agent_rounds parse ops pv tools working w lc (Suc n) ms w' lcn"
          by (rule agent_rounds.round [OF turn _ r(2) _ _ _ r(3) n(2) [unfolded r(1)]])
             (use wants in \<open>simp_all add: wantsTools_def assistant_message_def new_message_def\<close>)
        then show ?thesis
          using n(1) fin by (intro exI [of _ "Suc n"] exI [of _ ms] exI [of _ lcn])
            (auto split: sum.splits prod.splits if_splits)
      qed
    qed
  qed
qed

text \<open>C18: the agent loop goes through rounds, at most the configured number.  In each the model's turn
  is what the provider reads from the response to the request built from the transcript so far; every
  call of that turn is dispatched once, in order, in the world the one before left, and no other; the
  transcript grows by the turn with all its calls and one answer per call with its id and what its
  dispatch returned.  The world the loop leaves is the one these calls lead to.  It ends settled when a
  turn asks for no tools, unsettled after exactly the configured number of rounds, and with an error only
  when the next turn could not be had, with that error.\<close>

theorem agent_answers_every_call:
  assumes "agent_loop parse ops pv tools left messages w lc = Some (out, w', lc')"
  shows "\<exists>n ms lcn. n \<le> left \<and> agent_rounds parse ops pv tools messages w lc n ms w' lcn \<and>
    (case out of
       Inl e \<Rightarrow> n < left \<and> model_fails ops pv tools ms lcn e
     | Inr (settled, working) \<Rightarrow> working = ms \<and>
         (if settled then n < left \<and> (\<exists>turn lc1. model_turn ops pv tools ms lcn turn lc1 \<and> at_calls turn = [])
          else n = left))"
  using assms by (rule agent_loop_rounds)

definition inc_tools :: "nat tool_registry" where
  "inc_tools = [(new_tool ''inc'' [])\<lparr>tl_handler := Some (\<lambda>_ n. (tool_ok ''done'', n + 1))\<rparr>]"

definition asking_provider :: "nat provider" where
  "asking_provider =
     body_provider\<lparr>pv_parseTool := \<lambda>resp out.
       (Ok, if rs_status resp = 200
            then out\<lparr>at_calls := [\<lparr>tc_id = ''7'', tc_name = ''inc'', tc_arguments = ''{}''\<rparr>]\<rparr>
            else out)\<rparr>"

lemma asking_run:
  "map_option (\<lambda>(out, n, lc). (map_sum id (\<lambda>(st, ms). (st, map ms_content ms)) out, n))
     (agent_loop (\<lambda>_. Some (JObj [])) fake_ops asking_provider inc_tools 6 [user_message ''hi''] 0
       (canned_client [''200 OK'', ''201 Created''])) =
   Some (Inr (True, [''hi'', [], ''done'']), 1)"
  by code_simp

theorem agent_answers_every_call_witness:
  "\<exists>working lc' lcn n. agent_loop (\<lambda>_. Some (JObj [])) fake_ops asking_provider inc_tools 6
       [user_message ''hi''] 0 (canned_client [''200 OK'', ''201 Created'']) =
       Some (Inr (True, working), 1, lc') \<and> n < 6 \<and>
     agent_rounds (\<lambda>_. Some (JObj [])) fake_ops asking_provider inc_tools [user_message ''hi''] 0
       (canned_client [''200 OK'', ''201 Created'']) n working 1 lcn"
proof -
  obtain working lc' where r: "agent_loop (\<lambda>_. Some (JObj [])) fake_ops asking_provider inc_tools 6
       [user_message ''hi''] 0 (canned_client [''200 OK'', ''201 Created'']) =
       Some (Inr (True, working), 1, lc')"
    using asking_run by (auto simp: map_sum_Inr)
  then show ?thesis
    using agent_answers_every_call [OF r] by auto
qed

text \<open>The messages of the final structured call carry no tool protocol.\<close>

lemma flatten_plain:
  "m \<in> set (flattenForStructured ms) \<Longrightarrow>
     ms_role m \<noteq> Tool \<and> (ms_role m = Assistant \<longrightarrow> ms_toolCalls m = [])"
  by (auto simp: flattenForStructured_def flatten_message_def user_message_def assistant_message_def
      new_message_def)

end
