(* ===== verification/Llm_Waits.thy ===== *)
theory Llm_Waits
  imports Llm_Client
begin

text \<open>
  The waits between attempts end, if the client has a delay function, no clock, or a clock that goes
  on (\<open>ticking\<close>).
\<close>

text \<open>The clock passes every deadline: from any reading on, any span is measured sooner or later.\<close>

definition ticking :: "(nat \<Rightarrow> u32) \<Rightarrow> bool" where
  "ticking f \<longleftrightarrow> (\<forall>start ms n. \<exists>d. ms \<le> f (n + d) - start)"

definition dist :: "(nat \<Rightarrow> u32) \<Rightarrow> u32 \<Rightarrow> u32 \<Rightarrow> nat \<Rightarrow> nat" where
  "dist f start ms n = (LEAST d. ms \<le> f (n + d) - start)"

lemma dist_Suc:
  assumes "ticking f" "\<not> ms \<le> f n - start"
  shows "dist f start ms (Suc n) < dist f start ms n"
proof -
  have ex: "\<exists>d. ms \<le> f (n + d) - start"
    using assms(1) by (simp add: ticking_def)
  have d: "ms \<le> f (n + dist f start ms n) - start"
    unfolding dist_def by (rule LeastI_ex [OF ex])
  then obtain d' where d': "dist f start ms n = Suc d'"
    using assms(2) by (cases "dist f start ms n") auto
  have "dist f start ms (Suc n) \<le> d'"
    using d d' unfolding dist_def by (intro Least_le) simp
  then show ?thesis
    using d' by simp
qed

lemma spin_ends:
  assumes "ticking f" "hclock h = Some f"
  shows "\<exists>k. spin start ms h = Some (h\<lparr>hticks := k\<rparr>)"
  using assms(2)
proof (induction "dist f start ms (hticks h)" arbitrary: h rule: less_induct)
  case less
  show ?case
  proof (cases "ms \<le> f (hticks h) - start")
    case True
    then show ?thesis
      using less(2) by (subst spin.simps) (auto simp: now_def dest: leD)
  next
    case False
    then have "dist f start ms (Suc (hticks h)) < dist f start ms (hticks h)"
      by (rule dist_Suc [OF assms(1)])
    then show ?thesis
      using less(1) [of "h\<lparr>hticks := hticks h + 1\<rparr>"] less(2) False
      by (subst spin.simps) (simp add: now_def not_le)
  qed
qed

definition waits_end :: "(nat \<Rightarrow> u32) option \<Rightarrow> u32 list option \<Rightarrow> bool" where
  "waits_end clock delays \<longleftrightarrow>
     delays \<noteq> None \<or> (case clock of None \<Rightarrow> True | Some f \<Rightarrow> ticking f)"

lemma same_ticks: "h\<lparr>hticks := hticks h\<rparr> = h"
  by simp

lemma llm_wait_ends:
  assumes "waits_end (hclock h) (lc_delays lc)"
  shows "\<exists>k lc'. llm_wait ms h lc = Some (h\<lparr>hticks := k\<rparr>, lc')"
proof (cases "ms = 0 \<or> lc_delays lc \<noteq> None \<or> hclock h = None")
  case True
  have "\<exists>lc'. llm_wait ms h lc = Some (h\<lparr>hticks := hticks h\<rparr>, lc')"
    using True by (auto simp: llm_wait_def split: option.split)
  then show ?thesis
    by blast
next
  case False
  then obtain f where f: "hclock h = Some f" "ticking f"
    using assms by (auto simp: waits_end_def)
  obtain k where "spin (f (hticks h)) ms (h\<lparr>hticks := hticks h + 1\<rparr>) = Some (h\<lparr>hticks := k\<rparr>)"
    using spin_ends [OF f(2), of "h\<lparr>hticks := hticks h + 1\<rparr>"] f(1) by auto
  then show ?thesis
    using False f(1) by (auto simp: llm_wait_def now_def)
qed

lemma backoffFor_delays: "backoffFor attempt resp b lc = (ms, lc') \<Longrightarrow> lc_delays lc' = lc_delays lc"
  by (auto simp: backoffFor_def Let_def split: if_splits)

lemma back_off_ends:
  assumes "waits_end (hclock h) (lc_delays lc)"
  shows "\<exists>k lg lc'. back_off name attempt s resp h lc = Some (h\<lparr>hlog := lg, hticks := k\<rparr>, lc')"
proof -
  obtain ms lc1 where b: "backoffFor attempt resp (s = Ok) (count_retry lc) = (ms, lc1)"
    by fastforce
  let ?h = "http_log LvWarn (retry_message name s resp ms) h"
  have "waits_end (hclock ?h) (lc_delays lc1)"
    using assms backoffFor_delays [OF b] by (simp add: http_log_def count_retry_def upd_metrics_def)
  from llm_wait_ends [OF this, of ms] show ?thesis
    by (simp add: back_off_def b http_log_def) blast
qed

end
