(* ===== verification/Http_Returns.thy ===== *)
theory Http_Returns
  imports Fake_Connection Llm_Waits
begin

text \<open>
  Termination.  The loops of the HTTP client may wait for ever on an arbitrary socket; on one that
  delivers finitely many reads per connection (locale \<open>draining\<close>), with a clock that goes on
  (\<open>ticking\<close>), every one of them returns, and so does every call of the LLM client.
\<close>

section \<open>The socket\<close>

locale draining =
  fixes ops :: "'s conn_ops" and left :: "'s \<Rightarrow> nat"
  assumes read_data: "cn_read ops len s = (Some bs, s') \<Longrightarrow> bs \<noteq> [] \<Longrightarrow> left s' < left s"
    and read_empty: "cn_read ops len s = (Some [], s') \<Longrightarrow> left s' \<le> left s"
    and connected_left: "cn_connected ops s = (b, s') \<Longrightarrow> left s' \<le> left s"
    and available_left: "cn_available ops s = (n, s') \<Longrightarrow> left s' \<le> left s"
begin

text \<open>What the loops decrease: the reads left, then the readings of the clock to the deadline.\<close>

definition rank :: "(nat \<Rightarrow> u32) \<Rightarrow> u32 \<Rightarrow> 's http_client \<Rightarrow> nat \<times> nat" where
  "rank f start c = (left (conn c), dist f start (timeoutMs c) (hticks c))"

definition same_clock :: "'s http_client \<Rightarrow> 's http_client \<Rightarrow> bool" where
  "same_clock c c' \<longleftrightarrow> hclock c' = hclock c \<and> timeoutMs c' = timeoutMs c"

definition smaller :: "(nat \<Rightarrow> u32) \<Rightarrow> u32 \<Rightarrow> ('s http_client \<times> 's http_client) set" where
  "smaller f start = inv_image (less_than <*lex*> less_than) (rank f start)"

lemma wf_smaller: "wf (smaller f start)"
  by (auto simp: smaller_def)

lemma timedOut_step:
  assumes "timedOut start c = (late, c')" "hclock c = Some f"
  shows "same_clock c c'" "conn c' = conn c"
    "\<not> late \<Longrightarrow> ticking f \<Longrightarrow> dist f start (timeoutMs c') (hticks c') < dist f start (timeoutMs c) (hticks c)"
  using assms dist_Suc [of f "timeoutMs c" "hticks c" start]
  by (auto simp: timedOut_def now_def same_clock_def)

lemma drained_step:
  assumes "drained ops c = (gone, c')"
  shows "same_clock c c'" "hticks c' = hticks c" "left (conn c') \<le> left (conn c)"
  using assms connected_left available_left
  by (auto simp: drained_def conn_connected_def same_clock_def split: prod.splits if_splits)
    (meson order.trans)+

lemma read_step:
  assumes "conn_read ops len c = (r, c')"
  shows "same_clock c c'" "hticks c' = hticks c"
    "r = Some bs \<Longrightarrow> bs \<noteq> [] \<Longrightarrow> left (conn c') < left (conn c)"
    "r = Some [] \<Longrightarrow> left (conn c') \<le> left (conn c)"
  using assms read_data read_empty
  by (auto simp: conn_read_def same_clock_def split: prod.splits)

text \<open>The two ways a loop goes round.\<close>

lemma data_round:
  assumes "conn_read ops len c = (Some bs, c1)" "bs \<noteq> []"
  shows "(c1\<lparr>sawResponseBytes := b\<rparr>, c) \<in> smaller f start" "(c1, c) \<in> smaller f start"
    "hclock c1 = hclock c"
  using read_step(1,3) [OF assms(1)] assms(2) by (auto simp: smaller_def rank_def same_clock_def)

lemma idle_round:
  assumes "conn_read ops len c = (Some [], c1)" "drained ops c1 = (gone, c2)"
    "timedOut start c2 = (False, c3)" "hclock c = Some f" "ticking f"
  shows "(c3, c) \<in> smaller f start" "hclock c3 = Some f"
  using read_step(1,2,4) [OF assms(1)] drained_step [OF assms(2)] timedOut_step [OF assms(3)] assms(4,5)
  by (auto simp: smaller_def rank_def same_clock_def)

lemma idle_round':
  assumes "conn_read ops len c = (Some [], c1)" "timedOut start c1 = (False, c2)"
    "drained ops c2 = (gone, c3)" "hclock c = Some f" "ticking f"
  shows "(c3, c) \<in> smaller f start" "hclock c3 = Some f"
  using read_step(1,2,4) [OF assms(1)] drained_step [OF assms(3)] timedOut_step [OF assms(2)] assms(4,5)
  by (auto simp: smaller_def rank_def same_clock_def)

lemma header_loop_returns:
  assumes "ticking f" "hclock c = Some f"
  shows "\<exists>s lft out' c'. header_loop ops acc out start c = Some (s, lft, out', c') \<and> hclock c' = Some f"
  using assms(2)
proof (induction c arbitrary: acc out rule: wf_induct_rule [OF wf_smaller [of f start]])
  case (1 c)
  note step = header_loop.simps [of ops acc out start c]
  obtain r c1 where r: "conn_read ops (unat (recvBufferSize c)) c = (r, c1)"
    by fastforce
  obtain gone c2 where d: "drained ops c1 = (gone, c2)"
    by fastforce
  obtain late c3 where t: "timedOut start c2 = (late, c3)"
    by fastforce
  have k: "hclock c1 = Some f" "hclock c2 = Some f" "hclock c3 = Some f"
    using read_step(1) [OF r] drained_step(1) [OF d] 1(2) timedOut_step(1) [OF t]
    by (auto simp: same_clock_def)
  show ?case
  proof (cases "str_find acc crlf2 0")
    case (Some e)
    then show ?thesis
      using 1(2) by (simp add: step case_prod_unfold)
  next
    case None
    consider (full) "kMaxHeaderSection < length acc" | (fail) "r = None"
      | (more) bs where "r = Some bs" "bs \<noteq> []" | (idle) "r = Some []"
      by fastforce
    then show ?thesis
    proof cases
      case full
      then show ?thesis
        using None 1(2) by (simp add: step)
    next
      case fail
      then show ?thesis
        using None 1(2) k r by (simp add: step)
    next
      case more
      then show ?thesis
        using None 1(1) [OF data_round(1) [OF r [unfolded more(1)] more(2)], of True] 1(2) k r
        by (simp add: step)
    next
      case idle
      then show ?thesis
        using None 1(1) [OF idle_round(1) [OF r [unfolded idle] d]] 1(2) k r d t assms(1)
        by (cases late; cases gone) (simp_all add: step)
    qed
  qed
qed

lemma chunked_loop_returns:
  assumes "ticking f" "hclock c = Some f"
  shows "\<exists>s body' c'. chunked_loop ops d fin body start c = Some (s, body', c') \<and> hclock c' = Some f"
  using assms(2)
proof (induction c arbitrary: d fin body rule: wf_induct_rule [OF wf_smaller [of f start]])
  case (1 c)
  note step = chunked_loop.simps [of ops d fin body start c]
  obtain r c1 where r: "conn_read ops (unat (recvBufferSize c)) c = (r, c1)"
    by fastforce
  obtain late c2 where t: "timedOut start c1 = (late, c2)"
    by fastforce
  obtain gone c3 where g: "drained ops c2 = (gone, c3)"
    by fastforce
  have k: "hclock c1 = Some f" "hclock c2 = Some f" "hclock c3 = Some f"
    using read_step(1) [OF r] drained_step(1) [OF g] 1(2) timedOut_step(1) [OF t]
    by (auto simp: same_clock_def)
  consider (over) "fin \<or> unat (maxResponseBody c) < length body"
    | (fail) "\<not> (fin \<or> unat (maxResponseBody c) < length body)" "r = None"
    | (more) bs where "\<not> (fin \<or> unat (maxResponseBody c) < length body)" "r = Some bs" "bs \<noteq> []"
    | (idle) "\<not> (fin \<or> unat (maxResponseBody c) < length body)" "r = Some []"
    by fastforce
  then show ?case
  proof cases
    case over
    then show ?thesis
      using 1(2) by (subst step) auto
  next
    case fail
    then show ?thesis
      using k r by (subst step) simp
  next
    case more
    obtain e d' body' fin' where f: "cd_feed d bs body fin = (e, d', body', fin')"
      using prod_cases4 by blast
    show ?thesis
      using 1(1) [OF data_round(2) [OF r [unfolded more(2)] more(3)]] more k r f
      by (subst step, cases "e = Ok") simp_all
  next
    case idle
    then show ?thesis
      using 1(1) [OF idle_round'(1) [OF r [unfolded idle] _ g]] 1(2) k r g t assms(1)
      by (subst step, cases late; cases gone) simp_all
  qed
qed

lemma length_loop_returns:
  assumes "ticking f" "hclock c = Some f"
  shows "\<exists>s body' c'. length_loop ops want body start c = Some (s, body', c') \<and> hclock c' = Some f"
  using assms(2)
proof (induction c arbitrary: body rule: wf_induct_rule [OF wf_smaller [of f start]])
  case (1 c)
  note step = length_loop.simps [of ops want body start c]
  obtain r c1 where r: "conn_read ops (min (want - length body) (unat (recvBufferSize c))) c = (r, c1)"
    by fastforce
  obtain late c2 where t: "timedOut start c1 = (late, c2)"
    by fastforce
  obtain gone c3 where g: "drained ops c2 = (gone, c3)"
    by fastforce
  have k: "hclock c1 = Some f" "hclock c2 = Some f" "hclock c3 = Some f"
    using read_step(1) [OF r] drained_step(1) [OF g] 1(2) timedOut_step(1) [OF t]
    by (auto simp: same_clock_def)
  consider (full) "\<not> length body < want" | (fail) "length body < want" "r = None"
    | (more) bs where "length body < want" "r = Some bs" "bs \<noteq> []"
    | (idle) "length body < want" "r = Some []"
    by fastforce
  then show ?case
  proof cases
    case full
    then show ?thesis
      using 1(2) by (simp add: step)
  next
    case fail
    then show ?thesis
      using k r by (simp add: step)
  next
    case more
    then show ?thesis
      using 1(1) [OF data_round(2) [OF r [unfolded more(2)] more(3)]] k r by (simp add: step)
  next
    case idle
    then show ?thesis
      using 1(1) [OF idle_round'(1) [OF r [unfolded idle] _ g]] 1(2) k r g t assms(1)
      by (cases late; cases gone) (simp_all add: step)
  qed
qed

lemma close_loop_returns:
  assumes "ticking f" "hclock c = Some f"
  shows "\<exists>s body' c'. close_loop ops body start c = Some (s, body', c') \<and> hclock c' = Some f"
  using assms(2)
proof (induction c arbitrary: body rule: wf_induct_rule [OF wf_smaller [of f start]])
  case (1 c)
  note step = close_loop.simps [of ops body start c]
  obtain r c1 where r: "conn_read ops (unat (recvBufferSize c)) c = (r, c1)"
    by fastforce
  obtain gone c2 where d: "drained ops c1 = (gone, c2)"
    by fastforce
  obtain late c3 where t: "timedOut start c2 = (late, c3)"
    by fastforce
  have k: "hclock c1 = Some f" "hclock c2 = Some f" "hclock c3 = Some f"
    using read_step(1) [OF r] drained_step(1) [OF d] 1(2) timedOut_step(1) [OF t]
    by (auto simp: same_clock_def)
  consider (full) "unat (maxResponseBody c) < length body"
    | (fail) "\<not> unat (maxResponseBody c) < length body" "r = None"
    | (more) bs where "\<not> unat (maxResponseBody c) < length body" "r = Some bs" "bs \<noteq> []"
    | (idle) "\<not> unat (maxResponseBody c) < length body" "r = Some []"
    by fastforce
  then show ?case
  proof cases
    case full
    then show ?thesis
      using 1(2) by (simp add: step)
  next
    case fail
    then show ?thesis
      using k r by (simp add: step)
  next
    case more
    then show ?thesis
      using 1(1) [OF data_round(2) [OF r [unfolded more(2)] more(3)]] k r by (simp add: step)
  next
    case idle
    then show ?thesis
      using 1(1) [OF idle_round(1) [OF r [unfolded idle] d]] 1(2) k r d t assms(1)
      by (cases late; cases gone) (simp_all add: step)
  qed
qed

text \<open>Writing advances or waits for the clock.\<close>

lemma writeAll_returns:
  assumes "ticking f" "hclock c = Some f"
  shows "\<exists>s c'. writeAll ops dat off start c = Some (s, c') \<and> hclock c' = Some f"
  using assms(2)
proof (induction "(length dat - off, dist f start (timeoutMs c) (hticks c))" arbitrary: off c
    rule: wf_induct_rule [OF wf_lex_prod [OF wf_less_than wf_less_than]])
  case (1 off c)
  note step = writeAll.simps [of ops dat off start c]
  obtain n c1 where w: "conn_write ops (drop off dat) c = (n, c1)"
    by fastforce
  obtain late c2 where t: "timedOut start c1 = (late, c2)"
    by fastforce
  have k: "hclock c1 = Some f" "timeoutMs c1 = timeoutMs c" "hticks c1 = hticks c"
    using w 1(2) by (auto simp: conn_write_def split: prod.splits)
  have k2: "hclock c2 = Some f" "timeoutMs c2 = timeoutMs c"
    using timedOut_step(1) [OF t] k by (auto simp: same_clock_def)
  consider (sent) "\<not> off < length dat" | (fail) "off < length dat" "n < 0"
    | (wait) "off < length dat" "n = 0" | (more) "off < length dat" "0 < n"
    by linarith
  then show ?case
  proof cases
    case sent
    then show ?thesis
      using 1(2) by (simp add: step)
  next
    case fail
    then show ?thesis
      using k w by (simp add: step)
  next
    case wait
    show ?thesis
    proof (cases late)
      case True
      then show ?thesis
        using wait w t k2 by (simp add: step)
    next
      case False
      then have "dist f start (timeoutMs c2) (hticks c2) < dist f start (timeoutMs c) (hticks c)"
        using timedOut_step(3) [OF t k(1) _ assms(1)] k by simp
      then show ?thesis
        using 1(1) [of off c2] wait w t k2 False by (simp add: step)
    qed
  next
    case more
    then show ?thesis
      using 1(1) [of "off + nat n" c1] w k by (simp add: step)
  qed
qed

text \<open>A whole exchange.\<close>

lemma readHeaders_returns:
  assumes "ticking f" "hclock c = Some f"
  shows "\<exists>s lft out' c'. readHeaders ops out start c = Some (s, lft, out', c') \<and> hclock c' = Some f"
  unfolding readHeaders_def Let_def by (rule header_loop_returns [OF assms(1)]) (use assms(2) in simp)

lemma readBody_returns:
  assumes "ticking f" "hclock c = Some f"
  shows "\<exists>s out' c'. readBody ops initial out start c = Some (s, out', c') \<and> hclock c' = Some f"
proof -
  have b: "\<exists>s out' c'. with_body out x = Some (s, out', c') \<and> hclock c' = Some f"
    if "\<exists>s body c'. x = Some (s, body, c') \<and> hclock c' = Some f"
    for x :: "(status \<times> string \<times> 's http_client) option"
    using that by (auto simp: with_body_def)
  obtain e d body fin where c: "cd_feed cd_reset initial (rs_body out) False = (e, d, body, fin)"
    using prod_cases4 by blast
  show ?thesis
  proof (cases "is_chunked out")
    case True
    then show ?thesis
      using c b [OF chunked_loop_returns [OF assms]] assms(2)
      by (cases "e = Ok") (simp_all add: readBody_def)
  next
    case False
    then show ?thesis
      using b [OF close_loop_returns [OF assms]]
        b [OF length_loop_returns [OF assms(1)]] assms(2)
      by (cases "response_header out ''Content-Length''") (simp_all add: readBody_def Let_def)
  qed
qed

lemma finish_keep_alive_clock: "hclock (finish_keep_alive ops out hb c) = hclock c"
  by (auto simp: finish_keep_alive_def conn_connected_def conn_stop_def Let_def split: prod.split)

lemma exchange_returns:
  assumes "ticking f" "hclock c = Some f"
  shows "\<exists>s out' c'. exchange ops req out start c = Some (s, out', c') \<and> hclock c' = Some f"
proof -
  obtain s1 c1 where w: "writeAll ops (serializeRequest req (keepAlive c)) 0 start c = Some (s1, c1)"
    and k1: "hclock c1 = Some f"
    using writeAll_returns [OF assms] by blast
  obtain s2 lft out1 c2 where h: "readHeaders ops out start c1 = Some (s2, lft, out1, c2)"
    and k2: "hclock c2 = Some f"
    using readHeaders_returns [OF assms(1) k1] by blast
  obtain s3 out2 c3 where b: "readBody ops lft out1 start c2 = Some (s3, out2, c3)"
    and k3: "hclock c3 = Some f"
    using readBody_returns [OF assms(1) k2] by blast
  show ?thesis
    using w h b k1 k2 k3
    by (cases "s1 = Ok"; cases "s2 = Ok"; cases "s3 = Ok"; cases "status_has_body out1")
      (simp_all add: exchange_def finish_keep_alive_clock)
qed

lemma ensure_connected_clock: "ensure_connected ops fresh req c = (s, c') \<Longrightarrow> hclock c' = hclock c"
  by (auto simp: ensure_connected_def conn_connected_def http_log_def Let_def
      split: prod.splits if_splits)

lemma sendOnce_returns:
  assumes "ticking f" "hclock c = Some f"
  shows "\<exists>s out' c'. sendOnce ops req out c = Some (s, out', c') \<and> hclock c' = Some f"
proof -
  obtain start c1 where n: "now c = (start, c1)" and k: "hclock c1 = Some f"
    using assms(2) by (simp add: now_def)
  obtain s c2 where e: "ensure_connected ops True req (c1\<lparr>sawResponseBytes := False, reusable := False\<rparr>) = (s, c2)"
    by fastforce
  have k2: "hclock c2 = Some f"
    using ensure_connected_clock [OF e] k by simp
  show ?thesis
    using n e k2 exchange_returns [OF assms(1) k2] by (cases "s = Ok") (simp_all add: sendOnce_def)
qed

lemma send_returns:
  assumes "ticking f" "hclock c = Some f"
  shows "\<exists>s out' c'. send ops req out c = Some (s, out', c') \<and> hclock c' = Some f"
proof -
  obtain b c1 where o: "conn_connected ops c = (b, c1)" and k: "hclock c1 = Some f"
    using assms(2) by (fastforce simp: conn_connected_def split: prod.splits)
  obtain s out1 c2 where s: "sendOnce ops req out c1 = Some (s, out1, c2)" "hclock c2 = Some f"
    using sendOnce_returns [OF assms(1) k] by blast
  show ?thesis
    using o s sendOnce_returns [OF assms(1)]
    by (simp add: send_def conn_stop_def http_log_def)
qed

section \<open>The LLM client\<close>

lemma back_off_returns:
  assumes "ticking f" "hclock h = Some f"
  shows "\<exists>h' lc'. back_off name attempt s resp h lc = Some (h', lc') \<and> hclock h' = Some f"
  using back_off_ends [of h lc name attempt s resp] assms by (auto simp: waits_end_def)

lemma sendWithRetry_returns:
  assumes "ticking f" "hclock h = Some f"
  shows "\<exists>r. sendWithRetry ops name req p attempt resp h lc = Some r"
  using assms(2)
proof (induction "unat (rp_maxRetries p) - unat attempt" arbitrary: attempt resp h lc rule: less_induct)
  case less
  note step = sendWithRetry.simps [of ops name req p attempt resp h lc]
  obtain sentAt h1 where n: "now h = (sentAt, h1)" and k: "hclock h1 = Some f"
    using less(2) by (simp add: now_def)
  obtain s resp1 h2 where d: "send ops req empty_response h1 = Some (s, resp1, h2)" and k2: "hclock h2 = Some f"
    using send_returns [OF assms(1) k] by blast
  obtain h3 lc1 where c: "count_request sentAt h2 lc = (h3, lc1)" and k3: "hclock h3 = Some f"
    using k2 by (simp add: count_request_def now_def Let_def)
  obtain h4 lc2 where b: "back_off name attempt s resp1 h3 lc1 = Some (h4, lc2)" and k4: "hclock h4 = Some f"
    using back_off_returns [OF assms(1) k3] by blast
  show ?case
  proof (cases "rp_maxRetries p \<le> attempt")
    case False
    then have "\<exists>r. sendWithRetry ops name req p (attempt + 1) resp1 h4 lc2 = Some r"
      by (intro less(1) k4) (simp add: not_le unat_inc word_less_nat_alt)
    then show ?thesis
      using n d c b by (simp add: step)
  qed (use n d c in \<open>simp add: step\<close>)
qed

lemma round_trip_returns:
  assumes "ticking f" "lc_clock lc = Some f"
  shows "\<exists>s resp lc'. round_trip ops name req lc = Some (s, resp, lc')"
proof -
  have "hclock (fresh_http lc) = Some f"
    using assms(2) by (simp add: fresh_http_def configure_def)
  then show ?thesis
    using sendWithRetry_returns [OF assms(1), of "fresh_http lc" name req "lc_retry lc" 0 empty_response lc]
    by (auto simp: round_trip_def)
qed

end

end
