(* ===== verification/Llm_Returns.thy ===== *)
theory Llm_Returns
  imports Http_Returns Llm_Properties
begin

text \<open>
  Every public call of the LLM client returns, on a socket that delivers finitely many reads per
  connection and with a clock that goes on.  The scripted connection is such a socket, also when it
  stalls; one that drips bytes into a chunk extension for ever is not, and hangs the client.
\<close>

context draining
begin

lemma generate_loop_returns:
  assumes "ticking f"
  shows "lc_clock lc = Some f \<Longrightarrow>
    \<exists>r lc'. generate_loop parse ops pv schema messages opts lft e lc = Some (r, lc')"
proof (induction lft arbitrary: e lc)
  case (Suc lft)
  obtain bs req0 where b: "pv_buildStructured pv messages opts schema empty_request = (bs, req0)"
    by fastforce
  obtain s resp lc1 where t: "round_trip ops (pv_name pv)
      (with_extra_headers (co_extraHeaders opts) req0) lc = Some (s, resp, lc1)"
    using round_trip_returns [OF assms Suc.prems] by blast
  have k: "lc_clock lc1 = Some f"
    using config.R_round_trip [OF t] Suc.prems by (simp add: same_config_def)
  obtain ps out meta where p: "pv_parseStructured pv resp [] new_chat_result = (ps, out, meta)"
    using prod_cases3 by blast
  have more: "\<exists>r lc'. generate_loop parse ops pv schema messages opts lft e' lc2 = Some (r, lc')"
    if "lc_clock lc2 = Some f" for e' lc2
    by (rule Suc.IH [OF that])
  show ?case
    using b t p k by (simp add: Let_def more client_updates)
qed simp

lemma agent_loop_returns:
  assumes "ticking f"
  shows "lc_clock lc = Some f \<Longrightarrow>
    \<exists>r w' lc'. agent_loop parse ops pv tools lft working w lc = Some (r, w', lc')"
proof (induction lft arbitrary: working w lc)
  case (Suc lft)
  obtain bs req0 where b: "pv_buildTool pv working (lc_options lc) tools empty_request = (bs, req0)"
    by fastforce
  let ?req = "with_extra_headers (co_extraHeaders (lc_options lc)) req0"
  obtain s resp lc1 where t: "round_trip ops (pv_name pv) ?req lc = Some (s, resp, lc1)"
    using round_trip_returns [OF assms Suc.prems] by blast
  obtain ps turn where p: "pv_parseTool pv resp new_turn = (ps, turn)"
    by fastforce
  let ?lc2 = "record_usage (at_input turn) (at_output turn) lc1"
  let ?a = "(assistant_message (at_text turn))\<lparr>ms_toolCalls := at_calls turn\<rparr>"
  obtain wk w1 lc3 where c: "run_calls parse tools (at_calls turn) (working @ [?a]) w ?lc2 = (wk, w1, lc3)"
    using prod_cases3 by blast
  have "lc_clock lc3 = Some f"
    using config.R_round_trip [OF t] config.R_run_calls [OF c] Suc.prems
    by (simp add: same_config_def client_updates)
  then have "\<exists>r w' lc'. agent_loop parse ops pv tools lft wk w1 lc3 = Some (r, w', lc')"
    by (rule Suc.IH)
  then show ?case
    using b t p c by (simp add: Let_def)
qed simp

lemma doGenerate_returns:
  assumes "ticking f" "lc_clock lc = Some f"
  shows "\<exists>r lc'. doGenerate parse ops pv schema messages opts lc = Some (r, lc')"
  unfolding doGenerate_def by (rule generate_loop_returns [OF assms])

lemma runImpl_returns:
  assumes "ticking f" "lc_clock lc = Some f"
  shows "\<exists>r w' lc'. runImpl parse ops pv schema messages tools w lc = Some (r, w', lc')"
proof -
  obtain x w1 lc1 where l: "agent_loop parse ops pv tools (unat (lc_maxIterations lc)) messages w lc =
      Some (x, w1, lc1)"
    using agent_loop_returns [OF assms, of parse pv tools "unat (lc_maxIterations lc)" messages w] by blast
  have "lc_clock lc1 = Some f"
    using config.R_agent_loop [OF l] assms(2) by (simp add: same_config_def)
  then have g: "\<exists>r lc'. doGenerate parse ops pv schema msgs opts lc1 = Some (r, lc')" for msgs opts
    by (rule doGenerate_returns [OF assms(1)])
  show ?thesis
  proof (cases x)
    case (Inr y)
    then show ?thesis
      using l g [of "flattenForStructured (snd y)" "lc_options lc1"]
      by (cases y) (auto simp: runImpl_def)
  qed (use l in \<open>simp add: runImpl_def\<close>)
qed

lemma finish_cycle_returns:
  "\<exists>r lc'. x = Some (r, lc') \<Longrightarrow> \<exists>r lc'. finish_cycle ops x = Some (r, lc')"
  by (auto simp: finish_cycle_def)

end

text \<open>C28: on a socket that delivers finitely many reads per connection, and with a clock that passes
  every deadline, every public call of the LLM client returns, whatever the provider, the peer, the
  options and the retry policy: no wait, no loop of the HTTP client and no agent loop goes on for
  ever.\<close>

theorem client_calls_return:
  assumes "draining ops reads_left" "ticking f" "lc_clock lc = Some f"
  shows "(\<exists>r. generate parse ops pv schema messages lc = Some r) \<and>
    (\<exists>r. generate_user parse ops pv schema sys txt lc = Some r) \<and>
    (\<exists>r. generate_image parse ops pv schema sys txt img mime lc = Some r) \<and>
    (\<exists>r. generate_convo parse ops pv schema convo lc = Some r) \<and>
    (\<exists>r. llm_run parse ops pv schema messages tools w lc = Some r) \<and>
    (\<exists>r. run_prompt parse ops pv schema txt tools w lc = Some r)"
proof -
  note g = draining.finish_cycle_returns [OF assms(1) draining.doGenerate_returns [OF assms]]
  note r = draining.runImpl_returns [OF assms]
  have run: "\<exists>x. llm_run parse ops pv schema msgs tools w lc = Some x" for msgs
    using r [of parse pv schema msgs tools w] by (auto simp: llm_run_def)
  have convo: "\<exists>x. generate_convo parse ops pv schema convo lc = Some x"
    using g [of parse pv schema "cv_messages convo" "with_system (cv_system convo) (lc_options lc)"]
    by (auto simp: generate_convo_def)
  show ?thesis
    using g run convo
    by (simp add: generate_def generate_user_def generate_image_def run_prompt_def) blast
qed

section \<open>The scripted connection\<close>

interpretation fake: draining fake_ops "\<lambda>f. length (toSend f) - readPos f"
  by unfold_locales (auto simp: fake_defs split: if_splits)

lemma ticking_counter: "ticking (\<lambda>k. word_of_nat k)"
  unfolding ticking_def
proof (intro allI)
  fix start ms :: u32 and n :: nat
  have "ms \<le> word_of_nat (n + unat (start + ms - word_of_nat n)) - start"
    by simp
  then show "\<exists>d. ms \<le> word_of_nat (n + d) - start"
    by blast
qed

text \<open>Even a server that accepts the connection and then says nothing.\<close>

theorem client_calls_return_witness:
  "\<exists>r. llm_run (\<lambda>_. None) fake_ops (body_provider :: unit provider) empty_schema [] [] ()
     ((new_llm (fake_new\<lparr>stall := True\<rparr>) None)\<lparr>lc_clock := Some (\<lambda>k. word_of_nat k)\<rparr>) = Some r"
  by (rule client_calls_return [OF fake.draining_axioms ticking_counter,
      THEN conjunct2, THEN conjunct2, THEN conjunct2, THEN conjunct2, THEN conjunct1]) simp

section \<open>A response that never ends\<close>

text \<open>A peer that sends a chunk extension byte by byte, for ever.\<close>

definition drip_ops :: "unit conn_ops" where
  "drip_ops =
     \<lparr>cn_connect = \<lambda>h p s. (Ok, s), cn_connected = \<lambda>s. (True, s),
      cn_write = \<lambda>dat s. (int (length dat), s), cn_read = \<lambda>len s. (Some '';'', s),
      cn_available = \<lambda>s. (1, s), cn_stop = \<lambda>s. s\<rparr>"

lemma drip_feed:
  "dstate d = StSizeExt \<Longrightarrow> cd_feed d '';'' [] False = (Ok, d, [], False)"
  by (simp add: cd_feed.simps)

lemma unit_conn: "c\<lparr>conn := ()\<rparr> = c" for c :: "unit http_client"
  by (cases c) simp

lemma drip_never_returns:
  "chunked_loop op d fin body t c = Some y \<Longrightarrow>
     \<not> (op = drip_ops \<and> dstate d = StSizeExt \<and> \<not> fin \<and> body = [])"
proof (induct rule: chunked_loop_induct)
  case (step rec op d fin body t c y)
  show ?case
  proof
    assume a: "op = drip_ops \<and> dstate d = StSizeExt \<and> \<not> fin \<and> body = []"
    then have "rec drip_ops d False [] t c = Some y"
      using step.hyps(2) drip_feed [of d] by (simp add: drip_ops_def conn_read_def unit_conn)
    from step.hyps(1) [OF this] a show False
      by simp
  qed
qed

text \<open>The body loop has no bound on what is not payload, and looks at the clock only when a read
  brings nothing: whatever the clock and the limits, the client never returns.\<close>

lemma endless_extension_hangs:
  "dstate d = StSizeExt \<Longrightarrow> chunked_loop drip_ops d False [] t c = None"
  using drip_never_returns [of drip_ops d False "[]" t c] by (cases "chunked_loop drip_ops d False [] t c") auto

end
