(* ===== verification/Provider_Common.thy ===== *)
theory Provider_Common
  imports Llm_Client
begin

text \<open>
  What the four providers (llm/providers/) share: reading members of a response, the sampling
  options, the system prompt and the tool entries.  JSON text is read and written by the parameters
  \<open>parse\<close> and \<open>print\<close>; \<open>flt\<close> stands for how the JSON library stores a \<open>float\<close>.
\<close>

section \<open>Reading responses\<close>

text \<open>\<open>v[0]\<close>.\<close>

definition arr_first :: "json \<Rightarrow> json" where
  "arr_first v = (case arr_items v of [] \<Rightarrow> JNull | x # _ \<Rightarrow> x)"

text \<open>\<open>v | 0\<close>, converted to \<open>uint32_t\<close>.\<close>

definition count_or_0 :: "json \<Rightarrow> u32" where
  "count_or_0 v = (if is_long v then (case v of JInt i \<Rightarrow> word_of_int i | _ \<Rightarrow> 0) else 0)"

text \<open>\<open>if (p) dst = p\<close> for a \<open>const char*\<close>.\<close>

definition str_or :: "string \<Rightarrow> json \<Rightarrow> string" where
  "str_or dst v = (case cstr_of v of Some s \<Rightarrow> s | None \<Rightarrow> dst)"

text \<open>\<open>if (!obj.isNull()) serializeJson(obj, dst)\<close>.\<close>

definition print_obj_or :: "(json \<Rightarrow> string) \<Rightarrow> string \<Rightarrow> json \<Rightarrow> string" where
  "print_obj_or print dst v = (if is_obj v then print v else dst)"

section \<open>Writing requests\<close>

type_synonym members = "(string \<times> json) list"

definition JNat :: "nat \<Rightarrow> json" where
  "JNat n = JInt (int n)"

definition put_sampling ::
  "(rat \<Rightarrow> json) \<Rightarrow> string \<Rightarrow> string \<Rightarrow> chat_options \<Rightarrow> members \<Rightarrow> members" where
  "put_sampling flt topKey stopKey opts doc =
     (let d1 = (if hasTemperature opts then put ''temperature'' (flt (co_temperature opts)) doc else doc);
          d2 = (if hasTopP opts then put topKey (flt (co_topP opts)) d1 else d1)
      in if co_stopSequences opts \<noteq> []
         then put stopKey (JArr (map JStr (co_stopSequences opts))) d2 else d2)"

text \<open>The options' system prompt, with the system messages appended.\<close>

definition collect_system :: "string \<Rightarrow> message list \<Rightarrow> string" where
  "collect_system sys messages =
     fold (\<lambda>m s. if ms_role m = System
                 then (if s \<noteq> [] then s @ [LF, LF] else s) @ ms_content m else s) messages sys"

text \<open>\<open>b["input"]\<close> of an echoed call: the arguments' document, or an empty object.\<close>

definition arguments_doc :: "(string \<Rightarrow> json option) \<Rightarrow> tool_call \<Rightarrow> json" where
  "arguments_doc parse call =
     (if tc_arguments call = [] then JObj []
      else (case parse (tc_arguments call) of None \<Rightarrow> JObj [] | Some v \<Rightarrow> v))"

text \<open>The members every provider writes for a tool, around its schema.\<close>

definition tool_members :: "string \<Rightarrow> 'w tool \<Rightarrow> members" where
  "tool_members schemaKey t =
     [(''name'', JStr (tl_name t))] @
     (if tl_description t \<noteq> [] then [(''description'', JStr (tl_description t))] else []) @
     [(schemaKey, JObj (writeToolSchema t []))]"

definition function_entry :: "'w tool \<Rightarrow> json" where
  "function_entry t =
     JObj [(''type'', JStr ''function''), (''function'', JObj (tool_members ''parameters'' t))]"

definition model_of :: "string \<Rightarrow> chat_options \<Rightarrow> string" where
  "model_of def opts = (if co_model opts = [] then def else co_model opts)"

definition mime_of :: "message \<Rightarrow> string" where
  "mime_of m = (if ms_imageMime m = [] then ''image/jpeg'' else ms_imageMime m)"

definition json_post :: "string \<Rightarrow> u16 \<Rightarrow> string \<Rightarrow> http_request \<Rightarrow> http_request" where
  "json_post host port path out =
     setHeader (out\<lparr>rq_method := ''POST'', rq_host := host, rq_port := port, rq_path := path\<rparr>)
       ''Content-Type'' ''application/json''"

lemma length_dropWhile_Suc [termination_simp]: "length (dropWhile P xs) < Suc (length xs)"
  by (simp add: length_dropWhile_le less_Suc_eq_le)

end
