(* ===== verification/Anthropic_Provider.thy ===== *)
theory Anthropic_Provider
  imports Provider_Common
begin

text \<open>
  The Anthropic Messages API provider, llm/providers/AnthropicProvider.{h,cpp}.
\<close>

record anthropic =
  an_apiKey :: string
  an_defaultModel :: string
  an_apiVersion :: string

definition new_anthropic :: "string \<Rightarrow> anthropic" where
  "new_anthropic apiKey =
     \<lparr>an_apiKey = apiKey, an_defaultModel = ''claude-haiku-4-5-20251001'',
      an_apiVersion = ''2023-06-01''\<rparr>"

definition text_block :: "string \<Rightarrow> json" where
  "text_block s = JObj [(''type'', JStr ''text''), (''text'', JStr s)]"

definition writeAnthropicContent :: "message \<Rightarrow> json" where
  "writeAnthropicContent m =
     (if \<not> hasImage m then JStr (ms_content m)
      else JArr
        ([JObj [(''type'', JStr ''image''),
                (''source'', JObj [(''type'', JStr ''base64''), (''media_type'', JStr (mime_of m)),
                                   (''data'', JStr (ms_imageBase64 m))])]] @
         (if ms_content m \<noteq> [] then [text_block (ms_content m)] else [])))"

definition anthropic_message :: "message \<Rightarrow> json" where
  "anthropic_message m =
     JObj [(''role'', JStr (if ms_role m = Assistant then ''assistant'' else ''user'')),
           (''content'', writeAnthropicContent m)]"

text \<open>The members up to the message array.\<close>

definition anthropic_head ::
  "(rat \<Rightarrow> json) \<Rightarrow> anthropic \<Rightarrow> message list \<Rightarrow> chat_options \<Rightarrow> members" where
  "anthropic_head flt an messages opts =
     (let doc = put_sampling flt ''top_p'' ''stop_sequences'' opts
            [(''model'', JStr (model_of (an_defaultModel an) opts)),
             (''max_tokens'', JNat (unat (co_maxTokens opts)))];
          sys = collect_system (co_system opts) messages
      in if sys \<noteq> [] then put ''system'' (JStr sys) doc else doc)"

definition anthropic_send ::
  "(json \<Rightarrow> string) \<Rightarrow> anthropic \<Rightarrow> members \<Rightarrow> http_request \<Rightarrow> status \<times> http_request" where
  "anthropic_send print an doc out =
     (Ok, (setHeader (setHeader (json_post ''api.anthropic.com'' 443 ''/v1/messages'' out)
            ''x-api-key'' (an_apiKey an)) ''anthropic-version'' (an_apiVersion an))
            \<lparr>rq_body := print (JObj doc)\<rparr>)"

definition anthropic_structured ::
  "(json \<Rightarrow> string) \<Rightarrow> (rat \<Rightarrow> json) \<Rightarrow> anthropic \<Rightarrow> message list \<Rightarrow> chat_options \<Rightarrow>
     response_schema \<Rightarrow> http_request \<Rightarrow> status \<times> http_request" where
  "anthropic_structured print flt an messages opts schema out =
     (let d1 = put ''messages''
            (JArr (map anthropic_message (filter (\<lambda>m. ms_role m \<noteq> System) messages)))
            (anthropic_head flt an messages opts);
          d2 = put ''tools''
            (JArr [JObj [(''name'', JStr (sc_name schema)),
                         (''description'', JStr ''Return the result in the required structure.''),
                         (''input_schema'', JObj (writeSchema schema True []))]]) d1;
          d3 = put ''tool_choice''
            (JObj [(''type'', JStr ''tool''), (''name'', JStr (sc_name schema))]) d2
      in anthropic_send print an d3 out)"

definition is_tool_use :: "json \<Rightarrow> bool" where
  "is_tool_use block \<longleftrightarrow> cstr_of (obj_get block ''type'') = Some ''tool_use''"

definition anthropic_parse_structured ::
  "(string \<Rightarrow> json option) \<Rightarrow> (json \<Rightarrow> string) \<Rightarrow> http_response \<Rightarrow> string \<Rightarrow> chat_result \<Rightarrow>
     status \<times> string \<times> chat_result" where
  "anthropic_parse_structured parse print resp jsonOut meta =
     (case parse (rs_body resp) of
        None \<Rightarrow> (JsonParseError, jsonOut, meta)
      | Some doc \<Rightarrow>
          if \<not> is_arr (obj_get doc ''content'') then (ProviderError, jsonOut, meta)
          else
            (case find (\<lambda>b. is_tool_use b \<and> is_obj (obj_get b ''input''))
                    (arr_items (obj_get doc ''content'')) of
               None \<Rightarrow> (ProviderError, jsonOut, meta)
             | Some b \<Rightarrow>
                 (Ok, print (obj_get b ''input''),
                  meta\<lparr>cr_finish := str_or (cr_finish meta) (obj_get doc ''stop_reason''),
                    cr_input := count_or_0 (obj_get (obj_get doc ''usage'') ''input_tokens''),
                    cr_output := count_or_0 (obj_get (obj_get doc ''usage'') ''output_tokens'')\<rparr>)))"

section \<open>Tool calling\<close>

definition tool_result_block :: "message \<Rightarrow> json" where
  "tool_result_block tm =
     JObj ([(''type'', JStr ''tool_result''), (''tool_use_id'', JStr (ms_toolCallId tm)),
            (''content'', JStr (ms_content tm))] @
           (if ms_isToolError tm then [(''is_error'', JBool True)] else []))"

definition tool_use_block :: "(string \<Rightarrow> json option) \<Rightarrow> tool_call \<Rightarrow> json" where
  "tool_use_block parse call =
     JObj [(''type'', JStr ''tool_use''), (''id'', JStr (tc_id call)), (''name'', JStr (tc_name call)),
           (''input'', arguments_doc parse call)]"

definition assistant_calls :: "(string \<Rightarrow> json option) \<Rightarrow> message \<Rightarrow> json" where
  "assistant_calls parse m =
     JObj [(''role'', JStr ''assistant''),
           (''content'', JArr ((if ms_content m \<noteq> [] then [text_block (ms_content m)] else []) @
              map (tool_use_block parse) (ms_toolCalls m)))]"

definition tool_results :: "message list \<Rightarrow> json" where
  "tool_results ms =
     JObj [(''role'', JStr ''user''), (''content'', JArr (map tool_result_block ms))]"

text \<open>The message loop: a run of tool messages becomes one user message.\<close>

fun anthropic_messages :: "(string \<Rightarrow> json option) \<Rightarrow> message list \<Rightarrow> json list" where
  "anthropic_messages parse [] = []"
| "anthropic_messages parse (m # ms) =
     (if ms_role m = System then anthropic_messages parse ms
      else if ms_role m = Tool then
        tool_results (takeWhile (\<lambda>x. ms_role x = Tool) (m # ms)) #
        anthropic_messages parse (dropWhile (\<lambda>x. ms_role x = Tool) ms)
      else if ms_role m = Assistant \<and> ms_toolCalls m \<noteq> [] then
        assistant_calls parse m # anthropic_messages parse ms
      else anthropic_message m # anthropic_messages parse ms)"

definition anthropic_tool_request ::
  "(string \<Rightarrow> json option) \<Rightarrow> (json \<Rightarrow> string) \<Rightarrow> (rat \<Rightarrow> json) \<Rightarrow> anthropic \<Rightarrow> message list \<Rightarrow>
     chat_options \<Rightarrow> 'w tool_registry \<Rightarrow> http_request \<Rightarrow> status \<times> http_request" where
  "anthropic_tool_request parse print flt an messages opts tools out =
     (let d1 = put ''messages'' (JArr (anthropic_messages parse messages))
            (anthropic_head flt an messages opts);
          d2 = put ''tools'' (JArr (map (\<lambda>t. JObj (tool_members ''input_schema'' t)) tools)) d1
      in anthropic_send print an d2 out)"

definition anthropic_block :: "(json \<Rightarrow> string) \<Rightarrow> json \<Rightarrow> agent_turn \<Rightarrow> agent_turn" where
  "anthropic_block print block out =
     (case cstr_of (obj_get block ''type'') of
        None \<Rightarrow> out
      | Some t \<Rightarrow>
          if t = ''text'' then
            (case cstr_of (obj_get block ''text'') of
               None \<Rightarrow> out | Some tx \<Rightarrow> out\<lparr>at_text := at_text out @ tx\<rparr>)
          else if t = ''tool_use'' then
            out\<lparr>at_calls := at_calls out @
              [\<lparr>tc_id = str_or [] (obj_get block ''id''), tc_name = str_or [] (obj_get block ''name''),
                tc_arguments = print_obj_or print [] (obj_get block ''input'')\<rparr>]\<rparr>
          else out)"

definition anthropic_parse_tool ::
  "(string \<Rightarrow> json option) \<Rightarrow> (json \<Rightarrow> string) \<Rightarrow> http_response \<Rightarrow> agent_turn \<Rightarrow> status \<times> agent_turn"
where
  "anthropic_parse_tool parse print resp out =
     (case parse (rs_body resp) of
        None \<Rightarrow> (JsonParseError, out)
      | Some doc \<Rightarrow>
          if \<not> is_arr (obj_get doc ''content'') then (ProviderError, out)
          else
            (let out1 = fold (anthropic_block print) (arr_items (obj_get doc ''content'')) out
             in (Ok, out1\<lparr>at_finish := str_or (at_finish out1) (obj_get doc ''stop_reason''),
                   at_input := count_or_0 (obj_get (obj_get doc ''usage'') ''input_tokens''),
                   at_output := count_or_0 (obj_get (obj_get doc ''usage'') ''output_tokens'')\<rparr>)))"

definition anthropic_provider ::
  "(string \<Rightarrow> json option) \<Rightarrow> (json \<Rightarrow> string) \<Rightarrow> (rat \<Rightarrow> json) \<Rightarrow> anthropic \<Rightarrow> 'w provider" where
  "anthropic_provider parse print flt an =
     \<lparr>pv_name = ''anthropic'', pv_secure = True,
      pv_buildStructured = anthropic_structured print flt an,
      pv_parseStructured = anthropic_parse_structured parse print,
      pv_supportsTools = True,
      pv_buildTool = anthropic_tool_request parse print flt an,
      pv_parseTool = anthropic_parse_tool parse print\<rparr>"

end
