(* ===== verification/OpenAI_Provider.thy ===== *)
theory OpenAI_Provider
  imports Provider_Common
begin

text \<open>
  The OpenAI-compatible chat completions provider, llm/providers/OpenAIChatProvider.{h,cpp}.
\<close>

record openai_endpoint =
  ep_host :: string
  ep_port :: u16
  ep_secure :: bool
  ep_path :: string
  ep_authHeader :: string
  ep_authPrefix :: string

definition default_endpoint :: openai_endpoint where
  "default_endpoint =
     \<lparr>ep_host = ''api.openai.com'', ep_port = 443, ep_secure = True,
      ep_path = ''/v1/chat/completions'', ep_authHeader = ''Authorization'',
      ep_authPrefix = ''Bearer ''\<rparr>"

record openai =
  oa_apiKey :: string
  oa_defaultModel :: string
  oa_endpoint :: openai_endpoint
  oa_name :: string

definition new_openai :: "string \<Rightarrow> openai" where
  "new_openai apiKey =
     \<lparr>oa_apiKey = apiKey, oa_defaultModel = ''gpt-4o-mini'', oa_endpoint = default_endpoint,
      oa_name = ''openai''\<rparr>"

definition openAiRole :: "role \<Rightarrow> string" where
  "openAiRole r =
     (case r of System \<Rightarrow> ''system'' | User \<Rightarrow> ''user'' | Assistant \<Rightarrow> ''assistant'' | Tool \<Rightarrow> ''tool'')"

definition writeOpenAiContent :: "message \<Rightarrow> json" where
  "writeOpenAiContent m =
     (if \<not> hasImage m then JStr (ms_content m)
      else JArr
        ((if ms_content m \<noteq> []
          then [JObj [(''type'', JStr ''text''), (''text'', JStr (ms_content m))]] else []) @
         [JObj [(''type'', JStr ''image_url''),
                (''image_url'', JObj [(''url'', JStr (''data:'' @ mime_of m @ '';base64,'' @ ms_imageBase64 m))])]]))"

definition openai_head :: "(rat \<Rightarrow> json) \<Rightarrow> openai \<Rightarrow> chat_options \<Rightarrow> members" where
  "openai_head flt oa opts =
     put_sampling flt ''top_p'' ''stop'' opts
       [(''model'', JStr (model_of (oa_defaultModel oa) opts)),
        (''max_tokens'', JNat (unat (co_maxTokens opts)))]"

definition system_entry :: "chat_options \<Rightarrow> json list" where
  "system_entry opts =
     (if co_system opts \<noteq> []
      then [JObj [(''role'', JStr ''system''), (''content'', JStr (co_system opts))]] else [])"

definition openai_send ::
  "(json \<Rightarrow> string) \<Rightarrow> openai \<Rightarrow> members \<Rightarrow> http_request \<Rightarrow> status \<times> http_request" where
  "openai_send print oa doc out =
     (let ep = oa_endpoint oa;
          o1 = json_post (ep_host ep) (ep_port ep) (ep_path ep) out;
          o2 = (if oa_apiKey oa \<noteq> []
                then setHeader o1 (ep_authHeader ep) (ep_authPrefix ep @ oa_apiKey oa) else o1)
      in (Ok, o2\<lparr>rq_body := print (JObj doc)\<rparr>))"

definition openai_plain :: "message \<Rightarrow> json" where
  "openai_plain m =
     JObj [(''role'', JStr (openAiRole (ms_role m))), (''content'', writeOpenAiContent m)]"

definition openai_structured ::
  "(json \<Rightarrow> string) \<Rightarrow> (rat \<Rightarrow> json) \<Rightarrow> openai \<Rightarrow> message list \<Rightarrow> chat_options \<Rightarrow>
     response_schema \<Rightarrow> http_request \<Rightarrow> status \<times> http_request" where
  "openai_structured print flt oa messages opts schema out =
     (let d1 = put ''messages'' (JArr (system_entry opts @ map openai_plain messages))
            (openai_head flt oa opts);
          d2 = put ''response_format''
            (JObj [(''type'', JStr ''json_schema''),
                   (''json_schema'', JObj [(''name'', JStr (sc_name schema)),
                      (''strict'', JBool (strictCompatible schema)),
                      (''schema'', JObj (writeSchema schema True []))])]) d1
      in openai_send print oa d2 out)"

definition openai_parse_structured ::
  "(string \<Rightarrow> json option) \<Rightarrow> http_response \<Rightarrow> string \<Rightarrow> chat_result \<Rightarrow>
     status \<times> string \<times> chat_result" where
  "openai_parse_structured parse resp jsonOut meta =
     (case parse (rs_body resp) of
        None \<Rightarrow> (JsonParseError, jsonOut, meta)
      | Some doc \<Rightarrow>
          (let choice0 = arr_first (obj_get doc ''choices'')
           in if \<not> is_obj choice0 then (ProviderError, jsonOut, meta)
              else
                (case cstr_of (obj_get (obj_get choice0 ''message'') ''content'') of
                   None \<Rightarrow> (ProviderError, jsonOut, meta)
                 | Some content \<Rightarrow>
                     (Ok, content,
                      meta\<lparr>cr_finish := str_or (cr_finish meta) (obj_get choice0 ''finish_reason''),
                        cr_input := count_or_0 (obj_get (obj_get doc ''usage'') ''prompt_tokens''),
                        cr_output := count_or_0 (obj_get (obj_get doc ''usage'') ''completion_tokens'')\<rparr>))))"

section \<open>Tool calling\<close>

definition openai_call :: "tool_call \<Rightarrow> json" where
  "openai_call call =
     JObj [(''id'', JStr (tc_id call)), (''type'', JStr ''function''),
           (''function'', JObj [(''name'', JStr (tc_name call)),
              (''arguments'', JStr (if tc_arguments call = [] then ''{}'' else tc_arguments call))])]"

definition openai_message :: "message \<Rightarrow> json" where
  "openai_message m =
     (if ms_role m = System then
        JObj [(''role'', JStr ''system''), (''content'', JStr (ms_content m))]
      else if ms_role m = Tool then
        JObj [(''role'', JStr ''tool''), (''tool_call_id'', JStr (ms_toolCallId m)),
              (''content'', JStr (ms_content m))]
      else if ms_role m = Assistant \<and> ms_toolCalls m \<noteq> [] then
        JObj [(''role'', JStr ''assistant''),
              (''content'', if ms_content m \<noteq> [] then JStr (ms_content m) else JNull),
              (''tool_calls'', JArr (map openai_call (ms_toolCalls m)))]
      else
        JObj [(''role'', JStr (if ms_role m = Assistant then ''assistant'' else ''user'')),
              (''content'', writeOpenAiContent m)])"

definition openai_tool_request ::
  "(json \<Rightarrow> string) \<Rightarrow> (rat \<Rightarrow> json) \<Rightarrow> openai \<Rightarrow> message list \<Rightarrow> chat_options \<Rightarrow>
     'w tool_registry \<Rightarrow> http_request \<Rightarrow> status \<times> http_request" where
  "openai_tool_request print flt oa messages opts tools out =
     (let d1 = put ''messages'' (JArr (system_entry opts @ map openai_message messages))
            (openai_head flt oa opts);
          d2 = put ''tools'' (JArr (map function_entry tools)) d1
      in openai_send print oa d2 out)"

definition openai_parsed_call :: "json \<Rightarrow> tool_call" where
  "openai_parsed_call c =
     \<lparr>tc_id = str_or [] (obj_get c ''id''),
      tc_name = str_or [] (obj_get (obj_get c ''function'') ''name''),
      tc_arguments = str_or [] (obj_get (obj_get c ''function'') ''arguments'')\<rparr>"

definition openai_parse_tool ::
  "(string \<Rightarrow> json option) \<Rightarrow> http_response \<Rightarrow> agent_turn \<Rightarrow> status \<times> agent_turn" where
  "openai_parse_tool parse resp out =
     (case parse (rs_body resp) of
        None \<Rightarrow> (JsonParseError, out)
      | Some doc \<Rightarrow>
          (let choice0 = arr_first (obj_get doc ''choices''); msg = obj_get choice0 ''message''
           in if \<not> is_obj choice0 then (ProviderError, out)
              else
                (Ok, out\<lparr>at_text := str_or (at_text out) (obj_get msg ''content''),
                  at_calls := at_calls out @
                    map openai_parsed_call (arr_items (obj_get msg ''tool_calls'')),
                  at_finish := str_or (at_finish out) (obj_get choice0 ''finish_reason''),
                  at_input := count_or_0 (obj_get (obj_get doc ''usage'') ''prompt_tokens''),
                  at_output := count_or_0 (obj_get (obj_get doc ''usage'') ''completion_tokens'')\<rparr>)))"

definition openai_provider ::
  "(string \<Rightarrow> json option) \<Rightarrow> (json \<Rightarrow> string) \<Rightarrow> (rat \<Rightarrow> json) \<Rightarrow> openai \<Rightarrow> 'w provider" where
  "openai_provider parse print flt oa =
     \<lparr>pv_name = oa_name oa, pv_secure = ep_secure (oa_endpoint oa),
      pv_buildStructured = openai_structured print flt oa,
      pv_parseStructured = openai_parse_structured parse,
      pv_supportsTools = True,
      pv_buildTool = openai_tool_request print flt oa,
      pv_parseTool = openai_parse_tool parse\<rparr>"

end
