(* ===== verification/Gemini_Provider.thy ===== *)
theory Gemini_Provider
  imports Provider_Common
begin

text \<open>
  The Gemini provider, llm/providers/GeminiProvider.{h,cpp}.
\<close>

record gemini =
  ge_apiKey :: string
  ge_defaultModel :: string

definition new_gemini :: "string \<Rightarrow> gemini" where
  "new_gemini apiKey = \<lparr>ge_apiKey = apiKey, ge_defaultModel = ''gemini-1.5-flash''\<rparr>"

definition gemini_text :: "string \<Rightarrow> json" where
  "gemini_text s = JObj [(''text'', JStr s)]"

definition writeGeminiParts :: "message \<Rightarrow> json" where
  "writeGeminiParts m =
     JArr ((if ms_content m \<noteq> [] \<or> \<not> hasImage m then [gemini_text (ms_content m)] else []) @
           (if hasImage m
            then [JObj [(''inline_data'', JObj [(''mime_type'', JStr (mime_of m)),
                                                (''data'', JStr (ms_imageBase64 m))])]] else []))"

definition gemini_message :: "message \<Rightarrow> json" where
  "gemini_message m =
     JObj [(''role'', JStr (if ms_role m = Assistant then ''model'' else ''user'')),
           (''parts'', writeGeminiParts m)]"

definition gemini_head :: "chat_options \<Rightarrow> message list \<Rightarrow> members" where
  "gemini_head opts messages =
     (let sys = collect_system (co_system opts) messages
      in if sys \<noteq> []
         then [(''systemInstruction'', JObj [(''parts'', JArr [gemini_text sys])])] else [])"

definition gemini_generation :: "(rat \<Rightarrow> json) \<Rightarrow> chat_options \<Rightarrow> members" where
  "gemini_generation flt opts =
     put_sampling flt ''topP'' ''stopSequences'' opts
       [(''maxOutputTokens'', JNat (unat (co_maxTokens opts)))]"

definition gemini_send ::
  "(json \<Rightarrow> string) \<Rightarrow> gemini \<Rightarrow> chat_options \<Rightarrow> members \<Rightarrow> http_request \<Rightarrow> status \<times> http_request"
where
  "gemini_send print ge opts doc out =
     (Ok, (json_post ''generativelanguage.googleapis.com'' 443
        (''/v1beta/models/'' @ model_of (ge_defaultModel ge) opts @ '':generateContent?key='' @
           ge_apiKey ge) out)\<lparr>rq_body := print (JObj doc)\<rparr>)"

definition gemini_structured ::
  "(json \<Rightarrow> string) \<Rightarrow> (rat \<Rightarrow> json) \<Rightarrow> gemini \<Rightarrow> message list \<Rightarrow> chat_options \<Rightarrow>
     response_schema \<Rightarrow> http_request \<Rightarrow> status \<times> http_request" where
  "gemini_structured print flt ge messages opts schema out =
     gemini_send print ge opts
       (gemini_head opts messages @
        [(''contents'', JArr (map gemini_message (filter (\<lambda>m. ms_role m \<noteq> System) messages))),
         (''generationConfig'', JObj (put ''responseSchema'' (JObj (writeSchema schema False []))
            (put ''responseMimeType'' (JStr ''application/json'') (gemini_generation flt opts))))]) out"

definition append_text :: "json \<Rightarrow> string \<Rightarrow> string" where
  "append_text part dst = (case cstr_of (obj_get part ''text'') of None \<Rightarrow> dst | Some t \<Rightarrow> dst @ t)"

definition candidate_parts :: "json \<Rightarrow> json list" where
  "candidate_parts cand = arr_items (obj_get (obj_get cand ''content'') ''parts'')"

definition appendParts :: "json \<Rightarrow> string \<Rightarrow> string" where
  "appendParts cand dst = fold append_text (candidate_parts cand) dst"

definition gemini_parse_structured ::
  "(string \<Rightarrow> json option) \<Rightarrow> http_response \<Rightarrow> string \<Rightarrow> chat_result \<Rightarrow>
     status \<times> string \<times> chat_result" where
  "gemini_parse_structured parse resp jsonOut meta =
     (case parse (rs_body resp) of
        None \<Rightarrow> (JsonParseError, jsonOut, meta)
      | Some doc \<Rightarrow>
          (let cand0 = arr_first (obj_get doc ''candidates'')
           in if \<not> is_obj cand0 then (ProviderError, jsonOut, meta)
              else
                (let txt = appendParts cand0 jsonOut
                 in if txt = [] then (ProviderError, txt, meta)
                    else
                      (Ok, txt,
                       meta\<lparr>cr_finish := str_or (cr_finish meta) (obj_get cand0 ''finishReason''),
                         cr_input := count_or_0 (obj_get (obj_get doc ''usageMetadata'') ''promptTokenCount''),
                         cr_output := count_or_0 (obj_get (obj_get doc ''usageMetadata'') ''candidatesTokenCount'')\<rparr>))))"

section \<open>Tool calling\<close>

definition function_response :: "message \<Rightarrow> json" where
  "function_response tm =
     JObj [(''functionResponse'', JObj [(''name'', JStr (ms_toolName tm)),
              (''response'', JObj [(''result'', JStr (ms_content tm))])])]"

definition function_call :: "(string \<Rightarrow> json option) \<Rightarrow> tool_call \<Rightarrow> json" where
  "function_call parse call =
     JObj [(''functionCall'', JObj [(''name'', JStr (tc_name call)),
                                    (''args'', arguments_doc parse call)])]"

definition gemini_calls :: "(string \<Rightarrow> json option) \<Rightarrow> message \<Rightarrow> json" where
  "gemini_calls parse m =
     JObj [(''role'', JStr ''model''),
           (''parts'', JArr ((if ms_content m \<noteq> [] then [gemini_text (ms_content m)] else []) @
              map (function_call parse) (ms_toolCalls m)))]"

definition gemini_results :: "message list \<Rightarrow> json" where
  "gemini_results ms =
     JObj [(''role'', JStr ''user''), (''parts'', JArr (map function_response ms))]"

fun gemini_contents :: "(string \<Rightarrow> json option) \<Rightarrow> message list \<Rightarrow> json list" where
  "gemini_contents parse [] = []"
| "gemini_contents parse (m # ms) =
     (if ms_role m = System then gemini_contents parse ms
      else if ms_role m = Tool then
        gemini_results (takeWhile (\<lambda>x. ms_role x = Tool) (m # ms)) #
        gemini_contents parse (dropWhile (\<lambda>x. ms_role x = Tool) ms)
      else if ms_role m = Assistant \<and> ms_toolCalls m \<noteq> [] then
        gemini_calls parse m # gemini_contents parse ms
      else gemini_message m # gemini_contents parse ms)"

definition gemini_tool_request ::
  "(string \<Rightarrow> json option) \<Rightarrow> (json \<Rightarrow> string) \<Rightarrow> (rat \<Rightarrow> json) \<Rightarrow> gemini \<Rightarrow> message list \<Rightarrow>
     chat_options \<Rightarrow> 'w tool_registry \<Rightarrow> http_request \<Rightarrow> status \<times> http_request" where
  "gemini_tool_request parse print flt ge messages opts tools out =
     gemini_send print ge opts
       (gemini_head opts messages @
        [(''contents'', JArr (gemini_contents parse messages)),
         (''tools'', JArr [JObj [(''functionDeclarations'',
            JArr (map (\<lambda>t. JObj (tool_members ''parameters'' t)) tools))]]),
         (''generationConfig'', JObj (gemini_generation flt opts))]) out"

text \<open>Gemini matches responses by name; the name is the call's id.\<close>

definition gemini_part :: "(json \<Rightarrow> string) \<Rightarrow> json \<Rightarrow> agent_turn \<Rightarrow> agent_turn" where
  "gemini_part print part out =
     (let out1 = out\<lparr>at_text := append_text part (at_text out)\<rparr>;
          fc = obj_get part ''functionCall''; nm = str_or [] (obj_get fc ''name'')
      in if is_obj fc then
           out1\<lparr>at_calls := at_calls out1 @
             [\<lparr>tc_id = nm, tc_name = nm, tc_arguments = print_obj_or print [] (obj_get fc ''args'')\<rparr>]\<rparr>
         else out1)"

definition gemini_parse_tool ::
  "(string \<Rightarrow> json option) \<Rightarrow> (json \<Rightarrow> string) \<Rightarrow> http_response \<Rightarrow> agent_turn \<Rightarrow> status \<times> agent_turn"
where
  "gemini_parse_tool parse print resp out =
     (case parse (rs_body resp) of
        None \<Rightarrow> (JsonParseError, out)
      | Some doc \<Rightarrow>
          (let cand0 = arr_first (obj_get doc ''candidates'')
           in if \<not> is_obj cand0 then (ProviderError, out)
              else
                (let out1 = fold (gemini_part print) (candidate_parts cand0) out
                 in (Ok, out1\<lparr>at_finish := str_or (at_finish out1) (obj_get cand0 ''finishReason''),
                      at_input := count_or_0 (obj_get (obj_get doc ''usageMetadata'') ''promptTokenCount''),
                      at_output := count_or_0 (obj_get (obj_get doc ''usageMetadata'') ''candidatesTokenCount'')\<rparr>))))"

definition gemini_provider ::
  "(string \<Rightarrow> json option) \<Rightarrow> (json \<Rightarrow> string) \<Rightarrow> (rat \<Rightarrow> json) \<Rightarrow> gemini \<Rightarrow> 'w provider" where
  "gemini_provider parse print flt ge =
     \<lparr>pv_name = ''gemini'', pv_secure = True,
      pv_buildStructured = gemini_structured print flt ge,
      pv_parseStructured = gemini_parse_structured parse,
      pv_supportsTools = True,
      pv_buildTool = gemini_tool_request parse print flt ge,
      pv_parseTool = gemini_parse_tool parse print\<rparr>"

end
