(* ===== verification/Ollama_Provider.thy ===== *)
theory Ollama_Provider
  imports Provider_Common
begin

text \<open>
  The Ollama chat provider, llm/providers/OllamaProvider.{h,cpp}.
\<close>

record ollama =
  ol_host :: string
  ol_port :: u16
  ol_defaultModel :: string
  ol_secure :: bool

definition new_ollama :: ollama where
  "new_ollama =
     \<lparr>ol_host = ''127.0.0.1'', ol_port = 11434, ol_defaultModel = ''llama3.2'', ol_secure = False\<rparr>"

definition ollamaRole :: "role \<Rightarrow> string" where
  "ollamaRole r =
     (case r of System \<Rightarrow> ''system'' | User \<Rightarrow> ''user'' | Assistant \<Rightarrow> ''assistant'' | Tool \<Rightarrow> ''tool'')"

definition ollama_head :: "ollama \<Rightarrow> chat_options \<Rightarrow> members" where
  "ollama_head ol opts =
     [(''model'', JStr (model_of (ol_defaultModel ol) opts)), (''stream'', JBool False)]"

definition ollama_system :: "chat_options \<Rightarrow> json list" where
  "ollama_system opts =
     (if co_system opts \<noteq> []
      then [JObj [(''role'', JStr ''system''), (''content'', JStr (co_system opts))]] else [])"

definition ollama_images :: "message \<Rightarrow> members" where
  "ollama_images m =
     (if hasImage m then [(''images'', JArr [JStr (ms_imageBase64 m)])] else [])"

definition ollama_plain :: "message \<Rightarrow> json" where
  "ollama_plain m =
     JObj ([(''role'', JStr (ollamaRole (ms_role m))), (''content'', JStr (ms_content m))] @
           ollama_images m)"

definition ollama_options :: "(rat \<Rightarrow> json) \<Rightarrow> chat_options \<Rightarrow> json" where
  "ollama_options flt opts =
     JObj (put_sampling flt ''top_p'' ''stop'' opts
       [(''num_predict'', JNat (unat (co_maxTokens opts)))])"

definition ollama_send ::
  "(json \<Rightarrow> string) \<Rightarrow> ollama \<Rightarrow> members \<Rightarrow> http_request \<Rightarrow> status \<times> http_request" where
  "ollama_send print ol doc out =
     (Ok, (json_post (ol_host ol) (ol_port ol) ''/api/chat'' out)\<lparr>rq_body := print (JObj doc)\<rparr>)"

definition ollama_structured ::
  "(json \<Rightarrow> string) \<Rightarrow> (rat \<Rightarrow> json) \<Rightarrow> ollama \<Rightarrow> message list \<Rightarrow> chat_options \<Rightarrow>
     response_schema \<Rightarrow> http_request \<Rightarrow> status \<times> http_request" where
  "ollama_structured print flt ol messages opts schema out =
     ollama_send print ol
       (ollama_head ol opts @
        [(''messages'', JArr (ollama_system opts @ map ollama_plain messages)),
         (''format'', JObj (writeSchema schema True [])),
         (''options'', ollama_options flt opts)]) out"

definition ollama_parse_structured ::
  "(string \<Rightarrow> json option) \<Rightarrow> http_response \<Rightarrow> string \<Rightarrow> chat_result \<Rightarrow>
     status \<times> string \<times> chat_result" where
  "ollama_parse_structured parse resp jsonOut meta =
     (case parse (rs_body resp) of
        None \<Rightarrow> (JsonParseError, jsonOut, meta)
      | Some doc \<Rightarrow>
          (case cstr_of (obj_get (obj_get doc ''message'') ''content'') of
             None \<Rightarrow> (ProviderError, jsonOut, meta)
           | Some content \<Rightarrow>
               (Ok, content,
                meta\<lparr>cr_finish := str_or (cr_finish meta) (obj_get doc ''done_reason''),
                  cr_input := count_or_0 (obj_get doc ''prompt_eval_count''),
                  cr_output := count_or_0 (obj_get doc ''eval_count'')\<rparr>)))"

section \<open>Tool calling\<close>

definition ollama_call :: "(string \<Rightarrow> json option) \<Rightarrow> tool_call \<Rightarrow> json" where
  "ollama_call parse call =
     JObj [(''function'', JObj [(''name'', JStr (tc_name call)),
                                (''arguments'', arguments_doc parse call)])]"

definition ollama_message :: "(string \<Rightarrow> json option) \<Rightarrow> message \<Rightarrow> json" where
  "ollama_message parse m =
     (if ms_role m = Tool then
        JObj ([(''role'', JStr ''tool''), (''content'', JStr (ms_content m))] @
              (if ms_toolName m \<noteq> [] then [(''tool_name'', JStr (ms_toolName m))] else []))
      else if ms_role m = Assistant \<and> ms_toolCalls m \<noteq> [] then
        JObj [(''role'', JStr ''assistant''), (''content'', JStr (ms_content m)),
              (''tool_calls'', JArr (map (ollama_call parse) (ms_toolCalls m)))]
      else
        JObj ([(''role'', JStr (if ms_role m = Assistant then ''assistant'' else ''user'')),
               (''content'', JStr (ms_content m))] @ ollama_images m))"

definition ollama_tool_request ::
  "(string \<Rightarrow> json option) \<Rightarrow> (json \<Rightarrow> string) \<Rightarrow> (rat \<Rightarrow> json) \<Rightarrow> ollama \<Rightarrow> message list \<Rightarrow>
     chat_options \<Rightarrow> 'w tool_registry \<Rightarrow> http_request \<Rightarrow> status \<times> http_request" where
  "ollama_tool_request parse print flt ol messages opts tools out =
     ollama_send print ol
       (ollama_head ol opts @
        [(''messages'', JArr (ollama_system opts @ map (ollama_message parse) messages)),
         (''tools'', JArr (map function_entry tools)),
         (''options'', ollama_options flt opts)]) out"

text \<open>Ollama gives no call id; the name stands in for it.\<close>

definition ollama_parsed_call :: "(json \<Rightarrow> string) \<Rightarrow> json \<Rightarrow> tool_call" where
  "ollama_parsed_call print c =
     (let fn = obj_get c ''function''; nm = str_or [] (obj_get fn ''name'')
      in \<lparr>tc_id = nm, tc_name = nm, tc_arguments = print_obj_or print [] (obj_get fn ''arguments'')\<rparr>)"

definition ollama_parse_tool ::
  "(string \<Rightarrow> json option) \<Rightarrow> (json \<Rightarrow> string) \<Rightarrow> http_response \<Rightarrow> agent_turn \<Rightarrow> status \<times> agent_turn"
where
  "ollama_parse_tool parse print resp out =
     (case parse (rs_body resp) of
        None \<Rightarrow> (JsonParseError, out)
      | Some doc \<Rightarrow>
          (let msg = obj_get doc ''message''
           in (Ok, out\<lparr>at_text := str_or (at_text out) (obj_get msg ''content''),
                at_calls := at_calls out @
                  map (ollama_parsed_call print) (arr_items (obj_get msg ''tool_calls'')),
                at_finish := str_or (at_finish out) (obj_get doc ''done_reason''),
                at_input := count_or_0 (obj_get doc ''prompt_eval_count''),
                at_output := count_or_0 (obj_get doc ''eval_count'')\<rparr>)))"

definition ollama_provider ::
  "(string \<Rightarrow> json option) \<Rightarrow> (json \<Rightarrow> string) \<Rightarrow> (rat \<Rightarrow> json) \<Rightarrow> ollama \<Rightarrow> 'w provider" where
  "ollama_provider parse print flt ol =
     \<lparr>pv_name = ''ollama'', pv_secure = ol_secure ol,
      pv_buildStructured = ollama_structured print flt ol,
      pv_parseStructured = ollama_parse_structured parse,
      pv_supportsTools = True,
      pv_buildTool = ollama_tool_request parse print flt ol,
      pv_parseTool = ollama_parse_tool parse print\<rparr>"

end
