(* ===== verification/Provider_Properties.thy ===== *)
theory Provider_Properties
  imports Anthropic_Provider OpenAI_Provider Gemini_Provider Ollama_Provider Llm_Answers
begin

text \<open>
  Properties of the providers: where the API key goes, that a model's tool calls are echoed as the
  model made them, and that the agent loop's transcript is serialized with every call answered.
\<close>

section \<open>The API key\<close>

lemma header_set_twice: "header_set (header_set hs a v) a w = header_set hs a w"
  by (induction hs) (auto simp: headerNameEquals_map)

lemma header_set_under:
  "\<not> headerNameEquals a b \<Longrightarrow>
     header_set (header_set (header_set hs a v) b u) a w = header_set (header_set hs a w) b u"
  by (induction hs) (auto simp: headerNameEquals_map header_set_twice)

lemma key_not_version: "\<not> headerNameEquals ''x-api-key'' ''anthropic-version''"
  by code_simp

lemma anthropic_send_key:
  "setHeader (snd (anthropic_send print (an\<lparr>an_apiKey := k\<rparr>) doc out)) ''x-api-key'' k' =
     snd (anthropic_send print (an\<lparr>an_apiKey := k'\<rparr>) doc out)"
  by (simp add: anthropic_send_def setHeader_def json_post_def header_set_under [OF key_not_version])

lemma openai_send_key:
  "setHeader (snd (openai_send print (oa\<lparr>oa_apiKey := c # k\<rparr>) doc out)) (ep_authHeader (oa_endpoint oa))
       (ep_authPrefix (oa_endpoint oa) @ k') =
     snd (openai_send print (oa\<lparr>oa_apiKey := k'\<rparr>) doc out) \<or> k' = []"
  by (cases k') (simp_all add: openai_send_def setHeader_def json_post_def header_set_twice Let_def)

lemma gemini_send_key:
  "snd (gemini_send print (ge\<lparr>ge_apiKey := k'\<rparr>) opts doc out) =
     (snd (gemini_send print (ge\<lparr>ge_apiKey := k\<rparr>) opts doc out))
       \<lparr>rq_path := ''/v1beta/models/'' @ model_of (ge_defaultModel ge) opts @
          '':generateContent?key='' @ k'\<rparr>"
  by (simp add: gemini_send_def json_post_def setHeader_def)

text \<open>C32: the API key goes to one place: for Anthropic and OpenAI the authentication header, for Gemini
  the end of the path.  Two requests that differ only in the key differ nowhere else, the body
  included.\<close>

theorem api_key_confined:
  "setHeader (snd (anthropic_structured print flt (an\<lparr>an_apiKey := k\<rparr>) messages opts schema out))
       ''x-api-key'' k' =
     snd (anthropic_structured print flt (an\<lparr>an_apiKey := k'\<rparr>) messages opts schema out) \<and>
   setHeader (snd (anthropic_tool_request parse print flt (an\<lparr>an_apiKey := k\<rparr>) messages opts tools out))
       ''x-api-key'' k' =
     snd (anthropic_tool_request parse print flt (an\<lparr>an_apiKey := k'\<rparr>) messages opts tools out) \<and>
   setHeader (snd (openai_structured print flt (oa\<lparr>oa_apiKey := c # k\<rparr>) messages opts schema out))
       (ep_authHeader (oa_endpoint oa)) (ep_authPrefix (oa_endpoint oa) @ c' # k') =
     snd (openai_structured print flt (oa\<lparr>oa_apiKey := c' # k'\<rparr>) messages opts schema out) \<and>
   setHeader (snd (openai_tool_request print flt (oa\<lparr>oa_apiKey := c # k\<rparr>) messages opts tools out))
       (ep_authHeader (oa_endpoint oa)) (ep_authPrefix (oa_endpoint oa) @ c' # k') =
     snd (openai_tool_request print flt (oa\<lparr>oa_apiKey := c' # k'\<rparr>) messages opts tools out) \<and>
   snd (gemini_structured print flt (ge\<lparr>ge_apiKey := k'\<rparr>) messages opts schema out) =
     (snd (gemini_structured print flt (ge\<lparr>ge_apiKey := k\<rparr>) messages opts schema out))
       \<lparr>rq_path := ''/v1beta/models/'' @ model_of (ge_defaultModel ge) opts @
          '':generateContent?key='' @ k'\<rparr> \<and>
   snd (gemini_tool_request parse print flt (ge\<lparr>ge_apiKey := k'\<rparr>) messages opts tools out) =
     (snd (gemini_tool_request parse print flt (ge\<lparr>ge_apiKey := k\<rparr>) messages opts tools out))
       \<lparr>rq_path := ''/v1beta/models/'' @ model_of (ge_defaultModel ge) opts @
          '':generateContent?key='' @ k'\<rparr>"
proof -
  have "anthropic_head flt (an\<lparr>an_apiKey := x\<rparr>) = anthropic_head flt an"
    "openai_head flt (oa\<lparr>oa_apiKey := x\<rparr>) = openai_head flt oa" for x
    by (simp_all add: fun_eq_iff anthropic_head_def openai_head_def)
  then show ?thesis
    using openai_send_key [where k' = "c' # k'"]
    by (simp add: anthropic_structured_def anthropic_tool_request_def anthropic_send_key Let_def
        openai_structured_def openai_tool_request_def gemini_structured_def gemini_tool_request_def
        gemini_send_key [where k = k and k' = k'])
qed

section \<open>Echoed tool calls\<close>

definition clean_text :: "string \<Rightarrow> bool" where
  "clean_text s \<longleftrightarrow> c_str s = s"

text \<open>C31: the tool call a provider reads from a response is written back into the next request as the
  very block the model sent, whatever the API's shape, as long as the JSON library reads back the
  arguments it printed.\<close>

theorem tool_calls_echoed:
  assumes "clean_text i" "clean_text nm" "clean_text args" "args \<noteq> []"
    and "print (JObj kvs) \<noteq> []" "parse (print (JObj kvs)) = Some (JObj kvs)"
  shows "(\<exists>call. at_calls (anthropic_block print
              (JObj [(''type'', JStr ''tool_use''), (''id'', JStr i), (''name'', JStr nm),
                     (''input'', JObj kvs)]) turn) = at_calls turn @ [call] \<and>
            tool_use_block parse call =
              JObj [(''type'', JStr ''tool_use''), (''id'', JStr i), (''name'', JStr nm),
                    (''input'', JObj kvs)]) \<and>
    openai_call (openai_parsed_call
        (JObj [(''id'', JStr i), (''type'', JStr ''function''),
               (''function'', JObj [(''name'', JStr nm), (''arguments'', JStr args)])])) =
      JObj [(''id'', JStr i), (''type'', JStr ''function''),
            (''function'', JObj [(''name'', JStr nm), (''arguments'', JStr args)])] \<and>
    (\<exists>call. at_calls (gemini_part print
              (JObj [(''functionCall'', JObj [(''name'', JStr nm), (''args'', JObj kvs)])]) turn) =
              at_calls turn @ [call] \<and>
            function_call parse call =
              JObj [(''functionCall'', JObj [(''name'', JStr nm), (''args'', JObj kvs)])]) \<and>
    ollama_call parse (ollama_parsed_call print
        (JObj [(''function'', JObj [(''name'', JStr nm), (''arguments'', JObj kvs)])])) =
      JObj [(''function'', JObj [(''name'', JStr nm), (''arguments'', JObj kvs)])]"
proof -
  have "c_str ''tool_use'' = ''tool_use''"
    by (simp add: c_str_def char_code_def)
  then show ?thesis
    using assms
    by (simp add: anthropic_block_def tool_use_block_def openai_call_def openai_parsed_call_def
        gemini_part_def function_call_def ollama_call_def ollama_parsed_call_def Let_def str_or_def
        print_obj_or_def arguments_doc_def clean_text_def append_text_def)
qed

theorem tool_calls_echoed_witness:
  "ollama_call (\<lambda>_. Some (JObj [(''x'', JInt 1)])) (ollama_parsed_call (\<lambda>_. ''{}'')
     (JObj [(''function'', JObj [(''name'', JStr ''led''), (''arguments'', JObj [(''x'', JInt 1)])])])) =
   JObj [(''function'', JObj [(''name'', JStr ''led''), (''arguments'', JObj [(''x'', JInt 1)])])]"
  using tool_calls_echoed [of "''1''" "''led''" "''{}''" "\<lambda>_. ''{}''" "[(''x'', JInt 1)]"
      "\<lambda>_. Some (JObj [(''x'', JInt 1)])"]
  by (simp add: clean_text_def c_str_def char_code_def)

section \<open>Answered calls on the wire\<close>

text \<open>The ids of the \<open>tool_use\<close> and \<open>tool_result\<close> blocks of a serialized message.\<close>

definition use_ids :: "json \<Rightarrow> json list" where
  "use_ids m = map (\<lambda>b. obj_get b ''id'') (filter is_tool_use (arr_items (obj_get m ''content'')))"

definition result_ids :: "json \<Rightarrow> json list" where
  "result_ids m = map (\<lambda>b. obj_get b ''tool_use_id'') (arr_items (obj_get m ''content''))"

text \<open>What the API asks for: the message after one with calls is their results, in order.\<close>

fun calls_answered :: "json list \<Rightarrow> bool" where
  "calls_answered [] \<longleftrightarrow> True"
| "calls_answered [m] \<longleftrightarrow> use_ids m = []"
| "calls_answered (m # r # ms) \<longleftrightarrow>
     (use_ids m \<noteq> [] \<longrightarrow> result_ids r = use_ids m) \<and> calls_answered (r # ms)"

lemma calls_answered_append:
  "calls_answered xs \<Longrightarrow> calls_answered ys \<Longrightarrow> calls_answered (xs @ ys)"
proof (induction xs rule: calls_answered.induct)
  case (2 m)
  then show ?case
    by (cases ys) auto
qed auto

lemma anthropic_messages_append:
  "ys = [] \<or> ms_role (hd ys) \<noteq> Tool \<Longrightarrow>
     anthropic_messages parse (xs @ ys) = anthropic_messages parse xs @ anthropic_messages parse ys"
proof (induction parse xs rule: anthropic_messages.induct)
  case (2 parse m ms)
  have t: "takeWhile (\<lambda>x. ms_role x = Tool) (ms @ ys) = takeWhile (\<lambda>x. ms_role x = Tool) ms"
    "dropWhile (\<lambda>x. ms_role x = Tool) (ms @ ys) = dropWhile (\<lambda>x. ms_role x = Tool) ms @ ys"
    using "2.prems" by (cases ys; induction ms; simp)+
  show ?case
    using 2 by (simp add: t)
qed simp

lemma assistant_calls_ids:
  "use_ids (assistant_calls parse m) = map (\<lambda>c. JStr (tc_id c)) (ms_toolCalls m)"
  by (induction "ms_toolCalls m")
    (auto simp: use_ids_def assistant_calls_def is_tool_use_def tool_use_block_def text_block_def
      c_str_def char_code_def comp_def)

lemma tool_results_ids:
  "use_ids (tool_results ms) = []" "result_ids (tool_results ms) = map (\<lambda>m. JStr (ms_toolCallId m)) ms"
  by (auto simp: use_ids_def result_ids_def tool_results_def is_tool_use_def tool_result_block_def
      c_str_def char_code_def comp_def)

lemma answers_roles: "list_all2 answers calls results \<Longrightarrow> \<forall>m\<in>set results. ms_role m = Tool"
  by (induction rule: list_all2_induct) (auto simp: answers_def)

lemma answers_ids:
  "list_all2 answers calls results \<Longrightarrow>
     map (\<lambda>m. JStr (ms_toolCallId m)) results = map (\<lambda>c. JStr (tc_id c)) calls"
  by (induction rule: list_all2_induct) (auto simp: answers_def)

lemma round_messages:
  assumes "ms_role a = Assistant" "ms_toolCalls a = calls" "calls \<noteq> []" "list_all2 answers calls results"
  shows "anthropic_messages parse (a # results) = [assistant_calls parse a, tool_results results]"
proof -
  obtain r rs where r: "results = r # rs"
    using assms(3,4) by (cases results) auto
  have t: "takeWhile (\<lambda>x. ms_role x = Tool) rs = rs" "dropWhile (\<lambda>x. ms_role x = Tool) rs = []" "ms_role r = Tool"
    using answers_roles [OF assms(4)] r by (auto simp: takeWhile_eq_all_conv)
  then show ?thesis
    using assms(1-3) r by (simp add: t)
qed

text \<open>C29: serialized for Anthropic, a transcript of the agent loop satisfies the API's rule: every
  message with tool calls is directly followed by one message holding the results of exactly those
  calls, in order, provided the caller's own messages do.\<close>

theorem transcript_answers_on_the_wire:
  assumes "transcript base n ms" "calls_answered (anthropic_messages parse base)"
  shows "calls_answered (anthropic_messages parse ms)"
  using assms
proof (induction rule: transcript.induct)
  case (round n ms a calls results)
  have "anthropic_messages parse (ms @ a # results) =
      anthropic_messages parse ms @ [assistant_calls parse a, tool_results results]"
    using anthropic_messages_append [of "a # results" parse ms] round_messages [OF round(2-5)] round(2)
    by simp
  moreover have "calls_answered [assistant_calls parse a, tool_results results]"
    using round(3,5) answers_ids by (simp add: assistant_calls_ids tool_results_ids)
  ultimately show ?case
    using calls_answered_append [OF round(6) [OF round(7)]] by simp
qed simp

theorem transcript_answers_on_the_wire_witness:
  "calls_answered (anthropic_messages (\<lambda>_. None)
     [user_message ''hi'',
      (assistant_message [])\<lparr>ms_toolCalls := [\<lparr>tc_id = ''7'', tc_name = ''led'', tc_arguments = []\<rparr>]\<rparr>,
      toolResult \<lparr>tc_id = ''7'', tc_name = ''led'', tc_arguments = []\<rparr> (tool_ok ''on'')])"
proof -
  let ?call = "\<lparr>tc_id = ''7'', tc_name = ''led'', tc_arguments = []\<rparr>"
  have "transcript [user_message ''hi''] (Suc 0)
      ([user_message ''hi''] @ (assistant_message [])\<lparr>ms_toolCalls := [?call]\<rparr> #
        [toolResult ?call (tool_ok ''on'')])"
    by (rule transcript.round [OF transcript.start, where calls = "[?call]"])
      (simp_all add: assistant_message_def new_message_def answers_def toolResult_def)
  from transcript_answers_on_the_wire [OF this, of "\<lambda>_. None"] show ?thesis
    by (simp add: user_message_def new_message_def anthropic_message_def writeAnthropicContent_def
        hasImage_def use_ids_def)
qed

section \<open>A system message in the history\<close>

text \<open>Ollama's tool request turns a system message of the history into a user message; its
  structured request, and OpenAI's, keep the role.\<close>

lemma ollama_system_becomes_user:
  "obj_get (ollama_message parse (new_message System s)) ''role'' = JStr ''user'' \<and>
   obj_get (ollama_plain (new_message System s)) ''role'' = JStr ''system''"
  by (simp add: ollama_message_def ollama_plain_def new_message_def ollamaRole_def)

end
