(* ===== verification/Provisioning.thy ===== *)
theory Provisioning
  imports Secret_Store Core_Errors
begin

text \<open>
  Provisioning over a text line, provisioning/ProvisioningService.{h,cpp}, and the serial front end
  that assembles the lines, provisioning/SerialProvisioner.h.  The service works on any secret
  store; the serial stream is the list of characters it delivers, and what is printed is a list of
  lines.
\<close>

section \<open>The service\<close>

record prov_field =
  pf_key :: string
  pf_description :: string
  pf_secret :: bool

definition prov_blank :: "char \<Rightarrow> bool" where
  "prov_blank c \<longleftrightarrow> c = CHR '' '' \<or> c = CHR 0x09 \<or> c = CHR 0x0D \<or> c = CHR 0x0A"

definition prov_trim :: "string \<Rightarrow> string" where
  "prov_trim s = trim_by prov_blank prov_blank s"

definition addField :: "string \<Rightarrow> string \<Rightarrow> bool \<Rightarrow> prov_field list \<Rightarrow> prov_field list" where
  "addField key description secret fs =
     fs @ [\<lparr>pf_key = key, pf_description = description, pf_secret = secret\<rparr>]"

definition findField :: "prov_field list \<Rightarrow> string \<Rightarrow> prov_field option" where
  "findField fs key = find (\<lambda>f. pf_key f = key) fs"

definition help_text :: "prov_field list \<Rightarrow> string" where
  "help_text fs =
     ''commands: help | set <key> <value> | status | clear <key> | done'' @ [LF] @ ''fields:'' @
     concat (map (\<lambda>f. [LF] @ ''  '' @ pf_key f @ '' - '' @ pf_description f @
       (if pf_secret f then '' (secret)'' else [])) fs)"

definition status_text :: "'s secret_ops \<Rightarrow> prov_field list \<Rightarrow> 's \<Rightarrow> string" where
  "status_text ops fs s =
     ''field status:'' @
     concat (map (\<lambda>f. [LF] @ ''  '' @ pf_key f @ '': '' @
       (if ss_has ops (pf_key f) s then ''set'' else ''unset'')) fs)"

definition usage_set :: string where
  "usage_set = ''usage: set <key> <value>''"

definition handle_set ::
  "'s secret_ops \<Rightarrow> prov_field list \<Rightarrow> string \<Rightarrow> 's \<Rightarrow> string \<times> 's" where
  "handle_set ops fs rest s =
     (case str_find_char rest (CHR '' '') 0 of
        None \<Rightarrow> (usage_set, s)
      | Some sp2 \<Rightarrow>
          (let key = substr rest 0 sp2; value = prov_trim (substr_from rest (sp2 + 1))
           in if value = [] then (usage_set, s)
              else if findField fs key = None then (''unknown field: '' @ key, s)
              else
                (case ss_set ops key value s of (e, s') \<Rightarrow>
                   if e \<noteq> Ok then (''error: '' @ errorString e, s')
                   else (''ok: '' @ key @ '' set'', s'))))"

definition handle_clear ::
  "'s secret_ops \<Rightarrow> prov_field list \<Rightarrow> string \<Rightarrow> 's \<Rightarrow> string \<times> 's" where
  "handle_clear ops fs rest s =
     (if rest = [] then (''usage: clear <key>'', s)
      else if findField fs rest = None then (''unknown field: '' @ rest, s)
      else (''cleared: '' @ rest, snd (ss_remove ops rest s)))"

definition split_command :: "string \<Rightarrow> string \<times> string" where
  "split_command line =
     (case str_find_char line (CHR '' '') 0 of
        None \<Rightarrow> (line, [])
      | Some sp \<Rightarrow> (substr line 0 sp, prov_trim (substr_from line (sp + 1))))"

definition handleCommand ::
  "'s secret_ops \<Rightarrow> prov_field list \<Rightarrow> string \<Rightarrow> 's \<Rightarrow> string \<times> 's" where
  "handleCommand ops fs lineIn s =
     (let line = prov_trim lineIn
      in if line = [] then ([], s)
         else
           (case split_command line of (cmd, rest) \<Rightarrow>
              if cmd = ''help'' then (help_text fs, s)
              else if cmd = ''status'' then (status_text ops fs s, s)
              else if cmd = ''set'' then handle_set ops fs rest s
              else if cmd = ''clear'' then handle_clear ops fs rest s
              else if cmd = ''done'' then (''provisioning complete'', s)
              else (''unknown command: '' @ cmd @ '' (try help)'', s)))"

section \<open>The serial front end\<close>

definition kMaxLine :: nat where
  "kMaxLine = 512"

record 's serial =
  sp_store :: 's
  sp_buf :: string
  sp_out :: "string list"

definition serial_begin :: "'s serial \<Rightarrow> 's serial" where
  "serial_begin p = p\<lparr>sp_out := sp_out p @ [''EdgeLLM provisioning ready. Type '' @ [CHR 0x27] @ ''help'' @ [CHR 0x27] @ ''.'']\<rparr>"

definition serial_char ::
  "'s secret_ops \<Rightarrow> prov_field list \<Rightarrow> char \<Rightarrow> 's serial \<Rightarrow> 's serial" where
  "serial_char ops fs c p =
     (if c = LF then
        (case handleCommand ops fs (sp_buf p) (sp_store p) of (response, s') \<Rightarrow>
           p\<lparr>sp_store := s', sp_buf := [],
             sp_out := (if response \<noteq> [] then sp_out p @ [c_str response] else sp_out p)\<rparr>)
      else if c \<noteq> CR then
        (if length (sp_buf p) < kMaxLine then p\<lparr>sp_buf := sp_buf p @ [c]\<rparr> else p)
      else p)"

text \<open>\<open>poll\<close> on the characters that are available.\<close>

fun poll :: "'s secret_ops \<Rightarrow> prov_field list \<Rightarrow> string \<Rightarrow> 's serial \<Rightarrow> 's serial" where
  "poll ops fs [] p = p"
| "poll ops fs (c # cs) p = poll ops fs cs (serial_char ops fs c p)"

section \<open>Properties\<close>

lemma findField_None: "findField fs k = None \<longleftrightarrow> k \<notin> pf_key ` set fs"
  by (auto simp: findField_def find_None_iff)

lemma poll_append: "poll ops fs (xs @ ys) p = poll ops fs ys (poll ops fs xs p)"
  by (induction xs arbitrary: p) simp_all

text \<open>Typing reaches the store through \<open>set\<close> and \<open>remove\<close> only.\<close>

lemma poll_preserves:
  assumes "\<And>k v s. Q s \<Longrightarrow> Q (snd (ss_set ops k v s))" "\<And>k s. Q s \<Longrightarrow> Q (snd (ss_remove ops k s))"
  shows "Q (sp_store p) \<Longrightarrow> Q (sp_store (poll ops fs cs p))"
proof (induction cs arbitrary: p)
  case (Cons c cs)
  have set: "Q (snd (handle_set ops fs rest s))" if "Q s" for rest s
    using that assms(1) [OF that]
    by (auto simp: handle_set_def Let_def split: option.split prod.split) (metis snd_conv)+
  have "Q (snd (handleCommand ops fs line s))" if "Q s" for line s
    using that set [OF that] assms(2) [OF that]
    by (auto simp: handleCommand_def Let_def handle_clear_def split: prod.split)
  from this [OF Cons.prems, of "sp_buf p"] Cons.prems have "Q (sp_store (serial_char ops fs c p))"
    by (auto simp: serial_char_def split: prod.splits)
  then show ?case
    using Cons.IH by simp
qed simp

context secret_store
begin

text \<open>What a command may do to a lawful store: set or remove declared keys.\<close>

lemma handleCommand_declared:
  assumes "inv s" "handleCommand ops fs line s = (r, s')"
  shows "inv s' \<and> (\<forall>k. k \<notin> pf_key ` set fs \<longrightarrow> view s' k = view s k)"
proof -
  obtain cmd rest where c: "split_command (prov_trim line) = (cmd, rest)"
    by fastforce
  consider (same) "s' = s" | (set) "handle_set ops fs rest s = (r, s')"
    | (clear) "handle_clear ops fs rest s = (r, s')"
    using assms(2) c by (auto simp: handleCommand_def Let_def split: if_splits)
  then show ?thesis
  proof cases
    case set
    then consider "s' = s" | key v where "findField fs key \<noteq> None" "s' = snd (ss_set ops key v s)"
      by (auto simp: handle_set_def Let_def split: option.splits if_splits prod.splits) (metis snd_conv)+
    then show ?thesis
      using assms(1) by cases (auto simp: findField_None set_inv view_set)
  next
    case clear
    then show ?thesis
      using assms(1)
      by (auto simp: handle_clear_def findField_None remove_inv view_remove split: if_splits)
  qed (use assms(1) in simp)
qed

lemma poll_declared:
  assumes "inv (sp_store p)"
  shows "inv (sp_store (poll ops fs cs p)) \<and>
    (\<forall>k. k \<notin> pf_key ` set fs \<longrightarrow> view (sp_store (poll ops fs cs p)) k = view (sp_store p) k)"
  using assms
proof (induction cs arbitrary: p)
  case (Cons c cs)
  have "inv (sp_store (serial_char ops fs c p)) \<and>
      (\<forall>k. k \<notin> pf_key ` set fs \<longrightarrow> view (sp_store (serial_char ops fs c p)) k = view (sp_store p) k)"
    using Cons.prems handleCommand_declared by (auto simp: serial_char_def split: prod.splits)
  then show ?case
    using Cons.IH [of "serial_char ops fs c p"] by simp
qed simp

end

text \<open>whatever is typed on the serial line, over any lawful secret store, only keys the sketch
  declared can change.\<close>

theorem only_declared_fields_change:
  assumes "secret_store ops view ok" "ok (sp_store p)" "k \<notin> pf_key ` set fs"
  shows "view (sp_store (poll ops fs cs p)) k = view (sp_store p) k"
  using secret_store.poll_declared [OF assms(1,2)] assms(3) by simp

definition wifi_fields :: "prov_field list" where
  "wifi_fields = addField ''pass'' ''WiFi password'' True []"

definition fresh_serial :: "memory_store serial" where
  "fresh_serial = \<lparr>sp_store = mem_empty, sp_buf = [], sp_out = []\<rparr>"

lemma wifi_session:
  "items (sp_store (poll memory_secret_store wifi_fields (''set pass k3y'' @ [LF] @ ''set other x'' @ [LF]) fresh_serial)) =
     [(''pass'', ''k3y'')]"
  "sp_out (poll memory_secret_store wifi_fields (''set pass k3y'' @ [LF] @ ''set other x'' @ [LF]) fresh_serial) =
     [''ok: pass set'', ''unknown field: other'']"
  by code_simp+

theorem only_declared_fields_change_witness:
  "mem_view (sp_store (poll memory_secret_store wifi_fields
      (''set pass k3y'' @ [LF] @ ''set other x'' @ [LF]) fresh_serial)) ''other'' = None"
  by (rule only_declared_fields_change [OF mem.secret_store_axioms, THEN trans])
    (simp_all add: fresh_serial_def wifi_fields_def addField_def mem_view_def mem_inv_def mem_empty_def)

lemma serial_line:
  "LF \<notin> set cs \<Longrightarrow> CR \<notin> set cs \<Longrightarrow> length (sp_buf p) \<le> kMaxLine \<Longrightarrow>
     poll ops fs (cs @ rest) p = poll ops fs rest (p\<lparr>sp_buf := take kMaxLine (sp_buf p @ cs)\<rparr>)"
proof (induction cs arbitrary: p)
  case (Cons c cs)
  then have "c \<noteq> LF" "c \<noteq> CR"
    by auto
  then have step: "serial_char ops fs c p =
      (if length (sp_buf p) < kMaxLine then p\<lparr>sp_buf := sp_buf p @ [c]\<rparr> else p)"
    by (simp add: serial_char_def)
  show ?case
  proof (cases "length (sp_buf p) < kMaxLine")
    case True
    then obtain m where "kMaxLine - length (sp_buf p) = Suc m"
      by (metis Suc_diff_Suc)
    then show ?thesis
      using True step Cons.IH [of "p\<lparr>sp_buf := sp_buf p @ [c]\<rparr>"] Cons.prems by simp
  next
    case False
    then show ?thesis
      using step Cons.IH [of p] Cons.prems by simp
  qed
qed simp

definition bare_word :: "string \<Rightarrow> bool" where
  "bare_word k \<longleftrightarrow> k \<noteq> [] \<and> (\<forall>c\<in>set k. \<not> prov_blank c)"

definition trimmed :: "string \<Rightarrow> bool" where
  "trimmed v \<longleftrightarrow> v \<noteq> [] \<and> \<not> prov_blank (hd v) \<and> \<not> prov_blank (last v)"

lemma bare_word_space: "bare_word k \<Longrightarrow> CHR '' '' \<notin> set k"
  by (auto simp: bare_word_def prov_blank_def)

lemma prov_trim_id: "trimmed s \<Longrightarrow> prov_trim s = s"
  by (simp add: prov_trim_def trimmed_def trim_by_id)

lemma find_space: "CHR '' '' \<notin> set k \<Longrightarrow> str_find_char (k @ CHR '' '' # r) (CHR '' '') 0 = Some (length k)"
  by (simp add: str_find_char_def str_simps)

lemma handle_set_typed:
  assumes "bare_word k" "trimmed v" "k \<in> pf_key ` set fs"
  shows "handleCommand ops fs (''set '' @ k @ '' '' @ v) s =
    (case ss_set ops k v s of
       (e, s') \<Rightarrow> (if e \<noteq> Ok then ''error: '' @ errorString e else ''ok: '' @ k @ '' set'', s'))"
proof -
  have t: "trimmed (''set '' @ k @ '' '' @ v)" "trimmed (k @ '' '' @ v)"
    using assms(1,2) by (auto simp: trimmed_def bare_word_def prov_blank_def)
  have "split_command (''set '' @ k @ '' '' @ v) = (''set'', k @ '' '' @ v)"
    using find_space [of "''set''" "k @ '' '' @ v"] prov_trim_id [OF t(2)]
    by (simp add: split_command_def substr_def substr_from_def)
  moreover have "handle_set ops fs (k @ '' '' @ v) s = (case ss_set ops k v s of
       (e, s') \<Rightarrow> (if e \<noteq> Ok then ''error: '' @ errorString e else ''ok: '' @ k @ '' set'', s'))"
    using find_space [OF bare_word_space [OF assms(1)], of v] prov_trim_id [OF assms(2)] assms(2,3)
    by (cases "ss_set ops k v s")
      (simp add: handle_set_def substr_def substr_from_def findField_None trimmed_def)
  ultimately show ?thesis
    using prov_trim_id [OF t(1)] by (simp add: handleCommand_def)
qed

lemma handle_set_line:
  "bare_word k \<Longrightarrow> trimmed v \<Longrightarrow> k \<in> pf_key ` set fs \<Longrightarrow> ss_set ops k v s = (Ok, s') \<Longrightarrow>
    handleCommand ops fs (''set '' @ k @ '' '' @ v) s = (''ok: '' @ k @ '' set'', s')"
  using handle_set_typed [of k v fs ops s] by simp

text \<open>A line of printable characters within the limit runs its command.\<close>

lemma typed_line:
  assumes "sp_buf p = []" "LF \<notin> set line" "CR \<notin> set line" "length line \<le> kMaxLine"
    and "handleCommand ops fs line (sp_store p) = (response, s')" "response \<noteq> []"
  shows "poll ops fs (line @ [LF]) p =
    p\<lparr>sp_store := s', sp_buf := [], sp_out := sp_out p @ [c_str response]\<rparr>"
  using serial_line [OF assms(2,3), of p ops fs "[LF]"] assms(1,4-6) by (simp add: serial_char_def)

text \<open>a \<open>set\<close> line typed for a declared field, within the line limit and accepted by the store,
  makes the store return exactly the typed value, and the answer printed is the same whatever the
  value: it is never echoed.\<close>

theorem typed_value_is_stored:
  assumes "secret_store ops view ok" "ok (sp_store p)" "sp_buf p = []"
    and "k \<in> pf_key ` set fs" "bare_word k" "trimmed v"
    and "LF \<notin> set v" "CR \<notin> set v" "length (''set '' @ k @ '' '' @ v) \<le> kMaxLine"
    and "ss_set ops k v (sp_store p) = (Ok, s')"
  shows "ss_get ops k (sp_store (poll ops fs (''set '' @ k @ '' '' @ v @ [LF]) p)) = Inr v \<and>
    sp_out (poll ops fs (''set '' @ k @ '' '' @ v @ [LF]) p) = sp_out p @ [c_str (''ok: '' @ k @ '' set'')]"
proof -
  let ?line = "''set '' @ k @ '' '' @ v"
  have "LF \<notin> set ?line" "CR \<notin> set ?line"
    using assms(5,7,8) by (auto simp: bare_word_def prov_blank_def )
  then have "poll ops fs (?line @ [LF]) p =
      p\<lparr>sp_store := s', sp_buf := [], sp_out := sp_out p @ [c_str (''ok: '' @ k @ '' set'')]\<rparr>"
    using serial_line [of ?line p ops fs "[LF]"] handle_set_line [OF assms(5,6,4,10)] assms(3,9)
    by (simp add: serial_char_def)
  then show ?thesis
    using secret_store.get_after_set(1) [OF assms(1,2,10)] by simp
qed

theorem typed_value_is_stored_witness:
  "ss_get memory_secret_store ''pass''
     (sp_store (poll memory_secret_store wifi_fields (''set '' @ ''pass'' @ '' '' @ ''k3y'' @ [LF])
       fresh_serial)) = Inr ''k3y''"
  by (rule typed_value_is_stored [OF mem.secret_store_axioms, THEN conjunct1])
    (simp_all add: fresh_serial_def wifi_fields_def addField_def bare_word_def trimmed_def
      prov_blank_def  kMaxLine_def mem_set_def)

text \<open>With tabs for spaces the command is not recognised and the whole line, secret included, is
  printed back.\<close>

lemma tab_separated_set_is_echoed:
  "fst (handleCommand ops wifi_fields (''set'' @ [CHR 0x09] @ ''pass'' @ [CHR 0x09] @ ''k3y'') s) =
     ''unknown command: '' @ ''set'' @ [CHR 0x09] @ ''pass'' @ [CHR 0x09] @ ''k3y'' @ '' (try help)''"
  by (simp add: handleCommand_def prov_trim_def trim_by_def prov_blank_def split_command_def
      str_find_char_def)

text \<open>A value that goes past the line limit is cut there and stored without a warning.\<close>

lemma long_value_is_cut:
  assumes "bare_word k" "k \<in> pf_key ` set fs" "sp_buf p = []" "LF \<notin> set v" "CR \<notin> set v"
    and "v' = take (kMaxLine - length (''set '' @ k @ '' '')) v" "trimmed v'"
    and "ss_set ops k v' (sp_store p) = (Ok, s')"
  shows "sp_store (poll ops fs (''set '' @ k @ '' '' @ v @ [LF]) p) = s' \<and>
    last (sp_out (poll ops fs (''set '' @ k @ '' '' @ v @ [LF]) p)) = c_str (''ok: '' @ k @ '' set'')"
proof -
  let ?line = "''set '' @ k @ '' '' @ v"
  have "length (''set '' @ k @ '' '') < kMaxLine"
    using assms(6,7) by (auto simp: trimmed_def)
  then have cut: "take kMaxLine ?line = ''set '' @ k @ '' '' @ v'"
    unfolding assms(6) using take_append [of kMaxLine "''set '' @ k @ '' ''" v]
    by (simp del: append.simps)
  have "LF \<notin> set ?line" "CR \<notin> set ?line"
    using assms(1,4,5) by (auto simp: bare_word_def prov_blank_def )
  then have "poll ops fs (?line @ [LF]) p =
      serial_char ops fs LF (p\<lparr>sp_buf := ''set '' @ k @ '' '' @ v'\<rparr>)"
    using serial_line [of ?line p ops fs "[LF]"] assms(3) cut
    by (simp only: poll.simps list.size append_Nil le0 not_False_eq_True simp_thms)
  then show ?thesis
    using handle_set_line [OF assms(1,7,2,8)] by (simp add: serial_char_def)
qed

end
