(* ===== verification/Board.thy ===== *)
theory Board
  imports Http_Returns Http_Exchange
begin

text \<open>
  The boards: platform detection (hal/Platform.h), the capability profiles (core/Capabilities.{h,cpp}),
  the TLS trust policy (transport/CACertStore.h), the sockets over an Arduino network client
  (hal/ArduinoConnection.{h,cpp}) and the NTP time source (hal/NtpTimeSource.{h,cpp}).  The Arduino
  libraries are parameters; locale \<open>arduino_client\<close> states what a network client documents, and the
  library's sockets over one obey the laws of locale \<open>connection\<close>.
\<close>

section \<open>Platforms and capabilities\<close>

datatype platform = ESP32 | ESP8266 | UNO_R4 | SAMD | MBED | RP2040 | GENERIC_ARDUINO | NATIVE

text \<open>\<open>defd\<close> says which macros the core predefines.\<close>

definition detect_platform :: "(string \<Rightarrow> bool) \<Rightarrow> platform" where
  "detect_platform defd =
     (if defd ''ESP32'' \<or> defd ''ARDUINO_ARCH_ESP32'' then ESP32
      else if defd ''ESP8266'' \<or> defd ''ARDUINO_ARCH_ESP8266'' then ESP8266
      else if defd ''ARDUINO_UNOR4_WIFI'' \<or> defd ''ARDUINO_ARCH_RENESAS_UNO'' \<or>
              defd ''ARDUINO_ARCH_RENESAS'' then UNO_R4
      else if defd ''ARDUINO_ARCH_SAMD'' then SAMD
      else if defd ''ARDUINO_ARCH_MBED'' \<or> defd ''ARDUINO_ARCH_MBED_PORTENTA'' \<or>
              defd ''ARDUINO_ARCH_MBED_NANO'' then MBED
      else if defd ''ARDUINO_ARCH_RP2040'' then RP2040
      else if defd ''ARDUINO'' then GENERIC_ARDUINO
      else NATIVE)"

record capabilities =
  cap_board :: string
  cap_heapBudget :: u32
  cap_hasPsram :: bool
  cap_maxTlsConnections :: u8
  cap_supportsFullDuplex :: bool
  cap_supportsPersistentStore :: bool
  cap_recvBufferSize :: u16
  cap_maxResponseBody :: u32

definition default_capabilities :: capabilities where
  "default_capabilities =
     \<lparr>cap_board = ''unknown'', cap_heapBudget = 0, cap_hasPsram = False, cap_maxTlsConnections = 1,
      cap_supportsFullDuplex = False, cap_supportsPersistentStore = False,
      cap_recvBufferSize = 512, cap_maxResponseBody = 16384\<rparr>"

definition detectCapabilities :: "platform \<Rightarrow> bool \<Rightarrow> capabilities" where
  "detectCapabilities p board_has_psram =
     (let c = default_capabilities
      in case p of
           ESP32 \<Rightarrow>
             (let c1 = c\<lparr>cap_board := ''esp32'', cap_heapBudget := 160000, cap_maxTlsConnections := 4,
                   cap_supportsFullDuplex := True, cap_supportsPersistentStore := True,
                   cap_recvBufferSize := 1024, cap_maxResponseBody := 65536\<rparr>
              in if board_has_psram then c1\<lparr>cap_hasPsram := True, cap_maxResponseBody := 262144\<rparr> else c1)
         | ESP8266 \<Rightarrow>
             c\<lparr>cap_board := ''esp8266'', cap_heapBudget := 24000, cap_maxTlsConnections := 1,
               cap_supportsFullDuplex := False, cap_supportsPersistentStore := True,
               cap_recvBufferSize := 512, cap_maxResponseBody := 8192\<rparr>
         | UNO_R4 \<Rightarrow>
             c\<lparr>cap_board := ''uno_r4'', cap_heapBudget := 16000, cap_maxTlsConnections := 1,
               cap_supportsFullDuplex := False, cap_supportsPersistentStore := True,
               cap_recvBufferSize := 512, cap_maxResponseBody := 8192\<rparr>
         | SAMD \<Rightarrow>
             c\<lparr>cap_board := ''samd_nina'', cap_heapBudget := 24000, cap_maxTlsConnections := 1,
               cap_supportsFullDuplex := False, cap_supportsPersistentStore := True,
               cap_recvBufferSize := 512, cap_maxResponseBody := 8192\<rparr>
         | RP2040 \<Rightarrow>
             c\<lparr>cap_board := ''rp2040'', cap_heapBudget := 120000, cap_maxTlsConnections := 2,
               cap_supportsFullDuplex := False, cap_supportsPersistentStore := False,
               cap_recvBufferSize := 1024, cap_maxResponseBody := 32768\<rparr>
         | MBED \<Rightarrow>
             c\<lparr>cap_board := ''mbed_portenta'', cap_heapBudget := 200000, cap_maxTlsConnections := 4,
               cap_supportsFullDuplex := True, cap_supportsPersistentStore := True,
               cap_recvBufferSize := 1024, cap_maxResponseBody := 131072\<rparr>
         | NATIVE \<Rightarrow>
             c\<lparr>cap_board := ''native'', cap_heapBudget := 8000000, cap_hasPsram := True,
               cap_maxTlsConnections := 16, cap_supportsFullDuplex := True,
               cap_supportsPersistentStore := False, cap_recvBufferSize := 4096,
               cap_maxResponseBody := 1048576\<rparr>
         | GENERIC_ARDUINO \<Rightarrow>
             c\<lparr>cap_board := ''unknown'', cap_heapBudget := 16000, cap_maxTlsConnections := 1,
               cap_supportsFullDuplex := False, cap_supportsPersistentStore := False,
               cap_recvBufferSize := 512, cap_maxResponseBody := 8192\<rparr>)"

definition kVersionNumber :: nat where
  "kVersionNumber = 0 * 10000 + 7 * 100 + 0"

text \<open>A board without a second memory holds a body at the limit beside the receive buffer.\<close>

lemma body_fits_heap:
  "cap_hasPsram (detectCapabilities p psram) \<or>
     unat (cap_maxResponseBody (detectCapabilities p psram)) +
       unat (cap_recvBufferSize (detectCapabilities p psram)) \<le>
     unat (cap_heapBudget (detectCapabilities p psram))"
  by (cases p; cases psram) (simp_all add: detectCapabilities_def default_capabilities_def)

section \<open>The trust policy\<close>

text \<open>\<open>defaultCABundle()\<close> as shipped, before the bundle is generated.\<close>

definition defaultCABundle :: "string option" where
  "defaultCABundle = None"

record ca_store =
  ca_pem :: "string option"
  ca_insecure :: bool

definition new_ca_store :: "string option \<Rightarrow> ca_store" where
  "new_ca_store bundle = \<lparr>ca_pem = bundle, ca_insecure = False\<rparr>"

definition setCACert :: "string option \<Rightarrow> ca_store \<Rightarrow> ca_store" where
  "setCACert pem t = t\<lparr>ca_pem := pem, ca_insecure := False\<rparr>"

definition setInsecure :: "bool \<Rightarrow> ca_store \<Rightarrow> ca_store" where
  "setInsecure b t = t\<lparr>ca_insecure := b\<rparr>"

definition useDefaultBundle :: "string option \<Rightarrow> ca_store \<Rightarrow> ca_store" where
  "useDefaultBundle bundle t = t\<lparr>ca_pem := bundle\<rparr>"

definition hasCert :: "ca_store \<Rightarrow> bool" where
  "hasCert t \<longleftrightarrow> ca_pem t \<noteq> None"

definition isUsable :: "ca_store \<Rightarrow> bool" where
  "isUsable t \<longleftrightarrow> ca_insecure t \<or> ca_pem t \<noteq> None"

section \<open>Sockets over an Arduino client\<close>

text \<open>The core's network client; \<open>cl_read\<close> returns \<open>None\<close> for a negative result.\<close>

record 'c client_ops =
  cl_connect :: "string \<Rightarrow> u16 \<Rightarrow> 'c \<Rightarrow> int \<times> 'c"
  cl_connected :: "'c \<Rightarrow> bool \<times> 'c"
  cl_write :: "string \<Rightarrow> 'c \<Rightarrow> size_t \<times> 'c"
  cl_read :: "nat \<Rightarrow> 'c \<Rightarrow> string option \<times> 'c"
  cl_available :: "'c \<Rightarrow> int \<times> 'c"
  cl_stop :: "'c \<Rightarrow> 'c"

text \<open>A TLS client also takes a trust setting; \<open>tl_anchors\<close> is \<open>setTrustAnchors\<close> on the certificates
  of a PEM text.\<close>

record 'c tls_ops = "'c client_ops" +
  tl_setInsecure :: "'c \<Rightarrow> 'c"
  tl_setCACert :: "string \<Rightarrow> 'c \<Rightarrow> 'c"
  tl_anchors :: "string \<Rightarrow> 'c \<Rightarrow> 'c"
  tl_lastError :: "'c \<Rightarrow> int \<times> 'c"

definition arduino_write :: "('c, 'z) client_ops_scheme \<Rightarrow> string \<Rightarrow> 'c \<Rightarrow> int \<times> 'c" where
  "arduino_write cl dat c = (case cl_write cl dat c of (n, c') \<Rightarrow> (sint n, c'))"

definition arduino_read :: "('c, 'z) client_ops_scheme \<Rightarrow> nat \<Rightarrow> 'c \<Rightarrow> string option \<times> 'c" where
  "arduino_read cl len c =
     (case cl_available cl c of (n, c1) \<Rightarrow>
        if n \<le> 0 then (case cl_connected cl c1 of (up, c2) \<Rightarrow> (if up then Some [] else None, c2))
        else cl_read cl len c1)"

definition plain_connect ::
  "('c, 'z) client_ops_scheme \<Rightarrow> string \<Rightarrow> u16 \<Rightarrow> 'c \<Rightarrow> status \<times> 'c" where
  "plain_connect cl host port c =
     (case cl_connect cl host port c of (k, c') \<Rightarrow> (if k = 1 then Ok else ConnectFailed, c'))"

definition arduino_plain :: "('c, 'z) client_ops_scheme \<Rightarrow> 'c conn_ops" where
  "arduino_plain cl =
     \<lparr>cn_connect = plain_connect cl, cn_connected = cl_connected cl, cn_write = arduino_write cl,
      cn_read = arduino_read cl, cn_available = cl_available cl, cn_stop = cl_stop cl\<rparr>"

record 'c secure_conn =
  sc_client :: 'c
  sc_trust :: ca_store

definition conn_trust :: "(ca_store \<Rightarrow> ca_store) \<Rightarrow> 'c secure_conn \<Rightarrow> 'c secure_conn" where [simp]:
  "conn_trust f s = s\<lparr>sc_trust := f (sc_trust s)\<rparr>"

definition applyTrust :: "platform \<Rightarrow> 'c tls_ops \<Rightarrow> 'c secure_conn \<Rightarrow> 'c secure_conn" where
  "applyTrust p tc s =
     (if p = ESP32 then
        (if ca_insecure (sc_trust s) then s\<lparr>sc_client := tl_setInsecure tc (sc_client s)\<rparr>
         else (case ca_pem (sc_trust s) of
                 Some pem \<Rightarrow> s\<lparr>sc_client := tl_setCACert tc pem (sc_client s)\<rparr>
               | None \<Rightarrow> s))
      else if p = ESP8266 \<or> p = RP2040 then
        (if ca_insecure (sc_trust s) then s\<lparr>sc_client := tl_setInsecure tc (sc_client s)\<rparr>
         else (case ca_pem (sc_trust s) of
                 Some pem \<Rightarrow> s\<lparr>sc_client := tl_anchors tc pem (sc_client s)\<rparr>
               | None \<Rightarrow> s))
      else s)"

definition secure_connect ::
  "platform \<Rightarrow> 'c tls_ops \<Rightarrow> string \<Rightarrow> u16 \<Rightarrow> 'c secure_conn \<Rightarrow> status \<times> 'c secure_conn" where
  "secure_connect p tc host port s0 =
     (let s = applyTrust p tc s0
      in case cl_connect tc host port (sc_client s) of (k, c1) \<Rightarrow>
           if k \<noteq> 1 then
             (if p = ESP32 then
                (case tl_lastError tc c1 of (code, c2) \<Rightarrow>
                   (if code \<noteq> 0 \<and> \<not> ca_insecure (sc_trust s) then CertVerifyFailed else ConnectFailed,
                    s\<lparr>sc_client := c2\<rparr>))
              else (ConnectFailed, s\<lparr>sc_client := c1\<rparr>))
           else (Ok, s\<lparr>sc_client := c1\<rparr>))"

definition on_client :: "('c \<Rightarrow> 'r \<times> 'c) \<Rightarrow> 'c secure_conn \<Rightarrow> 'r \<times> 'c secure_conn" where
  "on_client f s = (case f (sc_client s) of (r, c) \<Rightarrow> (r, s\<lparr>sc_client := c\<rparr>))"

definition arduino_secure :: "platform \<Rightarrow> 'c tls_ops \<Rightarrow> 'c secure_conn conn_ops" where
  "arduino_secure p tc =
     \<lparr>cn_connect = secure_connect p tc, cn_connected = on_client (cl_connected tc),
      cn_write = \<lambda>dat. on_client (arduino_write tc dat),
      cn_read = \<lambda>len. on_client (arduino_read tc len),
      cn_available = on_client (cl_available tc),
      cn_stop = \<lambda>s. s\<lparr>sc_client := cl_stop tc (sc_client s)\<rparr>\<rparr>"

section \<open>The NTP time source\<close>

definition kPlausibleEpochFloor :: u32 where
  "kPlausibleEpochFloor = 1700000000"

definition has_ntp :: "platform \<Rightarrow> bool" where
  "has_ntp p \<longleftrightarrow> p = ESP32 \<or> p = ESP8266 \<or> p = RP2040 \<or> p = UNO_R4 \<or> p = SAMD"

text \<open>\<open>t\<close> is what the core's \<open>time\<close> or the radio's \<open>getTime\<close> returns.\<close>

definition ntp_epoch :: "platform \<Rightarrow> int \<Rightarrow> u32" where
  "ntp_epoch p t = (if has_ntp p then word_of_int t else 0)"

text \<open>\<open>epoch k\<close> and \<open>millis k\<close> are what the core reports in the \<open>k\<close>-th round of the wait; \<open>start\<close> is
  the reading before the first; between rounds the board sleeps.  \<open>None\<close> is a wait that does not
  end.\<close>

partial_function (option) ntp_wait ::
  "(nat \<Rightarrow> u32) \<Rightarrow> (nat \<Rightarrow> u32) \<Rightarrow> u32 \<Rightarrow> u32 \<Rightarrow> nat \<Rightarrow> bool option" where
  "ntp_wait epoch millis start timeout k =
     (if epoch k < kPlausibleEpochFloor then
        (if timeout < millis k - start then Some False else ntp_wait epoch millis start timeout (k + 1))
      else Some True)"

declare ntp_wait.simps [code]

definition ntp_begin ::
  "platform \<Rightarrow> (nat \<Rightarrow> u32) \<Rightarrow> (nat \<Rightarrow> u32) \<Rightarrow> u32 \<Rightarrow> u32 \<Rightarrow> bool option" where
  "ntp_begin p epoch millis start timeout =
     (if has_ntp p then ntp_wait epoch millis start timeout 0 else Some False)"

definition ntp_isValid :: "u32 \<Rightarrow> bool" where
  "ntp_isValid epoch \<longleftrightarrow> kPlausibleEpochFloor \<le> epoch"

text \<open>\<open>ManualTimeSource\<close>: a time the sketch sets.\<close>

record manual_time =
  mt_epoch :: u32

definition manual_set :: "u32 \<Rightarrow> manual_time \<Rightarrow> manual_time" where
  "manual_set e t = t\<lparr>mt_epoch := e\<rparr>"

definition manual_isValid :: "manual_time \<Rightarrow> bool" where
  "manual_isValid t \<longleftrightarrow> kPlausibleEpochFloor \<le> mt_epoch t"

text \<open>With a clock that goes on the wait ends, unless the timeout is the largest number, and it
  succeeds only with a valid time.\<close>

lemma ntp_wait_returns:
  assumes "ticking millis" "timeout \<noteq> - 1"
  shows "\<exists>b. ntp_wait epoch millis start timeout k = Some b"
proof (induction "dist millis start (timeout + 1) k" arbitrary: k rule: less_induct)
  case less
  have "timeout < x \<longleftrightarrow> timeout + 1 \<le> x" for x
    using assms(2) by (simp add: inc_less_eq_iff)
  then show ?case
    using less [of "Suc k"] dist_Suc [OF assms(1), of "timeout + 1" k start]
    by (subst ntp_wait.simps) auto
qed

lemmas ntp_wait_induct = ntp_wait.raw_induct [rotated, consumes 1, case_names step]

lemma ntp_wait_valid:
  "ntp_wait epoch millis start timeout k = Some b \<Longrightarrow> b \<longrightarrow> (\<exists>j\<ge>k. ntp_isValid (epoch j))"
proof (induct rule: ntp_wait_induct)
  case (step rec epoch millis start timeout k b)
  show ?case
  proof (cases "epoch k < kPlausibleEpochFloor")
    case True
    then show ?thesis
      using step.hyps(2) step.hyps(1) [of epoch millis start timeout "k + 1" b]
      by (auto split: if_splits dest: Suc_leD)
  qed (auto simp: ntp_isValid_def not_less)
qed

lemma ntp_begin_decides:
  assumes "ticking millis" "timeout \<noteq> - 1"
  shows "\<exists>b. ntp_begin p epoch millis start timeout = Some b \<and>
    (b \<longrightarrow> (\<exists>j. ntp_isValid (epoch j)))"
  using ntp_wait_returns [OF assms, of epoch start 0] ntp_wait_valid [of epoch millis start timeout 0]
  by (auto simp: ntp_begin_def)

section \<open>What a network client documents\<close>

text \<open>Over the bytes it took for sending and the bytes it delivered, and a bound on the reads that
  still bring data.\<close>

locale arduino_client =
  fixes cl :: "('c, 'z) client_ops_scheme" and sent :: "'c \<Rightarrow> string" and recvd :: "'c \<Rightarrow> string"
    and left :: "'c \<Rightarrow> nat"
  assumes cl_connect: "cl_connect cl h p c = (k, c') \<Longrightarrow> sent c' = sent c \<and> recvd c' = recvd c"
    and cl_connected: "cl_connected cl c = (b, c') \<Longrightarrow>
      sent c' = sent c \<and> recvd c' = recvd c \<and> left c' \<le> left c"
    and cl_available: "cl_available cl c = (n, c') \<Longrightarrow>
      sent c' = sent c \<and> recvd c' = recvd c \<and> left c' \<le> left c"
    and cl_stop: "sent (cl_stop cl c) = sent c \<and> recvd (cl_stop cl c) = recvd c"
    and cl_write: "cl_write cl dat c = (m, c') \<Longrightarrow> unat m \<le> length dat \<and>
      sent c' = sent c @ take (unat m) dat \<and> recvd c' = recvd c"
    and cl_read: "cl_read cl len c = (r, c') \<Longrightarrow> sent c' = sent c \<and> left c' \<le> left c \<and>
      (case r of None \<Rightarrow> recvd c' = recvd c
       | Some bs \<Rightarrow> length bs \<le> len \<and> recvd c' = recvd c @ bs \<and> (bs \<noteq> [] \<longrightarrow> left c' < left c))"
begin

lemma arduino_read_laws:
  assumes "arduino_read cl len c = (r, c')"
  shows "sent c' = sent c \<and> left c' \<le> left c \<and>
    (case r of None \<Rightarrow> recvd c' = recvd c
     | Some bs \<Rightarrow> length bs \<le> len \<and> recvd c' = recvd c @ bs \<and> (bs \<noteq> [] \<longrightarrow> left c' < left c))"
proof -
  obtain n c1 where a: "cl_available cl c = (n, c1)"
    by fastforce
  obtain b c2 where b: "cl_connected cl c1 = (b, c2)"
    by fastforce
  show ?thesis
    using assms a b cl_available [OF a] cl_connected [OF b] cl_read [of len c1 r c']
    by (cases "n \<le> 0") (auto simp: arduino_read_def split: option.splits if_splits)
qed

lemma arduino_write_laws:
  assumes "arduino_write cl dat c = (n, c')"
  shows "recvd c' = recvd c \<and> (0 \<le> n \<longrightarrow> nat n \<le> length dat \<and> sent c' = sent c @ take (nat n) dat)"
proof -
  obtain m where m: "cl_write cl dat c = (m, c')" "n = sint m"
    using assms by (auto simp: arduino_write_def split: prod.splits)
  have "0 \<le> sint m \<Longrightarrow> nat (sint m) = unat m"
    using sint_less [of m] by (simp add: unat_eq_nat_uint uint_sint take_bit_int_eq_self)
  then show ?thesis
    using cl_write [OF m(1)] m(2) by simp
qed

lemma plain_connect_laws:
  "plain_connect cl h p c = (e, c') \<Longrightarrow> sent c' = sent c \<and> recvd c' = recvd c"
  using cl_connect by (auto simp: plain_connect_def split: prod.splits)

end

sublocale arduino_client \<subseteq> plain: connection "arduino_plain cl" sent recvd
proof unfold_locales
  fix len s bs s' dat n
  show "cn_write (arduino_plain cl) dat s = (n, s') \<Longrightarrow> recvd s' = recvd s"
    "cn_write (arduino_plain cl) dat s = (n, s') \<Longrightarrow> 0 \<le> n \<Longrightarrow>
       nat n \<le> length dat \<and> sent s' = sent s @ take (nat n) dat"
    using arduino_write_laws by (auto simp: arduino_plain_def)
  show "cn_read (arduino_plain cl) len s = (Some bs, s') \<Longrightarrow>
      length bs \<le> len \<and> recvd s' = recvd s @ bs"
    "cn_read (arduino_plain cl) len s = (None, s') \<Longrightarrow> recvd s' = recvd s"
    using arduino_read_laws [of len s "Some bs"] arduino_read_laws [of len s None]
    by (auto simp: arduino_plain_def)
qed (use plain_connect_laws cl_connected cl_available cl_stop arduino_read_laws in
  \<open>auto simp: arduino_plain_def\<close>)

sublocale arduino_client \<subseteq> plain: draining "arduino_plain cl" left
proof unfold_locales
  fix len s bs s'
  show "cn_read (arduino_plain cl) len s = (Some bs, s') \<Longrightarrow> bs \<noteq> [] \<Longrightarrow> left s' < left s"
    "cn_read (arduino_plain cl) len s = (Some [], s') \<Longrightarrow> left s' \<le> left s"
    using arduino_read_laws [of len s "Some bs"] arduino_read_laws [of len s "Some []"]
    by (auto simp: arduino_plain_def)
qed (use cl_connected cl_available in \<open>auto simp: arduino_plain_def\<close>)

text \<open>A TLS client: setting the trust or asking for the last error moves no bytes.\<close>

locale tls_client = arduino_client tv sent recvd left
  for tv :: "'c tls_ops" and sent :: "'c \<Rightarrow> string" and recvd :: "'c \<Rightarrow> string" and left :: "'c \<Rightarrow> nat" +
  fixes p :: platform
  assumes trust_quiet: "sent (tl_setInsecure tv c) = sent c \<and> recvd (tl_setInsecure tv c) = recvd c"
      "sent (tl_setCACert tv pem c) = sent c \<and> recvd (tl_setCACert tv pem c) = recvd c"
      "sent (tl_anchors tv pem c) = sent c \<and> recvd (tl_anchors tv pem c) = recvd c"
    and lastError_quiet: "tl_lastError tv c = (k, c') \<Longrightarrow> sent c' = sent c \<and> recvd c' = recvd c"
begin

lemma applyTrust_laws:
  "sent (sc_client (applyTrust p tv s)) = sent (sc_client s) \<and>
   recvd (sc_client (applyTrust p tv s)) = recvd (sc_client s)"
  by (simp add: applyTrust_def trust_quiet split: option.splits)

lemma secure_connect_laws:
  assumes "secure_connect p tv h q s = (e, s')"
  shows "sent (sc_client s') = sent (sc_client s) \<and> recvd (sc_client s') = recvd (sc_client s)"
proof -
  let ?s = "applyTrust p tv s"
  obtain k c1 where c: "cl_connect tv h q (sc_client ?s) = (k, c1)"
    by fastforce
  obtain code c2 where l: "tl_lastError tv c1 = (code, c2)"
    by fastforce
  have "sc_client s' = c1 \<or> sc_client s' = c2"
    using assms c l by (auto simp: secure_connect_def Let_def split: if_splits)
  then show ?thesis
    using cl_connect [OF c] lastError_quiet [OF l] applyTrust_laws [of s] by auto
qed

lemma on_client_obtain:
  assumes "on_client f s = (r, s')"
  obtains c' where "f (sc_client s) = (r, c')" "sc_client s' = c'"
  using assms by (auto simp: on_client_def split: prod.splits)

end

sublocale tls_client \<subseteq> secure: connection "arduino_secure p tv" "sent \<circ> sc_client" "recvd \<circ> sc_client"
proof unfold_locales
  fix len s bs s' dat n
  show "cn_write (arduino_secure p tv) dat s = (n, s') \<Longrightarrow> (recvd \<circ> sc_client) s' = (recvd \<circ> sc_client) s"
    "cn_write (arduino_secure p tv) dat s = (n, s') \<Longrightarrow> 0 \<le> n \<Longrightarrow>
       nat n \<le> length dat \<and> (sent \<circ> sc_client) s' = (sent \<circ> sc_client) s @ take (nat n) dat"
    using arduino_write_laws by (auto simp: arduino_secure_def elim!: on_client_obtain)
  show "cn_read (arduino_secure p tv) len s = (Some bs, s') \<Longrightarrow>
      length bs \<le> len \<and> (recvd \<circ> sc_client) s' = (recvd \<circ> sc_client) s @ bs"
    "cn_read (arduino_secure p tv) len s = (None, s') \<Longrightarrow> (recvd \<circ> sc_client) s' = (recvd \<circ> sc_client) s"
    using arduino_read_laws [of len "sc_client s" "Some bs"] arduino_read_laws [of len "sc_client s" None]
    by (auto simp: arduino_secure_def elim!: on_client_obtain)
qed (use secure_connect_laws cl_connected cl_available cl_stop arduino_read_laws in
  \<open>auto simp: arduino_secure_def elim!: on_client_obtain\<close>)

sublocale tls_client \<subseteq> secure: draining "arduino_secure p tv" "left \<circ> sc_client"
proof unfold_locales
  fix len s bs s'
  show "cn_read (arduino_secure p tv) len s = (Some bs, s') \<Longrightarrow> bs \<noteq> [] \<Longrightarrow>
      (left \<circ> sc_client) s' < (left \<circ> sc_client) s"
    "cn_read (arduino_secure p tv) len s = (Some [], s') \<Longrightarrow> (left \<circ> sc_client) s' \<le> (left \<circ> sc_client) s"
    using arduino_read_laws [of len "sc_client s" "Some bs"] arduino_read_laws [of len "sc_client s" "Some []"]
    by (auto simp: arduino_secure_def elim!: on_client_obtain)
qed (use cl_connected cl_available in \<open>auto simp: arduino_secure_def elim!: on_client_obtain\<close>)

end
