(* ===== verification/Board_Tls.thy ===== *)
theory Board_Tls
  imports Board Fake_Connection
begin

text \<open>
  The board's TLS socket under the library: an exchange over it returns and reports what was
  received, and on the boards whose TLS client takes a trust setting every connection attempt tells it
  the one the sketch configured last.  The TLS client the laws are interpreted on is the scripted socket with a record of the trust calls.
\<close>

section \<open>Exchanges over the TLS socket\<close>

context tls_client
begin

lemma secure_exchange:
  assumes "ticking f" "hclock c = Some f"
  shows "\<exists>s out c'. send (arduino_secure p tv) req empty_response c = Some (s, out, c') \<and>
    (s = Ok \<longrightarrow> (\<exists>pre got.
       recvd (sc_client (conn c')) = recvd (sc_client (conn c)) @ got \<and> (pre = pending c \<or> pre = []) \<and>
       suffix (serializeRequest req (keepAlive c)) (sent (sc_client (conn c'))) \<and>
       response_of (pre @ got) out (pending c') \<and> length (rs_body out) \<le> unat (maxResponseBody c)))"
proof -
  obtain s out c' where s: "send (arduino_secure p tv) req empty_response c = Some (s, out, c')"
    using secure.send_returns [OF assms] by blast
  show ?thesis
    using s secure.send_facts [of req c out c'] by auto
qed

end

section \<open>A TLS client\<close>

record demo_tls =
  dt_wire :: fake_connection
  dt_trust :: string

definition on_wire :: "(fake_connection \<Rightarrow> 'r \<times> fake_connection) \<Rightarrow> demo_tls \<Rightarrow> 'r \<times> demo_tls" where
  "on_wire f d = (case f (dt_wire d) of (r, w) \<Rightarrow> (r, d\<lparr>dt_wire := w\<rparr>))"

definition demo_write :: "string \<Rightarrow> fake_connection \<Rightarrow> size_t \<times> fake_connection" where
  "demo_write dat w =
     (let part = take (2 ^ 31 - 1) dat in case fake_write part w of (n, w') \<Rightarrow> (word_of_int n, w'))"

definition demo_ops :: "demo_tls tls_ops" where
  "demo_ops =
     \<lparr>cl_connect = \<lambda>h p. on_wire (\<lambda>w. case fake_connect h p w of (e, w') \<Rightarrow> (if e = Ok then 1 else 0, w')),
      cl_connected = on_wire (cn_connected fake_ops), cl_write = \<lambda>dat. on_wire (demo_write dat),
      cl_read = \<lambda>len. on_wire (fake_read len), cl_available = on_wire fake_available,
      cl_stop = \<lambda>d. d\<lparr>dt_wire := fake_stop (dt_wire d)\<rparr>,
      tl_setInsecure = \<lambda>d. d\<lparr>dt_trust := ''insecure''\<rparr>,
      tl_setCACert = \<lambda>pem d. d\<lparr>dt_trust := ''ca '' @ pem\<rparr>,
      tl_anchors = \<lambda>pem d. d\<lparr>dt_trust := ''anchors '' @ pem\<rparr>,
      tl_lastError = \<lambda>d. (0, d)\<rparr>"

interpretation demo: tls_client demo_ops "written \<circ> dt_wire" "served \<circ> dt_wire"
    "\<lambda>d. length (toSend (dt_wire d)) - readPos (dt_wire d)" p for p
proof unfold_locales
  fix dat :: string and d d' :: demo_tls and m
  assume w: "cl_write demo_ops dat d = (m, d')"
  have "unat (word_of_int (int (length (take (2 ^ 31 - 1) dat))) :: size_t) = length (take (2 ^ 31 - 1) dat)"
    by (simp add: unat_of_nat take_bit_eq_mod)
  then show "unat m \<le> length dat \<and>
      (written \<circ> dt_wire) d' = (written \<circ> dt_wire) d @ take (unat m) dat \<and>
      (served \<circ> dt_wire) d' = (served \<circ> dt_wire) d"
    using w by (auto simp: demo_ops_def on_wire_def demo_write_def fake_write_def Let_def min_def)
qed (auto simp: demo_ops_def on_wire_def fake_defs split: if_splits)

section \<open>The configured trust is applied\<close>

datatype trust_op = SetCACert "string option" | SetInsecure bool | UseDefaultBundle "string option"

fun trust_step :: "trust_op \<Rightarrow> ca_store \<Rightarrow> ca_store" where
  "trust_step (SetCACert pem) t = setCACert pem t"
| "trust_step (SetInsecure b) t = setInsecure b t"
| "trust_step (UseDefaultBundle bundle) t = useDefaultBundle bundle t"

definition trust_run :: "trust_op list \<Rightarrow> ca_store \<Rightarrow> ca_store" where
  "trust_run xs t = fold trust_step xs t"

text \<open>The sketch asks for no verification when the last of its calls about it says so.\<close>

definition about_insecure :: "trust_op \<Rightarrow> bool" where
  "about_insecure x \<longleftrightarrow> (case x of UseDefaultBundle _ \<Rightarrow> False | _ \<Rightarrow> True)"

definition asked_insecure :: "trust_op list \<Rightarrow> bool" where
  "asked_insecure xs \<longleftrightarrow> find about_insecure (rev xs) = Some (SetInsecure True)"

definition pem_of :: "trust_op \<Rightarrow> string option option" where
  "pem_of x = (case x of SetCACert pem \<Rightarrow> Some pem | UseDefaultBundle b \<Rightarrow> Some b | SetInsecure _ \<Rightarrow> None)"

definition last_pem :: "string option \<Rightarrow> trust_op list \<Rightarrow> string option" where
  "last_pem bundle xs = last (bundle # List.map_filter pem_of xs)"

lemma trust_run_policy:
  "trust_run xs (new_ca_store bundle) =
     \<lparr>ca_pem = last_pem bundle xs, ca_insecure = asked_insecure xs\<rparr>"
proof (induction xs rule: rev_induct)
  case (snoc x xs)
  then show ?case
    by (cases x) (auto simp: trust_run_def last_pem_def asked_insecure_def about_insecure_def pem_of_def
        setCACert_def setInsecure_def useDefaultBundle_def map_filter_def)
qed (simp add: trust_run_def last_pem_def asked_insecure_def new_ca_store_def map_filter_def)

text \<open>What the client should have been told before it connects.\<close>

definition configured ::
  "platform \<Rightarrow> 'c tls_ops \<Rightarrow> trust_op list \<Rightarrow> string option \<Rightarrow> 'c \<Rightarrow> 'c" where
  "configured p tv xs bundle c =
     (if asked_insecure xs then tl_setInsecure tv c
      else (case last_pem bundle xs of
              Some pem \<Rightarrow> if p = ESP32 then tl_setCACert tv pem c else tl_anchors tv pem c
            | None \<Rightarrow> c))"

text \<open>C33: on ESP32, ESP8266 and RP2040, every connection attempt first tells the TLS client what the
  sketch configured last: to skip verification if the last call about it asked for that, else the
  certificate set last, and nothing at all if there is none; a new store never asks to skip
  verification.  The attempt succeeds exactly when the client so told connects.  What the client was
  told at an earlier attempt is not taken back (\<open>insecure_not_undone\<close>), and on the other boards it is
  told nothing (\<open>pinned_certificate_unused\<close>).\<close>

theorem trust_applied_on_connect:
  assumes "p = ESP32 \<or> p = ESP8266 \<or> p = RP2040" "sc_trust s = trust_run xs (new_ca_store bundle)"
  shows "(fst (secure_connect p tv host port s) = Ok \<longleftrightarrow>
      fst (cl_connect tv host port (configured p tv xs bundle (sc_client s))) = 1) \<and>
    sc_trust (snd (secure_connect p tv host port s)) = sc_trust s"
proof -
  have "sc_client (applyTrust p tv s) = configured p tv xs bundle (sc_client s)"
    using assms by (auto simp: applyTrust_def configured_def trust_run_policy split: option.splits)
  moreover have "sc_trust (applyTrust p tv s) = sc_trust s"
    by (simp add: applyTrust_def split: option.splits)
  ultimately show ?thesis
    by (auto simp: secure_connect_def Let_def split: prod.splits)
qed

text \<open>A client that connects only when a certificate was pinned.\<close>

definition strict_ops :: "demo_tls tls_ops" where
  "strict_ops = demo_ops\<lparr>cl_connect := \<lambda>h p d. (if dt_trust d = ''ca pem'' then 1 else 0, d)\<rparr>"

definition demo_conn :: "trust_op list \<Rightarrow> demo_tls secure_conn" where
  "demo_conn xs =
     \<lparr>sc_client = \<lparr>dt_wire = fake_new, dt_trust = []\<rparr>, sc_trust = trust_run xs (new_ca_store defaultCABundle)\<rparr>"

text \<open>A certificate pinned after \<open>setInsecure()\<close> turns verification on again.\<close>

theorem trust_applied_on_connect_witness:
  "fst (secure_connect ESP32 strict_ops ''h'' 443
     (demo_conn [SetInsecure True, SetCACert (Some ''pem'')])) = Ok"
  by (rule trust_applied_on_connect [of ESP32 _ "[SetInsecure True, SetCACert (Some ''pem'')]"
        defaultCABundle, THEN conjunct1, THEN iffD2])
    (simp_all add: demo_conn_def configured_def asked_insecure_def about_insecure_def last_pem_def
      pem_of_def map_filter_def strict_ops_def demo_ops_def)

text \<open>Falling back to the default bundle as shipped drops a pinned certificate, and the next connect
  tells the TLS client nothing.\<close>

lemma empty_bundle_unpins:
  "\<not> isUsable (trust_run [SetCACert (Some pem), UseDefaultBundle defaultCABundle] (new_ca_store defaultCABundle)) \<and>
   sc_client (applyTrust p tv (demo\<lparr>sc_trust :=
     trust_run [SetCACert (Some pem), UseDefaultBundle defaultCABundle] (new_ca_store defaultCABundle)\<rparr>)) =
   sc_client demo"
  by (simp add: trust_run_policy isUsable_def asked_insecure_def about_insecure_def last_pem_def pem_of_def
      map_filter_def defaultCABundle_def applyTrust_def)

text \<open>Verification that was turned off stays off: when \<open>setInsecure()\<close> was called before one
  attempt and \<open>setInsecure(false)\<close> before the next, without a certificate, the second attempt tells the
  client nothing.\<close>

lemma insecure_not_undone:
  assumes "p = ESP32 \<or> p = ESP8266 \<or> p = RP2040"
    and "s1 = applyTrust p tv (s\<lparr>sc_trust := setInsecure True (new_ca_store defaultCABundle)\<rparr>)"
  shows "sc_client (applyTrust p tv (s1\<lparr>sc_trust := setInsecure False (sc_trust s1)\<rparr>)) =
    tl_setInsecure tv (sc_client s)"
  using assms
  by (auto simp: applyTrust_def setInsecure_def new_ca_store_def defaultCABundle_def)

text \<open>Where the trust store is in the radio's firmware, a pinned certificate changes nothing.\<close>

lemma pinned_certificate_unused:
  "p \<notin> {ESP32, ESP8266, RP2040} \<Longrightarrow> applyTrust p tv s = s"
  by (auto simp: applyTrust_def)

end
