(* ===== verification/Llm_Wire.thy ===== *)
theory Llm_Wire
  imports Http_Peer Llm_Waits Llm_Answers
begin

text \<open>
  The LLM client end to end, over a server that answers each request it is sent with the next of its
  responses (locale \<open>responder\<close>).  Whether the socket is still closed or kept open from the request before, a
  round trip of the client returns the next response that is worth no retry (\<open>ref_answer\<close>).
\<close>

section \<open>A server that answers requests\<close>

text \<open>The socket is closed with a server behind it (\<open>ready\<close>), open with the answers \<open>rs\<close> to come
  (\<open>waiting\<close>), or delivering an answer (\<open>flowing\<close>) with the answers \<open>queue\<close> to come.\<close>

locale responder = connection ops snt rcv
  for ops :: "'s conn_ops" and snt :: "'s \<Rightarrow> string" and rcv :: "'s \<Rightarrow> string" +
  fixes stream :: "'s \<Rightarrow> string" and flowing :: "'s \<Rightarrow> bool" and queue :: "'s \<Rightarrow> string list"
    and waiting :: "'s \<Rightarrow> string list \<Rightarrow> bool" and ready :: "'s \<Rightarrow> string list \<Rightarrow> bool"
  assumes flow_connected: "flowing s \<Longrightarrow>
      \<exists>s'. cn_connected ops s = (True, s') \<and> flowing s' \<and> stream s' = stream s \<and> queue s' = queue s"
    and flow_read: "flowing s \<Longrightarrow> stream s \<noteq> [] \<Longrightarrow> 0 < len \<Longrightarrow>
      \<exists>bs s'. cn_read ops len s = (Some bs, s') \<and> bs \<noteq> [] \<and> flowing s' \<and> queue s' = queue s \<and>
        stream s = bs @ stream s'"
    and flow_done: "flowing s \<Longrightarrow> stream s = [] \<Longrightarrow> waiting s (queue s)"
    and wait_connected: "waiting s rs \<Longrightarrow> \<exists>s'. cn_connected ops s = (True, s') \<and> waiting s' rs"
    and wait_write: "waiting s (r # rs) \<Longrightarrow> dat \<noteq> [] \<Longrightarrow>
      \<exists>s'. cn_write ops dat s = (int (length dat), s') \<and> flowing s' \<and> stream s' = r \<and> queue s' = rs"
    and ready_closed: "ready s rs \<Longrightarrow> \<exists>s'. cn_connected ops s = (False, s') \<and> ready s' rs"
    and ready_connect: "ready s rs \<Longrightarrow> \<exists>s'. cn_connect ops h p s = (Ok, s') \<and> waiting s' rs"

sublocale responder \<subseteq> flow: reader ops snt rcv stream "\<lambda>s. flowing s \<and> queue s = q" for q
proof unfold_locales
  fix s :: 's and len :: nat
  assume "flowing s \<and> queue s = q"
  then show "\<exists>s'. cn_connected ops s = (True, s') \<and> (flowing s' \<and> queue s' = q) \<and> stream s' = stream s"
    and "stream s \<noteq> [] \<Longrightarrow> 0 < len \<Longrightarrow> \<exists>bs s'. cn_read ops len s = (Some bs, s') \<and> bs \<noteq> [] \<and>
      (flowing s' \<and> queue s' = q) \<and> stream s = bs @ stream s'"
    using flow_connected [of s] flow_read [of s len] by blast+
qed

lemma waits_end_cong: "(d' = None \<longleftrightarrow> d = None) \<Longrightarrow> waits_end c d' \<longleftrightarrow> waits_end c d"
  by (simp add: waits_end_def)

text \<open>The answer a request ends with: the first whose status asks for no retry, or the one after \<open>k\<close>
  retries.\<close>

fun ref_answer :: "nat \<Rightarrow> http_response list \<Rightarrow> (http_response \<times> http_response list) option" where
  "ref_answer k [] = None"
| "ref_answer 0 (r # rs) = Some (r, rs)"
| "ref_answer (Suc k) (r # rs) = (if isRetryableStatus (rs_status r) then ref_answer k rs else Some (r, rs))"

type_synonym reply = "nat \<times> string \<times> header list \<times> string"

abbreviation answers_of :: "reply list \<Rightarrow> http_response list" where
  "answers_of rs \<equiv> map (\<lambda>r. snd (received r)) rs"

lemma ref_answer_Cons:
  "\<not> (isRetryableStatus (rs_status r) \<and> 0 < k) \<Longrightarrow> ref_answer k (r # rs) = Some (r, rs)"
  by (cases k) auto

lemma count_request_http:
  assumes "count_request t h lc = (h', lc')"
  shows "conn h' = conn h" "pending h' = pending h" "cfg h' = cfg h"
  using assms by (auto simp: count_request_def Let_def now_def split: if_splits prod.splits option.splits)

lemma count_request_llm:
  assumes "count_request t h lc = (h', lc')"
  shows "mt_requests (lc_metrics lc') = mt_requests (lc_metrics lc) + 1"
    "lc_meter lc = None \<Longrightarrow> lc_meter lc' = None" "lc_delays lc' = lc_delays lc"
  using assms
  by (auto simp: count_request_def Let_def upd_metrics_def split: if_splits prod.splits)

lemma back_off_llm:
  assumes "back_off name attempt s resp h lc = Some (h', lc')"
  shows "mt_requests (lc_metrics lc') = mt_requests (lc_metrics lc)"
    "lc_meter lc = None \<Longrightarrow> lc_meter lc' = None" "lc_delays lc' = None \<longleftrightarrow> lc_delays lc = None"
proof -
  obtain ms lc1 where b: "backoffFor attempt resp (s = Ok) (count_retry lc) = (ms, lc1)"
    by fastforce
  then have "llm_wait ms (http_log LvWarn (retry_message name s resp ms) h) lc1 = Some (h', lc')"
    using assms by (simp add: back_off_def)
  moreover obtain j where "lc1 = (count_retry lc)\<lparr>lc_jitterState := j\<rparr>"
    using backoff_bounded(2) [OF b] by blast
  ultimately show "mt_requests (lc_metrics lc') = mt_requests (lc_metrics lc)"
    by (auto simp: llm_wait_def count_retry_def upd_metrics_def split: if_splits option.splits prod.splits)
qed (use budget.R_back_off [OF assms] config.R_back_off [OF assms] in \<open>auto simp: budget_kept_def same_config_def\<close>)

lemma serializeRequest_nonempty: "serializeRequest req b \<noteq> []"
  by (simp add: serializeRequest_def)

context responder
begin

lemma wait_writeAll:
  assumes "waiting (conn c) (r # rs)" "dat \<noteq> []"
  shows "\<exists>c'. writeAll ops dat 0 t c = Some (Ok, c') \<and> flowing (conn c') \<and> stream (conn c') = r \<and>
    queue (conn c') = rs \<and> cfg c' = cfg c \<and> pending c' = pending c"
proof -
  obtain k where k: "cn_write ops dat (conn c) = (int (length dat), k)" "flowing k" "stream k = r" "queue k = rs"
    using wait_write [OF assms] by blast
  then have "writeAll ops dat 0 t c = Some (Ok, c\<lparr>conn := k\<rparr>)"
    using assms(2)
    by (simp add: writeAll.simps [of ops dat 0] writeAll.simps [of ops dat "length dat"] conn_write_def)
  then show ?thesis
    using k by simp
qed

lemma wait_exchange:
  assumes "waiting (conn c) (wire_of r # rs)" "pending c = []" "recvBufferSize c \<noteq> 0"
    "length_framed (maxResponseBody c) r"
  shows "\<exists>c'. exchange ops req empty_response t c = Some (Ok, snd (received r), c') \<and> waiting (conn c') rs \<and>
    pending c' = [] \<and> cfg c' = cfg c"
proof -
  obtain code reason hs body where r: "r = (code, reason, hs, body)"
    by (cases r)
  obtain c1 where w: "writeAll ops (serializeRequest req (keepAlive c)) 0 t c = Some (Ok, c1)"
    and c1: "flowing (conn c1) \<and> queue (conn c1) = rs" "stream (conn c1) = wire_of r" "cfg c1 = cfg c" "pending c1 = []"
    using wait_writeAll [OF assms(1) serializeRequest_nonempty, of req "keepAlive c" t] assms(2) by auto
  have "recvBufferSize c1 \<noteq> 0" "length body \<le> unat (maxResponseBody c1)"
    "pending c1 @ stream (conn c1) = response_wire code reason hs body @ []"
    using c1 assms(3,4) by (simp_all add: cfg_eq r length_framed_def wire_of_def)
  from flow.written_length_response [OF w c1(3,1) this(1) _ _ _ this(2,3)] assms(4) obtain c' where
    "exchange ops req empty_response t c = Some (Ok, snd (received r), c')"
    "flowing (conn c')" "queue (conn c') = rs" "stream (conn c') = []" "pending c' = []" "cfg c' = cfg c"
    using c1(3) by (auto simp: r length_framed_def received_def)
  then show ?thesis
    using flow_done by blast
qed

definition serving :: "'s \<Rightarrow> string list \<Rightarrow> bool" where
  "serving s rs \<longleftrightarrow> ready s rs \<or> waiting s rs"

lemma serving_connect:
  assumes "serving (conn c) rs"
  shows "\<exists>b k. conn_connected ops c = (b, c\<lparr>conn := k\<rparr>) \<and> serving k rs \<and>
    (\<exists>k2. ensure_connected ops True req c = (Ok, (if b then c else c\<lparr>pending := []\<rparr>)\<lparr>conn := k2\<rparr>) \<and> waiting k2 rs)"
proof (cases "ready (conn c) rs")
  case True
  then obtain k where k: "cn_connected ops (conn c) = (False, k)" "ready k rs"
    using ready_closed by blast
  obtain k2 where k2: "cn_connect ops (c_str (rq_host req)) (rq_port req) k = (Ok, k2)" "waiting k2 rs"
    using ready_connect [OF k(2)] by blast
  have "ensure_connected ops True req c = (Ok, c\<lparr>pending := [], conn := k2\<rparr>)"
    using k(1) k2(1) by (simp add: ensure_connected_def conn_connected_def)
  then have "conn_connected ops c = (False, c\<lparr>conn := k\<rparr>) \<and> serving k rs \<and>
      ensure_connected ops True req c = (Ok, (if False then c else c\<lparr>pending := []\<rparr>)\<lparr>conn := k2\<rparr>) \<and> waiting k2 rs"
    using k k2(2) by (simp add: conn_connected_def serving_def)
  then show ?thesis
    by blast
next
  case False
  then have "waiting (conn c) rs"
    using assms by (simp add: serving_def)
  then obtain k where k: "cn_connected ops (conn c) = (True, k)" "waiting k rs"
    using wait_connected by blast
  then have "conn_connected ops c = (True, c\<lparr>conn := k\<rparr>) \<and> serving k rs \<and>
      ensure_connected ops True req c = (Ok, (if True then c else c\<lparr>pending := []\<rparr>)\<lparr>conn := k\<rparr>) \<and> waiting k rs"
    by (simp add: conn_connected_def serving_def ensure_connected_def)
  then show ?thesis
    by blast
qed

lemma serving_send:
  assumes "serving (conn c) (wire_of r # rs)" "pending c = []" "recvBufferSize c \<noteq> 0"
    "length_framed (maxResponseBody c) r"
  shows "\<exists>c'. send ops req empty_response c = Some (Ok, snd (received r), c') \<and> waiting (conn c') rs \<and>
    pending c' = [] \<and> cfg c' = cfg c"
proof -
  obtain b k where k: "conn_connected ops c = (b, c\<lparr>conn := k\<rparr>)" "serving k (wire_of r # rs)"
    using serving_connect [OF assms(1)] by blast
  obtain t h where t: "now (c\<lparr>conn := k\<rparr>) = (t, c\<lparr>conn := k, hticks := h\<rparr>)"
    using now_obtain [of "c\<lparr>conn := k\<rparr>"] by auto
  let ?c1 = "c\<lparr>conn := k, hticks := h, sawResponseBytes := False, reusable := False\<rparr>"
  obtain k2 c2 where c2: "ensure_connected ops True req ?c1 = (Ok, c2)" "conn c2 = k2" "waiting k2 (wire_of r # rs)"
    "pending c2 = []" "cfg c2 = cfg c"
    using serving_connect [of ?c1 "wire_of r # rs" req] k(2) assms(2) by (fastforce simp: cfg_def)
  obtain c' where e: "exchange ops req empty_response t c2 = Some (Ok, snd (received r), c')" "waiting (conn c') rs"
    "pending c' = [] \<and> cfg c' = cfg c"
    using wait_exchange [of c2 r rs req t] c2 assms(3,4) by (auto simp: cfg_eq)
  have "sendOnce ops req empty_response (c\<lparr>conn := k\<rparr>) = Some (Ok, snd (received r), c')"
    using t c2(1) e(1) by (simp add: sendOnce_def)
  then show ?thesis
    using k(1) e(2,3) by (simp add: send_def)
qed

text \<open>The answer a client with \<open>k\<close> retries takes is the first whose status asks for no retry, or the last it may ask
  for.\<close>

lemma serving_send_with_retry:
  assumes "ref_answer (unat (rp_maxRetries p) - unat attempt) (answers_of rs) = Some (a, out)"
    and "serving (conn h) (map wire_of rs)" "list_all (length_framed (maxResponseBody h)) rs"
    and "pending h = []" "recvBufferSize h \<noteq> 0" "waits_end (hclock h) (lc_delays lc)" "lc_meter lc = None"
  shows "\<exists>h' lc' used rs'. sendWithRetry ops name req p attempt resp h lc = Some (Ok, a, h', lc') \<and>
    rs = used @ rs' \<and> out = answers_of rs' \<and> waiting (conn h') (map wire_of rs') \<and>
    mt_requests (lc_metrics lc') = mt_requests (lc_metrics lc) + word_of_nat (length used)"
  using assms
proof (induction "unat (rp_maxRetries p) - unat attempt" arbitrary: attempt rs resp h lc rule: less_induct)
  case less
  note step = sendWithRetry.simps [of ops name req p attempt resp h lc]
  obtain r rs1 where rs: "rs = r # rs1"
    using less(2) by (cases rs) auto
  have status: "rs_status (snd (received r)) = int (fst r)"
    by (cases r) (simp add: received_def)
  obtain t k where t: "now h = (t, h\<lparr>hticks := k\<rparr>)"
    using now_obtain [of h] by blast
  obtain h2 where d: "send ops req empty_response (h\<lparr>hticks := k\<rparr>) = Some (Ok, snd (received r), h2)"
    "waiting (conn h2) (map wire_of rs1)" "pending h2 = []" "cfg h2 = cfg h"
    using serving_send [of "h\<lparr>hticks := k\<rparr>" r "map wire_of rs1" req] less(3-6) rs by auto
  obtain h3 lc1 where c: "count_request t h2 lc = (h3, lc1)"
    by fastforce
  have h3: "conn h3 = conn h2" "pending h3 = []" "cfg h3 = cfg h"
    using count_request_http [OF c] d(3,4) by (auto simp: cfg_eq)
  have lc1: "mt_requests (lc_metrics lc1) = mt_requests (lc_metrics lc) + 1" "lc_meter lc1 = None"
    "lc_delays lc1 = lc_delays lc"
    using count_request_llm [OF c] less(8) by auto
  show ?case
  proof (cases "isRetryableStatus (int (fst r)) \<and> attempt < rp_maxRetries p")
    case False
    let ?lc' = "if \<not> isSuccess (snd (received r)) then count_http_error lc1 else lc1"
    have "isRetryableStatus (int (fst r)) \<Longrightarrow> \<not> isSuccess (snd (received r))"
      by (auto simp: isRetryableStatus_def isSuccess_def status)
    then have "sendWithRetry ops name req p attempt resp h lc = Some (Ok, snd (received r), h3, ?lc')"
      using False less(8) t d(1) c status by (auto simp: step meter_allows_def not_less is_retryable_def)
    moreover have "a = snd (received r)" "out = answers_of rs1"
      using False less(2) rs status by (auto simp: ref_answer_Cons word_less_nat_alt)
    ultimately show ?thesis
      using rs h3(1) d(2) lc1(1) by (intro exI [of _ h3] exI [of _ ?lc'] exI [of _ "[r]"] exI [of _ rs1]) (simp add: client_updates)
  next
    case True
    then have n: "unat (rp_maxRetries p) - unat attempt = Suc (unat (rp_maxRetries p) - unat (attempt + 1))"
      using True by (simp add: unat_inc [OF conjunct2 [OF True]] word_less_nat_alt Suc_diff_Suc)
    obtain j lg lc2 where b: "back_off name attempt Ok (snd (received r)) h3 lc1 =
        Some (h3\<lparr>hlog := lg, hticks := j\<rparr>, lc2)"
      using back_off_ends [of h3 lc1 name attempt Ok "snd (received r)"] less(7) h3(3) lc1(3)
      by (auto simp: cfg_def)
    let ?h4 = "h3\<lparr>hlog := lg, hticks := j\<rparr>"
    note b2 = back_off_llm [OF b]
    have "ref_answer (unat (rp_maxRetries p) - unat (attempt + 1)) (answers_of rs1) = Some (a, out)"
      using less(2) True rs status by (simp add: n)
    moreover have "waits_end (hclock ?h4) (lc_delays lc2)"
      using less(7) h3(3) lc1(3) waits_end_cong [OF b2(3)] by (simp add: cfg_def)
    ultimately obtain h' lc' used rs' where again:
      "sendWithRetry ops name req p (attempt + 1) (snd (received r)) ?h4 lc2 = Some (Ok, a, h', lc')"
      "rs1 = used @ rs'" "out = answers_of rs'" "waiting (conn h') (map wire_of rs')"
      "mt_requests (lc_metrics lc') = mt_requests (lc_metrics lc2) + word_of_nat (length used)"
      using less(1) [of "attempt + 1" rs1 ?h4 lc2 "snd (received r)"] n less(4-6) rs h3 d(2) lc1(2) b2(2)
      by (auto simp: serving_def cfg_def)
    have "sendWithRetry ops name req p attempt resp h lc = Some (Ok, a, h', lc')"
      using conjunct1 [OF True] leD [of "rp_maxRetries p" attempt] conjunct2 [OF True] less(8) t d(1) c b again(1) status
      by (auto simp: step meter_allows_def is_retryable_def)
    then show ?thesis
      using again(2-5) rs lc1(1) b2(1) by (intro exI [of _ h'] exI [of _ lc'] exI [of _ "r # used"] exI [of _ rs']) simp
  qed
qed

text \<open>A round trip brings the answer the reference takes.\<close>

lemma serving_round_trip:
  assumes "ref_answer (unat (rp_maxRetries (lc_retry lc))) (answers_of rs) = Some (a, out)"
    and "serving (lc_conn lc) (map wire_of rs)" "list_all (length_framed (lc_maxResponseBody lc)) rs"
    and "waits_end (lc_clock lc) (lc_delays lc)" "lc_meter lc = None"
  shows "\<exists>lc' used rs'. round_trip ops name req lc = Some (Ok, a, lc') \<and>
    rs = used @ rs' \<and> out = answers_of rs' \<and> waiting (lc_conn lc') (map wire_of rs') \<and>
    mt_requests (lc_metrics lc') = mt_requests (lc_metrics lc) + word_of_nat (length used)"
proof -
  have h: "conn (fresh_http lc) = lc_conn lc" "pending (fresh_http lc) = []" "recvBufferSize (fresh_http lc) \<noteq> 0"
    "maxResponseBody (fresh_http lc) = lc_maxResponseBody lc" "hclock (fresh_http lc) = lc_clock lc"
    by (simp_all add: fresh_http_def configure_def new_client_def)
  obtain h' lc1 used rs' where s:
    "sendWithRetry ops name req (lc_retry lc) 0 empty_response (fresh_http lc) lc = Some (Ok, a, h', lc1)"
    "rs = used @ rs'" "out = answers_of rs'" "waiting (conn h') (map wire_of rs')"
    "mt_requests (lc_metrics lc1) = mt_requests (lc_metrics lc) + word_of_nat (length used)"
    using serving_send_with_retry [of "lc_retry lc" 0 rs a out "fresh_http lc" lc name req empty_response] assms h by auto
  then have "round_trip ops name req lc = Some (Ok, a, release h' lc1)"
    by (simp add: round_trip_def)
  then show ?thesis
    using s(2-5) by (intro exI [of _ "release h' lc1"] exI [of _ used] exI [of _ rs']) (simp add: release_def)
qed

end

end
