(* ===== verification/Llm_Refines.thy ===== *)
theory Llm_Refines
  imports Llm_Wire
begin

text \<open>
  The LLM client refines a reference without sockets, HTTP, waits, logs or counters: the protocol of
  prompts, retries, tool calls and answers over the list of responses the service gives.
\<close>

section \<open>The reference\<close>

text \<open>\<open>None\<close> is a protocol that needs more responses than there are.\<close>

fun ref_generate ::
  "(string \<Rightarrow> json option) \<Rightarrow> nat \<Rightarrow> 'w provider \<Rightarrow> response_schema \<Rightarrow> message list \<Rightarrow> chat_options \<Rightarrow>
     nat \<Rightarrow> error \<Rightarrow> http_response list \<Rightarrow> (structured_result result \<times> http_response list) option"
where
  "ref_generate parse k pv schema messages opts 0 e rs = Some (Inl e, rs)"
| "ref_generate parse k pv schema messages opts (Suc left) e rs =
     (if fst (pv_buildStructured pv messages opts schema empty_request) \<noteq> Ok
      then Some (Inl (fst (pv_buildStructured pv messages opts schema empty_request)), rs)
      else
        (case ref_answer k rs of
           None \<Rightarrow> None
         | Some (r, rs') \<Rightarrow>
             if \<not> isSuccess r then Some (Inl (mapStatus (rs_status r)), rs')
             else
               (case pv_parseStructured pv r [] new_chat_result of (ps, ans, meta) \<Rightarrow>
                  if ps \<noteq> Ok then ref_generate parse k pv schema messages opts left ps rs'
                  else if schema_validate parse schema ans = Ok
                  then Some (Inr (structuredResult parse ans), rs')
                  else ref_generate parse k pv schema messages opts left SchemaValidationFailed rs')))"

fun ref_calls ::
  "(string \<Rightarrow> json option) \<Rightarrow> 'w tool_registry \<Rightarrow> tool_call list \<Rightarrow> 'w \<Rightarrow> message list \<times> 'w" where
  "ref_calls parse tools [] w = ([], w)"
| "ref_calls parse tools (call # calls) w =
     (case dispatch parse tools (tc_name call) (tc_arguments call) w of (dr, w1) \<Rightarrow>
        (case ref_calls parse tools calls w1 of (ms, w2) \<Rightarrow>
           (toolResult call (case dr of Inr r \<Rightarrow> r | Inl e \<Rightarrow> failed_dispatch (tc_name call) e) # ms, w2)))"

fun ref_agent ::
  "(string \<Rightarrow> json option) \<Rightarrow> nat \<Rightarrow> 'w provider \<Rightarrow> 'w tool_registry \<Rightarrow> chat_options \<Rightarrow> nat \<Rightarrow>
     message list \<Rightarrow> 'w \<Rightarrow> http_response list \<Rightarrow>
     ((error + bool \<times> message list) \<times> 'w \<times> http_response list) option"
where
  "ref_agent parse k pv tools opts 0 ms w rs = Some (Inr (False, ms), w, rs)"
| "ref_agent parse k pv tools opts (Suc left) ms w rs =
     (if fst (pv_buildTool pv ms opts tools empty_request) \<noteq> Ok
      then Some (Inl (fst (pv_buildTool pv ms opts tools empty_request)), w, rs)
      else
        (case ref_answer k rs of
           None \<Rightarrow> None
         | Some (r, rs') \<Rightarrow>
             if \<not> isSuccess r then Some (Inl (mapStatus (rs_status r)), w, rs')
             else
               (case pv_parseTool pv r new_turn of (ps, turn) \<Rightarrow>
                  if ps \<noteq> Ok then Some (Inl ps, w, rs')
                  else if at_calls turn = [] then Some (Inr (True, ms), w, rs')
                  else
                    (case ref_calls parse tools (at_calls turn) w of (results, w') \<Rightarrow>
                       ref_agent parse k pv tools opts left
                         (ms @ (assistant_message (at_text turn))\<lparr>ms_toolCalls := at_calls turn\<rparr> # results)
                         w' rs'))))"

definition ref_run ::
  "(string \<Rightarrow> json option) \<Rightarrow> nat \<Rightarrow> 'w provider \<Rightarrow> response_schema \<Rightarrow> 'w tool_registry \<Rightarrow> chat_options \<Rightarrow>
     nat \<Rightarrow> nat \<Rightarrow> message list \<Rightarrow> 'w \<Rightarrow> http_response list \<Rightarrow>
     (structured_result result \<times> 'w \<times> http_response list) option" where
  "ref_run parse k pv schema tools opts rounds tries messages w rs =
     (if \<not> pv_supportsTools pv then Some (Inl NotImplemented, w, rs)
      else
        (case ref_agent parse k pv tools opts rounds messages w rs of
           None \<Rightarrow> None
         | Some (Inl e, w1, rs1) \<Rightarrow> Some (Inl e, w1, rs1)
         | Some (Inr (settled, ms), w1, rs1) \<Rightarrow>
             if \<not> settled then Some (Inl ToolIterationLimit, w1, rs1)
             else
               map_option (\<lambda>(r, rs2). (r, w1, rs2))
                 (ref_generate parse k pv schema (flattenForStructured ms) opts tries SchemaValidationFailed rs1)))"

section \<open>Refinement\<close>

lemma run_calls_ref:
  "fst (run_calls parse tools calls working w lc) = working @ fst (ref_calls parse tools calls w) \<and>
   fst (snd (run_calls parse tools calls working w lc)) = snd (ref_calls parse tools calls w)"
  by (induction calls arbitrary: working w lc) (simp_all add: Let_def case_prod_unfold)

text \<open>What stays fixed between the requests of a client.\<close>

definition steady :: "'s llm_client \<Rightarrow> 's llm_client \<Rightarrow> bool" where
  "steady lc lc' \<longleftrightarrow>
     lc_options lc' = lc_options lc \<and> lc_retry lc' = lc_retry lc \<and>
     lc_clock lc' = lc_clock lc \<and> (lc_delays lc' = None \<longleftrightarrow> lc_delays lc = None) \<and>
     lc_maxResponseBody lc' = lc_maxResponseBody lc \<and>
     lc_structuredRetries lc' = lc_structuredRetries lc \<and> lc_maxIterations lc' = lc_maxIterations lc \<and>
     (lc_meter lc = None \<longrightarrow> lc_meter lc' = None)"

lemma steadyI: "same_config lc lc' \<Longrightarrow> budget_kept lc lc' \<Longrightarrow> steady lc lc'"
  by (auto simp: steady_def same_config_def budget_kept_def)

context responder
begin

text \<open>A client with the replies \<open>rs\<close> before it.\<close>

definition facing :: "'s llm_client \<Rightarrow> reply list \<Rightarrow> bool" where
  "facing lc rs \<longleftrightarrow> serving (lc_conn lc) (map wire_of rs) \<and>
     list_all (length_framed (lc_maxResponseBody lc)) rs \<and>
     waits_end (lc_clock lc) (lc_delays lc) \<and> lc_meter lc = None"

abbreviation retries_of :: "'s llm_client \<Rightarrow> nat" where
  "retries_of lc \<equiv> unat (rp_maxRetries (lc_retry lc))"

definition consumed :: "'s llm_client \<Rightarrow> reply list \<Rightarrow> 's llm_client \<Rightarrow> reply list \<Rightarrow> bool" where
  "consumed lc rs lc' rs' \<longleftrightarrow> facing lc' rs' \<and> steady lc lc' \<and>
     (\<exists>used. rs = used @ rs' \<and>
        mt_requests (lc_metrics lc') = mt_requests (lc_metrics lc) + word_of_nat (length used))"

lemma consumed_refl: "facing lc rs \<Longrightarrow> consumed lc rs lc rs"
  by (simp add: consumed_def steady_def)

lemma consumed_trans:
  assumes "consumed a rs b rs'" "consumed b rs' c rs''"
  shows "consumed a rs c rs''"
proof -
  obtain u v where uv: "rs = u @ rs'" "rs' = v @ rs''"
    "mt_requests (lc_metrics b) = mt_requests (lc_metrics a) + word_of_nat (length u)"
    "mt_requests (lc_metrics c) = mt_requests (lc_metrics b) + word_of_nat (length v)"
    using assms by (auto simp: consumed_def)
  have "rs = (u @ v) @ rs'' \<and>
      mt_requests (lc_metrics c) = mt_requests (lc_metrics a) + word_of_nat (length (u @ v))"
    using uv by simp
  moreover have "facing c rs''" "steady a c"
    using assms by (auto simp: consumed_def steady_def)
  ultimately show ?thesis
    unfolding consumed_def by blast
qed

lemma consumed_update:
  assumes "consumed a rs b rs'" "lc_conn c = lc_conn b" "steady b c"
    "mt_requests (lc_metrics c) = mt_requests (lc_metrics b)"
  shows "consumed a rs c rs'"
proof -
  have "lc_delays c = None \<longleftrightarrow> lc_delays b = None"
    using assms(3) by (simp add: steady_def)
  note w = waits_end_cong [OF this]
  have "facing b rs'" "steady b c"
    using assms(1,3) by (simp_all add: consumed_def)
  then have "facing c rs'"
    using assms(2) w by (simp add: facing_def steady_def)
  then show ?thesis
    using assms by (auto simp: consumed_def steady_def)
qed

lemma consumed_updates:
  assumes "consumed a rs b rs'"
  shows "consumed a rs (llm_log lv m b) rs'" "consumed a rs (count_schema_retry b) rs'"
    "consumed a rs (record_usage i j b) rs'"
  by (rule consumed_update [OF assms]; simp add: steady_def client_updates)+

lemma consumed_run_calls:
  assumes "consumed a rs b rs'" "run_calls parse tools calls working w b = (working', w', c)"
  shows "consumed a rs c rs'"
  using assms
proof (induction calls arbitrary: working w b)
  case (Cons call calls)
  obtain dr w1 where d: "dispatch parse tools (tc_name call) (tc_arguments call) w = (dr, w1)"
    by fastforce
  show ?case
    using Cons.prems(2) by (auto simp: d Let_def intro: Cons.IH [OF consumed_updates(1) [OF Cons.prems(1)]])
qed simp

lemma ref_round_trip:
  assumes "facing lc rs" "ref_answer (retries_of lc) (answers_of rs) = Some (a, out)"
  obtains lc' rs' where "round_trip ops name req lc = Some (Ok, a, lc')" "out = answers_of rs'"
    "consumed lc rs lc' rs'"
proof -
  obtain lc' used rs' where t: "round_trip ops name req lc = Some (Ok, a, lc')" "rs = used @ rs'"
    "out = answers_of rs'" "waiting (lc_conn lc') (map wire_of rs')"
    "mt_requests (lc_metrics lc') = mt_requests (lc_metrics lc) + word_of_nat (length used)"
    using serving_round_trip [OF assms(2), of name req] assms(1) by (auto simp: facing_def)
  have "steady lc lc'"
    by (rule steadyI [OF config.R_round_trip [OF t(1)] budget.R_round_trip [OF t(1)]])
  then have "facing lc' rs' \<and> steady lc lc'"
    using assms(1) t(2,4) by (auto simp: facing_def serving_def steady_def waits_end_def)
  then show thesis
    using that [OF t(1,3)] t(2,5) unfolding consumed_def by blast
qed

lemma generate_loop_refines:
  assumes "ref_generate parse k pv schema messages opts lft e (answers_of rs) = Some (res, out)"
    "facing lc rs" "retries_of lc = k"
  shows "\<exists>lc' rs'. generate_loop parse ops pv schema messages opts lft e lc = Some (res, lc') \<and>
    out = answers_of rs' \<and> consumed lc rs lc' rs'"
  using assms
proof (induction lft arbitrary: e rs lc)
  case 0
  then show ?case
    using consumed_refl by auto
next
  case (Suc lft)
  obtain bs req0 where b: "pv_buildStructured pv messages opts schema empty_request = (bs, req0)"
    by fastforce
  show ?case
  proof (cases "bs = Ok")
    case False
    then show ?thesis
      using Suc.prems b consumed_refl by auto
  next
    case True
    then obtain a mid where rs: "ref_answer k (answers_of rs) = Some (a, mid)"
      using Suc.prems(1) b by (auto split: option.splits)
    obtain lc1 rs1 where t: "round_trip ops (pv_name pv) (with_extra_headers (co_extraHeaders opts) req0) lc =
        Some (Ok, a, lc1)" and mid: "mid = answers_of rs1" and c: "consumed lc rs lc1 rs1"
      using ref_round_trip [OF Suc.prems(2)] rs Suc.prems(3) by metis
    obtain ps ans meta where p: "pv_parseStructured pv a [] new_chat_result = (ps, ans, meta)"
      using prod_cases3 by blast
    have again: ?thesis
      if "ref_generate parse k pv schema messages opts lft e' (answers_of rs1) = Some (res, out)"
        "generate_loop parse ops pv schema messages opts (Suc lft) e lc =
           generate_loop parse ops pv schema messages opts lft e' lc2" "consumed lc rs lc2 rs1"
      for e' lc2
    proof -
      have "facing lc2 rs1" "retries_of lc2 = k"
        using that(3) Suc.prems(3) by (simp_all add: consumed_def steady_def)
      from Suc.IH [OF that(1) this] show ?thesis
        unfolding that(2) using consumed_trans [OF that(3)] by blast
    qed
    consider (failed) "\<not> isSuccess a"
      | (unreadable) "isSuccess a" "ps \<noteq> Ok"
      | (good) "isSuccess a" "ps = Ok" "schema_validate parse schema ans = Ok"
      | (rejected) "isSuccess a" "ps = Ok" "schema_validate parse schema ans \<noteq> Ok"
      by blast
    then show ?thesis
    proof cases
      case failed
      then show ?thesis
        using Suc.prems(1) b True t rs mid consumed_updates(1) [OF c] by auto
    next
      case unreadable
      then show ?thesis
        using Suc.prems(1) b True t p rs mid again [of ps "if 0 < lft then count_schema_retry lc1 else lc1"]
          c consumed_updates(2) [OF c] by auto
    next
      case good
      then show ?thesis
        using Suc.prems(1) b True t p rs mid consumed_updates(3) [OF c] by auto
    next
      case rejected
      let ?lc2 = "record_usage (cr_input meta) (cr_output meta) lc1"
      have "consumed lc rs (llm_log LvWarn m (if 0 < lft then count_schema_retry ?lc2 else ?lc2)) rs1" for m
        using consumed_updates(1,2) consumed_updates(3) [OF c] by auto
      then show ?thesis
        using rejected Suc.prems(1) b True t p rs mid again by (simp add: Let_def)
    qed
  qed
qed

lemma agent_loop_refines:
  assumes "ref_agent parse k pv tools opts lft ms w (answers_of rs) = Some (res, w', out)"
    "facing lc rs" "retries_of lc = k" "lc_options lc = opts"
  shows "\<exists>lc' rs'. agent_loop parse ops pv tools lft ms w lc = Some (res, w', lc') \<and>
    out = answers_of rs' \<and> consumed lc rs lc' rs'"
  using assms
proof (induction lft arbitrary: ms w rs lc)
  case 0
  then show ?case
    using consumed_refl by auto
next
  case (Suc lft)
  obtain bs req0 where b: "pv_buildTool pv ms opts tools empty_request = (bs, req0)"
    by fastforce
  show ?case
  proof (cases "bs = Ok")
    case False
    then show ?thesis
      using Suc.prems b consumed_refl by auto
  next
    case True
    then obtain a mid where rs: "ref_answer k (answers_of rs) = Some (a, mid)"
      using Suc.prems(1) b by (auto split: option.splits)
    obtain lc1 rs1 where t: "round_trip ops (pv_name pv) (with_extra_headers (co_extraHeaders opts) req0) lc =
        Some (Ok, a, lc1)" and mid: "mid = answers_of rs1" and c: "consumed lc rs lc1 rs1"
      using ref_round_trip [OF Suc.prems(2)] rs Suc.prems(3) by metis
    obtain ps turn where p: "pv_parseTool pv a new_turn = (ps, turn)"
      by fastforce
    let ?lc2 = "record_usage (at_input turn) (at_output turn) lc1"
    let ?a = "(assistant_message (at_text turn))\<lparr>ms_toolCalls := at_calls turn\<rparr>"
    obtain results w1 where q: "ref_calls parse tools (at_calls turn) w = (results, w1)"
      by fastforce
    obtain lc3 where k: "run_calls parse tools (at_calls turn) (ms @ [?a]) w ?lc2 = (ms @ ?a # results, w1, lc3)"
      using run_calls_ref [of parse tools "at_calls turn" "ms @ [?a]" w ?lc2] q
      by (cases "run_calls parse tools (at_calls turn) (ms @ [?a]) w ?lc2") auto
    have c3: "consumed lc rs lc3 rs1"
      by (rule consumed_run_calls [OF consumed_updates(3) [OF c] k])
    consider (failed) "\<not> isSuccess a"
      | (unreadable) "isSuccess a" "ps \<noteq> Ok"
      | (settled) "isSuccess a" "ps = Ok" "at_calls turn = []"
      | (calls) "isSuccess a" "ps = Ok" "at_calls turn \<noteq> []"
      by blast
    then show ?thesis
    proof cases
      case failed
      then show ?thesis
        using Suc.prems(1,4) b True t rs mid consumed_updates(1) [OF c] by auto
    next
      case unreadable
      then show ?thesis
        using Suc.prems(1,4) b True t p rs mid c by auto
    next
      case settled
      then show ?thesis
        using Suc.prems(1,4) b True t p rs mid consumed_updates(3) [OF c] by (auto simp: wantsTools_def)
    next
      case calls
      have "ref_agent parse k pv tools opts lft (ms @ ?a # results) w1 (answers_of rs1) = Some (res, w', out)"
        using calls Suc.prems(1) b True p rs mid q by simp
      from Suc.IH [OF this, of lc3] obtain lc' rs' where
        l: "agent_loop parse ops pv tools lft (ms @ ?a # results) w1 lc3 = Some (res, w', lc')"
        "out = answers_of rs'" "consumed lc3 rs1 lc' rs'"
        using c3 Suc.prems(3,4) by (auto simp: consumed_def steady_def)
      have "agent_loop parse ops pv tools (Suc lft) ms w lc = Some (res, w', lc')"
        using calls b True t p k l(1) Suc.prems(4) by (simp add: wantsTools_def Let_def)
      then show ?thesis
        using l(2) consumed_trans [OF c3 l(3)] by blast
    qed
  qed
qed

lemma run_refines:
  assumes "ref_run parse (unat (rp_maxRetries (lc_retry lc))) pv schema tools (lc_options lc) (unat (lc_maxIterations lc))
      (unat (lc_structuredRetries lc) + 1) messages w (answers_of rs) = Some (res, w', out)"
    and "facing lc rs"
  shows "\<exists>lc'. llm_run parse ops pv schema messages tools w lc = Some (res, w', lc') \<and>
    mt_requests (lc_metrics lc') = mt_requests (lc_metrics lc) + word_of_nat (length rs - length out)"
proof -
  have used: "mt_requests (lc_metrics lc') = mt_requests (lc_metrics lc) + word_of_nat (length rs - length out)"
    if "consumed lc rs lc' rs'" "out = answers_of rs'" for lc' rs'
    using that by (auto simp: consumed_def)
  have "\<exists>lc' rs'. runImpl parse ops pv schema messages tools w lc = Some (res, w', lc') \<and>
      out = answers_of rs' \<and> consumed lc rs lc' rs'"
  proof (cases "pv_supportsTools pv")
    case False
    then show ?thesis
      using assms consumed_updates(1) [OF consumed_refl [OF assms(2)]] by (auto simp: ref_run_def runImpl_def)
  next
    case True
    then obtain x w1 out1 where a: "ref_agent parse (retries_of lc) pv tools (lc_options lc) (unat (lc_maxIterations lc))
        messages w (answers_of rs) = Some (x, w1, out1)"
      using assms(1) by (auto simp: ref_run_def split: option.splits)
    obtain lc1 rs1 where l: "agent_loop parse ops pv tools (unat (lc_maxIterations lc)) messages w lc =
        Some (x, w1, lc1)" "out1 = answers_of rs1" "consumed lc rs lc1 rs1"
      using agent_loop_refines [OF a assms(2) refl refl] by blast
    note c = consumed_updates(1) [OF l(3)]
    have lc1: "facing lc1 rs1" "retries_of lc1 = retries_of lc" "lc_options lc1 = lc_options lc" "lc_structuredRetries lc1 = lc_structuredRetries lc"
      using l(3) by (simp_all add: consumed_def steady_def)
    show ?thesis
    proof (cases x)
      case (Inl e)
      then show ?thesis
        using True assms(1) a l by (auto simp: ref_run_def runImpl_def)
    next
      case (Inr y)
      then obtain settled ms where x: "x = Inr (settled, ms)"
        by (cases y) simp
      show ?thesis
      proof (cases settled)
        case False
        then show ?thesis
          using True assms(1) a l(1,2) c x by (auto simp: ref_run_def runImpl_def)
      next
        case True
        then have g: "ref_generate parse (retries_of lc) pv schema (flattenForStructured ms) (lc_options lc)
            (unat (lc_structuredRetries lc) + 1) SchemaValidationFailed (answers_of rs1) = Some (res, out)"
          and "w1 = w'"
          using \<open>pv_supportsTools pv\<close> assms(1) a l(2) x by (auto simp: ref_run_def)
        obtain lc2 rs2 where "doGenerate parse ops pv schema (flattenForStructured ms) (lc_options lc1) lc1 =
            Some (res, lc2)" "out = answers_of rs2" "consumed lc1 rs1 lc2 rs2"
          unfolding doGenerate_def lc1 using generate_loop_refines [OF g lc1(1,2)] by blast
        then show ?thesis
          using True \<open>pv_supportsTools pv\<close> \<open>w1 = w'\<close> l(1) x consumed_trans [OF l(3)]
          by (auto simp: runImpl_def)
      qed
    qed
  qed
  then obtain lc1 rs1 where "runImpl parse ops pv schema messages tools w lc = Some (res, w', lc1)"
    "out = answers_of rs1" "consumed lc rs lc1 rs1"
    by blast
  then show ?thesis
    using used by (simp add: llm_run_def finishRequestCycle_def)
qed

end

text \<open>C2: over a server that answers each request with its next response, an agent run returns exactly
  the result, and leaves the world exactly as, the reference says, retries, tool calls and rejected
  outputs included, and it sends exactly one request per response the reference uses.\<close>

theorem run_refines_reference:
  assumes "responder ops snt rcv stream flowing queue waiting ready"
    and "ready (lc_conn lc) (map wire_of rs)"
    and "list_all (length_framed (lc_maxResponseBody lc)) rs"
    and "waits_end (lc_clock lc) (lc_delays lc)" "lc_meter lc = None"
    and "ref_run parse (unat (rp_maxRetries (lc_retry lc))) pv schema tools (lc_options lc) (unat (lc_maxIterations lc))
      (unat (lc_structuredRetries lc) + 1) messages w (answers_of rs) = Some (res, w', out)"
  shows "\<exists>lc'. llm_run parse ops pv schema messages tools w lc = Some (res, w', lc') \<and>
    mt_requests (lc_metrics lc') = mt_requests (lc_metrics lc) + word_of_nat (length rs - length out)"
  using responder.run_refines [OF assms(1,6)] assms(2-5)
  by (simp add: responder.facing_def [OF assms(1)] responder.serving_def [OF assms(1)])

section \<open>The scripted server\<close>

definition fake_queue :: "fake_connection \<Rightarrow> string list" where
  "fake_queue f = drop (responseIdx f) (responses f)"

definition fake_flowing :: "fake_connection \<Rightarrow> bool" where
  "fake_flowing f \<longleftrightarrow> fconnected f \<and> \<not> stall f \<and> keepAliveServer f \<and> responses f \<noteq> []"

definition fake_waiting :: "fake_connection \<Rightarrow> string list \<Rightarrow> bool" where
  "fake_waiting f rs \<longleftrightarrow> fake_flowing f \<and>
     (if length (toSend f) \<le> readPos f then rs = fake_queue f
      else readPos f = 0 \<and> rs = toSend f # fake_queue f)"

definition fake_ready :: "fake_connection \<Rightarrow> string list \<Rightarrow> bool" where
  "fake_ready f rs \<longleftrightarrow> \<not> fconnected f \<and> \<not> stall f \<and> keepAliveServer f \<and> connectResult f = Ok \<and>
     failFirstConnects f = 0 \<and> rs = fake_queue f \<and> rs \<noteq> [] \<and> hd rs \<noteq> []"

lemma drop_nth: "drop n xs = r # rs \<Longrightarrow> n < length xs \<and> xs ! n = r \<and> drop (Suc n) xs = rs"
  by (metis Cons_nth_drop_Suc drop_eq_Nil2 leI list.distinct(1) list.inject)

interpretation fake: responder fake_ops written served fake_stream fake_flowing fake_queue fake_waiting fake_ready
proof
  fix f :: fake_connection and len :: nat and rs :: "string list" and r dat h :: string and p :: u16
  show "fake_flowing f \<Longrightarrow> \<exists>f'. cn_connected fake_ops f = (True, f') \<and> fake_flowing f' \<and>
      fake_stream f' = fake_stream f \<and> fake_queue f' = fake_queue f"
    by (simp add: fake_ops_def fake_flowing_def)
  show "\<exists>bs f'. cn_read fake_ops len f = (Some bs, f') \<and> bs \<noteq> [] \<and> fake_flowing f' \<and>
      fake_queue f' = fake_queue f \<and> fake_stream f = bs @ fake_stream f'"
    if "fake_flowing f" "fake_stream f \<noteq> []" "0 < len"
    using that by (auto simp: fake_defs fake_flowing_def fake_queue_def fake_stream_def not_le intro: drop_take_split)
  show "fake_flowing f \<Longrightarrow> fake_stream f = [] \<Longrightarrow> fake_waiting f (fake_queue f)"
    by (simp add: fake_stream_def fake_waiting_def)
  show "fake_waiting f rs \<Longrightarrow> \<exists>f'. cn_connected fake_ops f = (True, f') \<and> fake_waiting f' rs"
    by (simp add: fake_ops_def fake_waiting_def fake_flowing_def)
  show "fake_ready f rs \<Longrightarrow> \<exists>f'. cn_connected fake_ops f = (False, f') \<and> fake_ready f' rs"
    by (auto simp: fake_ops_def fake_ready_def)
  show "\<exists>f'. cn_write fake_ops dat f = (int (length dat), f') \<and> fake_flowing f' \<and> fake_stream f' = r \<and>
      fake_queue f' = rs"
    if "fake_waiting f (r # rs)" "dat \<noteq> []"
    using that drop_nth [of "responseIdx f" "responses f" r rs]
    by (auto simp: fake_defs fake_waiting_def fake_flowing_def fake_stream_def fake_queue_def split: if_splits)
  show "\<exists>f'. cn_connect fake_ops h p f = (Ok, f') \<and> fake_waiting f' rs" if "fake_ready f rs"
  proof -
    obtain r rs' where "rs = r # rs'" "r \<noteq> []"
      using \<open>fake_ready f rs\<close> by (cases rs) (auto simp: fake_ready_def)
    then show ?thesis
      using that drop_nth [of "responseIdx f" "responses f" r rs']
      by (auto simp: fake_defs fake_waiting_def fake_ready_def fake_flowing_def fake_queue_def)
  qed
qed

text \<open>The service is busy, then the model asks for a tool, then settles, then gives its answer.\<close>

definition tool_session :: "reply list" where
  "tool_session =
     [(503, ''OK'', ok_head, ''hello''), (200, ''OK'', ok_head, ''hello''), (201, ''OK'', ok_head, ''hello''),
      (201, ''OK'', ok_head, ''hello'')]"

lemma tool_session_ref:
  "map_option (\<lambda>(r, n, out). (map_sum id sr_json r, n, out))
     (ref_run (\<lambda>_. Some (JObj [])) 2 asking_provider empty_schema inc_tools new_options 6 2 [user_message ''hi''] 0
       (answers_of tool_session)) = Some (Inr ''hello'', 1, [])"
  by code_simp

lemma tool_session_framed: "list_all (length_framed 32768) tool_session"
proof -
  have "toDecimal 201 = ''201''" "toDecimal 503 = ''503''"
    by code_simp+
  then have "head_ok 201 ''OK'' ok_head" "head_ok 503 ''OK'' ok_head"
    using ok_head_facts(1)
    by (simp_all add: head_ok_def response_head_def wire_lines_simps status_line_def header_line_def
        decimal_samples)
  then show ?thesis
    using ok_head_facts by (simp add: tool_session_def length_framed_def)
qed

theorem run_refines_reference_witness:
  "\<exists>r lc'. llm_run (\<lambda>_. Some (JObj [])) fake_ops asking_provider empty_schema [user_message ''hi''] inc_tools 0
       (new_llm (fake_new\<lparr>keepAliveServer := True, responses := map wire_of tool_session\<rparr>) None) =
       Some (Inr r, 1, lc') \<and> sr_json r = ''hello'' \<and> mt_requests (lc_metrics lc') = 4"
proof -
  let ?lc = "new_llm (fake_new\<lparr>keepAliveServer := True, responses := map wire_of tool_session\<rparr>) None"
  obtain r where r: "ref_run (\<lambda>_. Some (JObj [])) 2 asking_provider empty_schema inc_tools new_options 6 2
      [user_message ''hi''] 0 (answers_of tool_session) = Some (Inr r, 1, [])" "sr_json r = ''hello''"
    using tool_session_ref by (auto simp: map_sum_Inr)
  have ready: "fake_ready (lc_conn ?lc) (map wire_of tool_session)"
    by (simp add: new_llm_def fake_new_def fake_ready_def fake_queue_def tool_session_def wire_of_def
        response_wire_def response_head_def wire_lines_simps status_line_def)
  have f: "lc_options ?lc = new_options" "unat (lc_maxIterations ?lc) = 6"
    "unat (lc_structuredRetries ?lc) + 1 = 2" "lc_meter ?lc = None" "lc_maxResponseBody ?lc = 32768"
    "unat (rp_maxRetries (lc_retry ?lc)) = 2" "mt_requests (lc_metrics ?lc) = 0"
    by (simp_all add: new_llm_def new_metrics_def default_policy_def)
  have waits: "waits_end (lc_clock ?lc) (lc_delays ?lc)"
    by (simp add: new_llm_def waits_end_def)
  note run = run_refines_reference [OF fake.responder_axioms ready, where tools = inc_tools and w = 0 and w' = 1
      and res = "Inr r" and out = "[]" and pv = asking_provider and messages = "[user_message ''hi'']"
      and parse = "\<lambda>_. Some (JObj [])" and schema = empty_schema]
  obtain lc' where "llm_run (\<lambda>_. Some (JObj [])) fake_ops asking_provider empty_schema [user_message ''hi'']
      inc_tools 0 ?lc = Some (Inr r, 1, lc')" "mt_requests (lc_metrics lc') = word_of_nat (length tool_session)"
    using run [unfolded f, OF tool_session_framed waits refl r(1)] by auto
  then show ?thesis
    using r(2) by (auto simp: tool_session_def)
qed

end
