(* ===== verification/Sketch_Base.thy ===== *)
theory Sketch_Base
  imports Logger Board
begin

text \<open>
  What the example sketches share (examples/*/*.ino): the serial logger they set up, the wait for the
  network, what a board brings along, and the adapters of hal/ to the Arduino core.  A sketch is a
  function that returns the logger calls it makes, in order; \<open>serial_output\<close> runs them on a fresh logger and returns the printed lines.  The
  wait for the serial monitor and \<open>delay\<close> are left out.
\<close>

section \<open>The serial logger\<close>

type_synonym log_lines = "(log_level \<times> string) list"

definition logs :: "log_lines \<Rightarrow> logger_op list" where
  "logs ls = map (\<lambda>(lv, m). Log lv m) ls"

definition serial_output :: "logger_op list \<Rightarrow> log_lines option" where
  "serial_output calls =
     (case logger_run calls (setSink (Some []) init_logger) of None \<Rightarrow> None | Some l \<Rightarrow> sink l)"

text \<open>A line of the serial monitor without its level tag.\<close>

definition line_hides :: "string \<Rightarrow> log_level \<times> string \<Rightarrow> bool" where
  "line_hides secret line \<longleftrightarrow>
     (\<exists>r. snd line = ''['' @ logLevelName (fst line) @ ''] '' @ r \<and> \<not> sublist secret r)"

lemma logger_run_append:
  "logger_run (xs @ ys) l = (case logger_run xs l of None \<Rightarrow> None | Some l' \<Rightarrow> logger_run ys l')"
  by (induction xs arbitrary: l) (auto split: option.split)

lemma register_run:
  "logger_run (map RegisterSecret ss) l = Some (fold (\<lambda>s l. registerSecret l s) ss l)"
  by (induction ss arbitrary: l) simp_all

lemma registered:
  "sink (registerSecret l s) = sink l" "level (registerSecret l s) = level l"
  "set (secrets (registerSecret l s)) = set (secrets l) \<union> {t. t = s \<and> kMinSecretLen \<le> length t}"
  by (auto simp: registerSecret_def)

lemma fold_register_facts:
  "logger_inv l \<Longrightarrow> logger_inv (fold (\<lambda>s l. registerSecret l s) ss l)"
  "sink (fold (\<lambda>s l. registerSecret l s) ss l) = sink l"
  "level (fold (\<lambda>s l. registerSecret l s) ss l) = level l"
  "set (secrets (fold (\<lambda>s l. registerSecret l s) ss l)) =
     set (secrets l) \<union> {s \<in> set ss. kMinSecretLen \<le> length s}"
  by (induction ss arbitrary: l) (simp_all add: registered, auto)

lemma logs_hide:
  assumes "logger_inv l" "s \<in> set (secrets l)" "star_free s" "sink l = Some out"
    "list_all (line_hides s) out"
  shows "\<exists>l' out'. logger_run (logs ls) l = Some l' \<and> sink l' = Some out' \<and> list_all (line_hides s) out'"
  using assms
proof (induction ls arbitrary: l out)
  case Nil
  then show ?case
    by (simp add: logs_def)
next
  case (Cons p ls)
  obtain lv m where p: "p = (lv, m)"
    by fastforce
  let ?r = "fold mask_secret (secrets l) m"
  have hides: "\<not> sublist s ?r"
    using Cons.prems fold_mask_removes [of s "secrets l" m] logger_inv_nonempty by (auto simp: star_free_def)
  obtain l1 out1 where l1: "log_msg l lv m = Some l1" "sink l1 = Some out1" "list_all (line_hides s) out1"
    "secrets l1 = secrets l"
  proof (cases "lv < level l \<or> level l = LvNone")
    case True
    then show thesis
      using that [of l out] Cons.prems by (simp add: log_msg_def)
  next
    case False
    then show thesis
      using that [of "l\<lparr>sink := Some (out @ [(lv, ''['' @ logLevelName lv @ ''] '' @ ?r)])\<rparr>"
          "out @ [(lv, ''['' @ logLevelName lv @ ''] '' @ ?r)]"] Cons.prems hides
      by (auto simp: log_msg_def redact_mask line_hides_def)
  qed
  have "logger_inv l1" "s \<in> set (secrets l1)"
    using Cons.prems l1(4) by (simp_all add: logger_inv_def)
  from Cons.IH [OF this Cons.prems(3) l1(2,3)] show ?case
    using l1(1) by (simp add: logs_def p)
qed

text \<open>A sketch that sets its logger up first never prints a secret it registered.\<close>

lemma serial_hides:
  assumes "s \<in> set ss" "kMinSecretLen \<le> length s" "star_free s" "lvl = [] \<or> lvl = [SetLevel lv]"
  shows "\<exists>out. serial_output (lvl @ map RegisterSecret ss @ logs ls) = Some out \<and> list_all (line_hides s) out"
proof -
  let ?l = "fold (\<lambda>s l. registerSecret l s) ss ((init_logger\<lparr>sink := Some []\<rparr>)
    \<lparr>level := (if lvl = [] then LvInfo else lv)\<rparr>)"
  have "logger_run (lvl @ map RegisterSecret ss) (init_logger\<lparr>sink := Some []\<rparr>) = Some ?l"
    using assms(4) by (auto simp: register_run init_logger_def)
  moreover have "logger_inv ?l" "sink ?l = Some []" "s \<in> set (secrets ?l)"
    using assms(1,2) fold_register_facts(1)
    by (auto simp: fold_register_facts logger_inv_def init_logger_def)
  from logs_hide [OF this(1,3) assms(3) this(2), of ls] have
    "\<exists>l' out'. logger_run (logs ls) ?l = Some l' \<and> sink l' = Some out' \<and> list_all (line_hides s) out'"
    by simp
  ultimately show ?thesis
    unfolding serial_output_def append_assoc [symmetric] by (subst logger_run_append) auto
qed

section \<open>The adapters to the Arduino core\<close>

text \<open>The sink hands \<open>println\<close> a C string: the text up to the first NUL.\<close>

definition SerialLogSink_write :: "log_level \<Rightarrow> string \<Rightarrow> string" where
  "SerialLogSink_write lv line = takeWhile (\<lambda>c. c \<noteq> CHR 0x00) line"

definition edgeArduinoMillis :: "'a::len word \<Rightarrow> u32" where
  "edgeArduinoMillis core_millis = ucast core_millis"

definition edgeArduinoDelay :: "('b::len word \<Rightarrow> 's \<Rightarrow> 's) \<Rightarrow> u32 \<Rightarrow> 's \<Rightarrow> 's" where
  "edgeArduinoDelay core_delay ms = core_delay (ucast ms)"

text \<open>The cut cannot bring a secret back: the tag survives it, and what follows is a prefix.\<close>

lemma serial_write_hides:
  assumes "line_hides s (lv, line)"
  shows "line_hides s (lv, SerialLogSink_write lv line)"
proof -
  obtain r where r: "line = ''['' @ logLevelName lv @ ''] '' @ r" "\<not> sublist s r"
    using assms by (auto simp: line_hides_def)
  have "\<forall>c\<in>set (''['' @ logLevelName lv @ ''] ''). c \<noteq> CHR 0x00"
    by (cases lv) simp_all
  then have "SerialLogSink_write lv line =
      ''['' @ logLevelName lv @ ''] '' @ takeWhile (\<lambda>c. c \<noteq> CHR 0x00) r"
    unfolding SerialLogSink_write_def r(1) append_assoc [symmetric] by (subst takeWhile_append2) auto
  moreover have "\<not> sublist s (takeWhile (\<lambda>c. c \<noteq> CHR 0x00) r)"
    using r(2) by (meson prefix_imp_sublist sublist_order.order_trans takeWhile_is_prefix)
  ultimately show ?thesis
    by (auto simp: line_hides_def)
qed

text \<open>A core with a wider counter measures the same elapsed time, modulo 2^32, through the adapter.\<close>

lemma edge_millis_elapsed:
  fixes a b :: "'a::len word"
  assumes "32 \<le> LENGTH('a)"
  shows "edgeArduinoMillis b - edgeArduinoMillis a = edgeArduinoMillis (b - a)"
proof -
  have "take_bit 32 (uint (b - a)) = take_bit 32 (uint b - uint a)"
    using assms by (simp add: uint_word_ariths take_bit_take_bit flip: take_bit_eq_mod)
  then show ?thesis
    unfolding edgeArduinoMillis_def ucast_eq by (simp only: wi_hom_sub word_of_int_eq_iff) simp
qed

section \<open>Joining the network\<close>

text \<open>\<open>up k\<close> is the \<open>k\<close>-th answer of \<open>WiFi.status() == WL_CONNECTED\<close>, \<open>millis k\<close> the reading of the
  clock in round \<open>k\<close>; the result is the round the wait ends in.\<close>

partial_function (option) wifi_wait :: "(nat \<Rightarrow> bool) \<Rightarrow> (nat \<Rightarrow> u32) \<Rightarrow> u32 \<Rightarrow> nat \<Rightarrow> nat option" where
  "wifi_wait up millis start k =
     (if \<not> up k \<and> millis k - start < 20000 then wifi_wait up millis start (k + 1) else Some k)"

declare wifi_wait.simps [code]

lemma wifi_wait_returns:
  assumes "ticking millis"
  shows "\<exists>n\<ge>k. wifi_wait up millis start k = Some n"
proof (induction "dist millis start 20000 k" arbitrary: k rule: less_induct)
  case less
  show ?case
  proof (cases "\<not> up k \<and> millis k - start < 20000")
    case True
    then obtain n where "Suc k \<le> n" "wifi_wait up millis start (Suc k) = Some n"
      using less [of "Suc k"] dist_Suc [OF assms, of 20000 k start] by (auto simp: not_le)
    then show ?thesis
      using True by (subst wifi_wait.simps) (auto intro: Suc_leD)
  qed (subst wifi_wait.simps, auto)
qed

text \<open>What a sketch is built for and finds at run time: the answers of \<open>WiFi.status()\<close>, the readings of
  \<open>millis()\<close> while it joins, waits for the time and talks to the service, the reported time, the TLS
  client, and the CA bundle if one was generated (\<open>EDGELLM_HAS_CA_BUNDLE\<close>).\<close>

record 'c board =
  bd_platform :: platform
  bd_tls :: "'c tls_ops"
  bd_bundle :: "string option"
  bd_wifi :: "nat \<Rightarrow> bool"
  bd_joining :: "nat \<Rightarrow> u32"
  bd_epoch :: "nat \<Rightarrow> u32"
  bd_syncing :: "nat \<Rightarrow> u32"
  bd_clock :: "nat \<Rightarrow> u32"

definition clocks_tick :: "('c, 'z) board_scheme \<Rightarrow> bool" where
  "clocks_tick b \<longleftrightarrow> ticking (bd_joining b) \<and> ticking (bd_syncing b) \<and> ticking (bd_clock b)"

definition join_wifi :: "('c, 'z) board_scheme \<Rightarrow> bool option" where
  "join_wifi b =
     map_option (\<lambda>k. bd_wifi b (k + 1)) (wifi_wait (bd_wifi b) (\<lambda>k. bd_joining b (k + 1)) (bd_joining b 0) 0)"

definition sync_time :: "('c, 'z) board_scheme \<Rightarrow> bool option" where
  "sync_time b =
     ntp_begin (bd_platform b) (bd_epoch b) (\<lambda>k. bd_syncing b (k + 1)) (bd_syncing b 0) 8000"

lemma ticking_shift: "ticking f \<Longrightarrow> ticking (\<lambda>k. f (k + 1))"
  unfolding ticking_def by (metis add_Suc_shift Suc_eq_plus1 add.commute add_Suc)

lemma go_online_returns:
  assumes "clocks_tick b"
  obtains up synced where "join_wifi b = Some up" "sync_time b = Some synced"
proof -
  have "(8000 :: u32) \<noteq> - 1"
    by simp
  then obtain synced where "sync_time b = Some synced"
    using ntp_begin_decides [of "\<lambda>k. bd_syncing b (k + 1)" 8000 "bd_platform b" "bd_epoch b" "bd_syncing b 0"]
      ticking_shift assms by (auto simp: sync_time_def clocks_tick_def)
  moreover obtain n where "wifi_wait (bd_wifi b) (\<lambda>k. bd_joining b (k + 1)) (bd_joining b 0) 0 = Some n"
    using wifi_wait_returns [of "\<lambda>k. bd_joining b (k + 1)"] ticking_shift assms by (auto simp: clocks_tick_def) blast
  ultimately show thesis
    using that by (simp add: join_wifi_def)
qed

end
