(* ===== verification/Sketch_Boards.thy ===== *)
theory Sketch_Boards
  imports Sketch_Base Provisioning Eeprom_Store Llm_Wire
begin

text \<open>
  The sketches without a model: the self test (examples/01_SelfTest), the connectivity check
  (02_WiFiHealthCheck) and provisioning over the serial port (08_Provisioning).
\<close>

definition edgellm_version :: string where
  "edgellm_version = ''0.7.0''"

definition yes_no :: "bool \<Rightarrow> string" where
  "yes_no b = (if b then ''yes'' else ''no'')"

section \<open>01_SelfTest\<close>

definition self_test_capabilities :: "capabilities \<Rightarrow> log_lines" where
  "self_test_capabilities caps =
     [(LvInfo, ''board: '' @ cap_board caps),
      (LvInfo, ''heap budget (bytes): '' @ toDecimal (unat (cap_heapBudget caps))),
      (LvInfo, ''max TLS connections: '' @ toDecimal (unat (cap_maxTlsConnections caps))),
      (LvInfo, ''full duplex (FreeRTOS): '' @ yes_no (cap_supportsFullDuplex caps)),
      (LvInfo, ''persistent secret store: '' @ yes_no (cap_supportsPersistentStore caps))]"

definition self_test :: "platform \<Rightarrow> bool \<Rightarrow> logger_op list" where
  "self_test p psram =
     (let stored = snd (mem_set ''demo_key'' ''sk-demo-abcdef-123456'' mem_empty);
          got = mem_get ''demo_key'' stored
      in [SetLevel LvDebug] @
         logs ((LvInfo, ''EdgeLLM v'' @ edgellm_version @ '' self test'') #
           self_test_capabilities (detectCapabilities p psram)) @
         logs [(LvInfo, ''stored & read back demo_key: '' @ (case got of Inr _ \<Rightarrow> ''ok'' | Inl _ \<Rightarrow> ''FAILED''))] @
         (case got of
            Inl _ \<Rightarrow> []
          | Inr v \<Rightarrow>
              RegisterSecret v #
              logs [(LvInfo, ''masked form for logs: '' @ maskToken v 4),
                    (LvWarn, ''this line mentions the key '' @ v @ '' and must appear redacted'')]) @
         logs [(LvInfo, ''self test complete'')])"

text \<open>On every board the test stores its key, reads it back and prints it masked.\<close>

lemma self_test_redacts:
  "redact (l\<lparr>secrets := [''sk-demo-abcdef-123456'']\<rparr>) (''masked form for logs: ***3456'') =
     Some ''masked form for logs: ***3456''"
  "redact (l\<lparr>secrets := [''sk-demo-abcdef-123456'']\<rparr>)
     ''this line mentions the key sk-demo-abcdef-123456 and must appear redacted'' =
     Some ''this line mentions the key *** and must appear redacted''"
  "redact (l\<lparr>secrets := [''sk-demo-abcdef-123456'']\<rparr>) ''self test complete'' = Some ''self test complete''"
  unfolding redact_def by (simp_all, code_simp+)

lemma self_test_output:
  "map_option (drop 6) (serial_output (self_test p psram)) =
     Some [(LvInfo, ''[INFO] stored & read back demo_key: ok''),
           (LvInfo, ''[INFO] masked form for logs: ***3456''),
           (LvWarn, ''[WARN] this line mentions the key *** and must appear redacted''),
           (LvInfo, ''[INFO] self test complete'')]"
proof -
  have key: "mem_get ''demo_key'' (snd (mem_set ''demo_key'' ''sk-demo-abcdef-123456'' mem_empty)) =
      Inr ''sk-demo-abcdef-123456''" "maskToken ''sk-demo-abcdef-123456'' 4 = ''***3456''"
    by code_simp+
  show ?thesis
    using self_test_redacts
    by (simp add: serial_output_def self_test_def Let_def key self_test_capabilities_def logs_def log_msg_def
        init_logger_def redact_def registerSecret_def kMinSecretLen_def logLevelName_def less_log_level_def)
qed

section \<open>02_WiFiHealthCheck\<close>

text \<open>The request and the report of \<open>healthCheck\<close>; \<open>k\<close> is the number of clock readings taken before it.\<close>

definition health_request :: "string \<Rightarrow> u16 \<Rightarrow> string \<Rightarrow> http_request" where
  "health_request host port path =
     setHeader (empty_request\<lparr>rq_method := ''GET'', rq_host := host, rq_port := port, rq_path := path\<rparr>)
       ''User-Agent'' (''EdgeLLM/'' @ edgellm_version)"

definition health_line :: "http_response \<Rightarrow> log_level \<times> string" where
  "health_line resp =
     (LvInfo, ''HTTP '' @ itos (rs_status resp) @ '' '' @ rs_reason resp @ '' (body '' @
        toDecimal (length (rs_body resp)) @ '' bytes)'')"

definition healthCheck ::
  "'s conn_ops \<Rightarrow> (nat \<Rightarrow> u32) \<Rightarrow> nat \<Rightarrow> string \<Rightarrow> u16 \<Rightarrow> string \<Rightarrow> 's \<Rightarrow> (bool \<times> log_lines \<times> nat \<times> 's) option"
where
  "healthCheck ops millis k host port path s =
     (let http = http_setTimeout 10000 (http_setClock (Some millis) ((new_client s (Some []))\<lparr>hticks := k\<rparr>))
      in case send ops (health_request host port path) empty_response http of
           None \<Rightarrow> None
         | Some (st, resp, http1) \<Rightarrow>
             (let s1 = cn_stop ops (conn http1); ls = (case hlog http1 of None \<Rightarrow> [] | Some l \<Rightarrow> l)
              in if st \<noteq> Ok then
                   Some (False, ls @ [(LvError, ''request failed: '' @ errorString st)], hticks http1, s1)
                 else Some (rs_status resp = 204 \<or> isSuccess resp, ls @ [health_line resp], hticks http1, s1)))"

text \<open>The wait of \<open>connectWiFi\<close>: the round it ends in, and whether the network was there.\<close>

partial_function (option) connect_wait ::
  "(nat \<Rightarrow> bool) \<Rightarrow> (nat \<Rightarrow> u32) \<Rightarrow> u32 \<Rightarrow> nat \<Rightarrow> (nat \<times> bool) option" where
  "connect_wait up millis start k =
     (if \<not> up k then
        (if 20000 < millis k - start then Some (k, False) else connect_wait up millis start (k + 1))
      else Some (k, True))"

declare connect_wait.simps [code]

definition connectWiFi :: "('c, 'z) board_scheme \<Rightarrow> string \<Rightarrow> (log_lines \<times> nat) option" where
  "connectWiFi b ssid =
     (case connect_wait (bd_wifi b) (\<lambda>k. bd_joining b (k + 1)) (bd_joining b 0) 0 of
        None \<Rightarrow> None
      | Some (k, up) \<Rightarrow>
          Some ([(LvInfo, ''connecting to WiFi: '' @ ssid),
                 if up then (LvInfo, ''WiFi connected'') else (LvError, ''WiFi connection timed out'')], k))"

definition pass_fail :: "bool \<Rightarrow> string" where
  "pass_fail ok = (if ok then ''PASS'' else ''FAIL'')"

definition plain_check ::
  "('c, 'z) board_scheme \<Rightarrow> 'c \<Rightarrow> (log_lines \<times> nat) option" where
  "plain_check b s =
     (case healthCheck (arduino_plain (bd_tls b)) (bd_clock b) 0 ''connectivitycheck.gstatic.com'' 80
             ''/generate_204'' s of
        None \<Rightarrow> None
      | Some (ok, ls, k, s1) \<Rightarrow>
          Some ([(LvInfo, ''plain-HTTP health check -> connectivitycheck.gstatic.com'')] @ ls @
                [(LvInfo, ''plain-HTTP result: '' @ pass_fail ok)], k))"

definition secure_check ::
  "('c, 'z) board_scheme \<Rightarrow> nat \<Rightarrow> 'c \<Rightarrow> log_lines option" where
  "secure_check b k c =
     (if bd_bundle b = None then
        Some [(LvWarn, ''HTTPS check skipped: no CA bundle. Run `python3 tools/gen_ca_bundle.py` '' @
                       ''to enable verified TLS, then re-flash.'')]
      else
        (case healthCheck (arduino_secure (bd_platform b) (bd_tls b)) (bd_clock b) k ''www.gstatic.com'' 443
                ''/generate_204''
                \<lparr>sc_client = c, sc_trust = useDefaultBundle (bd_bundle b) (new_ca_store (bd_bundle b))\<rparr> of
           None \<Rightarrow> None
         | Some (ok, ls, k1, s1) \<Rightarrow>
             Some ([(LvInfo, ''HTTPS health check -> www.gstatic.com (verifying TLS)'')] @ ls @
                   [(LvInfo, ''HTTPS result: '' @ pass_fail ok)])))"

text \<open>\<open>setup\<close>: \<open>epoch\<close> is what the time source reports after it has begun, \<open>s\<close> and \<open>c\<close> are the network
  clients of the two sockets.\<close>

definition health_setup ::
  "('c, 'z) board_scheme \<Rightarrow> u32 \<Rightarrow> string \<Rightarrow> string \<Rightarrow> 'c \<Rightarrow> 'c \<Rightarrow> logger_op list option" where
  "health_setup b epoch ssid wifi_password s c =
     (let first = [SetLevel LvDebug] @ map RegisterSecret [wifi_password];
          hello = [(LvInfo, ''EdgeLLM v'' @ edgellm_version @ '' health check on '' @
                    cap_board (detectCapabilities (bd_platform b) False))]
      in case connectWiFi b ssid of
           None \<Rightarrow> None
         | Some (wifi, k) \<Rightarrow>
             if \<not> bd_wifi b (k + 1) then Some (first @ logs (hello @ wifi))
             else
               (case sync_time b of
                  None \<Rightarrow> None
                | Some timely \<Rightarrow>
                    let timed = (if timely then (LvInfo, ''time synced, epoch='' @ toDecimal (unat epoch))
                                 else (LvWarn, ''NTP sync failed; HTTPS certificate validation may fail''))
                    in case plain_check b s of
                         None \<Rightarrow> None
                       | Some (plain, ticks) \<Rightarrow>
                           map_option
                             (\<lambda>secure. first @ logs (hello @ wifi @ [timed] @ plain @ secure @
                                [(LvInfo, ''health check complete'')]))
                             (secure_check b ticks c)))"

section \<open>08_Provisioning\<close>

text \<open>The store a sketch for the platform declares.\<close>

datatype sketch_store = NvsStore string | FlashStore | RamStore

definition provisioning_store :: "platform \<Rightarrow> sketch_store" where
  "provisioning_store p =
     (if p = ESP32 then NvsStore ''edgellm_sec''
      else if p = UNO_R4 \<or> p = SAMD then FlashStore
      else RamStore)"

definition provisioning_fields :: "prov_field list" where
  "provisioning_fields =
     addField ''mcp_bearer_token'' ''MCP server bearer token'' True
       (addField ''gemini_api_key'' ''Gemini API key'' True
         (addField ''openai_api_key'' ''OpenAI API key'' True
           (addField ''anthropic_api_key'' ''Claude API key'' True
             (addField ''wifi_password'' ''WiFi password'' True
               (addField ''wifi_ssid'' ''WiFi network name'' False [])))))"

definition provisioning_setup :: "'s \<Rightarrow> 's serial" where
  "provisioning_setup s = serial_begin \<lparr>sp_store = s, sp_buf = [], sp_out = []\<rparr>"

text \<open>A boot on a board with EEPROM or emulated flash, and the characters typed until the next.\<close>

definition flash_boot :: "'d eeprom_ops \<Rightarrow> 'd \<Rightarrow> 'd eeprom_store serial" where
  "flash_boot dv d = provisioning_setup (eeprom_begin dv \<lparr>data = [], capacity = 0, dev = d\<rparr>)"

definition flash_session :: "'d eeprom_ops \<Rightarrow> bool \<Rightarrow> string \<Rightarrow> 'd \<Rightarrow> 'd eeprom_store serial" where
  "flash_session dv nc typed d = poll (eeprom_secret_store dv nc) provisioning_fields typed (flash_boot dv d)"

section \<open>Properties\<close>

text \<open>on any socket, the health check passes only if the whole request was sent and the bytes received
  since hold a response with a 2xx status; the line it logs is that response's.\<close>

theorem health_check_sound:
  assumes "connection ops snt rcv" "healthCheck ops millis k host port path s = Some (True, ls, k', s')"
  shows "\<exists>got out excess. rcv s' = rcv s @ got \<and> response_of got out excess \<and> isSuccess out \<and>
    suffix (serializeRequest (health_request host port path) False) (snt s') \<and> last ls = health_line out"
proof -
  let ?http = "(new_client s (Some []))\<lparr>hticks := k, hclock := Some millis, timeoutMs := 10000\<rparr>"
  obtain out http1 where d: "send ops (health_request host port path) empty_response ?http = Some (Ok, out, http1)"
    and s': "s' = cn_stop ops (conn http1)" and ok: "rs_status out = 204 \<or> isSuccess out"
    and ls: "last ls = health_line out"
    using assms(2) by (auto simp: healthCheck_def Let_def split: option.splits if_splits)
  have h: "conn ?http = s" "pending ?http = []" "\<not> keepAlive ?http"
    by (simp_all add: new_client_def)
  from connection.send_facts [OF assms(1) d] obtain got where
    "rcv (conn http1) = rcv s @ got" "response_of got out (pending http1)"
    "suffix (serializeRequest (health_request host port path) False) (snt (conn http1))"
    using h by auto
  moreover have "isSuccess out"
    using ok by (auto simp: isSuccess_def)
  ultimately show ?thesis
    using ls connection.stop_quiet [OF assms(1)] unfolding s' by (metis (no_types, lifting))
qed

lemma health_run:
  "\<exists>ls k f. healthCheck fake_ops word_of_nat 0 ''h'' 80 ''/''
     (fake_new\<lparr>responses := [''HTTP/1.1 204 None'' @ crlf @ crlf]\<rparr>) = Some (True, ls, k, f) \<and> length ls = 1"
proof -
  have "map_option (\<lambda>(ok, ls, k, f). (ok, length ls)) (healthCheck fake_ops word_of_nat 0 ''h'' 80 ''/''
     (fake_new\<lparr>responses := [''HTTP/1.1 204 None'' @ crlf @ crlf]\<rparr>)) = Some (True, 1)"
    by code_simp
  then show ?thesis
    by auto
qed

theorem health_check_sound_witness:
  "\<exists>ls k f. healthCheck fake_ops word_of_nat 0 ''h'' 80 ''/''
      (fake_new\<lparr>responses := [''HTTP/1.1 204 None'' @ crlf @ crlf]\<rparr>) = Some (True, ls, k, f) \<and>
    (\<exists>out. isSuccess out \<and> last ls = health_line out)"
  using health_run health_check_sound [OF fake.connection_axioms] by blast

lemma flash_store_kept:
  assumes "eeprom_laws dv nc"
  shows "eeprom_wf dv (sp_store (flash_session dv nc typed d)) \<and> capacity (sp_store (flash_session dv nc typed d)) = 0"
proof -
  let ?Q = "\<lambda>s. eeprom_wf dv s \<and> capacity s = 0"
  have "?Q (snd (ss_set (eeprom_secret_store dv nc) k v s))" if "?Q s" for k v s
    using that eeprom_set_cases [OF assms, of s k v "fst (eeprom_set dv nc k v s)" "snd (eeprom_set dv nc k v s)"]
    by (auto simp: eeprom_secret_store_def eeprom_set_def Let_def writeBlob_def split: prod.splits bool.splits)
  moreover have "?Q (snd (ss_remove (eeprom_secret_store dv nc) k s))" if "?Q s" for k s
    using that eeprom_remove_cases [OF assms, of s k "fst (eeprom_remove dv nc k s)" "snd (eeprom_remove dv nc k s)"]
    by (auto simp: eeprom_secret_store_def eeprom_remove_def Let_def writeBlob_def split: prod.splits bool.splits)
  moreover have "?Q (sp_store (flash_boot dv d))"
    using eeprom_begin_wf [of dv "\<lparr>data = [], capacity = 0, dev = d\<rparr>"]
    by (simp add: flash_boot_def provisioning_setup_def serial_begin_def eeprom_begin_def Let_def)
  ultimately show ?thesis
    unfolding flash_session_def by (rule poll_preserves [where Q = ?Q])
qed

text \<open>C10: on a board with EEPROM or emulated flash, when the sketch answers ok to a set line of at
  most 512 characters, typed for one of its fields on an empty line buffer with a value that has no
  blanks at its ends, the next boot after a power cycle loads the typed value and everything the
  session's store answered before it.  (A longer line is cut and still answered ok, and on the
  boards whose store is RAM nothing survives.)\<close>

theorem provisioned_values_survive:
  assumes "eeprom_laws dv nc" "p = flash_session dv nc typed d" "sp_buf p = []"
    and "k \<in> pf_key ` set provisioning_fields" "trimmed v" "LF \<notin> set v" "CR \<notin> set v"
    and "length (''set '' @ k @ '' '' @ v) \<le> kMaxLine"
    and "p' = flash_session dv nc (typed @ ''set '' @ k @ '' '' @ v @ [LF]) d"
    and "last (sp_out p') = ''ok: '' @ k @ '' set''"
  shows "eeprom_entries (sp_store (flash_boot dv (ee_reboot dv (dev (sp_store p'))))) =
    (eeprom_entries (sp_store p))(k \<mapsto> v)"
proof -
  let ?ops = "eeprom_secret_store dv nc" and ?line = "''set '' @ k @ '' '' @ v"
  have k: "bare_word k" "LF \<notin> set k" "CR \<notin> set k"
    using assms(4) by (auto simp: provisioning_fields_def addField_def bare_word_def prov_blank_def)
  obtain e s' where set: "ss_set ?ops k v (sp_store p) = (e, s')"
    by fastforce
  let ?response = "if e \<noteq> Ok then ''error: '' @ errorString e else ''ok: '' @ k @ '' set''"
  have "handleCommand ?ops provisioning_fields ?line (sp_store p) = (?response, s')"
    using handle_set_typed [OF k(1) assms(5,4), of ?ops "sp_store p"] set by simp
  from typed_line [OF assms(3) _ _ assms(8) this] assms(6,7) k(2,3)
  have p': "p' = p\<lparr>sp_store := s', sp_buf := [], sp_out := sp_out p @ [c_str ?response]\<rparr>"
    unfolding assms(9) flash_session_def poll_append assms(2) by auto
  have "hd (c_str (''error: '' @ m)) = CHR ''e''" for m
    by (simp add: c_str_def char_code_def)
  note error = this
  have store': "sp_store p' = s'"
    unfolding p' by simp
  have "e = Ok"
  proof (rule ccontr)
    assume "e \<noteq> Ok"
    then have "c_str (''error: '' @ errorString e) = ''ok: '' @ k @ '' set''"
      using assms(10) unfolding p' by simp
    from arg_cong [OF this, of hd] error [of "errorString e"] show False
      by simp
  qed
  then have "eeprom_wf dv s'" "synced dv s'" "eeprom_entries s' = (eeprom_entries (sp_store p))(k \<mapsto> v)"
    using eeprom_set_cases [OF assms(1), of "sp_store p" k v e s'] flash_store_kept [OF assms(1), of typed d] set assms(2)
    by (auto simp: eeprom_secret_store_def)
  moreover have "capacity s' = 0"
    using flash_store_kept [OF assms(1), of "typed @ ''set '' @ k @ '' '' @ v @ [LF]" d] store'
    unfolding assms(9) by simp
  ultimately show ?thesis
    unfolding store' by (auto simp: synced_def flash_boot_def provisioning_setup_def serial_begin_def power_cycle_def eeprom_entries_def)
qed

lemma blank_flash: "data (sp_store (flash_boot ram_dev (replicate 64 0))) = []"
  by code_simp

lemma typed_ssid_run:
  "last (sp_out (flash_session ram_dev True ([] @ ''set '' @ ''wifi_ssid'' @ '' '' @ ''x'' @ [LF]) (replicate 64 0))) =
     ''ok: '' @ ''wifi_ssid'' @ '' set''"
proof -
  let ?p = "flash_boot ram_dev (replicate 64 0)" and ?line = "''set '' @ ''wifi_ssid'' @ '' '' @ ''x''"
  have s: "sp_store ?p = \<lparr>data = [], capacity = 0, dev = replicate 64 0\<rparr>" "sp_buf ?p = []"
    using blank_flash by (simp_all add: flash_boot_def provisioning_setup_def serial_begin_def eeprom_begin_def Let_def)
  have "kv_ok [(''wifi_ssid'', ''x'')]"
    by (simp add: kv_ok_def smap_ok_def entry_ok_def kMaxKeyLen_def kMaxValLen_def)
  moreover have "capacityBytes ram_dev \<lparr>data = [], capacity = 0, dev = replicate 64 0\<rparr> = 64"
    by (simp add: capacityBytes_def ram_dev_def)
  ultimately have "fst (eeprom_set ram_dev True ''wifi_ssid'' ''x'' (sp_store ?p)) = Ok"
    unfolding s by (simp add: eeprom_set_def encodeKv_True encoded_length_def kHeaderSize_def Let_def)
  then obtain s' where "ss_set (eeprom_secret_store ram_dev True) ''wifi_ssid'' ''x'' (sp_store ?p) = (Ok, s')"
    by (cases "eeprom_set ram_dev True ''wifi_ssid'' ''x'' (sp_store ?p)") (simp add: eeprom_secret_store_def)
  then have "handleCommand (eeprom_secret_store ram_dev True) provisioning_fields ?line (sp_store ?p) =
      (''ok: '' @ ''wifi_ssid'' @ '' set'', s')"
    by (intro handle_set_line) (simp_all add: bare_word_def trimmed_def prov_blank_def provisioning_fields_def addField_def)
  from typed_line [OF s(2) _ _ _ this] show ?thesis
    by (simp add: flash_session_def c_str_def char_code_def kMaxLine_def del: poll.simps)
qed

theorem provisioned_values_survive_witness:
  "eeprom_entries (sp_store (flash_boot ram_dev (ee_reboot ram_dev (dev (sp_store
       (flash_session ram_dev True ([] @ ''set '' @ ''wifi_ssid'' @ '' '' @ ''x'' @ [LF]) (replicate 64 0))))))) =
     (eeprom_entries (sp_store (flash_session ram_dev True [] (replicate 64 0))))(''wifi_ssid'' \<mapsto> ''x'')"
proof (rule provisioned_values_survive [OF ram_dev_laws refl _ _ _ _ _ _ refl typed_ssid_run])
  show "sp_buf (flash_session ram_dev True [] (replicate 64 0)) = []"
    by (simp add: flash_session_def flash_boot_def provisioning_setup_def serial_begin_def)
  show "''wifi_ssid'' \<in> pf_key ` set provisioning_fields"
    by (simp add: provisioning_fields_def addField_def)
qed (simp_all add: trimmed_def prov_blank_def kMaxLine_def)

section \<open>The health check over a server\<close>

text \<open>Over a server that answers, the check reports exactly the status of its response.\<close>

context responder
begin

lemma health_check_exact:
  assumes "ready s (wire_of r # rs)" "length_framed 16384 r"
  shows "\<exists>ls k' s'. healthCheck ops millis k host port path s =
    Some (rs_status (snd (received r)) = 204 \<or> isSuccess (snd (received r)), ls @ [health_line (snd (received r))], k', s')"
proof -
  let ?http = "(new_client s (Some []))\<lparr>hticks := k, hclock := Some millis, timeoutMs := 10000\<rparr>"
  have h: "serving (conn ?http) (wire_of r # rs)" "pending ?http = []" "recvBufferSize ?http \<noteq> 0"
    "length_framed (maxResponseBody ?http) r"
    using assms by (simp_all add: new_client_def serving_def)
  obtain http1 where "send ops (health_request host port path) empty_response ?http = Some (Ok, snd (received r), http1)"
    using serving_send [OF h] by blast
  then show ?thesis
    by (simp add: healthCheck_def Let_def)
qed

end

end
