(* ===== verification/Sketch_Device.thy ===== *)
theory Sketch_Device
  imports Tool_Registry Prompt_Registry
begin

text \<open>
  The device the sketches 06_AgentTools and 07_McpServer control, and the tools and resources they
  register for it.  The device is the world the handlers run in.
\<close>

section \<open>The device\<close>

text \<open>\<open>dv_millis k\<close> and \<open>dv_freeHeap k\<close> are what the board reports the \<open>k\<close>-th time it is asked.\<close>

record device =
  dv_led :: bool
  dv_millis :: "nat \<Rightarrow> u32"
  dv_freeHeap :: "nat \<Rightarrow> u32"
  dv_asked :: nat

definition device_millis :: "device \<Rightarrow> u32 \<times> device" where
  "device_millis d = (dv_millis d (dv_asked d), d\<lparr>dv_asked := dv_asked d + 1\<rparr>)"

definition device_freeHeap :: "device \<Rightarrow> u32 \<times> device" where
  "device_freeHeap d = (dv_freeHeap d (dv_asked d), d\<lparr>dv_asked := dv_asked d + 1\<rparr>)"

definition digitalWrite_led :: "bool \<Rightarrow> device \<Rightarrow> device" where
  "digitalWrite_led high d = d\<lparr>dv_led := high\<rparr>"

section \<open>The handlers\<close>

definition get_uptime_call :: "device tool_handler" where
  "get_uptime_call args d =
     (case device_millis d of (t, d1) \<Rightarrow> (tool_ok (toDecimal (unat (t div 1000))), d1))"

definition set_led_call :: "device tool_handler" where
  "set_led_call args d =
     (let state = getString args ''state'' []
      in (tool_ok (''LED is now '' @ state), digitalWrite_led (state = ''on'') d))"

definition get_temp_call :: "device tool_handler" where
  "get_temp_call args d = (tool_ok ''21.5'', d)"

definition mcp_set_led_call :: "device tool_handler" where
  "mcp_set_led_call args d =
     (let d1 = digitalWrite_led (getString args ''state'' [] = ''on'') d
      in (tool_ok (''LED '' @ getString args ''state'' []), d1))"

definition status_read :: "string \<Rightarrow> device \<Rightarrow> string result \<times> device" where
  "status_read uri d =
     (case device_millis d of
        (t, d1) \<Rightarrow>
          (case device_freeHeap d1 of
             (heap, d2) \<Rightarrow>
               (Inr (''{\"uptime_s\":'' @ toDecimal (unat (t div 1000)) @ '',\"free_heap\":'' @
                     toDecimal (unat heap) @ ''}''), d2)))"

section \<open>Registration\<close>

definition add_set_led :: "device tool_handler \<Rightarrow> device tool_registry \<Rightarrow> device tool_registry" where
  "add_set_led handler ts =
     (case addTool ''set_led'' ''Turn the built-in LED on or off'' ts of
        (ts1, i) \<Rightarrow>
          tool_onCall i handler
            (tool_allowWrite i True
              (tool_mutating i True (paramEnum i ''state'' ''on or off'' [''on'', ''off''] True ts1))))"

text \<open>\<open>registerTools\<close> of 06.\<close>

definition agent_tools :: "device tool_registry" where
  "agent_tools =
     (case addTool ''get_uptime'' ''Get how long the device has been running, in seconds'' [] of
        (ts, i) \<Rightarrow> add_set_led set_led_call (tool_onCall i get_uptime_call ts))"

text \<open>\<open>setupTools\<close> of 07.\<close>

definition device_tools :: "device tool_registry" where
  "device_tools =
     (case addTool ''get_temp'' ''Read the current temperature in Celsius'' [] of
        (ts, i) \<Rightarrow> add_set_led mcp_set_led_call (tool_onCall i get_temp_call ts))"

section \<open>What a call does to the LED\<close>

text \<open>The protocol of the LED tool, independent of registry, validation and handlers: a call that names
  it with an object whose state is on or off switches the LED, and nothing else does.\<close>

definition led_effect :: "(string \<Rightarrow> json option) \<Rightarrow> string \<Rightarrow> string \<Rightarrow> bool \<Rightarrow> bool" where
  "led_effect parse name args led =
     (if name \<noteq> ''set_led'' \<or> args = [] then led
      else
        (case parse args of
           None \<Rightarrow> led
         | Some v \<Rightarrow>
             (case cstr_of (obj_get v ''state'') of
                None \<Rightarrow> led
              | Some s \<Rightarrow> if s = ''on'' then True else if s = ''off'' then False else led)))"

definition led_param :: tool_param where
  "led_param = enum_param ''state'' ''on or off'' [''on'', ''off''] True"

definition led_tools :: "device tool_registry \<Rightarrow> bool" where
  "led_tools ts \<longleftrightarrow>
     (\<forall>name t h. find_tool ts name = Some t \<and> tl_handler t = Some h \<longrightarrow>
        (if name = ''set_led''
         then tl_params t = [led_param] \<and>
           (\<forall>args d. dv_led (snd (h args d)) \<longleftrightarrow> getString args ''state'' [] = ''on'')
         else (\<forall>args d. dv_led (snd (h args d)) = dv_led d))) \<and>
     (\<exists>t h. find_tool ts ''set_led'' = Some t \<and> tl_handler t = Some h)"

lemmas builder_defs = addTool_def reg_add_def edit_tool_def reg_edit_def paramEnum_def push_param_def
  tool_mutating_def tool_allowWrite_def tool_onCall_def new_tool_def

lemma agent_tools_eq:
  "agent_tools =
     [(new_tool ''get_uptime'' ''Get how long the device has been running, in seconds'')
        \<lparr>tl_handler := Some get_uptime_call\<rparr>,
      (new_tool ''set_led'' ''Turn the built-in LED on or off'')
        \<lparr>tl_params := [led_param], tl_mutating := True, tl_writeAllowed := True,
         tl_handler := Some set_led_call\<rparr>]"
  by (simp add: agent_tools_def add_set_led_def builder_defs led_param_def)

lemma device_tools_eq:
  "device_tools =
     [(new_tool ''get_temp'' ''Read the current temperature in Celsius'')\<lparr>tl_handler := Some get_temp_call\<rparr>,
      (new_tool ''set_led'' ''Turn the built-in LED on or off'')
        \<lparr>tl_params := [led_param], tl_mutating := True, tl_writeAllowed := True,
         tl_handler := Some mcp_set_led_call\<rparr>]"
  by (simp add: device_tools_def add_set_led_def builder_defs led_param_def)

lemmas handler_defs = get_uptime_call_def set_led_call_def get_temp_call_def mcp_set_led_call_def
  device_millis_def digitalWrite_led_def

lemma led_agent_tools: "led_tools agent_tools"
  by (auto simp: led_tools_def agent_tools_eq find_tool_def reg_find_def new_tool_def handler_defs Let_def)

lemma led_device_tools: "led_tools device_tools"
  by (auto simp: led_tools_def device_tools_eq find_tool_def reg_find_def new_tool_def handler_defs Let_def)

lemma validate_led:
  "validateObject parse [led_param] args = Ok \<longleftrightarrow>
     args \<noteq> [] \<and> (\<exists>v s. parse args = Some v \<and> obj_get v ''state'' = JStr s \<and> c_str s \<in> {''on'', ''off''})"
  by (cases "obj_get (the (parse args)) ''state''")
    (auto simp: validateObject_def led_param_def param_defs typeMatches_def Let_def)

lemma obj_get_str: "obj_get v k = JStr s \<Longrightarrow> is_obj v"
  by (cases v) auto

lemma dispatch_led:
  assumes "led_tools ts" "dispatch parse ts name args d = (r, d')"
  shows "dv_led d' = led_effect parse name args (dv_led d)"
proof (cases "find_tool ts name")
  case None
  then show ?thesis
    using assms by (auto simp: dispatch_def led_tools_def led_effect_def)
next
  case t: (Some t)
  show ?thesis
  proof (cases "name = ''set_led''")
    case False
    have same: "dv_led (snd (h a x)) = dv_led x" if "tl_handler t = Some h" for h a x
      using assms(1) t that False unfolding led_tools_def by auto
    have "dv_led d' = dv_led d"
    proof (cases "tl_handler t")
      case None
      then show ?thesis
        using assms(2) t by (simp add: dispatch_def)
    next
      case (Some h)
      then show ?thesis
        using assms(2) t same [OF Some, of "toolCallArgs parse args" d]
        by (auto simp: dispatch_def split: if_splits prod.splits)
    qed
    then show ?thesis
      using False by (simp add: led_effect_def)
  next
    case True
    obtain h where h: "tl_handler t = Some h"
      using assms(1) t True by (auto simp: led_tools_def)
    have led: "tl_params t = [led_param]" "dv_led (snd (h a x)) \<longleftrightarrow> getString a ''state'' [] = ''on''" for a x
      using assms(1) t h True unfolding led_tools_def by auto
    show ?thesis
    proof (cases "validateObject parse [led_param] args = Ok")
      case False
      then show ?thesis
        using assms(2) t h led(1) True
        by (auto simp: dispatch_def validate_tool_def validate_led led_effect_def split: option.split
            elim!: cstr_of.elims)
    next
      case valid: True
      then obtain v s where v: "args \<noteq> []" "parse args = Some v" "obj_get v ''state'' = JStr s"
        "c_str s = ''on'' \<or> c_str s = ''off''"
        by (auto simp: validate_led)
      have "d' = snd (h (toolCallArgs parse args) d)"
        using assms(2) t h led(1) valid by (auto simp: dispatch_def validate_tool_def split: prod.splits)
      then show ?thesis
        using led(2) v True obj_get_str [OF v(3)]
        by (auto simp: led_effect_def getString_def toolCallArgs_def)
    qed
  qed
qed

end
