(* ===== verification/Sketch_Agent.thy ===== *)
theory Sketch_Agent
  imports Sketch_Base Sketch_Device Board_Tls Llm_Returns Anthropic_Provider OpenAI_Provider Ollama_Provider
begin

text \<open>
  The sketches that call a model: examples/03_CloudChat, 04_DataExtraction, 05_OllamaLocal and
  06_AgentTools.  Each \<open>setup\<close> is a function of the board, the secrets and the socket; \<open>None\<close> is a
  \<open>setup\<close> that never ends.  \<open>as_long\<close> and \<open>as_bool\<close> are ArduinoJson's conversions.
\<close>

section \<open>Going online\<close>

definition em_dash :: string where
  "em_dash = [CHR 0xE2, CHR 0x80, CHR 0x94]"

text \<open>The part \<open>setup\<close> has in common in 03, 04 and 06: the lines logged, and the socket with its trust
  if the sketch goes on.  \<open>unsynced\<close> is what is logged when the time does not come.\<close>

definition go_online ::
  "('c, 'z) board_scheme \<Rightarrow> log_lines \<Rightarrow> 'c secure_conn \<Rightarrow> (log_lines \<times> 'c secure_conn option) option" where
  "go_online b unsynced c =
     (case join_wifi b of
        None \<Rightarrow> None
      | Some up \<Rightarrow>
          if \<not> up then Some ([(LvError, ''WiFi failed'')], None)
          else
            (case sync_time b of
               None \<Rightarrow> None
             | Some synced \<Rightarrow>
                 let ls = (if synced then [] else unsynced)
                 in if bd_bundle b = None then
                      Some (ls @ [(LvWarn, ''No CA bundle '' @ em_dash @
                        '' run tools/gen_ca_bundle.py. Refusing insecure TLS.'')], None)
                    else Some (ls, Some (conn_trust (useDefaultBundle (bd_bundle b)) c))))"

text \<open>An \<open>LLMClient\<close> of a sketch, on its logger and the board's clock.\<close>

definition sketch_client :: "('c, 'z) board_scheme \<Rightarrow> 's \<Rightarrow> 's llm_client" where
  "sketch_client b c = llm_setClock (Some (bd_clock b)) (new_llm c (Some []))"

definition client_lines :: "'s llm_client \<Rightarrow> log_lines" where
  "client_lines lc = (case lc_log lc of None \<Rightarrow> [] | Some ls \<Rightarrow> ls)"

definition new_schema :: "string \<Rightarrow> response_schema" where
  "new_schema name = \<lparr>sc_name = name, sc_fields = []\<rparr>"

section \<open>03_CloudChat\<close>

definition city_schema :: response_schema where
  "city_schema =
     schema_field ''famous_for'' TString ''one thing it's known for'' True
       (schema_field ''population'' TInteger ''approximate population'' True
         (schema_field ''country'' TString ''the country'' True
           (schema_field ''name'' TString ''the city name'' True (new_schema ''city_facts''))))"

fun city_report :: "(json \<Rightarrow> int) \<Rightarrow> structured_result result \<Rightarrow> log_lines" where
  "city_report as_long (Inl e) = [(LvError, ''generate failed: '' @ errorString e)]"
| "city_report as_long (Inr out) =
     [(LvInfo, ''name:       '' @ sr_getString out ''name'' []),
      (LvInfo, ''country:    '' @ sr_getString out ''country'' []),
      (LvInfo, ''population: '' @ itos (getInt as_long (sr_args out) ''population'' 0)),
      (LvInfo, ''famous for: '' @ sr_getString out ''famous_for'' []),
      (LvInfo, ''raw json:   '' @ sr_json out)]"

definition chat_setup ::
  "(string \<Rightarrow> json option) \<Rightarrow> (json \<Rightarrow> string) \<Rightarrow> (rat \<Rightarrow> json) \<Rightarrow> (json \<Rightarrow> int) \<Rightarrow> ('c, 'z) board_scheme \<Rightarrow>
     string \<Rightarrow> string \<Rightarrow> 'c secure_conn \<Rightarrow> (logger_op list \<times> 'c secure_conn) option" where
  "chat_setup parse print flt as_long b wifi_password api_key c =
     (let first = [SetLevel LvInfo] @ map RegisterSecret [wifi_password, api_key]
      in case go_online b [(LvWarn, ''NTP sync failed; TLS may reject the cert'')] c of
           None \<Rightarrow> None
         | Some (ls, None) \<Rightarrow> Some (first @ logs ls, c)
         | Some (ls, Some c1) \<Rightarrow>
             (let lc = sketch_client b c1;
                  lc1 = options (\<lambda>opts. opts\<lparr>co_maxTokens := 300\<rparr>) lc;
                  asking = [(LvInfo, ''asking Claude for structured city facts...'')]
              in case generate_user parse (arduino_secure (bd_platform b) (bd_tls b))
                     (anthropic_provider parse print flt (new_anthropic api_key) :: unit provider) city_schema
                     ''You return concise, accurate facts.'' ''Tell me about Kyoto, Japan.'' lc1 of
                   None \<Rightarrow> None
                 | Some (r, lc2) \<Rightarrow>
                     Some (first @ logs (ls @ asking @ client_lines lc2 @ city_report as_long r), lc_conn lc2)))"

section \<open>04_DataExtraction\<close>

definition event_schema :: response_schema where
  "event_schema =
     schema_field ''is_recurring'' TBoolean ''true if it repeats'' True
       (schema_field ''hour_24'' TInteger ''start hour in 24h time'' True
         (schema_field ''day'' TString ''the day of week'' True
           (schema_field ''title'' TString ''the event title'' True (new_schema ''calendar_event''))))"

definition standup_sentence :: string where
  "standup_sentence = ''Set up the weekly team standup every Monday at 9am.''"

fun event_report :: "(json \<Rightarrow> int) \<Rightarrow> (json \<Rightarrow> bool) \<Rightarrow> structured_result result \<Rightarrow> log_lines" where
  "event_report as_long as_bool (Inl e) = [(LvError, ''extraction failed: '' @ errorString e)]"
| "event_report as_long as_bool (Inr out) =
     [(LvInfo, ''title:     '' @ sr_getString out ''title'' []),
      (LvInfo, ''day:       '' @ sr_getString out ''day'' []),
      (LvInfo, ''hour_24:   '' @ itos (getInt as_long (sr_args out) ''hour_24'' 0)),
      (LvInfo, ''recurring: '' @ (if getBool as_bool (sr_args out) ''is_recurring'' False then ''yes'' else ''no''))]"

definition extraction_setup ::
  "(string \<Rightarrow> json option) \<Rightarrow> (json \<Rightarrow> string) \<Rightarrow> (rat \<Rightarrow> json) \<Rightarrow> (json \<Rightarrow> int) \<Rightarrow> (json \<Rightarrow> bool) \<Rightarrow>
     ('c, 'z) board_scheme \<Rightarrow> string \<Rightarrow> string \<Rightarrow> 'c secure_conn \<Rightarrow> (logger_op list \<times> 'c secure_conn) option" where
  "extraction_setup parse print flt as_long as_bool b wifi_password api_key c =
     (let first = map RegisterSecret [wifi_password, api_key]
      in case go_online b [] c of
           None \<Rightarrow> None
         | Some (ls, None) \<Rightarrow> Some (first @ logs ls, c)
         | Some (ls, Some c1) \<Rightarrow>
             (let asking = [(LvInfo, ''extracting from: '' @ standup_sentence)]
              in case generate_user parse (arduino_secure (bd_platform b) (bd_tls b))
                     (openai_provider parse print flt (new_openai api_key) :: unit provider) event_schema
                     ''Extract structured calendar events from text.'' standup_sentence (sketch_client b c1) of
                   None \<Rightarrow> None
                 | Some (r, lc1) \<Rightarrow>
                     Some (first @ logs (ls @ asking @ client_lines lc1 @ event_report as_long as_bool r),
                       lc_conn lc1)))"

section \<open>05_OllamaLocal\<close>

definition fact_schema :: response_schema where
  "fact_schema =
     schema_field ''surprising'' TBoolean ''is it surprising?'' True
       (schema_field ''fact'' TString ''one interesting fact'' True
         (schema_field ''subject'' TString ''what the fact is about'' True (new_schema ''fact'')))"

fun fact_report :: "structured_result result \<Rightarrow> log_lines" where
  "fact_report (Inl e) = [(LvError, ''ollama generate failed: '' @ errorString e)]"
| "fact_report (Inr out) =
     [(LvInfo, ''subject: '' @ sr_getString out ''subject'' []),
      (LvInfo, ''fact:    '' @ sr_getString out ''fact'' [])]"

text \<open>Over plain TCP, without the time and without certificates.\<close>

definition ollama_setup ::
  "(string \<Rightarrow> json option) \<Rightarrow> (json \<Rightarrow> string) \<Rightarrow> (rat \<Rightarrow> json) \<Rightarrow> ('c, 'z) board_scheme \<Rightarrow>
     string \<Rightarrow> ollama \<Rightarrow> 'c \<Rightarrow> (logger_op list \<times> 'c) option" where
  "ollama_setup parse print flt b wifi_password ol c =
     (let first = map RegisterSecret [wifi_password]
      in case join_wifi b of
           None \<Rightarrow> None
         | Some up \<Rightarrow>
             if \<not> up then Some (first @ logs [(LvError, ''WiFi failed'')], c)
             else
               (case generate_user parse (arduino_plain (bd_tls b))
                       (ollama_provider parse print flt ol :: unit provider) fact_schema
                       ''You return one concise fact as JSON.'' ''Tell me about microcontrollers.''
                       (llm_setTimeout 60000 (sketch_client b c)) of
                  None \<Rightarrow> None
                | Some (r, lc1) \<Rightarrow> Some (first @ logs (client_lines lc1 @ fact_report r), lc_conn lc1)))"

section \<open>06_AgentTools\<close>

definition agent_schema :: response_schema where
  "agent_schema =
     schema_field ''led_on'' TBoolean ''whether the LED is now on'' True
       (schema_field ''uptime_seconds'' TInteger ''device uptime in seconds'' True
         (schema_field ''action_taken'' TString ''what you did'' True (new_schema ''agent_result'')))"

fun agent_report :: "(json \<Rightarrow> int) \<Rightarrow> (json \<Rightarrow> bool) \<Rightarrow> structured_result result \<Rightarrow> log_lines" where
  "agent_report as_long as_bool (Inl e) = [(LvError, ''agent failed: '' @ errorString e)]"
| "agent_report as_long as_bool (Inr out) =
     [(LvInfo, ''action:  '' @ sr_getString out ''action_taken'' []),
      (LvInfo, ''uptime:  '' @ itos (getInt as_long (sr_args out) ''uptime_seconds'' 0)),
      (LvInfo, ''led_on:  '' @ (if getBool as_bool (sr_args out) ''led_on'' False then ''yes'' else ''no''))]"

definition agent_client :: "('c, 'z) board_scheme \<Rightarrow> 's \<Rightarrow> 's llm_client" where
  "agent_client b c =
     options (\<lambda>opts. opts
           \<lparr>co_system := ''You control an ESP32. Use the available tools to fulfill requests, then '' @
                          ''report the outcome as structured JSON.'',
            co_maxTokens := 300\<rparr>) (sketch_client b c)"

definition agent_setup ::
  "(string \<Rightarrow> json option) \<Rightarrow> (json \<Rightarrow> string) \<Rightarrow> (rat \<Rightarrow> json) \<Rightarrow> (json \<Rightarrow> int) \<Rightarrow> (json \<Rightarrow> bool) \<Rightarrow>
     ('c, 'z) board_scheme \<Rightarrow> string \<Rightarrow> string \<Rightarrow> device \<Rightarrow> 'c secure_conn \<Rightarrow>
     (logger_op list \<times> device \<times> 'c secure_conn) option" where
  "agent_setup parse print flt as_long as_bool b wifi_password api_key d c =
     (let first = [SetLevel LvInfo] @ map RegisterSecret [wifi_password, api_key]
      in case go_online b [] c of
           None \<Rightarrow> None
         | Some (ls, None) \<Rightarrow> Some (first @ logs ls, d, c)
         | Some (ls, Some c1) \<Rightarrow>
             (let asking = [(LvInfo, ''asking the agent to turn on the LED and report uptime...'')]
              in case run_prompt parse (arduino_secure (bd_platform b) (bd_tls b))
                     (anthropic_provider parse print flt (new_anthropic api_key)) agent_schema
                     ''Turn the LED on, then tell me how long the device has been running.'' agent_tools d
                     (agent_client b c1) of
                   None \<Rightarrow> None
                 | Some (r, d1, lc1) \<Rightarrow>
                     Some (first @ logs (ls @ asking @ client_lines lc1 @ agent_report as_long as_bool r),
                       d1, lc_conn lc1)))"

section \<open>Secrets stay off the serial line\<close>

lemma chat_calls:
  "chat_setup parse print flt as_long b pw key c = Some (calls, c') \<Longrightarrow>
     \<exists>ls. calls = [SetLevel LvInfo] @ map RegisterSecret [pw, key] @ logs ls"
  by (auto simp: chat_setup_def Let_def split: option.splits prod.splits)

lemma extraction_calls:
  "extraction_setup parse print flt as_long as_bool b pw key c = Some (calls, c') \<Longrightarrow>
     \<exists>ls. calls = [] @ map RegisterSecret [pw, key] @ logs ls"
  by (auto simp: extraction_setup_def Let_def split: option.splits prod.splits)

lemma ollama_calls:
  "ollama_setup parse print flt b pw ol k = Some (calls, k') \<Longrightarrow>
     \<exists>ls. calls = [] @ map RegisterSecret [pw] @ logs ls"
  by (auto simp: ollama_setup_def Let_def split: option.splits if_splits)

lemma agent_calls:
  "agent_setup parse print flt as_long as_bool b pw key d c = Some (calls, d', c') \<Longrightarrow>
     \<exists>ls. calls = [SetLevel LvInfo] @ map RegisterSecret [pw, key] @ logs ls"
  by (auto simp: agent_setup_def Let_def split: option.splits prod.splits)

section \<open>The LED follows the tool calls\<close>

abbreviation led_calls :: "(string \<Rightarrow> json option) \<Rightarrow> tool_call list \<Rightarrow> bool \<Rightarrow> bool" where
  "led_calls parse calls \<equiv> fold (\<lambda>c. led_effect parse (tc_name c) (tc_arguments c)) calls"

lemma run_calls_led:
  assumes "led_tools ts" "run_calls parse ts calls working d lc = (working', d', lc')"
  shows "\<exists>results. working' = working @ results \<and> concat (map ms_toolCalls results) = [] \<and>
    dv_led d' = led_calls parse calls (dv_led d)"
  using assms(2)
proof (induction calls arbitrary: working d lc)
  case (Cons call calls)
  obtain dr d1 where r: "dispatch parse ts (tc_name call) (tc_arguments call) d = (dr, d1)"
    by fastforce
  let ?m = "toolResult call (case dr of Inr r \<Rightarrow> r | Inl e \<Rightarrow> failed_dispatch (tc_name call) e)"
  obtain lc1 where "run_calls parse ts calls (working @ [?m]) d1 lc1 = (working', d', lc')"
    using Cons.prems by (auto simp: r Let_def)
  from Cons.IH [OF this] obtain results where
    "working' = working @ ?m # results" "concat (map ms_toolCalls results) = []"
    "dv_led d' = led_calls parse calls (dv_led d1)"
    by auto
  then show ?case
    using dispatch_led [OF assms(1) r]
    by (intro exI [of _ "?m # results"]) (simp add: toolResult_def new_message_def)
qed simp

lemma agent_loop_led:
  assumes "led_tools ts"
  shows "agent_loop parse ops pv ts n working d lc = Some (Inr (settled, working'), d', lc') \<Longrightarrow>
    \<exists>turns. working' = working @ turns \<and> dv_led d' = led_calls parse (concat (map ms_toolCalls turns)) (dv_led d)"
proof (induction n arbitrary: working d lc)
  case (Suc n)
  obtain bs req0 where b: "pv_buildTool pv working (lc_options lc) ts empty_request = (bs, req0)"
    by fastforce
  let ?req = "with_extra_headers (co_extraHeaders (lc_options lc)) req0"
  have "bs = Ok"
    using Suc.prems b by (auto split: if_splits)
  then obtain s resp lc1 where t: "round_trip ops (pv_name pv) ?req lc = Some (s, resp, lc1)"
    using Suc.prems b by (cases "round_trip ops (pv_name pv) ?req lc") auto
  obtain ps turn where p: "pv_parseTool pv resp new_turn = (ps, turn)"
    by fastforce
  let ?lc2 = "record_usage (at_input turn) (at_output turn) lc1"
  let ?a = "(assistant_message (at_text turn))\<lparr>ms_toolCalls := at_calls turn\<rparr>"
  obtain wk d1 lc3 where c: "run_calls parse ts (at_calls turn) (working @ [?a]) d ?lc2 = (wk, d1, lc3)"
    using prod_cases3 by blast
  obtain results where r: "wk = working @ ?a # results" "concat (map ms_toolCalls results) = []"
    "dv_led d1 = led_calls parse (at_calls turn) (dv_led d)"
    using run_calls_led [OF assms c] by auto
  show ?case
  proof (cases "wantsTools turn")
    case False
    then show ?thesis
      using Suc.prems b \<open>bs = Ok\<close> t p by (auto simp: Let_def split: if_splits)
  next
    case True
    then have "agent_loop parse ops pv ts n wk d1 lc3 = Some (Inr (settled, working'), d', lc')"
      using Suc.prems b \<open>bs = Ok\<close> t p c by (auto simp: Let_def split: if_splits)
    from Suc.IH [OF this] obtain turns where
      "working' = wk @ turns" "dv_led d' = led_calls parse (concat (map ms_toolCalls turns)) (dv_led d1)"
      by blast
    moreover have "concat (map ms_toolCalls (?a # results @ turns)) = at_calls turn @ concat (map ms_toolCalls turns)"
      unfolding map_append list.map concat.simps concat_append r(2) by simp
    ultimately show ?thesis
      using r(1,3) by (intro exI [of _ "?a # results @ turns"]) (simp only: append_assoc append_Cons fold_append o_apply)
  qed
qed simp

section \<open>Every setup ends\<close>

lemma cycle_ends: "\<exists>r lc'. x = Some (r, lc') \<Longrightarrow> finish_cycle ops x \<noteq> None"
  by (auto simp: finish_cycle_def)

context tls_client
begin

lemma sketch_call_returns:
  assumes "ticking f" "lc_clock lc = Some f"
  shows "generate_user parse (arduino_secure p tv) pv schema sys user lc \<noteq> None"
    "run_prompt parse (arduino_secure p tv) pv schema user tools w lc \<noteq> None"
proof -
  show "generate_user parse (arduino_secure p tv) pv schema sys user lc \<noteq> None"
    unfolding generate_user_def by (rule cycle_ends [OF secure.doGenerate_returns [OF assms]])
  show "run_prompt parse (arduino_secure p tv) pv schema user tools w lc \<noteq> None"
    using secure.runImpl_returns [OF assms, of parse pv schema "[user_message user]" tools w]
    by (auto simp: run_prompt_def llm_run_def)
qed

lemma plain_call_returns:
  assumes "ticking f" "lc_clock lc = Some f"
  shows "generate_user parse (arduino_plain tv) pv schema sys user lc \<noteq> None"
  unfolding generate_user_def by (rule cycle_ends [OF plain.doGenerate_returns [OF assms]])

end

lemma go_online_decides: "clocks_tick b \<Longrightarrow> go_online b unsynced c \<noteq> None"
  by (erule go_online_returns) (simp add: go_online_def Let_def)

lemma sketch_clocks [simp]:
  "lc_clock (sketch_client b c) = Some (bd_clock b)" "lc_clock (agent_client b c) = Some (bd_clock b)"
  by (simp_all add: sketch_client_def agent_client_def Let_def)

text \<open>Whatever the network, the time server and the service do, with clocks that go on every \<open>setup\<close>
  ends.\<close>

theorem setups_end:
  assumes "tls_client (bd_tls b) sent recvd left" "clocks_tick b"
  shows "chat_setup parse print flt as_long b pw key c \<noteq> None \<and>
    extraction_setup parse print flt as_long as_bool b pw key c \<noteq> None \<and>
    ollama_setup parse print flt b pw ol k \<noteq> None \<and>
    agent_setup parse print flt as_long as_bool b pw key d c \<noteq> None"
proof -
  have t: "ticking (bd_clock b)"
    using assms(2) by (simp add: clocks_tick_def)
  note calls = tls_client.sketch_call_returns [OF assms(1) t] tls_client.plain_call_returns [OF assms(1) t]
  have "join_wifi b \<noteq> None"
    using go_online_returns [OF assms(2)] by blast
  note join = go_online_decides [OF assms(2)] this
  have "chat_setup parse print flt as_long b pw key c \<noteq> None"
    "extraction_setup parse print flt as_long as_bool b pw key c \<noteq> None"
    by (auto simp: chat_setup_def extraction_setup_def Let_def calls join simp del: not_None_eq split: option.splits)
  moreover have "ollama_setup parse print flt b pw ol k \<noteq> None"
    "agent_setup parse print flt as_long as_bool b pw key d c \<noteq> None"
    by (auto simp: ollama_setup_def agent_setup_def Let_def calls join simp del: not_None_eq split: option.splits)
  ultimately show ?thesis
    by blast
qed

end
