(* ===== verification/Sketch_Properties.thy ===== *)
theory Sketch_Properties
  imports Sketch_Agent
begin

text \<open>Properties of the sketches that call a model, with a board that runs them.\<close>

definition demo_board :: "demo_tls tls_ops \<Rightarrow> demo_tls board" where
  "demo_board tops =
     \<lparr>bd_platform = ESP32, bd_tls = tops, bd_bundle = Some ''PEM'', bd_wifi = (\<lambda>_. True),
      bd_joining = word_of_nat, bd_epoch = (\<lambda>_. 1700000001), bd_syncing = word_of_nat, bd_clock = word_of_nat\<rparr>"

definition wired_conn :: "string list \<Rightarrow> demo_tls secure_conn" where
  "wired_conn rs =
     \<lparr>sc_client = \<lparr>dt_wire = fake_new\<lparr>responses := rs\<rparr>, dt_trust = []\<rparr>, sc_trust = new_ca_store (Some ''PEM'')\<rparr>"

definition new_device :: device where
  "new_device = \<lparr>dv_led = False, dv_millis = word_of_nat, dv_freeHeap = (\<lambda>_. 0), dv_asked = 0\<rparr>"

text \<open>The same client for writes below \<open>2^31\<close> bytes.\<close>

definition small_ops :: "demo_tls tls_ops" where
  "small_ops =
     demo_ops\<lparr>cl_write := \<lambda>dat. on_wire (\<lambda>w. case fake_write dat w of (n, w') \<Rightarrow> (word_of_int n, w'))\<rparr>"

text \<open>A service that refuses the key and quotes it.\<close>

definition refusal :: string where
  "refusal = ''HTTP/1.1 401 No'' @ crlf @ ''Content-Length: 2'' @ crlf @ crlf @ ''{}''"

definition quoting :: "string \<Rightarrow> json option" where
  "quoting _ = Some (JObj [(''error'', JObj [(''message'', JStr ''bad key sk-abcd1234'')])])"

lemma refused_run:
  "map_option (\<lambda>(calls, d, c). (serial_output calls, dv_led d))
     (agent_setup quoting (\<lambda>_. ''{}'') (\<lambda>_. JNull) (\<lambda>_. 0) (\<lambda>_. False) (demo_board small_ops) ''hunter2!'' ''sk-abcd1234''
        new_device (wired_conn [refusal])) =
   Some (Some
     [(LvInfo, ''[INFO] asking the agent to turn on the LED and report uptime...''),
      (LvWarn, ''[WARN] anthropic http 401: bad key ***''),
      (LvError, ''[ERROR] agent failed: unauthorized'')], False)"
  by code_simp

section \<open>Secrets stay off the serial line\<close>

text \<open>C9: whatever the service answers and the model does, and whatever the client logs about it, no line
  the cloud sketches print contains the WiFi password or the API key, if it has at least four
  characters and no asterisk.\<close>

theorem sketches_hide_secrets:
  assumes "(\<exists>d' c'. agent_setup parse print flt as_long as_bool b pw key d c = Some (calls, d', c')) \<or>
      (\<exists>c'. chat_setup parse print flt as_long b pw key c = Some (calls, c')) \<or>
      (\<exists>c'. extraction_setup parse print flt as_long as_bool b pw key c = Some (calls, c'))"
    and "s \<in> {pw, key}" "kMinSecretLen \<le> length s" "star_free s"
  shows "\<exists>out. serial_output calls = Some out \<and> list_all (line_hides s) out"
proof -
  obtain ls lvl where "calls = lvl @ map RegisterSecret [pw, key] @ logs ls" "lvl = [] \<or> lvl = [SetLevel LvInfo]"
    using assms(1) agent_calls chat_calls extraction_calls by metis
  moreover have "s \<in> set [pw, key]"
    using assms(2) by simp
  ultimately show ?thesis
    using serial_hides assms(3,4) by blast
qed

theorem sketches_hide_secrets_witness:
  "\<exists>calls d c out.
     agent_setup quoting (\<lambda>_. ''{}'') (\<lambda>_. JNull) (\<lambda>_. 0) (\<lambda>_. False) (demo_board small_ops) ''hunter2!''
       ''sk-abcd1234'' new_device (wired_conn [refusal]) = Some (calls, d, c) \<and>
     serial_output calls = Some out \<and> list_all (line_hides ''sk-abcd1234'') out \<and> length out = 3"
proof -
  obtain calls d c where r: "agent_setup quoting (\<lambda>_. ''{}'') (\<lambda>_. JNull) (\<lambda>_. 0) (\<lambda>_. False)
      (demo_board small_ops) ''hunter2!'' ''sk-abcd1234'' new_device (wired_conn [refusal]) = Some (calls, d, c)"
    "map_option length (serial_output calls) = Some 3"
    using refused_run by auto
  then have "\<exists>d c. agent_setup quoting (\<lambda>_. ''{}'') (\<lambda>_. JNull) (\<lambda>_. 0) (\<lambda>_. False)
      (demo_board small_ops) ''hunter2!'' ''sk-abcd1234'' new_device (wired_conn [refusal]) = Some (calls, d, c)"
    by blast
  then have "\<exists>out. serial_output calls = Some out \<and> list_all (line_hides ''sk-abcd1234'') out"
    by (rule sketches_hide_secrets [OF disjI1]) (simp_all add: kMinSecretLen_def star_free_def)
  then show ?thesis
    using r by auto
qed

section \<open>The LED follows the tool calls\<close>

text \<open>C8: when the agent of 06 ends with its transcript, the LED is as the set_led calls of the model's
  turns, in order, leave it: a call with state on or off sets it, and nothing else moves it, whether
  the model's arguments are malformed, undeclared or meant for another tool.\<close>

theorem led_follows_calls:
  assumes "agent_loop parse ops pv agent_tools n messages d lc = Some (Inr (settled, working), d', lc')"
  shows "\<exists>turns. working = messages @ turns \<and>
    dv_led d' = led_calls parse (concat (map ms_toolCalls turns)) (dv_led d)"
  by (rule agent_loop_led [OF led_agent_tools assms])

definition led_provider :: "device provider" where
  "led_provider =
     \<lparr>pv_name = ''led'', pv_secure = False, pv_buildStructured = \<lambda>ms opts sc req. (Ok, req),
      pv_parseStructured = \<lambda>resp txt meta. (Ok, txt, meta), pv_supportsTools = True,
      pv_buildTool = \<lambda>ms opts tools req. (Ok, req),
      pv_parseTool = \<lambda>resp out. (Ok, if rs_status resp = 200
        then out\<lparr>at_calls :=
          [\<lparr>tc_id = ''1'', tc_name = ''set_led'', tc_arguments = ''on''\<rparr>,
           \<lparr>tc_id = ''2'', tc_name = ''set_led'', tc_arguments = ''purple''\<rparr>]\<rparr>
        else out)\<rparr>"

definition state_parse :: "string \<Rightarrow> json option" where
  "state_parse s = Some (JObj [(''state'', JStr s)])"

lemma led_run:
  "map_option (\<lambda>(out, d, lc). (map_sum id fst out, dv_led d))
     (agent_loop state_parse fake_ops led_provider agent_tools 6 [user_message ''hi''] new_device
       (canned_client [''200 OK'', ''201 Created''])) = Some (Inr True, True)"
  by code_simp

theorem led_follows_calls_witness:
  "\<exists>working d lc'. agent_loop state_parse fake_ops led_provider agent_tools 6 [user_message ''hi''] new_device
       (canned_client [''200 OK'', ''201 Created'']) = Some (Inr (True, working), d, lc') \<and>
     (\<exists>turns. working = [user_message ''hi''] @ turns \<and>
        led_calls state_parse (concat (map ms_toolCalls turns)) False)"
proof -
  obtain working d lc' where r: "agent_loop state_parse fake_ops led_provider agent_tools 6 [user_message ''hi'']
      new_device (canned_client [''200 OK'', ''201 Created'']) = Some (Inr (True, working), d, lc')" "dv_led d"
    using led_run by (auto simp: map_sum_Inr)
  then show ?thesis
    using led_follows_calls [OF r(1)] by (simp add: new_device_def)
qed

end
