(* ===== verification/Sketch_Server.thy ===== *)
theory Sketch_Server
  imports Sketch_Base Sketch_Device Mcp_Http Mcp_Safety
begin

text \<open>
  The sketch examples/07_McpServer: a device that serves its LED, a temperature and a status resource
  to MCP hosts.  The key-value store's backend is the secret store \<open>sops\<close>.
\<close>

section \<open>Setup\<close>

definition device_resources :: "device resource list" where
  "device_resources =
     (case addResource ''status://device'' ''Device status'' [] of
        (rs, i) \<Rightarrow> resource_onRead i status_read (resource_mimeType i ''application/json'' rs))"

text \<open>The store as declared, with its default limits.\<close>

definition device_store :: "'s secret_ops \<Rightarrow> 's \<Rightarrow> 's edge_store" where
  "device_store sops s = setPersistence sops (Some s) (edge_new 32 512 64)"

text \<open>\<open>token\<close> is \<open>MCP_BEARER_TOKEN\<close> if the sketch defines one.\<close>

definition device_server :: "'s secret_ops \<Rightarrow> 's \<Rightarrow> string option \<Rightarrow> ('s, device) mcp_server" where
  "device_server sops s token =
     (let sv = setResourceRegistry (Some device_resources) (setToolRegistry (Some device_tools)
            (setInstructions ''An ESP32 running EdgeLLM. Use tools to read sensors and control the LED.''
              (new_server ''EdgeLLM-Device'' ''0.7.0'')));
          sv1 = setStore (Some (device_store sops s)) True sv
      in (case token of None \<Rightarrow> sv1 | Some t \<Rightarrow> if t \<noteq> [] then setAuthToken t sv1 else sv1))"

definition server_setup ::
  "('c, 'z) board_scheme \<Rightarrow> string \<Rightarrow> string option \<Rightarrow> string \<Rightarrow> (logger_op list \<times> bool) option" where
  "server_setup b wifi_password token local_ip =
     (let first = [SetLevel LvInfo] @ map RegisterSecret [wifi_password];
          auth = (case token of
                    None \<Rightarrow> []
                  | Some t \<Rightarrow> if t \<noteq> [] then RegisterSecret t # logs [(LvInfo, ''MCP bearer auth enabled'')] else [])
      in case join_wifi b of
           None \<Rightarrow> None
         | Some up \<Rightarrow>
             if \<not> up then Some (first @ auth @ logs [(LvError, ''WiFi failed'')], False)
             else Some (first @ auth @ logs [(LvInfo, ''MCP server ready at http://'' @ local_ip @ '':8080/mcp'')],
                        True))"

text \<open>\<open>loop\<close> on the client that \<open>server_.available()\<close> returned.\<close>

definition server_loop ::
  "(string \<Rightarrow> json option) \<Rightarrow> (json \<Rightarrow> string) \<Rightarrow> 's secret_ops \<Rightarrow> 'c Mcp_Http.client_ops \<Rightarrow>
     ('s, device) mcp_server \<Rightarrow> device \<Rightarrow> 'c \<Rightarrow> (('s, device) mcp_server \<times> device \<times> 'c) option" where
  "server_loop parse print sops cops sv d s = mcp_handle parse print sops cops (new_http ''/mcp'') sv d s"

section \<open>What a request does to the LED\<close>

definition request_led :: "(string \<Rightarrow> json option) \<Rightarrow> (json \<Rightarrow> string) \<Rightarrow> json \<Rightarrow> bool \<Rightarrow> bool" where
  "request_led parse print req led =
     (if cstr_of (obj_get req ''method'') = Some ''tools/call'' \<and> obj_get req ''id'' \<noteq> JNull then
        (case cstr_of (obj_get (obj_get req ''params'') ''name'') of
           None \<Rightarrow> led
         | Some name \<Rightarrow> led_effect parse name (arguments_text print (obj_get req ''params'')) led)
      else led)"

definition body_led :: "(string \<Rightarrow> json option) \<Rightarrow> (json \<Rightarrow> string) \<Rightarrow> string \<Rightarrow> bool \<Rightarrow> bool" where
  "body_led parse print body led =
     (case parse body of
        None \<Rightarrow> led
      | Some (JArr reqs) \<Rightarrow> fold (request_led parse print) reqs led
      | Some req \<Rightarrow> request_led parse print req led)"

text \<open>A POST is the value of its Authorization header and its body.\<close>

definition post_led ::
  "(string \<Rightarrow> json option) \<Rightarrow> (json \<Rightarrow> string) \<Rightarrow> string \<Rightarrow> string \<times> string \<Rightarrow> bool \<Rightarrow> bool" where
  "post_led parse print token post led =
     (if token = [] \<or> fst post = ''Bearer '' @ token then body_led parse print (snd post) led else led)"

definition serve_post ::
  "(string \<Rightarrow> json option) \<Rightarrow> (json \<Rightarrow> string) \<Rightarrow> 's secret_ops \<Rightarrow> string \<times> string \<Rightarrow>
     ('s, device) mcp_server \<times> device \<Rightarrow> ('s, device) mcp_server \<times> device" where
  "serve_post parse print sops post st =
     snd (handlePost parse print sops (snd post) (checkAuth (fst st) (fst post)) (fst st) (snd st))"

text \<open>The parts of the server requests do not change.\<close>

definition is_device_server :: "string \<Rightarrow> ('s, device) mcp_server \<Rightarrow> bool" where
  "is_device_server token sv \<longleftrightarrow>
     ms_tools sv = Some device_tools \<and> ms_resources sv = Some device_resources \<and> ms_prompts sv = None \<and>
     ms_token sv = token"

lemma device_server_is: "is_device_server (case token of None \<Rightarrow> [] | Some t \<Rightarrow> t) (device_server sops s token)"
  by (auto simp: is_device_server_def device_server_def setStore_def new_server_def Let_def split: option.split)

lemma device_resources_eq:
  "device_resources = [(new_resource ''status://device'' ''Device status'')
     \<lparr>rc_mime := ''application/json'', rc_onRead := Some status_read\<rparr>]"
  by (simp add: device_resources_def addResource_def reg_add_def resource_onRead_def resource_mimeType_def
      reg_edit_def new_resource_def)

lemma status_led: "dv_led (snd (status_read u d)) = dv_led d"
  by (simp add: status_read_def device_millis_def device_freeHeap_def)

lemma read_status_led: "resource_read device_resources u d = (r, d') \<Longrightarrow> dv_led d' = dv_led d"
  using status_led [of u d]
  by (auto simp: resource_read_def find_resource_def reg_find_def device_resources_eq split: option.splits if_splits)

lemma device_tools_enabled: "find_tool device_tools name = Some t \<Longrightarrow> \<not> write_disabled t"
  by (auto simp: device_tools_eq find_tool_def reg_find_def write_disabled_def new_tool_def split: if_splits)

lemma tools_call_led:
  assumes "is_device_server token sv" "mcp_tools_call parse print sops params i sv d out = (out', sv', d')"
  shows "is_device_server token sv' \<and>
    dv_led d' = (case cstr_of (obj_get params ''name'') of
       None \<Rightarrow> dv_led d | Some name \<Rightarrow> led_effect parse name (arguments_text print params) (dv_led d))"
proof (cases "cstr_of (obj_get params ''name'')")
  case None
  then show ?thesis
    using assms by (simp add: mcp_tools_call_def)
next
  case (Some name)
  obtain r d1 where d: "dispatch parse device_tools name (arguments_text print params) d = (r, d1)"
    by fastforce
  note led = dispatch_led [OF led_device_tools d]
  have same: "led_effect parse name args led = led" if "find_tool device_tools name = None \<or> name \<noteq> ''set_led''"
    for args led
    using that led_device_tools by (auto simp: led_tools_def led_effect_def)
  show ?thesis
    using assms d led Some same device_tools_enabled
    by (auto simp: mcp_tools_call_def is_device_server_def Let_def split: if_splits option.splits prod.splits
        sum.splits)
qed

lemma read_uri_led:
  "is_device_server token sv \<Longrightarrow> read_uri sv u d = (r, sv', d') \<Longrightarrow>
     is_device_server token sv' \<and> dv_led d' = dv_led d"
  by (auto simp: read_uri_def is_device_server_def dest: read_status_led
      split: option.splits if_splits prod.splits)

lemma other_methods_led:
  "is_device_server token sv \<Longrightarrow> mcp_initialize sv params out rep = (out', sv', rep') \<Longrightarrow> is_device_server token sv'"
  "is_device_server token sv \<Longrightarrow> mcp_resources_list sv out = (out', sv') \<Longrightarrow> is_device_server token sv'"
  "is_device_server token sv \<Longrightarrow> mcp_prompts_get parse print params i sv d out = (out', d') \<Longrightarrow> d' = d"
  by (auto simp: mcp_initialize_def mcp_resources_list_def mcp_prompts_get_def is_device_server_def Let_def
      split: option.splits prod.splits)

lemma resources_read_led:
  "is_device_server token sv \<Longrightarrow> mcp_resources_read params i sv d out = (out', sv', d') \<Longrightarrow>
     is_device_server token sv' \<and> dv_led d' = dv_led d"
  using read_uri_led [of token sv]
  by (auto simp: mcp_resources_read_def split: option.splits prod.splits)

lemma processOne_led:
  assumes "is_device_server token sv" "processOne parse print sops req sv d rep = (out, sv', d', rep')"
  shows "is_device_server token sv' \<and> dv_led d' = request_led parse print req (dv_led d)"
proof (cases "cstr_of (obj_get req ''method'') = Some ''tools/call'' \<and> obj_get req ''id'' \<noteq> JNull")
  case True
  then show ?thesis
    using assms tools_call_led [OF assms(1)]
    by (auto simp: processOne_def request_led_def Let_def split: prod.splits)
next
  case False
  have "is_device_server token sv' \<and> dv_led d' = dv_led d"
    using assms False unfolding processOne_def Let_def
    by (auto dest: other_methods_led resources_read_led split: option.splits if_splits prod.splits)
  then show ?thesis
    unfolding request_led_def if_not_P [OF False] .
qed

lemma processAll_led:
  "is_device_server token sv \<Longrightarrow> processAll parse print sops reqs sv d rep = (outs, sv', d', rep') \<Longrightarrow>
     is_device_server token sv' \<and> dv_led d' = fold (request_led parse print) reqs (dv_led d)"
proof (induction reqs arbitrary: sv d rep outs)
  case (Cons req reqs)
  obtain out sv1 d1 rep1 where one: "processOne parse print sops req sv d rep = (out, sv1, d1, rep1)"
    by (metis prod_cases4)
  obtain outs1 where "processAll parse print sops reqs sv1 d1 rep1 = (outs1, sv', d', rep')"
    using Cons.prems(2) one by (auto split: prod.splits)
  from Cons.IH [OF _ this] processOne_led [OF Cons.prems(1) one] show ?case
    by simp
qed simp

lemma handlePost_led:
  assumes "is_device_server token sv"
  shows "is_device_server token (fst (serve_post parse print sops post (sv, d))) \<and>
    dv_led (snd (serve_post parse print sops post (sv, d))) = post_led parse print token post (dv_led d)"
proof (cases "token = [] \<or> fst post = ''Bearer '' @ token")
  case False
  then show ?thesis
    using assms by (auto simp: serve_post_def handlePost_eq authRequired_def checkAuth_iff is_device_server_def
        post_led_def)
next
  case True
  then have auth: "authRequired sv \<Longrightarrow> checkAuth sv (fst post)"
    using assms by (auto simp: authRequired_def checkAuth_iff is_device_server_def)
  show ?thesis
  proof (cases "parse (snd post)")
    case None
    then show ?thesis
      using assms auth True by (auto simp: serve_post_def handlePost_eq post_led_def body_led_def)
  next
    case (Some req)
    obtain out sv1 d1 rep1 where one: "processOne parse print sops req sv d new_reply = (out, sv1, d1, rep1)"
      by (metis prod_cases4)
    note single = processOne_led [OF assms one]
    show ?thesis
    proof (cases "is_arr req")
      case False
      then show ?thesis
        using auth True Some one single
        by (cases req; cases out) (auto simp: serve_post_def handlePost_eq post_led_def body_led_def)
    next
      case arr: True
      then obtain reqs where reqs: "req = JArr reqs"
        by (cases req) simp_all
      obtain outs sv2 d2 rep2 where all: "processAll parse print sops reqs sv d new_reply = (outs, sv2, d2, rep2)"
        by (metis prod_cases4)
      show ?thesis
        using assms auth True Some reqs all processAll_led [OF assms all]
        by (auto simp: serve_post_def handlePost_eq post_led_def body_led_def)
    qed
  qed
qed

section \<open>Remote control\<close>

text \<open>C7: after any sequence of POSTs to the device, each with whatever Authorization header and body, the
  LED is exactly as the set_led calls in the bodies of the authorized ones, in order and batches
  included, leave it; a POST without the token, or one that asks for anything else, never moves it.\<close>

theorem device_led_history:
  "dv_led (snd (fold (serve_post parse print sops) posts (device_server sops s token, d))) =
     fold (post_led parse print (case token of None \<Rightarrow> [] | Some t \<Rightarrow> t)) posts (dv_led d)"
proof -
  have run: "dv_led (snd (fold (serve_post parse print sops) posts (sv, d))) = fold (post_led parse print t) posts (dv_led d)"
    if "is_device_server t sv" for t sv
    using that
  proof (induction posts arbitrary: sv d)
    case (Cons post posts)
    obtain sv1 d1 where p: "serve_post parse print sops post (sv, d) = (sv1, d1)"
      by fastforce
    then show ?case
      using handlePost_led [OF Cons.prems, of parse print sops post d] Cons.IH [of sv1 d1] by simp
  qed simp
  show ?thesis
    by (rule run [OF device_server_is])
qed

end
