(* ===== verification/Spec2Isabelle.thy ===== *)
theory Spec2Isabelle
  imports Core_Errors Logger Chunked_Decoder Sse_Parser Http_Types Eeprom_Codec Eeprom_Store
    Prefs_Store Secret_Store Edge_Store Edge_Durable Edge_Hook_Returns Url_Guard Http_Peer Http_Stream Tool_Registry
    Mcp_Safety Mcp_Durable Mcp_Http_Wire
    Conversation Llm_Answers Llm_Returns Provider_Properties Provisioning Board_Tls Llm_Refines
    Sketch_Boards Sketch_Properties Sketch_Server
begin

text \<open>
  A verification development for EdgeLLM (src/src/), a C++ library that lets a microcontroller call
  LLM services over HTTP and serves the Model Context Protocol (MCP) to LLM hosts.

  \<^bold>\<open>The program.\<close>  Four layers, each a directory of src/src/:
  \<^item> core/ has the error codes, \<open>Result<T>\<close> and the redacting logger every other part uses.
  \<^item> transport/ has the HTTP/1.1 client over a socket interface, with the chunked decoder, the
    server-sent events parser and the request serializer; hal/ has the stores for secrets.
  \<^item> tools/ has the tool registry, the schema writer and validator and the URL guard.  Both sides of
    the library use it: the LLM client runs the tools a model asks for, the MCP server the tools a
    host calls.
  \<^item> llm/ is the client side: a conversation, a provider that writes requests and reads responses,
    retries with a spend guard, validated structured output and the agent loop.  mcp/ is the server
    side: a JSON-RPC dispatcher, its key-value store and registries, and an HTTP front end.
    provisioning/ sets secrets over a serial line.
  The sketches under src/examples/ put the library to work on a board.

  \<^bold>\<open>Theories and sources.\<close>  Definitions keep the names of the C++ functions where HOL allows it.
  \<^item> Edge_Prelude, Std_Map: \<open>size_t\<close> and the fixed-width integers as words (\<open>size_t\<close> has 32 bits, as
    on the boards), the part of \<open>std::string\<close> the sources use on lists of characters, decimal
    numbers, and \<open>std::map\<close> as an ascending association list.
  \<^item> Core_Errors, Logger: core/Errors.h, Result.h and Logger.cpp.
  \<^item> Chunked_Decoder, Sse_Parser, Http_Types: transport/ChunkedDecoder, SseParser, HttpTypes,
    HttpRequestBuilder and the header parser of HttpClient.cpp, each as a function on its state record.
  \<^item> Connection, Http_Client: transport/IConnection.h as a record of operations with its laws as
    locales, and HttpClient.cpp with every read and write loop.  Http_Exchange, Http_Peer,
    Http_Stream and Http_Returns prove what an exchange means, Fake_Connection is the repository's
    own scripted socket (test/fakes/FakeConnection.h).
  \<^item> Board: core/Capabilities, hal/Platform.h, transport/CACertStore.h, the sockets of
    hal/ArduinoConnection over an Arduino network client, and hal/NtpTimeSource.  Board_Tls runs
    the HTTP client over the TLS socket.
  \<^item> Secret_Store, Eeprom_Codec, Eeprom_Store, Prefs_Store: hal/ISecretStore.h as a locale and the
    three stores that implement it.
  \<^item> Tool_Types, Json, Schema_Util, Registry, Tool_Registry, Url_Guard: tools/.
  \<^item> Edge_Store, Prompt_Registry, Mcp_Server, Mcp_Http: mcp/.  Edge_Hooks models the store's change
    hooks that call back into it, Edge_Hook_Returns shows which of them end.  Edge_Durable is the
    store over a backend whose writes can fail.  Mcp_Safety, Mcp_Durable (the server over such a
    store) and Mcp_Http_Wire hold the properties of the server and of its front end.
  \<^item> Llm_Types, Conversation, Llm_Client: llm/ without the providers.  A provider is a record of its
    virtual operations.  Llm_Safety, Llm_Properties, Llm_Answers and Llm_Returns hold the properties,
    Llm_Waits the waits that end.  Llm_Wire runs the client against a server, and Llm_Refines shows
    that it refines a reference protocol.
  \<^item> Provider_Common, Anthropic_Provider, OpenAI_Provider, Gemini_Provider, Ollama_Provider:
    llm/providers/; Provider_Properties holds their properties.
  \<^item> Provisioning: provisioning/.
  \<^item> Sketch_Base, Sketch_Device: what the sketches share (with the adapters of
    hal/ArduinoClock.h and SerialLogSink.h) and the device they control.  Sketch_Agent is
    examples/03 to 06, Sketch_Server 07, Sketch_Boards 01, 02 and 08; Sketch_Properties has the
    properties of the first.

  \<^bold>\<open>State and operations.\<close>  A class is a record of its fields, a method a function that takes the
  record and returns it updated, beside its result.  \<open>Status\<close> is an \<open>error\<close> with \<open>Ok\<close> as success,
  \<open>Result<T>\<close> a sum.  Sockets, clocks, EEPROM, NVS and the sketch's handlers are parameters: records
  of operations over a state of their own type, so every proof holds whatever they do unless a
  locale or a hypothesis names the law it needs.  The sketch's world is the type \<open>'w\<close> handlers
  return updated.

  \<^bold>\<open>What the lemmas show.\<close>
  \<^item> Codecs and parsers read back what was written and do not depend on how their input is cut:
    chunked bodies, event streams, response heads, EEPROM blobs (in every prefix, too).
  \<^item> The HTTP client reports only what it received, keeps keep-alive responses framed by their length
    in order, never resends after a byte came back, and returns on every socket that delivers finitely
    many reads.
  \<^item> The stores keep their bounds, implement the interface's contract (the EEPROM store for what the
    device holds after a power cycle), and honour lifetimes across the wrap of the clock.  The key-value
    store keeps its bounds and reports every change whatever its change hook does with it, and what a
    host wrote is there after a restart as long as no write to the backend failed; what is lost when one
    does is shown as well (\<open>lost_manifest_write\<close>, \<open>retried_write_lost\<close>).
  \<^item> Validation accepts exactly the objects that satisfy the published schema once their undeclared and
    null members are removed (\<open>prune\<close>), and the strict schema accepts exactly those of them without
    such members.  A handler runs on validated arguments only.
  \<^item> The URL guard refuses a dotted quad exactly when it lies in a reserved block, given as a network
    and a prefix length (\<open>reserved_networks\<close>).
  \<^item> The MCP server answers in JSON-RPC, opens to its token only, never runs a tool that writes
    unless it is allowed, and lists exactly the tools it lets through.
  \<^item> The LLM client stays within its request cap, its number of attempts and its longest wait,
    returns only validated text, and always returns.  The agent loop is a sequence of rounds (\<open>agent_rounds\<close>):
    the model's turn as received, each of its calls dispatched once and in order, each answered.  Over a server that
    answers its requests, \<open>llm_run\<close> computes exactly what the reference \<open>ref_run\<close> says of the
    responses, with the retries, tool calls and rejected outputs in it.
  \<^item> The providers put the API key in one place, echo tool calls as the model made them and
    serialize an agent transcript with every call answered.
  \<^item> The sketches keep their secrets off the serial line, the LED they control follows the accepted
    set_led calls of the model or of authorized hosts exactly (\<open>led_effect\<close>, \<open>post_led\<close>), what was
    provisioned survives a power cycle, and every \<open>setup\<close> ends.

  \<^bold>\<open>Interfaces.\<close>  Locale \<open>connection\<close>: what every socket does, over the bytes sent and received;
  \<open>reader\<close> extends it with a stream to deliver, \<open>peer\<close> with a server that takes requests too,
  \<open>responder\<close> with one that answers each request with its next response; \<open>draining\<close> is a socket with
  finitely many reads.  \<open>arduino_client\<close> and \<open>tls_client\<close>: what an Arduino network client documents;
  the library's sockets over one are a \<open>connection\<close> and \<open>draining\<close>.  \<open>secret_store\<close>: the contract of
  the stores.  \<open>watched_store\<close>: what the key-value store needs of its backend, with a mark for a
  backend on which a write has failed; every \<open>secret_store\<close> watched by \<open>tracked\<close> is one, and so is a
  \<open>reliable_store\<close>, where no write fails.  \<open>registry\<close>: what tools, prompts and resources
  share.  \<open>client_relation\<close>: lifts a relation on client states from the updates of the client to its
  public calls; it is instantiated for configuration, budget, counters and waits.  \<open>hook_invariant\<close>:
  what the pieces of a store operation keep, every operation with any hook keeps; \<open>store_kept\<close>: what
  the store's operations keep, every POST keeps.

  \<^bold>\<open>Loops, bounds and fuel.\<close>  Loops that wait for a peer are \<open>partial_function (option)\<close>: \<open>None\<close> is
  a wait that never ends, and Http_Returns and Llm_Returns prove that it does not occur under the
  laws of \<open>draining\<close> and a clock that reaches every deadline.  Edge_Hooks has a number as fuel for
  the nesting of hook calls; Edge_Hook_Returns proves that some number is enough for every hook that
  only reads and removes, and none for a hook that writes what it hears of.  The agent loop and the generation loop
  recurse over the iterations left, which the sources bound by 8-bit settings; retries recurse with
  a measure.  \<open>redact\<close> repeats a pass until nothing is found, and is shown to end.  No other fuel is
  used.  Clocks wrap at 2^32 ms, and so do byte and token counters.

  \<^bold>\<open>Parameters.\<close>  \<open>parse\<close> and \<open>print\<close> stand for ArduinoJson's \<open>deserializeJson\<close> and
  \<open>serializeJson\<close>, \<open>flt\<close> for how it stores a \<open>float\<close>; reading a document in memory is modelled in Json.
  A \<open>float\<close> option is a rational, or absent for the NaN that means unset.  Properties that need the
  library to read back what it wrote say so as a hypothesis.

  \<^bold>\<open>Not modelled.\<close>  The certificates of transport/RootCABundle.h (data for the TLS stack), the waits
  of the sketches for the serial monitor (I/O through libraries outside src/), EdgeLLM.h (includes only),
  tool, resource and prompt handlers that call back into the server or the client that runs them, and
  threads (the library is single threaded).
\<close>

end
